(* ===== verification/Prelude.thy ===== *)
theory Prelude
  imports Main "HOL-Library.Word"
begin

section \<open>Prelude: machine types, C library helpers, shared lemmas\<close>

text \<open>
  What every component of the development shares: the fixed-width integer types of
  \<^verbatim>\<open>stdint.h\<close>, the return codes of \<^verbatim>\<open>include/v_common.h\<close>, the decimal conversions of the
  C library that the program uses to build Redis keys and to read Redis replies
  (\<^verbatim>\<open>snprintf("%u")\<close>, \<^verbatim>\<open>strtoull\<close>), the FNV-1a loop that three modules carry a copy of, the
  casts between \<^verbatim>\<open>uint8_t *\<close> and \<^verbatim>\<open>char *\<close>, and the collections of simplification rules
  the component theories add to.
\<close>

unbundle bit_operations_syntax

type_synonym u8 = "8 word"
type_synonym u16 = "16 word"
type_synonym u32 = "32 word"
type_synonym u64 = "64 word"

text \<open>A pointer is its address; \<^verbatim>\<open>NULL\<close> is 0.\<close>

type_synonym ptr = "64 word"

text \<open>Lemmas that read off the fields an operation leaves alone.\<close>

named_theorems frame_simps \<open>fields of the state an operation does not write\<close>

text \<open>Rules that step through one branch of an operation.\<close>

named_theorems branch_simps \<open>the value of an operation on one branch\<close>

subsection \<open>Return codes\<close>

definition RET_CODE_OK :: int where
  "RET_CODE_OK = 0"

definition RET_CODE_ERR :: int where
  "RET_CODE_ERR = -1"

lemma ret_codes_differ [simp]:
  "RET_CODE_OK \<noteq> RET_CODE_ERR" "RET_CODE_ERR \<noteq> RET_CODE_OK"
  by (simp_all add: RET_CODE_OK_def RET_CODE_ERR_def)

subsection \<open>Bytes and characters\<close>

text \<open>The casts \<^verbatim>\<open>(const char *)buf\<close> and \<^verbatim>\<open>(const uint8_t *)str\<close>.\<close>

definition chars_of_bytes :: "u8 list \<Rightarrow> string" where
  "chars_of_bytes bs = map (\<lambda>b. char_of (unat b)) bs"

definition bytes_of_chars :: "string \<Rightarrow> u8 list" where
  "bytes_of_chars cs = map (\<lambda>c. of_nat (of_char c)) cs"

lemma length_chars_of_bytes [simp]: "length (chars_of_bytes bs) = length bs"
  by (simp add: chars_of_bytes_def)

lemma length_bytes_of_chars [simp]: "length (bytes_of_chars cs) = length cs"
  by (simp add: bytes_of_chars_def)

lemma unat_u8_lt [simp]: "unat (b :: u8) < 256"
  using unsigned_less [of b, where 'a = nat] by simp

lemma of_char_char_of_u8 [simp]: "of_char (char_of (unat (b :: u8)) :: char) = unat b"
  by (simp add: of_char_of)

lemma bytes_of_chars_of_bytes [simp]: "bytes_of_chars (chars_of_bytes bs) = bs"
  by (simp add: bytes_of_chars_def chars_of_bytes_def comp_def map_idI)

lemma chars_of_bytes_inj: "chars_of_bytes xs = chars_of_bytes ys \<Longrightarrow> xs = ys"
  by (metis bytes_of_chars_of_bytes)

subsection \<open>Decimal output: the conversions %u and %lu of snprintf\<close>

definition digit :: "nat \<Rightarrow> char" where
  "digit d = char_of (48 + d)"

fun dec :: "nat \<Rightarrow> string" where
  "dec n = (if n < 10 then [digit n] else dec (n div 10) @ [digit (n mod 10)])"

declare dec.simps [simp del]

lemma dec_small: "n < 10 \<Longrightarrow> dec n = [digit n]"
  by (simp add: dec.simps)

lemma dec_large: "\<not> n < 10 \<Longrightarrow> dec n = dec (n div 10) @ [digit (n mod 10)]"
  by (subst dec.simps) simp

text \<open>A buffer of \<open>cap\<close> bytes holds at most \<open>cap - 1\<close> characters and the terminating NUL.\<close>

definition snprintf :: "nat \<Rightarrow> string \<Rightarrow> string" where
  "snprintf cap s = take (cap - 1) s"

lemma snprintf_fits [simp]: "length s < cap \<Longrightarrow> snprintf cap s = s"
  by (simp add: snprintf_def)

subsection \<open>Decimal input: strtoull\<close>

definition c_isspace :: "char \<Rightarrow> bool" where
  "c_isspace c \<longleftrightarrow> of_char c \<in> {32 :: nat, 9, 10, 11, 12, 13}"

definition c_isdigit :: "char \<Rightarrow> bool" where
  "c_isdigit c \<longleftrightarrow> (48 :: nat) \<le> of_char c \<and> (of_char c :: nat) \<le> 57"

definition digit_val :: "char \<Rightarrow> nat" where
  "digit_val c = of_char c - 48"

definition dec_val :: "string \<Rightarrow> nat" where
  "dec_val s = foldl (\<lambda>acc c. 10 * acc + digit_val c) 0 s"

text \<open>
  \<^verbatim>\<open>strtoull(s, NULL, 10)\<close>: leading white space, an optional sign, then the longest run of
  digits; \<^verbatim>\<open>ULLONG_MAX\<close> on overflow, the negated value after a minus sign, 0 without digits.
  On LP64 \<^verbatim>\<open>strtoul\<close> is the same function.
\<close>

definition strtoull :: "string \<Rightarrow> u64" where
  "strtoull s =
     (let t = dropWhile c_isspace s;
          neg = (t \<noteq> [] \<and> hd t = CHR ''-'');
          u = (if t \<noteq> [] \<and> (hd t = CHR ''-'' \<or> hd t = CHR ''+'') then tl t else t);
          n = dec_val (takeWhile c_isdigit u)
      in if 2 ^ 64 \<le> n then - 1
         else if neg then - of_nat n else of_nat n)"

lemma of_char_digit: "d < 10 \<Longrightarrow> of_char (digit d) = 48 + d"
  by (simp add: digit_def of_char_of)

lemma digit_simps [simp]:
  assumes "d < 10"
  shows "c_isdigit (digit d)" "digit_val (digit d) = d" "\<not> c_isspace (digit d)"
    "digit d \<noteq> CHR ''-''" "digit d \<noteq> CHR ''+''" "digit d \<noteq> CHR '':''"
proof -
  show "c_isdigit (digit d)" "digit_val (digit d) = d" "\<not> c_isspace (digit d)"
    using assms by (simp_all add: c_isdigit_def digit_val_def c_isspace_def of_char_digit)
  have "of_char (digit d) < (58 :: nat)" "(47 :: nat) < of_char (digit d)"
    using assms by (simp_all add: of_char_digit)
  then show "digit d \<noteq> CHR ''-''" "digit d \<noteq> CHR ''+''" "digit d \<noteq> CHR '':''"
    by auto
qed

lemma dec_nonempty [simp]: "dec n \<noteq> []"
  by (subst dec.simps) simp

lemma dec_isdigit: "c \<in> set (dec n) \<Longrightarrow> c_isdigit c"
proof (induction n rule: dec.induct)
  case (1 n)
  then show ?case
    by (cases "n < 10") (auto simp: dec_small dec_large)
qed

lemma dec_val_snoc [simp]: "dec_val (s @ [c]) = 10 * dec_val s + digit_val c"
  by (simp add: dec_val_def)

lemma dec_val_dec [simp]: "dec_val (dec n) = n"
proof (induction n rule: dec.induct)
  case (1 n)
  show ?case
  proof (cases "n < 10")
    case True
    then show ?thesis by (simp add: dec_small dec_val_def)
  next
    case False
    with 1 show ?thesis by (simp add: dec_large)
  qed
qed

lemma dec_inj [simp]: "dec m = dec n \<longleftrightarrow> m = n"
  by (metis dec_val_dec)

lemma digit_0 [simp]: "digit 0 = CHR ''0''"
  by code_simp

lemma dec_0 [simp]: "dec 0 = ''0''"
  by (simp add: dec_small)

lemma dec_1 [simp]: "dec (Suc 0) = ''1''"
  by code_simp

lemma dec_val_1 [simp]: "dec_val ''1'' = Suc 0"
  by code_simp

lemma dec_eq_zero [simp]: "dec n = ''0'' \<longleftrightarrow> n = 0"
  using dec_inj [of n 0] by simp

lemma dec_no_char: "\<not> c_isdigit c \<Longrightarrow> c \<notin> set (dec n)"
  using dec_isdigit by blast

lemma c_isdigit_sep [simp]:
  "\<not> c_isdigit CHR '':''" "\<not> c_isdigit CHR ''-''" "\<not> c_isdigit CHR ''+''" "\<not> c_isdigit CHR ''_''"
  by (simp_all add: c_isdigit_def)

lemma c_isspace_digit: "c_isdigit c \<Longrightarrow> \<not> c_isspace c"
  by (auto simp: c_isdigit_def c_isspace_def)

lemma takeWhile_dec [simp]: "takeWhile c_isdigit (dec n) = dec n"
  by (simp add: dec_isdigit)

lemma dec_hd: "c_isdigit (hd (dec n))"
  using dec_isdigit [of "hd (dec n)" n] by simp

lemma dropWhile_space_dec [simp]: "dropWhile c_isspace (dec n) = dec n"
  by (metis c_isspace_digit dec_hd dec_nonempty dropWhile_eq_self_iff)

lemma hd_dec_sign [simp]: "hd (dec n) \<noteq> CHR ''-''" "hd (dec n) \<noteq> CHR ''+''"
  using dec_hd [of n] by auto

text \<open>Reading back a printed number gives the number: what the version field relies on.\<close>

lemma strtoull_dec: "n < 2 ^ 64 \<Longrightarrow> strtoull (dec n) = of_nat n"
  by (simp add: strtoull_def)

lemma strtoull_dec_unat [simp]: "strtoull (dec (unat w)) = w" for w :: u64
  using unsigned_less [of w, where 'a = nat] by (simp add: strtoull_dec)

lemma length_dec: "n < 10 ^ k \<Longrightarrow> 0 < k \<Longrightarrow> length (dec n) \<le> k"
proof (induction n arbitrary: k rule: dec.induct)
  case (1 n)
  show ?case
  proof (cases "n < 10")
    case True
    with 1 show ?thesis by (simp add: dec_small)
  next
    case False
    with 1 obtain j where k: "k = Suc j" "0 < j"
      by (cases k) (auto simp: less_Suc_eq_le, metis One_nat_def bot_nat_0.not_eq_extremum power_0 mult_1_right)
    with 1 False have "length (dec (n div 10)) \<le> j" by (simp add: less_mult_imp_div_less)
    with k False show ?thesis by (simp add: dec_large)
  qed
qed

text \<open>Two fields separated by a character that is no digit can be read back.\<close>

lemma dec_sep_inj:
  assumes "dec a @ CHR '':'' # s = dec b @ CHR '':'' # t"
  shows "a = b \<and> s = t"
proof -
  have tw: "takeWhile c_isdigit (dec x @ CHR '':'' # r) = dec x" for x r
    by (subst takeWhile_append2) (auto simp: dec_isdigit)
  from assms have "dec a = dec b" by (metis tw)
  with assms show ?thesis by simp
qed

subsection \<open>FNV-1a\<close>

text \<open>
  The hash loop of \<^verbatim>\<open>v_retrans_part\<close>, \<^verbatim>\<open>hash_ue_ip\<close> and \<^verbatim>\<open>v_port_db_shard_of\<close>:
  32-bit arithmetic that wraps.
\<close>

definition fnv1a_step :: "u32 \<Rightarrow> u8 \<Rightarrow> u32" where
  "fnv1a_step h b = (h XOR ucast b) * 16777619"

definition fnv1a :: "u8 list \<Rightarrow> u32" where
  "fnv1a bs = foldl fnv1a_step 2166136261 bs"

lemma fnv1a_append: "fnv1a (xs @ ys) = foldl fnv1a_step (fnv1a xs) ys"
  by (simp add: fnv1a_def)

end
