(* ===== verification/Ports.thy ===== *)
theory Ports
  imports Prelude
begin

section \<open>Port types and the documented behaviour of Redis\<close>

text \<open>
  The reply type of \<^verbatim>\<open>include/v_port_db.h\<close>, and the part of the Redis documentation the
  program relies on. Redis itself is not part of the program: every definition that talks to
  it takes the server as an argument \<open>call\<close>, a function from a database state and an argument
  vector to a reply and a new database state. What the properties assume of it is the
  predicate \<open>redis_conforms\<close>: seen through some view of its state as a keyspace, the server
  answers the commands below as their documentation says. \<open>redis_spec\<close> is that documentation
  as a function; it is silent (\<open>None\<close>) about every command and arity the program never sends.
\<close>

datatype v_db_reply =
    Reply_Nil
  | Reply_Status string
  | Reply_Integer int
  | Reply_String string
  | Reply_Array "v_db_reply list"
  | Reply_Error string

text \<open>The \<^verbatim>\<open>str\<close>/\<^verbatim>\<open>len\<close> pair of a reply: empty for the types that carry no string.\<close>

fun reply_str :: "v_db_reply \<Rightarrow> string" where
  "reply_str (Reply_Status s) = s"
| "reply_str (Reply_String s) = s"
| "reply_str (Reply_Error s) = s"
| "reply_str _ = []"

subsection \<open>Callbacks\<close>

text \<open>
  A callback is a function pointer with its \<^verbatim>\<open>void *arg\<close>. Every asynchronous call of the
  program passes the address of one of a fixed number of static functions, so a callback type
  is a datatype with one constructor per function; the constructor's argument is the \<^verbatim>\<open>arg\<close>,
  most often the address of the object that carries the call's context.
\<close>

datatype v_db_cb =
    Load_reply_cb ptr
  | Evalsha_reply_cb ptr
  | Seid_refill_reply_cb u16
  | Teid_refill_reply_cb u16
  | Seed_reply_cb
  | Teid_free_reply_cb
  | Read_reply_cb ptr
  | Cas_write_reply_cb ptr
  | Confirm_reply_cb ptr
  | Delete_reply_cb ptr
  | Lookup_reply_cb ptr
  | Store_ack_cb
  | Recovery_reply_cb ptr
  | Simple_ack_cb ptr
  | Assoc_query_reply_cb ptr

subsection \<open>Signed decimals, as Redis stores counters\<close>

definition int_str :: "int \<Rightarrow> string" where
  "int_str i = (if i < 0 then CHR ''-'' # dec (nat (- i)) else dec (nat i))"

definition parse_int :: "string \<Rightarrow> int option" where
  "parse_int s =
     (let neg = (s \<noteq> [] \<and> hd s = CHR ''-'');
          d = (if neg then tl s else s);
          n = int (dec_val d);
          i = (if neg then - n else n)
      in if d \<noteq> [] \<and> list_all c_isdigit d \<and> - (2 ^ 63) \<le> i \<and> i < 2 ^ 63 then Some i else None)"

lemma parse_int_dec [simp]: "n < 2 ^ 63 \<Longrightarrow> parse_int (dec n) = Some (int n)"
  by (simp add: parse_int_def list_all_iff dec_isdigit)

lemma int_str_nat [simp]: "int_str (int n) = dec n"
  by (simp add: int_str_def)

subsection \<open>The keyspace\<close>

text \<open>A key holds a string, a hash or a list, and possibly a time to live in seconds.\<close>

datatype rval =
    RStr string
  | RHash "string \<rightharpoonup> string"
  | RList "string list"

type_synonym keyspace = "string \<rightharpoonup> rval \<times> int option"
type_synonym redis_fn = "keyspace \<Rightarrow> string list \<Rightarrow> (v_db_reply \<times> keyspace) option"

definition wrongtype :: v_db_reply where
  "wrongtype = Reply_Error ''WRONGTYPE Operation against a key holding the wrong kind of value''"

definition not_integer :: v_db_reply where
  "not_integer = Reply_Error ''ERR value is not an integer or out of range''"

fun bulk :: "string option \<Rightarrow> v_db_reply" where
  "bulk None = Reply_Nil"
| "bulk (Some s) = Reply_String s"

definition redis_GET :: redis_fn where
  "redis_GET ks as = (case as of
     [k] \<Rightarrow> Some ((case ks k of None \<Rightarrow> Reply_Nil | Some (RStr s, _) \<Rightarrow> Reply_String s | _ \<Rightarrow> wrongtype), ks)
   | _ \<Rightarrow> None)"

text \<open>\<^verbatim>\<open>SET k v\<close> and \<^verbatim>\<open>SET k v NX GET\<close>: the latter writes only an absent key and returns the old value.\<close>

definition redis_SET :: redis_fn where
  "redis_SET ks as = (case as of
     [k, v] \<Rightarrow> Some (Reply_Status ''OK'', ks(k \<mapsto> (RStr v, None)))
   | [k, v, o1, o2] \<Rightarrow>
       if o1 = ''NX'' \<and> o2 = ''GET'' then
         Some (case ks k of
             None \<Rightarrow> (Reply_Nil, ks(k \<mapsto> (RStr v, None)))
           | Some (RStr s, _) \<Rightarrow> (Reply_String s, ks)
           | _ \<Rightarrow> (wrongtype, ks))
       else None
   | _ \<Rightarrow> None)"

definition redis_SETNX :: redis_fn where
  "redis_SETNX ks as = (case as of
     [k, v] \<Rightarrow> Some (if ks k = None then (Reply_Integer 1, ks(k \<mapsto> (RStr v, None)))
                     else (Reply_Integer 0, ks))
   | _ \<Rightarrow> None)"

definition redis_SETEX :: redis_fn where
  "redis_SETEX ks as = (case as of
     [k, t, v] \<Rightarrow> (case parse_int t of
         None \<Rightarrow> Some (not_integer, ks)
       | Some n \<Rightarrow> if 0 < n then Some (Reply_Status ''OK'', ks(k \<mapsto> (RStr v, Some n)))
                   else Some (Reply_Error ''ERR invalid expire time in setex'', ks))
   | _ \<Rightarrow> None)"

definition redis_INCRBY :: redis_fn where
  "redis_INCRBY ks as = (case as of
     [k, d] \<Rightarrow> Some (case parse_int d of
         None \<Rightarrow> (not_integer, ks)
       | Some n \<Rightarrow> (case ks k of
             None \<Rightarrow> (Reply_Integer n, ks(k \<mapsto> (RStr (int_str n), None)))
           | Some (RStr s, t) \<Rightarrow> (case parse_int s of
                 None \<Rightarrow> (not_integer, ks)
               | Some m \<Rightarrow>
                   if - (2 ^ 63) \<le> m + n \<and> m + n < 2 ^ 63
                   then (Reply_Integer (m + n), ks(k \<mapsto> (RStr (int_str (m + n)), t)))
                   else (Reply_Error ''ERR increment or decrement would overflow'', ks))
           | _ \<Rightarrow> (wrongtype, ks)))
   | _ \<Rightarrow> None)"

definition redis_DEL :: redis_fn where
  "redis_DEL ks as = (case as of
     [k] \<Rightarrow> Some (Reply_Integer (if ks k = None then 0 else 1), ks(k := None))
   | _ \<Rightarrow> None)"

definition redis_EXPIRE :: redis_fn where
  "redis_EXPIRE ks as = (case as of
     [k, t] \<Rightarrow> Some (case parse_int t of
         None \<Rightarrow> (not_integer, ks)
       | Some n \<Rightarrow> (case ks k of
             None \<Rightarrow> (Reply_Integer 0, ks)
           | Some (v, _) \<Rightarrow>
               (Reply_Integer 1, if 0 < n then ks(k \<mapsto> (v, Some n)) else ks(k := None))))
   | _ \<Rightarrow> None)"

definition redis_PERSIST :: redis_fn where
  "redis_PERSIST ks as = (case as of
     [k] \<Rightarrow> Some (case ks k of
         Some (v, Some t) \<Rightarrow> (Reply_Integer 1, ks(k \<mapsto> (v, None)))
       | _ \<Rightarrow> (Reply_Integer 0, ks))
   | _ \<Rightarrow> None)"

definition redis_HGET :: redis_fn where
  "redis_HGET ks as = (case as of
     [k, f] \<Rightarrow> Some ((case ks k of
         None \<Rightarrow> Reply_Nil
       | Some (RHash h, _) \<Rightarrow> bulk (h f)
       | _ \<Rightarrow> wrongtype), ks)
   | _ \<Rightarrow> None)"

definition redis_HMGET :: redis_fn where
  "redis_HMGET ks as = (case as of
     [k, f, g] \<Rightarrow> Some ((case ks k of
         None \<Rightarrow> Reply_Array [Reply_Nil, Reply_Nil]
       | Some (RHash h, _) \<Rightarrow> Reply_Array [bulk (h f), bulk (h g)]
       | _ \<Rightarrow> wrongtype), ks)
   | _ \<Rightarrow> None)"

fun hash_fields :: "string list \<Rightarrow> (string \<times> string) list option" where
  "hash_fields [] = Some []"
| "hash_fields [f] = None"
| "hash_fields (f # v # r) = map_option ((#) (f, v)) (hash_fields r)"

definition hash_put :: "(string \<rightharpoonup> string) \<Rightarrow> (string \<times> string) list \<Rightarrow> (string \<rightharpoonup> string)" where
  "hash_put h fvs = foldl (\<lambda>m (f, v). m(f \<mapsto> v)) h fvs"

definition hash_new :: "(string \<rightharpoonup> string) \<Rightarrow> (string \<times> string) list \<Rightarrow> nat" where
  "hash_new h fvs = length (filter (\<lambda>f. h f = None) (remdups (map fst fvs)))"

definition redis_HSET :: redis_fn where
  "redis_HSET ks as = (case as of
     k # f # v # r \<Rightarrow> (case hash_fields (f # v # r) of
         None \<Rightarrow> None
       | Some fvs \<Rightarrow> Some (case ks k of
             None \<Rightarrow> (Reply_Integer (int (hash_new Map.empty fvs)),
                      ks(k \<mapsto> (RHash (hash_put Map.empty fvs), None)))
           | Some (RHash h, t) \<Rightarrow> (Reply_Integer (int (hash_new h fvs)),
                                    ks(k \<mapsto> (RHash (hash_put h fvs), t)))
           | _ \<Rightarrow> (wrongtype, ks)))
   | _ \<Rightarrow> None)"

definition redis_LLEN :: redis_fn where
  "redis_LLEN ks as = (case as of
     [k] \<Rightarrow> Some ((case ks k of
         None \<Rightarrow> Reply_Integer 0
       | Some (RList l, _) \<Rightarrow> Reply_Integer (int (length l))
       | _ \<Rightarrow> wrongtype), ks)
   | _ \<Rightarrow> None)"

definition redis_LPOP :: redis_fn where
  "redis_LPOP ks as = (case as of
     [k] \<Rightarrow> Some (case ks k of
         None \<Rightarrow> (Reply_Nil, ks)
       | Some (RList [], t) \<Rightarrow> (Reply_Nil, ks)
       | Some (RList [x], t) \<Rightarrow> (Reply_String x, ks(k := None))
       | Some (RList (x # y # l), t) \<Rightarrow> (Reply_String x, ks(k \<mapsto> (RList (y # l), t)))
       | _ \<Rightarrow> (wrongtype, ks))
   | _ \<Rightarrow> None)"

definition redis_RPUSH :: redis_fn where
  "redis_RPUSH ks as = (case as of
     [k, v] \<Rightarrow> Some (case ks k of
         None \<Rightarrow> (Reply_Integer 1, ks(k \<mapsto> (RList [v], None)))
       | Some (RList l, t) \<Rightarrow> (Reply_Integer (int (length l) + 1), ks(k \<mapsto> (RList (l @ [v]), t)))
       | _ \<Rightarrow> (wrongtype, ks))
   | _ \<Rightarrow> None)"

definition redis_table :: "(string \<times> redis_fn) list" where
  "redis_table =
     [(''GET'', redis_GET), (''SET'', redis_SET), (''SETNX'', redis_SETNX), (''SETEX'', redis_SETEX),
      (''INCRBY'', redis_INCRBY), (''DEL'', redis_DEL), (''EXPIRE'', redis_EXPIRE),
      (''PERSIST'', redis_PERSIST), (''HGET'', redis_HGET), (''HMGET'', redis_HMGET),
      (''HSET'', redis_HSET), (''LLEN'', redis_LLEN), (''LPOP'', redis_LPOP), (''RPUSH'', redis_RPUSH)]"

definition redis_spec :: redis_fn where
  "redis_spec ks args = (case args of
     [] \<Rightarrow> None
   | c # as \<Rightarrow> (case map_of redis_table c of None \<Rightarrow> None | Some f \<Rightarrow> f ks as))"

text \<open>The hypothesis on the server, and a server that satisfies it (for the witnesses).\<close>

type_synonym 'db redis = "'db \<Rightarrow> string list \<Rightarrow> v_db_reply \<times> 'db"

definition redis_conforms :: "'db redis \<Rightarrow> ('db \<Rightarrow> keyspace) \<Rightarrow> bool" where
  "redis_conforms call view \<longleftrightarrow>
     (\<forall>db args r ks. redis_spec (view db) args = Some (r, ks) \<longrightarrow>
        fst (call db args) = r \<and> view (snd (call db args)) = ks)"

definition spec_redis :: "keyspace redis" where
  "spec_redis ks args =
     (case redis_spec ks args of Some x \<Rightarrow> x | None \<Rightarrow> (Reply_Error ''ERR unknown command'', ks))"

lemma spec_redis_conforms: "redis_conforms spec_redis (\<lambda>ks. ks)"
  by (simp add: redis_conforms_def spec_redis_def)

lemma redis_conformsD:
  assumes "redis_conforms call view" and "redis_spec (view db) args = Some (r, ks)"
  obtains db' where "call db args = (r, db')" "view db' = ks"
  using assms unfolding redis_conforms_def by (metis prod.collapse)

lemmas redis_command_defs =
  redis_GET_def redis_SET_def redis_SETNX_def redis_SETEX_def redis_INCRBY_def redis_DEL_def
  redis_EXPIRE_def redis_PERSIST_def redis_HGET_def redis_HMGET_def redis_HSET_def
  redis_LLEN_def redis_LPOP_def redis_RPUSH_def

lemma redis_spec_simps [simp]:
  "redis_spec ks (''GET'' # as) = redis_GET ks as"
  "redis_spec ks (''SET'' # as) = redis_SET ks as"
  "redis_spec ks (''SETNX'' # as) = redis_SETNX ks as"
  "redis_spec ks (''SETEX'' # as) = redis_SETEX ks as"
  "redis_spec ks (''INCRBY'' # as) = redis_INCRBY ks as"
  "redis_spec ks (''DEL'' # as) = redis_DEL ks as"
  "redis_spec ks (''EXPIRE'' # as) = redis_EXPIRE ks as"
  "redis_spec ks (''PERSIST'' # as) = redis_PERSIST ks as"
  "redis_spec ks (''HGET'' # as) = redis_HGET ks as"
  "redis_spec ks (''HMGET'' # as) = redis_HMGET ks as"
  "redis_spec ks (''HSET'' # as) = redis_HSET ks as"
  "redis_spec ks (''LLEN'' # as) = redis_LLEN ks as"
  "redis_spec ks (''LPOP'' # as) = redis_LPOP ks as"
  "redis_spec ks (''RPUSH'' # as) = redis_RPUSH ks as"
  by (simp_all add: redis_spec_def redis_table_def)

end
