(* ===== verification/Dpdk.thy ===== *)
theory Dpdk
  imports Prelude
begin

section \<open>DPDK rings and mempools, as parameters\<close>

text \<open>
  The program keeps its queues in \<^verbatim>\<open>rte_ring\<close>s and its objects in \<^verbatim>\<open>rte_mempool\<close>s. DPDK is
  not part of the program: the record \<open>dpdk\<close> holds the functions the program calls, and every
  definition that uses one takes the record as an argument \<open>D\<close>. Ring and pool handles are of
  arbitrary types \<open>'r\<close> and \<open>'p\<close>; ring entries and pool objects are addresses.

  What the properties assume are the documented laws: \<open>ring_laws\<close> (a bounded first-in
  first-out queue; a ring created for \<open>n\<close> entries without the exact-size flag holds \<open>n - 1\<close>)
  and \<open>pool_laws\<close> (a finite set of free objects, non-NULL, from which \<open>get\<close> takes one and to
  which \<open>put\<close> returns one; without a per-core cache \<open>avail_count\<close> is exact).
\<close>

record ('r, 'p) dpdk =
  rte_ring_create :: "nat \<Rightarrow> 'r option"
  rte_ring_enqueue :: "'r \<Rightarrow> ptr \<Rightarrow> 'r option"
  rte_ring_dequeue :: "'r \<Rightarrow> (ptr \<times> 'r) option"
  rte_ring_count :: "'r \<Rightarrow> nat"
  rte_mempool_create :: "nat \<Rightarrow> 'p option"
  rte_mempool_get :: "'p \<Rightarrow> (ptr \<times> 'p) option"
  rte_mempool_put :: "'p \<Rightarrow> ptr \<Rightarrow> 'p"
  rte_mempool_avail_count :: "'p \<Rightarrow> nat"

definition ring_laws :: "('r, 'p) dpdk \<Rightarrow> ('r \<Rightarrow> ptr list) \<Rightarrow> ('r \<Rightarrow> nat) \<Rightarrow> bool" where
  "ring_laws D elems usable \<longleftrightarrow>
     (\<forall>n r. rte_ring_create D n = Some r \<longrightarrow> elems r = [] \<and> usable r = n - 1) \<and>
     (\<forall>r x. case rte_ring_enqueue D r x of
        None \<Rightarrow> usable r \<le> length (elems r)
      | Some r' \<Rightarrow> length (elems r) < usable r \<and> elems r' = elems r @ [x] \<and> usable r' = usable r) \<and>
     (\<forall>r. case rte_ring_dequeue D r of
        None \<Rightarrow> elems r = []
      | Some (x, r') \<Rightarrow> elems r = x # elems r' \<and> usable r' = usable r) \<and>
     (\<forall>r. rte_ring_count D r = length (elems r))"

definition pool_laws :: "('r, 'p) dpdk \<Rightarrow> ('p \<Rightarrow> ptr set) \<Rightarrow> bool" where
  "pool_laws D free \<longleftrightarrow>
     (\<forall>n p. rte_mempool_create D n = Some p \<longrightarrow> finite (free p) \<and> card (free p) = n \<and> 0 \<notin> free p) \<and>
     (\<forall>p. case rte_mempool_get D p of
        None \<Rightarrow> free p = {}
      | Some (x, p') \<Rightarrow> x \<in> free p \<and> free p' = free p - {x}) \<and>
     (\<forall>p x. free (rte_mempool_put D p x) = insert x (free p)) \<and>
     (\<forall>p. rte_mempool_avail_count D p = card (free p))"

lemma ring_create_law:
  "ring_laws D elems usable \<Longrightarrow> rte_ring_create D n = Some r \<Longrightarrow> elems r = [] \<and> usable r = n - 1"
  by (simp add: ring_laws_def)

lemma ring_enqueue_law:
  "ring_laws D elems usable \<Longrightarrow>
     case rte_ring_enqueue D r x of
       None \<Rightarrow> usable r \<le> length (elems r)
     | Some r' \<Rightarrow> length (elems r) < usable r \<and> elems r' = elems r @ [x] \<and> usable r' = usable r"
  unfolding ring_laws_def by blast

lemma ring_dequeue_law:
  "ring_laws D elems usable \<Longrightarrow>
     case rte_ring_dequeue D r of
       None \<Rightarrow> elems r = []
     | Some (x, r') \<Rightarrow> elems r = x # elems r' \<and> usable r' = usable r"
  unfolding ring_laws_def by blast

lemma ring_enqueue_Some:
  "ring_laws D elems usable \<Longrightarrow> rte_ring_enqueue D r x = Some r' \<Longrightarrow>
     length (elems r) < usable r \<and> elems r' = elems r @ [x] \<and> usable r' = usable r"
  using ring_enqueue_law [of D elems usable r x] by simp

lemma ring_enqueue_None:
  "ring_laws D elems usable \<Longrightarrow> rte_ring_enqueue D r x = None \<longleftrightarrow> usable r \<le> length (elems r)"
  using ring_enqueue_law [of D elems usable r x] by (auto split: option.splits)

lemma ring_dequeue_Some:
  "ring_laws D elems usable \<Longrightarrow> rte_ring_dequeue D r = Some (x, r') \<Longrightarrow>
     elems r = x # elems r' \<and> usable r' = usable r"
  using ring_dequeue_law [of D elems usable r] by simp

lemma ring_dequeue_None:
  "ring_laws D elems usable \<Longrightarrow> rte_ring_dequeue D r = None \<longleftrightarrow> elems r = []"
  using ring_dequeue_law [of D elems usable r] by (auto split: option.splits)

lemma ring_count_law: "ring_laws D elems usable \<Longrightarrow> rte_ring_count D r = length (elems r)"
  by (simp add: ring_laws_def)

lemma pool_get_law:
  "pool_laws D free \<Longrightarrow>
     case rte_mempool_get D p of None \<Rightarrow> free p = {} | Some (x, p') \<Rightarrow> x \<in> free p \<and> free p' = free p - {x}"
  unfolding pool_laws_def by blast

lemma pool_get_Some:
  "pool_laws D free \<Longrightarrow> rte_mempool_get D p = Some (x, p') \<Longrightarrow> x \<in> free p \<and> free p' = free p - {x}"
  using pool_get_law [of D free p] by simp

lemma pool_get_None:
  "pool_laws D free \<Longrightarrow> rte_mempool_get D p = None \<longleftrightarrow> free p = {}"
  using pool_get_law [of D free p] by (auto split: option.splits)

lemma pool_put_law [simp]:
  "pool_laws D free \<Longrightarrow> free (rte_mempool_put D p x) = insert x (free p)"
  by (simp add: pool_laws_def)

lemma pool_avail_law: "pool_laws D free \<Longrightarrow> rte_mempool_avail_count D p = card (free p)"
  by (simp add: pool_laws_def)

lemma pool_create_law:
  "pool_laws D free \<Longrightarrow> rte_mempool_create D n = Some p \<Longrightarrow>
     finite (free p) \<and> card (free p) = n \<and> 0 \<notin> free p"
  by (simp add: pool_laws_def)

subsection \<open>Calls through a handle that may be NULL\<close>

definition ring_put :: "('r, 'p) dpdk \<Rightarrow> 'r option \<Rightarrow> ptr \<Rightarrow> 'r option" where
  "ring_put D r x = (case r of None \<Rightarrow> None | Some r \<Rightarrow> rte_ring_enqueue D r x)"

definition ring_take :: "('r, 'p) dpdk \<Rightarrow> 'r option \<Rightarrow> (ptr \<times> 'r) option" where
  "ring_take D r = (case r of None \<Rightarrow> None | Some r \<Rightarrow> rte_ring_dequeue D r)"

definition ring_count :: "('r, 'p) dpdk \<Rightarrow> 'r option \<Rightarrow> nat" where
  "ring_count D r = (case r of None \<Rightarrow> 0 | Some r \<Rightarrow> rte_ring_count D r)"

definition pool_get :: "('r, 'p) dpdk \<Rightarrow> 'p option \<Rightarrow> (ptr \<times> 'p) option" where
  "pool_get D p = (case p of None \<Rightarrow> None | Some p \<Rightarrow> rte_mempool_get D p)"

definition pool_put :: "('r, 'p) dpdk \<Rightarrow> ptr \<Rightarrow> 'p option \<Rightarrow> 'p option" where
  "pool_put D x = map_option (\<lambda>p. rte_mempool_put D p x)"

definition ring_list :: "('r \<Rightarrow> ptr list) \<Rightarrow> 'r option \<Rightarrow> ptr list" where
  "ring_list elems r = (case r of None \<Rightarrow> [] | Some r \<Rightarrow> elems r)"

definition pool_set :: "('p \<Rightarrow> ptr set) \<Rightarrow> 'p option \<Rightarrow> ptr set" where
  "pool_set free p = (case p of None \<Rightarrow> {} | Some p \<Rightarrow> free p)"

lemma ring_list_simps [simp]: "ring_list elems None = []" "ring_list elems (Some r) = elems r"
  by (simp_all add: ring_list_def)

lemma pool_set_simps [simp]: "pool_set free None = {}" "pool_set free (Some p) = free p"
  by (simp_all add: pool_set_def)

lemma ring_count_list: "ring_laws D elems usable \<Longrightarrow> ring_count D r = length (ring_list elems r)"
  by (auto simp: ring_count_def ring_list_def ring_count_law split: option.split)

definition has_room :: "('r \<Rightarrow> ptr list) \<Rightarrow> ('r \<Rightarrow> nat) \<Rightarrow> 'r option \<Rightarrow> bool" where
  "has_room elems usable r = (case r of None \<Rightarrow> False | Some r \<Rightarrow> length (elems r) < usable r)"

lemma ring_put_Some:
  assumes "ring_laws D elems usable" and "ring_put D r x = Some r'"
  shows "has_room elems usable r" "elems r' = ring_list elems r @ [x]"
  using assms ring_enqueue_Some [OF assms(1)]
  by (auto simp: ring_put_def has_room_def split: option.splits)

lemma ring_put_None:
  assumes "ring_laws D elems usable"
  shows "ring_put D r x = None \<longleftrightarrow> \<not> has_room elems usable r"
  using ring_enqueue_None [OF assms]
  by (auto simp: ring_put_def has_room_def not_less split: option.splits)

lemma ring_take_Some:
  assumes "ring_laws D elems usable" and "ring_take D r = Some (x, r')"
  shows "ring_list elems r = x # elems r'"
  using assms ring_dequeue_Some [OF assms(1)] by (auto simp: ring_take_def split: option.splits)

lemma ring_take_None:
  assumes "ring_laws D elems usable"
  shows "ring_take D r = None \<longleftrightarrow> ring_list elems r = []"
  using ring_dequeue_None [OF assms] by (auto simp: ring_take_def split: option.splits)

lemma pool_get_opt_Some:
  assumes "pool_laws D free" and "pool_get D p = Some (x, p')"
  shows "x \<in> pool_set free p" "free p' = pool_set free p - {x}"
  using assms pool_get_Some [OF assms(1)] by (auto simp: pool_get_def split: option.splits)

lemma pool_get_opt_None:
  assumes "pool_laws D free"
  shows "pool_get D p = None \<longleftrightarrow> pool_set free p = {}"
  using pool_get_None [OF assms] by (auto simp: pool_get_def split: option.splits)

lemma pool_put_opt [simp]:
  assumes "pool_laws D free" and "p \<noteq> None"
  shows "pool_set free (pool_put D x p) = insert x (pool_set free p)" "pool_put D x p \<noteq> None"
  using assms by (auto simp: pool_put_def)

subsection \<open>Ownership of a pool's objects\<close>

text \<open>Each object of the pool \<open>A\<close> is either free or held (\<open>H\<close>), never both.\<close>

definition owns :: "('r, 'p) dpdk \<Rightarrow> ('p \<Rightarrow> ptr set) \<Rightarrow> ptr set \<Rightarrow> ptr set \<Rightarrow> 'p option \<Rightarrow> bool" where
  "owns D free A H p \<longleftrightarrow>
     pool_laws D free \<and> p \<noteq> None \<and> pool_set free p \<inter> H = {} \<and> pool_set free p \<union> H = A"

lemma owns_get:
  assumes "owns D free A H p" and "pool_get D p = Some (x, p')"
  shows "x \<in> A" "x \<notin> H" "owns D free A (insert x H) (Some p')"
  using assms pool_get_opt_Some [of D free p x p'] by (auto simp: owns_def)

lemma owns_put:
  assumes "owns D free A (insert x H) p" and "x \<notin> H"
  shows "owns D free A H (pool_put D x p)"
  using assms by (auto simp: owns_def)

lemma owns_put_get:
  assumes "owns D free A H p" and "pool_get D p = Some (x, p')"
  shows "owns D free A H (pool_put D x (Some p'))"
  using owns_get [OF assms] owns_put by blast

lemma owns_exhausted:
  assumes "owns D free A H p"
  shows "pool_get D p = None \<longleftrightarrow> H = A"
  using assms pool_get_opt_None [of D free p] by (auto simp: owns_def)

text \<open>
  A pool that is created by the first operation that needs it: until then nothing is held, and
  \<open>A\<close> is the set of objects the creation will give.
\<close>

definition owns_lazy :: "('r, 'p) dpdk \<Rightarrow> ('p \<Rightarrow> ptr set) \<Rightarrow> nat \<Rightarrow> ptr set \<Rightarrow> ptr set \<Rightarrow> 'p option \<Rightarrow> bool" where
  "owns_lazy D free n A H p \<longleftrightarrow>
     (case p of
        None \<Rightarrow> pool_laws D free \<and> H = {} \<and> (\<forall>q. rte_mempool_create D n = Some q \<longrightarrow> free q = A)
      | Some _ \<Rightarrow> owns D free A H p)"

lemma owns_lazy_Some [simp]: "owns_lazy D free n A H (Some q) = owns D free A H (Some q)"
  by (simp add: owns_lazy_def)

lemma owns_lazy_held: "owns_lazy D free n A H p \<Longrightarrow> x \<in> H \<Longrightarrow> owns D free A H p"
  by (auto simp: owns_lazy_def split: option.splits)

lemma owns_lazy_get: "owns_lazy D free n A H p \<Longrightarrow> pool_get D p = Some x \<Longrightarrow> owns D free A H p"
  by (auto simp: owns_lazy_def pool_get_def split: option.splits)

lemma owns_lazy_create:
  "owns_lazy D free n A H None \<Longrightarrow> rte_mempool_create D n = Some q \<Longrightarrow> owns D free A H (Some q)"
  by (auto simp: owns_lazy_def owns_def)

lemma owns_lazy_put: "owns D free A H (pool_put D x p) \<Longrightarrow> owns_lazy D free n A H (pool_put D x p)"
  by (cases "pool_put D x p") (auto simp: owns_def)

lemma owns_is_lazy: "owns D free A H p \<Longrightarrow> owns_lazy D free n A H p"
  by (cases p) (auto simp: owns_def)

subsection \<open>An instance that satisfies the laws\<close>

text \<open>A ring as its capacity and contents, a pool as its list of free objects.\<close>

definition list_dpdk :: "(nat \<times> ptr list, ptr list) dpdk" where
  "list_dpdk =
     \<lparr>rte_ring_create = (\<lambda>n. Some (n - 1, [])),
      rte_ring_enqueue = (\<lambda>(c, xs) x. if length xs < c then Some (c, xs @ [x]) else None),
      rte_ring_dequeue = (\<lambda>(c, xs). case xs of [] \<Rightarrow> None | x # ys \<Rightarrow> Some (x, (c, ys))),
      rte_ring_count = (\<lambda>(c, xs). length xs),
      rte_mempool_create = (\<lambda>n. if n < 2 ^ 32 then Some (map word_of_nat [1 ..< Suc n]) else None),
      rte_mempool_get = (\<lambda>xs. case xs of [] \<Rightarrow> None | x # ys \<Rightarrow> Some (x, removeAll x ys)),
      rte_mempool_put = (\<lambda>xs x. x # xs),
      rte_mempool_avail_count = (\<lambda>xs. length (remdups xs))\<rparr>"

lemma list_ring_laws: "ring_laws list_dpdk snd fst"
  by (auto simp: ring_laws_def list_dpdk_def split: list.split)

lemma of_nat_u64_inj_on: "inj_on (of_nat :: nat \<Rightarrow> u64) {..< 2 ^ 64}"
  by (rule inj_onI) (simp add: word_of_nat_eq_iff take_bit_nat_eq_self)

lemma list_pool_laws: "pool_laws list_dpdk set"
proof -
  have inj: "inj_on (word_of_nat :: nat \<Rightarrow> u64) {1 ..< Suc n}" if "n < 2 ^ 32" for n
    using that by (intro inj_on_subset [OF of_nat_u64_inj_on]) auto
  have "card (set (map (word_of_nat :: nat \<Rightarrow> u64) [1 ..< Suc n])) = n" if "n < 2 ^ 32" for n
    using card_image [OF inj [OF that]] by (simp del: upt_Suc)
  moreover have "(0 :: u64) \<notin> set (map word_of_nat [1 ..< Suc n])" if "n < 2 ^ 32" for n
    using that by (auto simp del: upt_Suc simp: word_of_nat_eq_0_iff dest!: dvd_imp_le)
  ultimately show ?thesis
    by (auto simp: pool_laws_def list_dpdk_def length_remdups_card_conv simp del: upt_Suc split: list.split if_splits)
qed

end
