(* ===== verification/V_dispatch.thy ===== *)
theory V_dispatch
  imports Dpdk "HOL-Library.Sublist"
begin

section \<open>Message dispatch between the I/O core and the workers\<close>

text \<open>
  \<^verbatim>\<open>src/v_dispatch\<close>: one shared receive ring and one shared transmit ring of message objects
  from one mempool. The record holds the module's static variables and, as \<open>msg_at\<close>, the
  memory of the pool's objects. It is the first layer of the process state: every later
  module extends the record with its own static variables, so an operation here runs
  unchanged on the state of the whole process.

  A buffer and its length are one byte list. A NULL ring or pool, which the program only has
  before \<^verbatim>\<open>v_dispatch_init\<close> succeeds, behaves as a full ring, an empty ring or an empty pool.
\<close>

definition V_DISPATCH_MSG_MAX_BYTES :: nat where "V_DISPATCH_MSG_MAX_BYTES = 2048"
definition V_DISPATCH_RING_SIZE :: nat where "V_DISPATCH_RING_SIZE = 4096"
definition V_DISPATCH_POOL_CAP :: nat where "V_DISPATCH_POOL_CAP = V_DISPATCH_RING_SIZE * 2"

type_synonym sockaddr = "u8 list"

definition zero_sockaddr :: sockaddr where
  "zero_sockaddr = replicate 16 0"

record v_dispatch_msg =
  msg_buf :: "u8 list"
  msg_len :: nat
  msg_peer :: sockaddr

record ('r, 'p) dispatch_st =
  g_rx_ring :: "'r option"
  g_tx_ring :: "'r option"
  g_msg_pool :: "'p option"
  msg_at :: "ptr \<Rightarrow> v_dispatch_msg"

subsection \<open>Operations\<close>

definition v_dispatch_init ::
    "('r, 'p) dpdk \<Rightarrow> ('r, 'p, 'a) dispatch_st_scheme \<Rightarrow> int \<times> ('r, 'p, 'a) dispatch_st_scheme" where
  "v_dispatch_init D w =
     (let w = w\<lparr>g_msg_pool := rte_mempool_create D V_DISPATCH_POOL_CAP\<rparr> in
      if g_msg_pool w = None then (RET_CODE_ERR, w)
      else let w = w\<lparr>g_rx_ring := rte_ring_create D V_DISPATCH_RING_SIZE,
                    g_tx_ring := rte_ring_create D V_DISPATCH_RING_SIZE\<rparr> in
           if g_rx_ring w = None \<or> g_tx_ring w = None then (RET_CODE_ERR, w)
           else (RET_CODE_OK, w))"

definition v_dispatch_fini :: "('r, 'p, 'a) dispatch_st_scheme \<Rightarrow> ('r, 'p, 'a) dispatch_st_scheme" where
  "v_dispatch_fini w = w\<lparr>g_rx_ring := None, g_tx_ring := None, g_msg_pool := None\<rparr>"

text \<open>\<^verbatim>\<open>memcpy(m->buf, buf, len); m->len = len;\<close> and the copy of the peer address.\<close>

definition fill_msg :: "u8 list \<Rightarrow> sockaddr option \<Rightarrow> v_dispatch_msg \<Rightarrow> v_dispatch_msg" where
  "fill_msg buf peer m =
     m\<lparr>msg_buf := buf @ drop (length buf) (msg_buf m), msg_len := length buf,
       msg_peer := (case peer of None \<Rightarrow> zero_sockaddr | Some a \<Rightarrow> a)\<rparr>"

text \<open>The steps both enqueue functions share: the size check, \<^verbatim>\<open>rte_mempool_get\<close>, the copies.\<close>

definition stage_msg ::
    "('r, 'p) dpdk \<Rightarrow> u8 list \<Rightarrow> sockaddr option \<Rightarrow>
     ('r, 'p, 'a) dispatch_st_scheme \<Rightarrow> (ptr \<times> ('r, 'p, 'a) dispatch_st_scheme) option" where
  "stage_msg D buf peer w =
     (if V_DISPATCH_MSG_MAX_BYTES < length buf then None
      else case pool_get D (g_msg_pool w) of
        None \<Rightarrow> None
      | Some (m, pool) \<Rightarrow>
          Some (m, w\<lparr>g_msg_pool := Some pool,
                     msg_at := (msg_at w)(m := fill_msg buf peer (msg_at w m))\<rparr>))"

definition v_dispatch_rx ::
    "('r, 'p) dpdk \<Rightarrow> u8 list \<Rightarrow> sockaddr option \<Rightarrow>
     ('r, 'p, 'a) dispatch_st_scheme \<Rightarrow> ('r, 'p, 'a) dispatch_st_scheme" where
  "v_dispatch_rx D buf peer w =
     (case stage_msg D buf peer w of
        None \<Rightarrow> w
      | Some (m, w) \<Rightarrow>
          (case ring_put D (g_rx_ring w) m of
             None \<Rightarrow> w\<lparr>g_msg_pool := pool_put D m (g_msg_pool w)\<rparr>
           | Some r \<Rightarrow> w\<lparr>g_rx_ring := Some r\<rparr>))"

text \<open>The poll loop; the handler runs on the whole state while the message is still held.\<close>

fun v_dispatch_worker_poll ::
    "('r, 'p) dpdk \<Rightarrow> nat \<Rightarrow>
     (v_dispatch_msg \<Rightarrow> ('r, 'p, 'a) dispatch_st_scheme \<Rightarrow> ('r, 'p, 'a) dispatch_st_scheme) \<Rightarrow>
     ('r, 'p, 'a) dispatch_st_scheme \<Rightarrow> nat \<times> ('r, 'p, 'a) dispatch_st_scheme" where
  "v_dispatch_worker_poll D 0 handler w = (0, w)"
| "v_dispatch_worker_poll D (Suc n) handler w =
     (case ring_take D (g_rx_ring w) of
        None \<Rightarrow> (0, w)
      | Some (m, r) \<Rightarrow>
          let w = handler (msg_at w m) (w\<lparr>g_rx_ring := Some r\<rparr>);
              w = w\<lparr>g_msg_pool := pool_put D m (g_msg_pool w)\<rparr>;
              (k, w) = v_dispatch_worker_poll D n handler w
          in (Suc k, w))"

definition v_dispatch_tx_enqueue ::
    "('r, 'p) dpdk \<Rightarrow> u8 list \<Rightarrow> sockaddr option \<Rightarrow>
     ('r, 'p, 'a) dispatch_st_scheme \<Rightarrow> int \<times> ('r, 'p, 'a) dispatch_st_scheme" where
  "v_dispatch_tx_enqueue D buf peer w =
     (case stage_msg D buf peer w of
        None \<Rightarrow> (RET_CODE_ERR, w)
      | Some (m, w) \<Rightarrow>
          (case ring_put D (g_tx_ring w) m of
             None \<Rightarrow> (RET_CODE_ERR, w\<lparr>g_msg_pool := pool_put D m (g_msg_pool w)\<rparr>)
           | Some r \<Rightarrow> (RET_CODE_OK, w\<lparr>g_tx_ring := Some r\<rparr>)))"

text \<open>The transmit drain; \<open>send\<close> is \<^verbatim>\<open>v_port_pfcp_io_send\<close>, a failed send is only logged.\<close>

fun v_dispatch_io_drain_tx ::
    "('r, 'p) dpdk \<Rightarrow>
     (sockaddr \<Rightarrow> u8 list \<Rightarrow> ('r, 'p, 'a) dispatch_st_scheme \<Rightarrow> int \<times> ('r, 'p, 'a) dispatch_st_scheme) \<Rightarrow>
     nat \<Rightarrow> ('r, 'p, 'a) dispatch_st_scheme \<Rightarrow> nat \<times> ('r, 'p, 'a) dispatch_st_scheme" where
  "v_dispatch_io_drain_tx D send 0 w = (0, w)"
| "v_dispatch_io_drain_tx D send (Suc n) w =
     (case ring_take D (g_tx_ring w) of
        None \<Rightarrow> (0, w)
      | Some (m, r) \<Rightarrow>
          let msg = msg_at w m;
              (rc, w) = send (msg_peer msg) (take (msg_len msg) (msg_buf msg)) (w\<lparr>g_tx_ring := Some r\<rparr>);
              w = w\<lparr>g_msg_pool := pool_put D m (g_msg_pool w)\<rparr>;
              (k, w) = v_dispatch_io_drain_tx D send n w
          in (Suc k, w))"

subsection \<open>Ownership of the message objects\<close>

text \<open>
  At every moment each object of the pool is in exactly one place: free in the pool, queued
  in one of the rings, or held by the code that is running (\<open>H\<close>). \<open>A\<close> is the set of all of
  them.
\<close>

definition disp_inv ::
    "('r, 'p) dpdk \<Rightarrow> ('r \<Rightarrow> ptr list) \<Rightarrow> ('r \<Rightarrow> nat) \<Rightarrow> ('p \<Rightarrow> ptr set) \<Rightarrow> ptr set \<Rightarrow> ptr set \<Rightarrow>
     ('r, 'p, 'a) dispatch_st_scheme \<Rightarrow> bool" where
  "disp_inv D elems usable free A H w \<longleftrightarrow>
     ring_laws D elems usable \<and> pool_laws D free \<and> g_msg_pool w \<noteq> None \<and>
     distinct (ring_list elems (g_rx_ring w) @ ring_list elems (g_tx_ring w)) \<and>
     (set (ring_list elems (g_rx_ring w)) \<union> set (ring_list elems (g_tx_ring w))) \<inter>
       (pool_set free (g_msg_pool w) \<union> H) = {} \<and>
     pool_set free (g_msg_pool w) \<inter> H = {} \<and>
     set (ring_list elems (g_rx_ring w)) \<union> set (ring_list elems (g_tx_ring w)) \<union>
       pool_set free (g_msg_pool w) \<union> H = A"

text \<open>What a ring carries, as datagrams.\<close>

definition msg_view :: "v_dispatch_msg \<Rightarrow> u8 list \<times> sockaddr" where
  "msg_view m = (take (msg_len m) (msg_buf m), msg_peer m)"

definition rx_msgs :: "('r \<Rightarrow> ptr list) \<Rightarrow> ('r, 'p, 'a) dispatch_st_scheme \<Rightarrow> (u8 list \<times> sockaddr) list" where
  "rx_msgs elems w = map (\<lambda>p. msg_view (msg_at w p)) (ring_list elems (g_rx_ring w))"

definition tx_msgs :: "('r \<Rightarrow> ptr list) \<Rightarrow> ('r, 'p, 'a) dispatch_st_scheme \<Rightarrow> (u8 list \<times> sockaddr) list" where
  "tx_msgs elems w = map (\<lambda>p. msg_view (msg_at w p)) (ring_list elems (g_tx_ring w))"

lemma msgs_frame [simp]:
  "rx_msgs elems (w\<lparr>g_msg_pool := p\<rparr>) = rx_msgs elems w"
  "tx_msgs elems (w\<lparr>g_msg_pool := p\<rparr>) = tx_msgs elems w"
  "rx_msgs elems (w\<lparr>g_tx_ring := r\<rparr>) = rx_msgs elems w"
  "tx_msgs elems (w\<lparr>g_rx_ring := r\<rparr>) = tx_msgs elems w"
  by (simp_all add: rx_msgs_def tx_msgs_def)

definition accepts ::
    "('r \<Rightarrow> ptr list) \<Rightarrow> ('r \<Rightarrow> nat) \<Rightarrow> ('p \<Rightarrow> ptr set) \<Rightarrow> 'r option \<Rightarrow> u8 list \<Rightarrow>
     ('r, 'p, 'a) dispatch_st_scheme \<Rightarrow> bool" where
  "accepts elems usable free r buf w \<longleftrightarrow>
     length buf \<le> V_DISPATCH_MSG_MAX_BYTES \<and> pool_set free (g_msg_pool w) \<noteq> {} \<and>
     has_room elems usable r"

abbreviation peer_of :: "sockaddr option \<Rightarrow> sockaddr" where
  "peer_of peer \<equiv> (case peer of None \<Rightarrow> zero_sockaddr | Some a \<Rightarrow> a)"

lemma msg_view_fill [simp]: "msg_view (fill_msg buf peer m) = (buf, peer_of peer)"
  by (simp add: msg_view_def fill_msg_def)

text \<open>Returning a held object to the pool.\<close>

lemma disp_inv_put:
  assumes "disp_inv D elems usable free A (insert m H) w" and "m \<notin> H"
  shows "disp_inv D elems usable free A H (w\<lparr>g_msg_pool := pool_put D m (g_msg_pool w)\<rparr>)"
proof -
  have "pool_laws D free" "g_msg_pool w \<noteq> None"
    using assms(1) by (simp_all add: disp_inv_def)
  then show ?thesis
    using assms by (auto simp: disp_inv_def)
qed

text \<open>Taking a free object, filling it, and queueing it or giving it back.\<close>

lemma disp_inv_get:
  assumes i: "disp_inv D elems usable free A H w" and g: "pool_get D (g_msg_pool w) = Some (m, pool)"
  shows "m \<notin> H"
    and "m \<notin> set (ring_list elems (g_rx_ring w))" "m \<notin> set (ring_list elems (g_tx_ring w))"
    and "disp_inv D elems usable free A (insert m H)
      (w\<lparr>g_msg_pool := Some pool, msg_at := (msg_at w)(m := x)\<rparr>)"
proof -
  have "pool_laws D free" using i by (simp add: disp_inv_def)
  from pool_get_opt_Some [OF this g] i
  show "m \<notin> H" "m \<notin> set (ring_list elems (g_rx_ring w))" "m \<notin> set (ring_list elems (g_tx_ring w))"
    "disp_inv D elems usable free A (insert m H)
      (w\<lparr>g_msg_pool := Some pool, msg_at := (msg_at w)(m := x)\<rparr>)"
    by (auto simp: disp_inv_def)
qed

lemma disp_inv_rx_put:
  assumes "disp_inv D elems usable free A (insert m H) w" and "m \<notin> H"
    and "ring_put D (g_rx_ring w) m = Some r"
  shows "disp_inv D elems usable free A H (w\<lparr>g_rx_ring := Some r\<rparr>)"
proof -
  have "ring_laws D elems usable" using assms(1) by (simp add: disp_inv_def)
  from ring_put_Some [OF this assms(3)] assms show ?thesis
    by (auto simp: disp_inv_def)
qed

lemma disp_inv_tx_put:
  assumes "disp_inv D elems usable free A (insert m H) w" and "m \<notin> H"
    and "ring_put D (g_tx_ring w) m = Some r"
  shows "disp_inv D elems usable free A H (w\<lparr>g_tx_ring := Some r\<rparr>)"
proof -
  have "ring_laws D elems usable" using assms(1) by (simp add: disp_inv_def)
  from ring_put_Some [OF this assms(3)] assms show ?thesis
    by (auto simp: disp_inv_def)
qed

lemma disp_inv_rx_take:
  assumes "disp_inv D elems usable free A H w" and "ring_take D (g_rx_ring w) = Some (m, r)"
  shows "m \<notin> H" "disp_inv D elems usable free A (insert m H) (w\<lparr>g_rx_ring := Some r\<rparr>)"
    "rx_msgs elems w = msg_view (msg_at w m) # rx_msgs elems (w\<lparr>g_rx_ring := Some r\<rparr>)"
proof -
  have "ring_laws D elems usable" using assms(1) by (simp add: disp_inv_def)
  from ring_take_Some [OF this assms(2)] assms(1)
  show "m \<notin> H" "disp_inv D elems usable free A (insert m H) (w\<lparr>g_rx_ring := Some r\<rparr>)"
    "rx_msgs elems w = msg_view (msg_at w m) # rx_msgs elems (w\<lparr>g_rx_ring := Some r\<rparr>)"
    by (auto simp: disp_inv_def rx_msgs_def)
qed

lemma disp_inv_tx_take:
  assumes "disp_inv D elems usable free A H w" and "ring_take D (g_tx_ring w) = Some (m, r)"
  shows "m \<notin> H" "disp_inv D elems usable free A (insert m H) (w\<lparr>g_tx_ring := Some r\<rparr>)"
    "tx_msgs elems w = msg_view (msg_at w m) # tx_msgs elems (w\<lparr>g_tx_ring := Some r\<rparr>)"
proof -
  have "ring_laws D elems usable" using assms(1) by (simp add: disp_inv_def)
  from ring_take_Some [OF this assms(2)] assms(1)
  show "m \<notin> H" "disp_inv D elems usable free A (insert m H) (w\<lparr>g_tx_ring := Some r\<rparr>)"
    "tx_msgs elems w = msg_view (msg_at w m) # tx_msgs elems (w\<lparr>g_tx_ring := Some r\<rparr>)"
    by (auto simp: disp_inv_def tx_msgs_def)
qed

lemma stage_None:
  assumes "pool_laws D free"
  shows "stage_msg D buf peer w = None \<longleftrightarrow>
    \<not> (length buf \<le> V_DISPATCH_MSG_MAX_BYTES \<and> pool_set free (g_msg_pool w) \<noteq> {})"
  unfolding pool_get_opt_None [OF assms, symmetric]
  by (auto simp: stage_msg_def split: option.splits)

lemma stage_Some:
  assumes i: "disp_inv D elems usable free A H w" and s: "stage_msg D buf peer w = Some (m, w1)"
  shows "m \<notin> H" "disp_inv D elems usable free A (insert m H) w1"
    "rx_msgs elems w1 = rx_msgs elems w" "tx_msgs elems w1 = tx_msgs elems w"
    "g_rx_ring w1 = g_rx_ring w" "g_tx_ring w1 = g_tx_ring w"
    "msg_view (msg_at w1 m) = (buf, peer_of peer)"
proof -
  from s obtain pool where g: "pool_get D (g_msg_pool w) = Some (m, pool)"
    and w1: "w1 = w\<lparr>g_msg_pool := Some pool, msg_at := (msg_at w)(m := fill_msg buf peer (msg_at w m))\<rparr>"
    by (auto simp: stage_msg_def split: if_splits option.splits)
  note get = disp_inv_get(1-3) [OF i g]
    disp_inv_get(4) [OF i g, of "fill_msg buf peer (msg_at w m)", folded w1]
  from get show "m \<notin> H" "disp_inv D elems usable free A (insert m H) w1" by blast+
  from get(2,3) show "rx_msgs elems w1 = rx_msgs elems w" "tx_msgs elems w1 = tx_msgs elems w"
    by (auto simp: w1 rx_msgs_def tx_msgs_def)
qed (use s in \<open>auto simp: stage_msg_def split: if_splits option.splits\<close>)

lemma rx_step:
  assumes i: "disp_inv D elems usable free A H w"
  shows "disp_inv D elems usable free A H (v_dispatch_rx D buf peer w) \<and>
    tx_msgs elems (v_dispatch_rx D buf peer w) = tx_msgs elems w \<and>
    rx_msgs elems (v_dispatch_rx D buf peer w) =
      (if accepts elems usable free (g_rx_ring w) buf w
       then rx_msgs elems w @ [(buf, peer_of peer)] else rx_msgs elems w)"
proof -
  have laws: "ring_laws D elems usable" "pool_laws D free"
    using i by (simp_all add: disp_inv_def)
  show ?thesis
  proof (cases "stage_msg D buf peer w")
    case None
    with i stage_None [OF laws(2), of buf peer w] show ?thesis
      by (auto simp: v_dispatch_rx_def accepts_def)
  next
    case (Some x)
    then obtain m w1 where s: "stage_msg D buf peer w = Some (m, w1)" by (cases x) auto
    note st = stage_Some [OF i s]
    have room: "accepts elems usable free (g_rx_ring w) buf w = has_room elems usable (g_rx_ring w)"
      using s stage_None [OF laws(2), of buf peer w] by (auto simp: accepts_def)
    show ?thesis
    proof (cases "ring_put D (g_rx_ring w) m")
      case None
      then have "\<not> has_room elems usable (g_rx_ring w)" by (simp add: ring_put_None [OF laws(1)])
      with None s st room disp_inv_put [OF st(2,1)] show ?thesis
        by (simp add: v_dispatch_rx_def)
    next
      case (Some r)
      note put = ring_put_Some [OF laws(1) Some]
      have "rx_msgs elems (w1\<lparr>g_rx_ring := Some r\<rparr>) = rx_msgs elems w1 @ [(buf, peer_of peer)]"
        using put(2) st(5,7) by (simp add: rx_msgs_def)
      then show ?thesis
        using s st room put(1) Some disp_inv_rx_put [OF st(2,1), of r] by (simp add: v_dispatch_rx_def)
    qed
  qed
qed

lemma tx_step:
  assumes i: "disp_inv D elems usable free A H w"
  shows "disp_inv D elems usable free A H (snd (v_dispatch_tx_enqueue D buf peer w)) \<and>
    rx_msgs elems (snd (v_dispatch_tx_enqueue D buf peer w)) = rx_msgs elems w \<and>
    fst (v_dispatch_tx_enqueue D buf peer w) =
      (if accepts elems usable free (g_tx_ring w) buf w then RET_CODE_OK else RET_CODE_ERR) \<and>
    tx_msgs elems (snd (v_dispatch_tx_enqueue D buf peer w)) =
      (if accepts elems usable free (g_tx_ring w) buf w
       then tx_msgs elems w @ [(buf, peer_of peer)] else tx_msgs elems w)"
proof -
  have laws: "ring_laws D elems usable" "pool_laws D free"
    using i by (simp_all add: disp_inv_def)
  show ?thesis
  proof (cases "stage_msg D buf peer w")
    case None
    with i stage_None [OF laws(2), of buf peer w] show ?thesis
      by (auto simp: v_dispatch_tx_enqueue_def accepts_def)
  next
    case (Some x)
    then obtain m w1 where s: "stage_msg D buf peer w = Some (m, w1)" by (cases x) auto
    note st = stage_Some [OF i s]
    have room: "accepts elems usable free (g_tx_ring w) buf w = has_room elems usable (g_tx_ring w)"
      using s stage_None [OF laws(2), of buf peer w] by (auto simp: accepts_def)
    show ?thesis
    proof (cases "ring_put D (g_tx_ring w) m")
      case None
      then have "\<not> has_room elems usable (g_tx_ring w)" by (simp add: ring_put_None [OF laws(1)])
      with None s st room disp_inv_put [OF st(2,1)] show ?thesis
        by (simp add: v_dispatch_tx_enqueue_def)
    next
      case (Some r)
      note put = ring_put_Some [OF laws(1) Some]
      have "tx_msgs elems (w1\<lparr>g_tx_ring := Some r\<rparr>) = tx_msgs elems w1 @ [(buf, peer_of peer)]"
        using put(2) st(6,7) by (simp add: tx_msgs_def)
      then show ?thesis
        using s st room put(1) Some disp_inv_tx_put [OF st(2,1), of r]
        by (simp add: v_dispatch_tx_enqueue_def)
    qed
  qed
qed

subsection \<open>The contract of a lossy first-in first-out channel\<close>

locale lossy_channel =
  fixes push :: "'m \<Rightarrow> 's \<Rightarrow> 's"
    and contents :: "'s \<Rightarrow> 'm list"
    and taken :: "'m \<Rightarrow> 's \<Rightarrow> bool"
    and inv :: "'s \<Rightarrow> bool"
  assumes inv_push: "inv s \<Longrightarrow> inv (push m s)"
    and push_taken: "inv s \<Longrightarrow> taken m s \<Longrightarrow> contents (push m s) = contents s @ [m]"
    and push_dropped: "inv s \<Longrightarrow> \<not> taken m s \<Longrightarrow> contents (push m s) = contents s"
begin

text \<open>A burst of messages arrives in order, possibly with gaps: nothing is invented or reordered.\<close>

lemma burst:
  "inv s \<Longrightarrow> inv (fold push ms s) \<and> (\<exists>got. subseq got ms \<and> contents (fold push ms s) = contents s @ got)"
proof (induction ms arbitrary: s)
  case Nil
  then show ?case by simp
next
  case (Cons m ms)
  then obtain got where g: "inv (fold push ms (push m s))" "subseq got ms"
    "contents (fold push ms (push m s)) = contents (push m s) @ got"
    using inv_push by blast
  show ?case
  proof (cases "taken m s")
    case True
    with g Cons.prems show ?thesis
      by (intro conjI exI [of _ "m # got"]) (simp_all add: push_taken)
  next
    case False
    with g Cons.prems show ?thesis
      by (intro conjI exI [of _ got]) (simp_all add: push_dropped list_emb_Cons)
  qed
qed

end

interpretation rx: lossy_channel
  "\<lambda>(buf, peer). v_dispatch_rx D buf (Some peer)" "rx_msgs elems"
  "\<lambda>(buf, peer) w. accepts elems usable free (g_rx_ring w) buf w" "disp_inv D elems usable free A H"
  for D :: "('r, 'p) dpdk" and elems usable free A H
  by unfold_locales (auto simp: rx_step)

interpretation tx: lossy_channel
  "\<lambda>(buf, peer) w. snd (v_dispatch_tx_enqueue D buf (Some peer) w)" "tx_msgs elems"
  "\<lambda>(buf, peer) w. accepts elems usable free (g_tx_ring w) buf w" "disp_inv D elems usable free A H"
  for D :: "('r, 'p) dpdk" and elems usable free A H
  by unfold_locales (auto simp: tx_step)

subsection \<open>The drain loops\<close>

lemma worker_poll_inv:
  assumes "disp_inv D elems usable free A H w"
    and handler: "\<And>m msg w. m \<notin> H \<Longrightarrow> disp_inv D elems usable free A (insert m H) w \<Longrightarrow>
      disp_inv D elems usable free A (insert m H) (handler msg w)"
  shows "disp_inv D elems usable free A H (snd (v_dispatch_worker_poll D n handler w))"
  using assms(1)
proof (induction n arbitrary: w)
  case 0
  then show ?case by simp
next
  case (Suc n)
  show ?case
  proof (cases "ring_take D (g_rx_ring w)")
    case None
    with Suc.prems show ?thesis by simp
  next
    case (Some x)
    then obtain m r where t: "ring_take D (g_rx_ring w) = Some (m, r)" by (cases x) auto
    note tk = disp_inv_rx_take [OF Suc.prems t]
    define w2 where "w2 = handler (msg_at w m) (w\<lparr>g_rx_ring := Some r\<rparr>)"
    have "disp_inv D elems usable free A (insert m H) w2"
      unfolding w2_def by (rule handler [OF tk(1,2)])
    from Suc.IH [OF disp_inv_put [OF this tk(1)]] t show ?thesis
      by (simp add: w2_def Let_def split_beta)
  qed
qed

lemma drain_tx_inv:
  assumes "disp_inv D elems usable free A H w"
    and send: "\<And>m peer buf w. m \<notin> H \<Longrightarrow> disp_inv D elems usable free A (insert m H) w \<Longrightarrow>
      disp_inv D elems usable free A (insert m H) (snd (send peer buf w))"
  shows "disp_inv D elems usable free A H (snd (v_dispatch_io_drain_tx D send n w))"
  using assms(1)
proof (induction n arbitrary: w)
  case 0
  then show ?case by simp
next
  case (Suc n)
  show ?case
  proof (cases "ring_take D (g_tx_ring w)")
    case None
    with Suc.prems show ?thesis by simp
  next
    case (Some x)
    then obtain m r where t: "ring_take D (g_tx_ring w) = Some (m, r)" by (cases x) auto
    note tk = disp_inv_tx_take [OF Suc.prems t]
    define w2 where "w2 = snd (send (msg_peer (msg_at w m))
      (take (msg_len (msg_at w m)) (msg_buf (msg_at w m))) (w\<lparr>g_tx_ring := Some r\<rparr>))"
    have "disp_inv D elems usable free A (insert m H) w2"
      unfolding w2_def by (rule send [OF tk(1,2)])
    from Suc.IH [OF disp_inv_put [OF this tk(1)]] t show ?thesis
      by (simp add: w2_def Let_def split_beta)
  qed
qed

text \<open>
  Delivery: a send function that records what it sends, and leaves the transmit ring alone,
  has recorded exactly the first \<open>n\<close> queued datagrams when the drain returns.
\<close>

lemma drain_tx_sends:
  assumes laws: "ring_laws D elems usable"
    and send: "\<And>peer buf w. log (snd (send peer buf w)) = log w @ [(buf, peer)]"
      "\<And>peer buf w. g_tx_ring (snd (send peer buf w)) = g_tx_ring w"
      "\<And>peer buf w. msg_at (snd (send peer buf w)) = msg_at w"
    and frame: "\<And>w p. log (w\<lparr>g_msg_pool := p\<rparr>) = log w" "\<And>w r. log (w\<lparr>g_tx_ring := r\<rparr>) = log w"
  shows "fst (v_dispatch_io_drain_tx D send n w) = min n (length (tx_msgs elems w)) \<and>
    log (snd (v_dispatch_io_drain_tx D send n w)) = log w @ take n (tx_msgs elems w) \<and>
    tx_msgs elems (snd (v_dispatch_io_drain_tx D send n w)) = drop n (tx_msgs elems w)"
proof (induction n arbitrary: w)
  case 0
  then show ?case by simp
next
  case (Suc n)
  show ?case
  proof (cases "ring_take D (g_tx_ring w)")
    case None
    then have "ring_list elems (g_tx_ring w) = []" using ring_take_None [OF laws] by blast
    with None show ?thesis by (simp add: tx_msgs_def)
  next
    case (Some x)
    then obtain m r where t: "ring_take D (g_tx_ring w) = Some (m, r)" by (cases x) auto
    define w2 where "w2 = snd (send (msg_peer (msg_at w m))
      (take (msg_len (msg_at w m)) (msg_buf (msg_at w m))) (w\<lparr>g_tx_ring := Some r\<rparr>))"
    define w3 where "w3 = w2\<lparr>g_msg_pool := pool_put D m (g_msg_pool w2)\<rparr>"
    have "tx_msgs elems w = msg_view (msg_at w m) # tx_msgs elems w3"
      using ring_take_Some [OF laws t] send(2,3) by (simp add: tx_msgs_def w3_def w2_def)
    moreover have "log w3 = log w @ [msg_view (msg_at w m)]"
      using send(1) frame by (simp add: w3_def w2_def msg_view_def)
    ultimately show ?thesis
      using Suc.IH [of w3] t by (simp add: w3_def w2_def Let_def split_beta)
  qed
qed

text \<open>A send function that appends to a log kept in the rest of the state.\<close>

definition log_send ::
    "(sockaddr \<Rightarrow> u8 list \<Rightarrow> int) \<Rightarrow> sockaddr \<Rightarrow> u8 list \<Rightarrow>
     ('r, 'p, (u8 list \<times> sockaddr) list) dispatch_st_scheme \<Rightarrow>
     int \<times> ('r, 'p, (u8 list \<times> sockaddr) list) dispatch_st_scheme" where
  "log_send rc peer buf w = (rc peer buf, dispatch_st.more_update (\<lambda>l. l @ [(buf, peer)]) w)"

lemma drain_log_send:
  assumes "ring_laws D elems usable"
  shows "fst (v_dispatch_io_drain_tx D (log_send rc) n w) = min n (length (tx_msgs elems w)) \<and>
    dispatch_st.more (snd (v_dispatch_io_drain_tx D (log_send rc) n w)) =
      dispatch_st.more w @ take n (tx_msgs elems w)"
  using drain_tx_sends [OF assms, of dispatch_st.more "log_send rc" n w] by (simp add: log_send_def)

subsection \<open>Properties\<close>

text \<open>
  C22: the message objects are conserved. Receiving a datagram, queueing one for sending,
  polling the receive ring with any handler that itself conserves the objects, and draining
  the transmit ring with any such send function all keep every object of the pool in exactly
  one place: free, in one of the two rings, or held by the running code. No path leaks an
  object, frees one twice, or queues one twice, the drops on a full ring and on an oversized
  datagram included.
\<close>

theorem dispatch_conserves_messages:
  assumes "disp_inv D elems usable free A H w"
    and "\<And>m msg w. m \<notin> H \<Longrightarrow> disp_inv D elems usable free A (insert m H) w \<Longrightarrow>
      disp_inv D elems usable free A (insert m H) (handler msg w)"
    and "\<And>m peer buf w. m \<notin> H \<Longrightarrow> disp_inv D elems usable free A (insert m H) w \<Longrightarrow>
      disp_inv D elems usable free A (insert m H) (snd (send peer buf w))"
  shows "disp_inv D elems usable free A H (v_dispatch_rx D buf peer w) \<and>
    disp_inv D elems usable free A H (snd (v_dispatch_tx_enqueue D buf peer w)) \<and>
    disp_inv D elems usable free A H (snd (v_dispatch_worker_poll D n handler w)) \<and>
    disp_inv D elems usable free A H (snd (v_dispatch_io_drain_tx D send n w))"
  using rx_step [OF assms(1), of buf peer] tx_step [OF assms(1), of buf peer]
    worker_poll_inv [where handler = handler, OF assms(1,2)] drain_tx_inv [where send = send, OF assms(1,3)]
  by blast

definition demo_dispatch :: "(nat \<times> ptr list, ptr list, (u8 list \<times> sockaddr) list) dispatch_st_scheme" where
  "demo_dispatch =
     \<lparr>g_rx_ring = Some (4, []), g_tx_ring = Some (4, []), g_msg_pool = Some [1, 2, 3],
      msg_at = (\<lambda>_. \<lparr>msg_buf = replicate 2048 0, msg_len = 0, msg_peer = zero_sockaddr\<rparr>), \<dots> = []\<rparr>"

lemma demo_dispatch_inv: "disp_inv list_dpdk snd fst set {1, 2, 3} {} demo_dispatch"
  by (simp add: disp_inv_def demo_dispatch_def list_ring_laws list_pool_laws)

theorem dispatch_conserves_messages_witness:
  "disp_inv list_dpdk snd fst set {1, 2, 3} {} (v_dispatch_rx list_dpdk [7, 8] None demo_dispatch)"
  using dispatch_conserves_messages
    [OF demo_dispatch_inv, of "\<lambda>msg w. w" "\<lambda>peer buf w. (RET_CODE_OK, w)" "[7, 8]" None 1]
  by simp

text \<open>
  A successful initialisation gives the whole pool of 8192 distinct non-NULL objects, all
  of them free, and two empty rings.
\<close>

lemma dispatch_init_inv:
  assumes "ring_laws D elems usable" and "pool_laws D free"
    and "v_dispatch_init D w = (RET_CODE_OK, w')"
  shows "\<exists>A. card A = 8192 \<and> 0 \<notin> A \<and> disp_inv D elems usable free A {} w' \<and>
    rx_msgs elems w' = [] \<and> tx_msgs elems w' = []"
proof -
  from assms(3) obtain p rx tx where "rte_mempool_create D 8192 = Some p"
    "rte_ring_create D 4096 = Some rx" "rte_ring_create D 4096 = Some tx"
    and w': "w' = w\<lparr>g_msg_pool := Some p, g_rx_ring := Some rx, g_tx_ring := Some tx\<rparr>"
    by (auto simp: v_dispatch_init_def Let_def V_DISPATCH_POOL_CAP_def V_DISPATCH_RING_SIZE_def
        split: if_splits)
  then have "card (free p) = 8192" "0 \<notin> free p" "elems rx = []" "elems tx = []"
    using pool_create_law [OF assms(2)] ring_create_law [OF assms(1)] by auto
  then show ?thesis
    using assms(1,2) by (intro exI [of _ "free p"]) (simp add: disp_inv_def w' rx_msgs_def tx_msgs_def)
qed

lemma dispatch_init_inv_instance:
  "\<exists>A. card A = 8192 \<and> 0 \<notin> A \<and>
     disp_inv list_dpdk snd fst set A {} (snd (v_dispatch_init list_dpdk demo_dispatch))"
proof -
  have "v_dispatch_init list_dpdk demo_dispatch =
      (RET_CODE_OK, snd (v_dispatch_init list_dpdk demo_dispatch))"
    by (simp add: v_dispatch_init_def list_dpdk_def V_DISPATCH_POOL_CAP_def V_DISPATCH_RING_SIZE_def
        del: upt_Suc)
  from dispatch_init_inv [OF list_ring_laws list_pool_laws this] show ?thesis by blast
qed



end
