(* ===== verification/V_stub_db.thy ===== *)
theory V_stub_db
  imports Ports V_dispatch
begin

section \<open>The database port\<close>

text \<open>
  \<^verbatim>\<open>stubs/v_stub_db\<close>: five asynchronous Redis connections, a pool of pending-call objects, and
  the conversion of a hiredis reply tree into the flat arena of \<^verbatim>\<open>v_db_reply_t\<close> nodes.

  hiredis is not part of the program: the record \<open>hiredis\<close> holds the calls the stub makes,
  and the connection handle type \<open>'h\<close> is arbitrary. \<open>redisAsyncCommand\<close> stands for both
  \<^verbatim>\<open>redisvAsyncCommand\<close> and \<^verbatim>\<open>redisAsyncCommandArgv\<close>: a format string of the program is the
  list of its space-separated words with the arguments substituted, one argument per word. The
  documented behaviour used is \<open>hiredis_laws\<close>: an accepted command joins the connection's
  queue of commands awaiting a reply, with its private data; a new connection awaits nothing.
\<close>

record 'h hiredis =
  redisAsyncConnect :: "string \<Rightarrow> int \<Rightarrow> nat \<Rightarrow> 'h option"
  redisAsyncCommand :: "'h \<Rightarrow> string list \<Rightarrow> ptr \<Rightarrow> 'h option"

definition hiredis_laws :: "'h hiredis \<Rightarrow> ('h \<Rightarrow> (string list \<times> ptr) list) \<Rightarrow> bool" where
  "hiredis_laws hi waiting \<longleftrightarrow>
     (\<forall>host port n h. redisAsyncConnect hi host port n = Some h \<longrightarrow> waiting h = []) \<and>
     (\<forall>h args p h'. redisAsyncCommand hi h args p = Some h' \<longrightarrow> waiting h' = waiting h @ [(args, p)])"

definition V_STUB_DB_SHARDS :: nat where "V_STUB_DB_SHARDS = 5"
definition V_STUB_DB_PENDING_CAP :: nat where "V_STUB_DB_PENDING_CAP = 4096"
definition V_STUB_DB_REPLY_SCRATCH_CAP :: nat where "V_STUB_DB_REPLY_SCRATCH_CAP = 512"

text \<open>A hiredis reply; \<open>H_null\<close> is a NULL pointer, \<open>H_other\<close> any type the stub does not know.\<close>

datatype hreply =
    H_null
  | H_nil
  | H_status string
  | H_error string
  | H_integer int
  | H_string string
  | H_array "hreply list"
  | H_other

text \<open>A node of the arena; an array node holds the index of its first element and their number.\<close>

datatype v_db_node =
    N_nil
  | N_status string
  | N_integer int
  | N_string string
  | N_array nat nat
  | N_error string

record v_db_pending =
  pend_cb :: "v_db_cb option"

record ('r, 'p, 'h) db_st = "('r, 'p) dispatch_st" +
  g_base :: bool
  g_ctx :: "nat \<Rightarrow> 'h option"
  g_db_pool :: "'p option"
  db_pending_at :: "ptr \<Rightarrow> v_db_pending"
  g_reconnect_cb :: bool
  g_scratch :: "v_db_node list"
  g_scratch_used :: nat

subsection \<open>Connections\<close>

text \<open>
  The address of the server. \<open>ge\<close> is \<^verbatim>\<open>getenv\<close>; \<^verbatim>\<open>atoi\<close> is \<^verbatim>\<open>strtol\<close> (clamped to 64 bits) cut to
  an \<^verbatim>\<open>int\<close>.
\<close>

definition atoi :: "string \<Rightarrow> int" where
  "atoi s =
     (let t = dropWhile c_isspace s;
          neg = (t \<noteq> [] \<and> hd t = CHR ''-'');
          u = (if t \<noteq> [] \<and> (hd t = CHR ''-'' \<or> hd t = CHR ''+'') then tl t else t);
          n = int (dec_val (takeWhile c_isdigit u));
          l = (if neg then max (- (2 ^ 63)) (- n) else min (2 ^ 63 - 1) n)
      in sint (word_of_int l :: u32))"

definition db_host :: "(string \<Rightarrow> string option) \<Rightarrow> string" where
  "db_host ge = (case ge ''VPE_TEST_REDIS_HOST'' of Some h \<Rightarrow> h | None \<Rightarrow> ''127.0.0.1'')"

definition db_port :: "(string \<Rightarrow> string option) \<Rightarrow> int" where
  "db_port ge = (case ge ''VPE_TEST_REDIS_PORT'' of Some p \<Rightarrow> atoi p | None \<Rightarrow> 6379)"

text \<open>\<open>None\<close> from \<open>redisAsyncConnect\<close> is a NULL or failed context, which the code frees at once.\<close>

definition shard_connect ::
    "'h hiredis \<Rightarrow> (string \<Rightarrow> string option) \<Rightarrow> nat \<Rightarrow> ('r, 'p, 'h, 'a) db_st_scheme \<Rightarrow> int \<times> ('r, 'p, 'h, 'a) db_st_scheme" where
  "shard_connect hi ge shard w =
     (case redisAsyncConnect hi (db_host ge) (db_port ge) shard of
        None \<Rightarrow> (RET_CODE_ERR, w)
      | Some h \<Rightarrow> (RET_CODE_OK, w\<lparr>g_ctx := (g_ctx w)(shard := Some h)\<rparr>))"

text \<open>\<open>rcb\<close> is the function registered with \<^verbatim>\<open>v_port_db_on_reconnect\<close>; \<open>ok\<close> is \<^verbatim>\<open>status == REDIS_OK\<close>.\<close>

definition connect_cb ::
    "(nat \<Rightarrow> ('r, 'p, 'h, 'a) db_st_scheme \<Rightarrow> ('r, 'p, 'h, 'a) db_st_scheme) \<Rightarrow>
     nat \<Rightarrow> bool \<Rightarrow> ('r, 'p, 'h, 'a) db_st_scheme \<Rightarrow> ('r, 'p, 'h, 'a) db_st_scheme" where
  "connect_cb rcb shard ok w =
     (if \<not> ok then w else if g_reconnect_cb w then rcb shard w else w)"

definition disconnect_cb ::
    "nat \<Rightarrow> ('r, 'p, 'h, 'a) db_st_scheme \<Rightarrow> ('r, 'p, 'h, 'a) db_st_scheme" where
  "disconnect_cb shard w = w\<lparr>g_ctx := (g_ctx w)(shard := None)\<rparr>"

fun connect_shards ::
    "'h hiredis \<Rightarrow> (string \<Rightarrow> string option) \<Rightarrow> nat list \<Rightarrow> ('r, 'p, 'h, 'a) db_st_scheme \<Rightarrow> int \<times> ('r, 'p, 'h, 'a) db_st_scheme" where
  "connect_shards hi ge [] w = (RET_CODE_OK, w)"
| "connect_shards hi ge (i # is) w =
     (let (rc, w) = shard_connect hi ge i w in
      if rc \<noteq> RET_CODE_OK then (RET_CODE_ERR, w) else connect_shards hi ge is w)"

text \<open>\<open>base_ok\<close>: whether \<^verbatim>\<open>event_base_new\<close> succeeds.\<close>

definition v_port_db_init ::
    "('r, 'p) dpdk \<Rightarrow> 'h hiredis \<Rightarrow> (string \<Rightarrow> string option) \<Rightarrow> bool \<Rightarrow>
     ('r, 'p, 'h, 'a) db_st_scheme \<Rightarrow> int \<times> ('r, 'p, 'h, 'a) db_st_scheme" where
  "v_port_db_init D hi ge base_ok w =
     (if g_base w then (RET_CODE_ERR, w)
      else if \<not> base_ok then (RET_CODE_ERR, w)
      else let w = w\<lparr>g_base := True, g_db_pool := rte_mempool_create D V_STUB_DB_PENDING_CAP\<rparr> in
           if g_db_pool w = None then (RET_CODE_ERR, w)
           else connect_shards hi ge [0 ..< V_STUB_DB_SHARDS] w)"

definition v_port_db_on_reconnect :: "('r, 'p, 'h, 'a) db_st_scheme \<Rightarrow> int \<times> ('r, 'p, 'h, 'a) db_st_scheme" where
  "v_port_db_on_reconnect w = (RET_CODE_OK, w\<lparr>g_reconnect_cb := True\<rparr>)"

subsection \<open>Reply conversion\<close>

fun convert_reply :: "hreply \<Rightarrow> v_db_node list \<times> nat \<Rightarrow> nat option \<times> v_db_node list \<times> nat"
  and convert_elements :: "hreply list \<Rightarrow> v_db_node list \<times> nat \<Rightarrow> v_db_node list \<times> nat" where
  "convert_reply r (g, used) =
     (if V_STUB_DB_REPLY_SCRATCH_CAP \<le> used then (None, g, used)
      else case r of
        H_null \<Rightarrow> (Some used, g[used := N_nil], Suc used)
      | H_nil \<Rightarrow> (Some used, g[used := N_nil], Suc used)
      | H_status s \<Rightarrow> (Some used, g[used := N_status s], Suc used)
      | H_error s \<Rightarrow> (Some used, g[used := N_error s], Suc used)
      | H_integer i \<Rightarrow> (Some used, g[used := N_integer i], Suc used)
      | H_string s \<Rightarrow> (Some used, g[used := N_string s], Suc used)
      | H_array rs \<Rightarrow>
          (Some used, convert_elements rs
             (g[used := N_array (if rs = [] then 0 else Suc used) (length rs)], Suc used))
      | H_other \<Rightarrow> (Some used, g[used := N_error ''unsupported reply type''], Suc used))"
| "convert_elements [] st = st"
| "convert_elements (r # rs) st =
     (case convert_reply r st of
        (None, st) \<Rightarrow> st
      | (Some _, st) \<Rightarrow> convert_elements rs st)"

text \<open>
  What a callback sees through the pointer it is given. Callbacks read the reply and, for an
  array, the type and string of its elements, never below; the elements are read from
  consecutive nodes, wherever the conversion put them.
\<close>

fun node_flat :: "v_db_node \<Rightarrow> v_db_reply" where
  "node_flat N_nil = Reply_Nil"
| "node_flat (N_status s) = Reply_Status s"
| "node_flat (N_integer i) = Reply_Integer i"
| "node_flat (N_string s) = Reply_String s"
| "node_flat (N_array e n) = Reply_Array []"
| "node_flat (N_error s) = Reply_Error s"

definition node_at :: "v_db_node list \<Rightarrow> nat \<Rightarrow> v_db_node" where
  "node_at g i = (if i < length g then g ! i else N_nil)"

definition reply_at :: "v_db_node list \<Rightarrow> nat \<Rightarrow> v_db_reply" where
  "reply_at g i = (case node_at g i of
     N_array e n \<Rightarrow> Reply_Array (map (\<lambda>j. node_flat (node_at g (e + j))) [0 ..< n])
   | nd \<Rightarrow> node_flat nd)"

subsection \<open>Commands and their replies\<close>

text \<open>\<open>cc\<close> calls through a callback pointer: callback, status, reply (\<open>None\<close> for NULL), state.\<close>

definition on_reply ::
    "('r, 'p) dpdk \<Rightarrow>
     (v_db_cb \<Rightarrow> int \<Rightarrow> v_db_reply option \<Rightarrow> ('r, 'p, 'h, 'a) db_st_scheme \<Rightarrow> ('r, 'p, 'h, 'a) db_st_scheme) \<Rightarrow>
     hreply \<Rightarrow> ptr \<Rightarrow> ('r, 'p, 'h, 'a) db_st_scheme \<Rightarrow> ('r, 'p, 'h, 'a) db_st_scheme" where
  "on_reply D cc r p w =
     (let (converted, w) =
            (if r = H_null then (None, w\<lparr>g_scratch_used := 0\<rparr>)
             else case convert_reply r (g_scratch w, 0) of
                    (i, g, used) \<Rightarrow> (map_option (reply_at g) i, w\<lparr>g_scratch := g, g_scratch_used := used\<rparr>));
          status = (if r = H_null then RET_CODE_ERR else RET_CODE_OK);
          w = (case pend_cb (db_pending_at w p) of None \<Rightarrow> w | Some cb \<Rightarrow> cc cb status converted w)
      in w\<lparr>g_db_pool := pool_put D p (g_db_pool w)\<rparr>)"

definition db_pending_get ::
    "('r, 'p) dpdk \<Rightarrow> v_db_cb option \<Rightarrow> ('r, 'p, 'h, 'a) db_st_scheme \<Rightarrow>
     (ptr \<times> ('r, 'p, 'h, 'a) db_st_scheme) option" where
  "db_pending_get D cb w =
     (case pool_get D (g_db_pool w) of
        None \<Rightarrow> None
      | Some (p, pool) \<Rightarrow>
          Some (p, w\<lparr>g_db_pool := Some pool, db_pending_at := (db_pending_at w)(p := \<lparr>pend_cb = cb\<rparr>)\<rparr>))"

definition v_port_db_cmd ::
    "('r, 'p) dpdk \<Rightarrow> 'h hiredis \<Rightarrow> u8 \<Rightarrow> v_db_cb \<Rightarrow> string list \<Rightarrow>
     ('r, 'p, 'h, 'a) db_st_scheme \<Rightarrow> int \<times> ('r, 'p, 'h, 'a) db_st_scheme" where
  "v_port_db_cmd D hi shard cb args w =
     (case (if V_STUB_DB_SHARDS \<le> unat shard then None else g_ctx w (unat shard)) of
        None \<Rightarrow> (RET_CODE_ERR, w)
      | Some h \<Rightarrow>
          (case db_pending_get D (Some cb) w of
             None \<Rightarrow> (RET_CODE_ERR, w)
           | Some (p, w) \<Rightarrow>
               (case redisAsyncCommand hi h args p of
                  None \<Rightarrow> (RET_CODE_ERR, w\<lparr>g_db_pool := pool_put D p (g_db_pool w)\<rparr>)
                | Some h' \<Rightarrow> (RET_CODE_OK, w\<lparr>g_ctx := (g_ctx w)(unat shard := Some h')\<rparr>))))"

text \<open>The binary-safe variant has the same body around \<^verbatim>\<open>redisAsyncCommandArgv\<close>.\<close>

definition v_port_db_cmd_argv ::
    "('r, 'p) dpdk \<Rightarrow> 'h hiredis \<Rightarrow> u8 \<Rightarrow> v_db_cb \<Rightarrow> string list \<Rightarrow>
     ('r, 'p, 'h, 'a) db_st_scheme \<Rightarrow> int \<times> ('r, 'p, 'h, 'a) db_st_scheme" where
  "v_port_db_cmd_argv D hi shard cb argv w = v_port_db_cmd D hi shard cb argv w"

text \<open>
  Closing a connection. \<^verbatim>\<open>redisAsyncFree\<close> marks the connection as being freed, so that it takes
  no further command, calls \<^verbatim>\<open>on_reply\<close> with a NULL reply for every command that still waits,
  oldest first, and calls the disconnect callback if the connection had been established. The
  record \<open>hiredis_close\<close> says which calls these are: the waiting commands' private data, the
  connection after the first \<open>n\<close> of them, and whether it had been established; the documented
  behaviour is \<open>close_laws\<close>. \<open>async_free\<close> runs the program's part of it.
\<close>

record 'h hiredis_close =
  async_pending :: "'h \<Rightarrow> ptr list"
  async_freeing :: "'h \<Rightarrow> nat \<Rightarrow> 'h"
  async_connected :: "'h \<Rightarrow> bool"

definition close_laws :: "'h hiredis \<Rightarrow> 'h hiredis_close \<Rightarrow> ('h \<Rightarrow> (string list \<times> ptr) list) \<Rightarrow> bool" where
  "close_laws hi K waiting \<longleftrightarrow>
     (\<forall>h. async_pending K h = map snd (waiting h)) \<and>
     (\<forall>h n. waiting (async_freeing K h n) = drop n (waiting h)) \<and>
     (\<forall>h n args p. redisAsyncCommand hi (async_freeing K h n) args p = None)"

fun null_replies ::
    "('r, 'p) dpdk \<Rightarrow>
     (v_db_cb \<Rightarrow> int \<Rightarrow> v_db_reply option \<Rightarrow> ('r, 'p, 'h, 'a) db_st_scheme \<Rightarrow> ('r, 'p, 'h, 'a) db_st_scheme) \<Rightarrow>
     (nat \<Rightarrow> 'h) \<Rightarrow> nat \<Rightarrow> nat \<Rightarrow> ptr list \<Rightarrow> ('r, 'p, 'h, 'a) db_st_scheme \<Rightarrow> ('r, 'p, 'h, 'a) db_st_scheme" where
  "null_replies D cc at shard n [] w = w"
| "null_replies D cc at shard n (p # ps) w =
     null_replies D cc at shard (Suc n) ps
       (on_reply D cc H_null p (w\<lparr>g_ctx := (g_ctx w)(shard := Some (at (Suc n)))\<rparr>))"

definition async_free ::
    "('r, 'p) dpdk \<Rightarrow>
     (v_db_cb \<Rightarrow> int \<Rightarrow> v_db_reply option \<Rightarrow> ('r, 'p, 'h, 'a) db_st_scheme \<Rightarrow> ('r, 'p, 'h, 'a) db_st_scheme) \<Rightarrow>
     'h hiredis_close \<Rightarrow> nat \<Rightarrow> 'h \<Rightarrow> ('r, 'p, 'h, 'a) db_st_scheme \<Rightarrow> ('r, 'p, 'h, 'a) db_st_scheme" where
  "async_free D cc K shard h w =
     (let w = w\<lparr>g_ctx := (g_ctx w)(shard := Some (async_freeing K h 0))\<rparr>;
          w = null_replies D cc (async_freeing K h) shard 0 (async_pending K h) w
      in if async_connected K h then disconnect_cb shard w else w)"

definition v_stub_db_test_force_reconnect ::
    "('r, 'p) dpdk \<Rightarrow>
     (v_db_cb \<Rightarrow> int \<Rightarrow> v_db_reply option \<Rightarrow> ('r, 'p, 'h, 'a) db_st_scheme \<Rightarrow> ('r, 'p, 'h, 'a) db_st_scheme) \<Rightarrow>
     'h hiredis \<Rightarrow> 'h hiredis_close \<Rightarrow> (string \<Rightarrow> string option) \<Rightarrow> u8 \<Rightarrow>
     ('r, 'p, 'h, 'a) db_st_scheme \<Rightarrow> int \<times> ('r, 'p, 'h, 'a) db_st_scheme" where
  "v_stub_db_test_force_reconnect D cc hi K ge shard w =
     (if V_STUB_DB_SHARDS \<le> unat shard then (RET_CODE_ERR, w)
      else let w = (case g_ctx w (unat shard) of None \<Rightarrow> w | Some h \<Rightarrow> async_free D cc K (unat shard) h w)
           in shard_connect hi ge (unat shard) w)"

fun close_shards ::
    "('r, 'p) dpdk \<Rightarrow>
     (v_db_cb \<Rightarrow> int \<Rightarrow> v_db_reply option \<Rightarrow> ('r, 'p, 'h, 'a) db_st_scheme \<Rightarrow> ('r, 'p, 'h, 'a) db_st_scheme) \<Rightarrow>
     'h hiredis_close \<Rightarrow> nat list \<Rightarrow> ('r, 'p, 'h, 'a) db_st_scheme \<Rightarrow> ('r, 'p, 'h, 'a) db_st_scheme" where
  "close_shards D cc K [] w = w"
| "close_shards D cc K (i # is) w =
     close_shards D cc K is
       (case g_ctx w i of
          None \<Rightarrow> w
        | Some h \<Rightarrow> let w = async_free D cc K i h w in w\<lparr>g_ctx := (g_ctx w)(i := None)\<rparr>)"

definition v_port_db_fini ::
    "('r, 'p) dpdk \<Rightarrow>
     (v_db_cb \<Rightarrow> int \<Rightarrow> v_db_reply option \<Rightarrow> ('r, 'p, 'h, 'a) db_st_scheme \<Rightarrow> ('r, 'p, 'h, 'a) db_st_scheme) \<Rightarrow>
     'h hiredis_close \<Rightarrow> ('r, 'p, 'h, 'a) db_st_scheme \<Rightarrow> ('r, 'p, 'h, 'a) db_st_scheme" where
  "v_port_db_fini D cc K w =
     (close_shards D cc K [0 ..< V_STUB_DB_SHARDS] w)\<lparr>g_db_pool := None, g_base := False\<rparr>"

definition v_port_db_shard_of :: "string \<Rightarrow> u8" where
  "v_port_db_shard_of key =
     of_nat (unat (fnv1a (bytes_of_chars (takeWhile (\<lambda>c. c \<noteq> CHR 0x00) key))) mod V_STUB_DB_SHARDS)"

definition v_port_db_shard_count :: int where
  "v_port_db_shard_count = int V_STUB_DB_SHARDS"

subsection \<open>What the conversion gives\<close>

fun scalar_reply :: "hreply \<Rightarrow> v_db_reply" where
  "scalar_reply H_null = Reply_Nil"
| "scalar_reply H_nil = Reply_Nil"
| "scalar_reply (H_status s) = Reply_Status s"
| "scalar_reply (H_error s) = Reply_Error s"
| "scalar_reply (H_integer i) = Reply_Integer i"
| "scalar_reply (H_string s) = Reply_String s"
| "scalar_reply (H_array rs) = Reply_Array []"
| "scalar_reply H_other = Reply_Error ''unsupported reply type''"

fun is_array :: "hreply \<Rightarrow> bool" where
  "is_array (H_array rs) = True"
| "is_array _ = False"

text \<open>The reply a callback should see: the hiredis reply, with arrays one level deep.\<close>

fun spec_reply :: "hreply \<Rightarrow> v_db_reply" where
  "spec_reply (H_array rs) = Reply_Array (map scalar_reply rs)"
| "spec_reply r = scalar_reply r"

definition flat_reply :: "hreply \<Rightarrow> bool" where
  "flat_reply r = (case r of
     H_array rs \<Rightarrow> list_all (\<lambda>x. \<not> is_array x) rs \<and> length rs < V_STUB_DB_REPLY_SCRATCH_CAP
   | _ \<Rightarrow> True)"

lemma convert_scalar:
  assumes "\<not> is_array r" and "u < V_STUB_DB_REPLY_SCRATCH_CAP"
  obtains nd where "convert_reply r (g, u) = (Some u, g[u := nd], Suc u)" "node_flat nd = scalar_reply r"
  using assms by (cases r) auto

lemma convert_array:
  "u < V_STUB_DB_REPLY_SCRATCH_CAP \<Longrightarrow>
     convert_reply (H_array rs) (g, u) =
       (Some u, convert_elements rs (g[u := N_array (if rs = [] then 0 else Suc u) (length rs)], Suc u))"
  by simp

declare convert_reply.simps [simp del]

lemma convert_elements_flat:
  assumes "list_all (\<lambda>x. \<not> is_array x) rs" and "u + length rs \<le> V_STUB_DB_REPLY_SCRATCH_CAP"
    and "length g = V_STUB_DB_REPLY_SCRATCH_CAP"
  shows "\<exists>g'. convert_elements rs (g, u) = (g', u + length rs) \<and> length g' = length g \<and>
    (\<forall>i < u. g' ! i = g ! i) \<and> (\<forall>j < length rs. node_flat (g' ! (u + j)) = scalar_reply (rs ! j))"
  using assms
proof (induction rs arbitrary: g u)
  case Nil
  then show ?case by simp
next
  case (Cons r rs)
  from Cons.prems have "\<not> is_array r" "u < V_STUB_DB_REPLY_SCRATCH_CAP" by auto
  then obtain nd where c: "convert_reply r (g, u) = (Some u, g[u := nd], Suc u)"
    and nd: "node_flat nd = scalar_reply r"
    by (rule convert_scalar)
  from Cons.IH [of "Suc u" "g[u := nd]"] Cons.prems obtain g' where
    g': "convert_elements rs (g[u := nd], Suc u) = (g', Suc u + length rs)" "length g' = length g"
    "\<forall>i < Suc u. g' ! i = g[u := nd] ! i"
    "\<forall>j < length rs. node_flat (g' ! (Suc u + j)) = scalar_reply (rs ! j)"
    by auto
  have "node_flat (g' ! (u + j)) = scalar_reply ((r # rs) ! j)" if "j < Suc (length rs)" for j
    using g'(3,4) nd that \<open>u < V_STUB_DB_REPLY_SCRATCH_CAP\<close> Cons.prems(3) by (cases j) auto
  with c g' show ?case by (intro exI [of _ g']) auto
qed

lemma convert_flat:
  assumes g: "length g = V_STUB_DB_REPLY_SCRATCH_CAP" and r: "flat_reply r"
  obtains g' used where "convert_reply r (g, 0) = (Some 0, g', used)" "reply_at g' 0 = spec_reply r"
    "length g' = V_STUB_DB_REPLY_SCRATCH_CAP"
proof (cases "is_array r")
  case False
  have "0 < V_STUB_DB_REPLY_SCRATCH_CAP" by (simp add: V_STUB_DB_REPLY_SCRATCH_CAP_def)
  with False obtain nd where c: "convert_reply r (g, 0) = (Some 0, g[0 := nd], Suc 0)"
    "node_flat nd = scalar_reply r"
    by (rule convert_scalar)
  with False g have r0: "reply_at (g[0 := nd]) 0 = spec_reply r"
    by (cases r; cases nd) (auto simp: reply_at_def node_at_def V_STUB_DB_REPLY_SCRATCH_CAP_def)
  show ?thesis
    by (rule that [OF c(1) r0]) (simp add: g)
next
  case True
  then obtain rs where rs: "r = H_array rs" by (cases r) auto
  define e where "e = (if rs = [] then 0 else Suc 0)"
  from r rs have flat: "list_all (\<lambda>x. \<not> is_array x) rs" "1 + length rs \<le> V_STUB_DB_REPLY_SCRATCH_CAP"
    by (auto simp: flat_reply_def)
  from convert_elements_flat [OF this, of "g[0 := N_array e (length rs)]"] g obtain g' where
    g': "convert_elements rs (g[0 := N_array e (length rs)], Suc 0) = (g', Suc (length rs))"
    "length g' = V_STUB_DB_REPLY_SCRATCH_CAP" "g' ! 0 = N_array e (length rs)"
    "\<forall>j < length rs. node_flat (g' ! Suc j) = scalar_reply (rs ! j)"
    by (auto simp: V_STUB_DB_REPLY_SCRATCH_CAP_def)
  have "reply_at g' 0 = Reply_Array (map (\<lambda>j. scalar_reply (rs ! j)) [0 ..< length rs])"
    using g' flat(2) by (auto simp: reply_at_def node_at_def e_def V_STUB_DB_REPLY_SCRATCH_CAP_def)
  then have "reply_at g' 0 = spec_reply r"
    by (metis map_nth map_map comp_def rs spec_reply.simps(1) map_cong)
  moreover have "convert_reply r (g, 0) = (Some 0, g', Suc (length rs))"
    using convert_array [of 0 rs g] g'(1) rs by (simp add: e_def V_STUB_DB_REPLY_SCRATCH_CAP_def)
  ultimately show ?thesis using that g'(2) by blast
qed

subsection \<open>Ownership of the pending-call objects\<close>

definition waits :: "('h \<Rightarrow> (string list \<times> ptr) list) \<Rightarrow> ('r, 'p, 'h, 'a) db_st_scheme \<Rightarrow> nat \<Rightarrow> ptr list" where
  "waits waiting w s = (case g_ctx w s of None \<Rightarrow> [] | Some h \<Rightarrow> map snd (waiting h))"

text \<open>
  Every pending-call object is free, or waits for its reply on exactly one connection, or is
  held (\<open>H\<close>): its reply is being delivered.
\<close>

definition db_inv ::
    "('r, 'p) dpdk \<Rightarrow> ('p \<Rightarrow> ptr set) \<Rightarrow> ('h \<Rightarrow> (string list \<times> ptr) list) \<Rightarrow> ptr set \<Rightarrow> ptr set \<Rightarrow>
     ('r, 'p, 'h, 'a) db_st_scheme \<Rightarrow> bool" where
  "db_inv D free waiting A H w \<longleftrightarrow>
     owns D free A ((\<Union>s < V_STUB_DB_SHARDS. set (waits waiting w s)) \<union> H) (g_db_pool w) \<and>
     (\<forall>s < V_STUB_DB_SHARDS. distinct (waits waiting w s) \<and> set (waits waiting w s) \<inter> H = {}) \<and>
     (\<forall>s < V_STUB_DB_SHARDS. \<forall>t < V_STUB_DB_SHARDS. s \<noteq> t \<longrightarrow>
        set (waits waiting w s) \<inter> set (waits waiting w t) = {})"

lemma db_inv_release:
  assumes "db_inv D free waiting A (insert p H) w" and "p \<notin> H"
  shows "db_inv D free waiting A H (w\<lparr>g_db_pool := pool_put D p (g_db_pool w)\<rparr>)"
proof -
  let ?W = "(\<Union>s < V_STUB_DB_SHARDS. set (waits waiting w s))"
  have "p \<notin> ?W \<union> H" "owns D free A (insert p (?W \<union> H)) (g_db_pool w)"
    using assms by (auto simp: db_inv_def)
  then have "owns D free A (?W \<union> H) (pool_put D p (g_db_pool w))"
    by (rule owns_put [rotated])
  with assms(1) show ?thesis
    by (simp add: db_inv_def waits_def)
qed

lemma db_pending_get_inv:
  assumes i: "db_inv D free waiting A H w" and g: "db_pending_get D cb w = Some (p, w1)"
  shows "p \<notin> H" "db_inv D free waiting A (insert p H) w1" "g_ctx w1 = g_ctx w"
    "db_pending_at w1 p = \<lparr>pend_cb = cb\<rparr>" "p \<in> A"
proof -
  let ?W = "(\<Union>s < V_STUB_DB_SHARDS. set (waits waiting w s))"
  from g obtain pool where pool: "pool_get D (g_db_pool w) = Some (p, pool)"
    and w1: "w1 = w\<lparr>g_db_pool := Some pool, db_pending_at := (db_pending_at w)(p := \<lparr>pend_cb = cb\<rparr>)\<rparr>"
    by (auto simp: db_pending_get_def split: option.splits)
  have "owns D free A (?W \<union> H) (g_db_pool w)" using i by (simp add: db_inv_def)
  note get = owns_get [OF this pool]
  have waits: "waits waiting w1 = waits waiting w" by (rule ext) (simp add: waits_def w1)
  have pool1: "g_db_pool w1 = Some pool" by (simp add: w1)
  from get(2) show "p \<notin> H" by simp
  show "db_inv D free waiting A (insert p H) w1"
    using i get pool1 by (auto simp: db_inv_def waits)
  show "g_ctx w1 = g_ctx w" "db_pending_at w1 p = \<lparr>pend_cb = cb\<rparr>" by (simp_all add: w1)
  from get(1) show "p \<in> A" .
qed

text \<open>The object moves from the running code to the connection's queue.\<close>

lemma db_inv_sent:
  assumes i: "db_inv D free waiting A (insert p H) w" and "p \<notin> H"
    and c: "g_ctx w s = Some h" "s < V_STUB_DB_SHARDS" and h': "waiting h' = waiting h @ [(args, p)]"
  shows "db_inv D free waiting A H (w\<lparr>g_ctx := (g_ctx w)(s := Some h')\<rparr>)"
proof -
  let ?w' = "w\<lparr>g_ctx := (g_ctx w)(s := Some h')\<rparr>"
  have waits: "waits waiting ?w' t = (if t = s then waits waiting w s @ [p] else waits waiting w t)" for t
    using c h' by (simp add: waits_def)
  then have "(\<Union>t < V_STUB_DB_SHARDS. set (waits waiting ?w' t)) =
      insert p (\<Union>t < V_STUB_DB_SHARDS. set (waits waiting w t))"
    using c(2) by (auto split: if_splits)
  then show ?thesis
    using i assms(2) by (auto simp: db_inv_def waits split: if_splits)
qed

lemma db_cmd_cases:
  assumes l: "hiredis_laws hi waiting" and i: "db_inv D free waiting A H w"
    and c: "v_port_db_cmd D hi shard cb args w = (rc, w')"
  obtains (failed) "rc = RET_CODE_ERR" "db_inv D free waiting A H w'" "waits waiting w' = waits waiting w"
  | (sent) h h' p where "rc = RET_CODE_OK" "db_inv D free waiting A H w'"
      "unat shard < V_STUB_DB_SHARDS" "g_ctx w (unat shard) = Some h"
      "g_ctx w' = (g_ctx w)(unat shard := Some h')" "waiting h' = waiting h @ [(args, p)]"
      "db_pending_at w' p = \<lparr>pend_cb = Some cb\<rparr>" "p \<in> A" "p \<notin> H"
proof (cases "V_STUB_DB_SHARDS \<le> unat shard \<or> g_ctx w (unat shard) = None \<or> db_pending_get D (Some cb) w = None")
  case True
  then have "rc = RET_CODE_ERR" "w' = w"
    using c by (auto simp: v_port_db_cmd_def split: if_splits option.splits)
  with i show ?thesis using failed by simp
next
  case False
  then obtain h p w1 where s: "unat shard < V_STUB_DB_SHARDS" and h: "g_ctx w (unat shard) = Some h"
    and g: "db_pending_get D (Some cb) w = Some (p, w1)"
    by (auto simp: not_le)
  note get = db_pending_get_inv [OF i g]
  show ?thesis
  proof (cases "redisAsyncCommand hi h args p")
    case None
    with c s h g have r: "rc = RET_CODE_ERR" "w' = w1\<lparr>g_db_pool := pool_put D p (g_db_pool w1)\<rparr>"
      by (auto simp: v_port_db_cmd_def)
    have "waits waiting w' = waits waiting w"
      by (rule ext) (simp add: r waits_def get(3))
    with r db_inv_release [OF get(2,1)] show ?thesis using failed by simp
  next
    case (Some h')
    with c s h g have r: "rc = RET_CODE_OK" "w' = w1\<lparr>g_ctx := (g_ctx w1)(unat shard := Some h')\<rparr>"
      by (auto simp: v_port_db_cmd_def)
    have h': "waiting h' = waiting h @ [(args, p)]"
      using l Some by (simp add: hiredis_laws_def)
    with sent [OF r(1) _ s h _ h', of] show ?thesis
      using r(2) get db_inv_sent [OF get(2,1), of "unat shard" h h' args] s h by auto
  qed
qed

lemma on_reply_flat:
  assumes "length (g_scratch w) = V_STUB_DB_REPLY_SCRATCH_CAP" and "flat_reply r"
    and "pend_cb (db_pending_at w p) = Some cb"
  obtains g used where "length g = V_STUB_DB_REPLY_SCRATCH_CAP"
    "on_reply D cc r p w =
      (let w1 = w\<lparr>g_scratch := g, g_scratch_used := used\<rparr>;
           w2 = (if r = H_null then cc cb RET_CODE_ERR None w1
                 else cc cb RET_CODE_OK (Some (spec_reply r)) w1)
       in w2\<lparr>g_db_pool := pool_put D p (g_db_pool w2)\<rparr>)"
proof (cases "r = H_null")
  case True
  with assms show ?thesis
    by (intro that [of "g_scratch w" 0]) (simp_all add: on_reply_def)
next
  case False
  obtain g' used where "convert_reply r (g_scratch w, 0) = (Some 0, g', used)"
    "reply_at g' 0 = spec_reply r" "length g' = V_STUB_DB_REPLY_SCRATCH_CAP"
    using assms(1,2) by (rule convert_flat)
  with False assms(3) show ?thesis
    by (intro that [of g' used]) (simp_all add: on_reply_def)
qed

text \<open>A command writes the pending pool, the pending objects and the connection, nothing else.\<close>

lemma db_cmd_frame:
  assumes "\<And>w a. f (w\<lparr>g_db_pool := a\<rparr>) = f w" "\<And>w a. f (w\<lparr>db_pending_at := a\<rparr>) = f w"
    "\<And>w a. f (w\<lparr>g_ctx := a\<rparr>) = f w"
  shows "f (snd (v_port_db_cmd D hi shard cb args w)) = f w"
  using assms by (auto simp: v_port_db_cmd_def db_pending_get_def split: option.split)

lemma db_cmd_db_frame [frame_simps]:
  "g_scratch (snd (v_port_db_cmd D hi shard cb args w)) = g_scratch w"
  "g_base (snd (v_port_db_cmd D hi shard cb args w)) = g_base w"
  "g_rx_ring (snd (v_port_db_cmd D hi shard cb args w)) = g_rx_ring w"
  "g_tx_ring (snd (v_port_db_cmd D hi shard cb args w)) = g_tx_ring w"
  "g_msg_pool (snd (v_port_db_cmd D hi shard cb args w)) = g_msg_pool w"
  "msg_at (snd (v_port_db_cmd D hi shard cb args w)) = msg_at w"
  by (rule db_cmd_frame; simp)+

text \<open>The step from \<open>w\<close> to \<open>w'\<close> appended one command, with its callback, to a connection.\<close>

definition queued ::
    "('h \<Rightarrow> (string list \<times> ptr) list) \<Rightarrow> nat \<Rightarrow> string list \<Rightarrow> v_db_cb \<Rightarrow>
     ('r, 'p, 'h, 'a) db_st_scheme \<Rightarrow> ('r, 'p, 'h, 'a) db_st_scheme \<Rightarrow> bool" where
  "queued waiting shard args cb w w' \<longleftrightarrow>
     (\<exists>h h' q. g_ctx w shard = Some h \<and> g_ctx w' = (g_ctx w)(shard := Some h') \<and>
        waiting h' = waiting h @ [(args, q)] \<and> pend_cb (db_pending_at w' q) = Some cb)"

lemma db_cmd_queued:
  assumes "hiredis_laws hi waiting" and "v_port_db_cmd D hi shard cb args w = (RET_CODE_OK, w')"
  shows "queued waiting (unat shard) args cb w w'"
proof -
  from assms(2) obtain h p w1 h' where h: "g_ctx w (unat shard) = Some h"
    and g: "db_pending_get D (Some cb) w = Some (p, w1)" and s: "redisAsyncCommand hi h args p = Some h'"
    and w': "w' = w1\<lparr>g_ctx := (g_ctx w1)(unat shard := Some h')\<rparr>"
    by (auto simp: v_port_db_cmd_def split: if_splits option.splits)
  have w1: "g_ctx w1 = g_ctx w" "db_pending_at w1 p = \<lparr>pend_cb = Some cb\<rparr>"
    using g by (auto simp: db_pending_get_def split: option.splits)
  have "waiting h' = waiting h @ [(args, p)]" using assms(1) s by (simp add: hiredis_laws_def)
  with h w1 show ?thesis by (auto simp: queued_def w')
qed

subsection \<open>Properties\<close>

text \<open>
  A command is either refused, and then nothing waits that did not wait before, or it
  joins the queue of its shard's connection together with a fresh pending object that
  records its callback. Either way every pending object stays free, waiting or held, in
  exactly one of these places: no path of the dispatch leaks one.
\<close>

lemma db_cmd_conserves_pending:
  assumes "hiredis_laws hi waiting" and "db_inv D free waiting A H w"
    and "v_port_db_cmd D hi shard cb args w = (rc, w')"
  shows "db_inv D free waiting A H w' \<and>
    (if rc = RET_CODE_OK
     then \<exists>h h' p. g_ctx w (unat shard) = Some h \<and> g_ctx w' = (g_ctx w)(unat shard := Some h') \<and>
            waiting h' = waiting h @ [(args, p)] \<and> db_pending_at w' p = \<lparr>pend_cb = Some cb\<rparr>
     else rc = RET_CODE_ERR \<and> waits waiting w' = waits waiting w)"
  using assms by (cases rule: db_cmd_cases) auto

definition list_hiredis :: "(string list \<times> ptr) list hiredis" where
  "list_hiredis =
     \<lparr>redisAsyncConnect = (\<lambda>_ _ _. Some []), redisAsyncCommand = (\<lambda>h args p. Some (h @ [(args, p)]))\<rparr>"

lemma list_hiredis_laws: "hiredis_laws list_hiredis (\<lambda>h. h)"
  by (simp add: hiredis_laws_def list_hiredis_def)

definition demo_db :: "(nat \<times> ptr list, ptr list, (string list \<times> ptr) list) db_st" where
  "demo_db =
     \<lparr>g_rx_ring = Some (4, []), g_tx_ring = Some (4, []), g_msg_pool = Some [1, 2, 3],
      msg_at = (\<lambda>_. \<lparr>msg_buf = replicate 2048 0, msg_len = 0, msg_peer = zero_sockaddr\<rparr>),
      g_base = True, g_ctx = (\<lambda>s. if s < V_STUB_DB_SHARDS then Some [] else None),
      g_db_pool = Some [10, 11, 12], db_pending_at = (\<lambda>_. \<lparr>pend_cb = None\<rparr>),
      g_reconnect_cb = True, g_scratch = replicate V_STUB_DB_REPLY_SCRATCH_CAP N_nil, g_scratch_used = 0\<rparr>"

lemma demo_db_inv: "db_inv list_dpdk set (\<lambda>h. h) {10, 11, 12} {} demo_db"
  by (auto simp: db_inv_def owns_def waits_def demo_db_def list_pool_laws)

lemma db_cmd_conserves_pending_instance:
  "\<exists>rc w'. v_port_db_cmd list_dpdk list_hiredis 2 Store_ack_cb [''GET'', ''k''] demo_db = (rc, w') \<and>
     db_inv list_dpdk set (\<lambda>h. h) {10, 11, 12} {} w'"
proof -
  obtain rc w' where c: "v_port_db_cmd list_dpdk list_hiredis 2 Store_ack_cb [''GET'', ''k''] demo_db = (rc, w')"
    by fastforce
  from db_cmd_conserves_pending [OF list_hiredis_laws demo_db_inv c] c show ?thesis by blast
qed

text \<open>
  C24: a reply is delivered once and as it was sent. For a reply that is a scalar or an array
  of scalars that fits the arena (every reply the program's commands and scripts can get),
  the callback recorded for the call runs exactly once, with \<^verbatim>\<open>RET_CODE_OK\<close> and the reply the
  server sent; for a lost connection it runs once with \<^verbatim>\<open>RET_CODE_ERR\<close> and no reply. Then the
  pending object goes back to its pool.
\<close>

theorem on_reply_delivers:
  assumes "length (g_scratch w) = V_STUB_DB_REPLY_SCRATCH_CAP" and "flat_reply r"
    and "pend_cb (db_pending_at w p) = Some cb"
  shows "\<exists>g used. length g = V_STUB_DB_REPLY_SCRATCH_CAP \<and>
    on_reply D cc r p w =
      (let w1 = w\<lparr>g_scratch := g, g_scratch_used := used\<rparr>;
           w2 = (if r = H_null then cc cb RET_CODE_ERR None w1
                 else cc cb RET_CODE_OK (Some (spec_reply r)) w1)
       in w2\<lparr>g_db_pool := pool_put D p (g_db_pool w2)\<rparr>)"
  using assms by (rule on_reply_flat [where D = D and cc = cc]) blast

theorem on_reply_delivers_witness:
  "\<not> g_base (on_reply list_dpdk (\<lambda>cb st r w. if r = Some (Reply_Array [Reply_Integer 4, Reply_Nil]) then w\<lparr>g_base := False\<rparr> else w)
       (H_array [H_integer 4, H_nil]) 10 (demo_db\<lparr>db_pending_at := (\<lambda>_. \<lparr>pend_cb = Some Store_ack_cb\<rparr>)\<rparr>))"
proof -
  let ?w = "demo_db\<lparr>db_pending_at := (\<lambda>_. \<lparr>pend_cb = Some Store_ack_cb\<rparr>)\<rparr>"
  let ?r = "H_array [H_integer 4, H_nil]"
  have "length (g_scratch ?w) = V_STUB_DB_REPLY_SCRATCH_CAP" "flat_reply ?r"
    "pend_cb (db_pending_at ?w 10) = Some Store_ack_cb"
    by (simp_all add: demo_db_def flat_reply_def V_STUB_DB_REPLY_SCRATCH_CAP_def)
  from on_reply_delivers [OF this, where D = list_dpdk and
      cc = "\<lambda>cb st r w. if r = Some (Reply_Array [Reply_Integer 4, Reply_Nil]) then w\<lparr>g_base := False\<rparr> else w"]
  show ?thesis by (auto simp: Let_def)
qed

text \<open>
  Beyond that shape the arena gives a wrong answer: the elements of a nested array are placed
  where the outer array's next element is read.
\<close>

lemma nested_array_misread:
  "map_option (\<lambda>i. reply_at (fst (snd (convert_reply r (g, 0)))) i) (fst (convert_reply r (g, 0))) =
     Some (Reply_Array [Reply_Array [], Reply_Integer 1])"
  if "length g = V_STUB_DB_REPLY_SCRATCH_CAP" and "r = H_array [H_array [H_integer 1], H_integer 2]"
  using that
  by (simp add: convert_reply.simps V_STUB_DB_REPLY_SCRATCH_CAP_def reply_at_def node_at_def upt_rec)

end
