(* ===== verification/Event_loop.thy ===== *)
theory Event_loop
  imports V_stub_db
begin

section \<open>The server and the event loop\<close>

text \<open>
  The other end of a connection. \<open>serve\<close> is a Redis server as hiredis shows it: a command's
  argument vector in, a reply and the server's new state out. \<open>next_reply\<close> is hiredis reading
  a connection: it matches the next reply with the oldest command that waits for one
  (\<open>next_reply_laws\<close>). A \<open>pump\<close> of a shard is one such exchange: the server executes the oldest
  waiting command of that connection and \<^verbatim>\<open>on_reply\<close> runs its callback.
\<close>

type_synonym 's server = "'s \<Rightarrow> string list \<Rightarrow> hreply \<times> 's"
type_synonym 'h reader = "'h \<Rightarrow> ((string list \<times> ptr) \<times> 'h) option"

definition next_reply_laws :: "'h reader \<Rightarrow> ('h \<Rightarrow> (string list \<times> ptr) list) \<Rightarrow> bool" where
  "next_reply_laws nr waiting \<longleftrightarrow>
     (\<forall>h. case nr h of None \<Rightarrow> waiting h = [] | Some (x, h') \<Rightarrow> waiting h = x # waiting h')"

definition list_reader :: "(string list \<times> ptr) list reader" where
  "list_reader h = (case h of [] \<Rightarrow> None | x # h' \<Rightarrow> Some (x, h'))"

lemma list_reader_laws: "next_reply_laws list_reader (\<lambda>h. h)"
  by (simp add: next_reply_laws_def list_reader_def split: list.split)

lemma next_replyE:
  assumes "next_reply_laws nr waiting" and "waiting h = x # rest"
  obtains h' where "nr h = Some (x, h')" "waiting h' = rest"
proof -
  from assms(1) have "case nr h of None \<Rightarrow> waiting h = [] | Some (x, h') \<Rightarrow> waiting h = x # waiting h'"
    unfolding next_reply_laws_def by blast
  with assms(2) show ?thesis by (auto split: option.splits intro: that)
qed

definition pump ::
    "('r, 'p) dpdk \<Rightarrow> 'h reader \<Rightarrow> 's server \<Rightarrow>
     (v_db_cb \<Rightarrow> int \<Rightarrow> v_db_reply option \<Rightarrow> ('r, 'p, 'h, 'a) db_st_scheme \<Rightarrow> ('r, 'p, 'h, 'a) db_st_scheme) \<Rightarrow>
     nat \<Rightarrow> 's \<times> ('r, 'p, 'h, 'a) db_st_scheme \<Rightarrow> 's \<times> ('r, 'p, 'h, 'a) db_st_scheme" where
  "pump D nr serve cc shard sw =
     (case sw of (s, w) \<Rightarrow>
        (case g_ctx w shard of
           None \<Rightarrow> (s, w)
         | Some h \<Rightarrow>
             (case nr h of
                None \<Rightarrow> (s, w)
              | Some ((args, p), h') \<Rightarrow>
                  let (r, s) = serve s args
                  in (s, on_reply D cc r p (w\<lparr>g_ctx := (g_ctx w)(shard := Some h')\<rparr>)))))"

text \<open>The pending object leaves the queue and is held while its callback runs.\<close>

lemma db_inv_pop:
  assumes i: "db_inv D free waiting A H w" and c: "g_ctx w s = Some h" "s < V_STUB_DB_SHARDS"
    and h: "waiting h = (args, p) # rest" "waiting h' = rest"
  shows "p \<notin> H" "db_inv D free waiting A (insert p H) (w\<lparr>g_ctx := (g_ctx w)(s := Some h')\<rparr>)"
proof -
  let ?w' = "w\<lparr>g_ctx := (g_ctx w)(s := Some h')\<rparr>"
  have ws: "waits waiting w s = p # waits waiting ?w' s" and wt: "t \<noteq> s \<Longrightarrow> waits waiting ?w' t = waits waiting w t" for t
    using c h by (simp_all add: waits_def)
  have sub: "set (waits waiting ?w' t) \<subseteq> set (waits waiting w t)" for t
    using ws wt by (cases "t = s") auto
  from i c(2) ws show "p \<notin> H" by (auto simp: db_inv_def)
  have un: "(\<Union>t < V_STUB_DB_SHARDS. set (waits waiting w t)) =
      insert p (\<Union>t < V_STUB_DB_SHARDS. set (waits waiting ?w' t))"
    using c(2) ws wt by (auto split: if_splits) (metis insert_iff list.simps(15) lessThan_iff)+
  have dis: "distinct (waits waiting w s)" "set (waits waiting w s) \<inter> H = {}"
    using i c(2) by (auto simp: db_inv_def)
  have p_out: "p \<notin> set (waits waiting ?w' t)" if "t < V_STUB_DB_SHARDS" for t
  proof (cases "t = s")
    case True
    then show ?thesis using dis(1) ws by simp
  next
    case False
    then have "set (waits waiting w s) \<inter> set (waits waiting w t) = {}"
      using i c(2) that by (simp add: db_inv_def)
    then show ?thesis using ws wt [OF False] by auto
  qed
  have "distinct (waits waiting ?w' t)" "set (waits waiting ?w' t) \<inter> H = {}" if "t < V_STUB_DB_SHARDS" for t
    using i that sub [of t] dis ws wt [of t] by (cases "t = s"; auto simp: db_inv_def)+
  moreover have "set (waits waiting ?w' t) \<inter> set (waits waiting ?w' u) = {}"
    if "t < V_STUB_DB_SHARDS" "u < V_STUB_DB_SHARDS" "t \<noteq> u" for t u
  proof -
    have "set (waits waiting w t) \<inter> set (waits waiting w u) = {}" using i that by (simp add: db_inv_def)
    with sub [of t] sub [of u] show ?thesis by blast
  qed
  moreover have "owns D free A ((\<Union>t < V_STUB_DB_SHARDS. set (waits waiting ?w' t)) \<union> insert p H) (g_db_pool ?w')"
    using i un by (simp add: db_inv_def)
  ultimately show "db_inv D free waiting A (insert p H) ?w'"
    using p_out by (simp add: db_inv_def)
qed

lemma db_inv_scratch [simp]:
  "db_inv D free waiting A H (w\<lparr>g_scratch := g, g_scratch_used := u\<rparr>) = db_inv D free waiting A H w"
  by (simp add: db_inv_def waits_def)

text \<open>One exchange, with the state \<open>wc\<close> in which the callback runs.\<close>

lemma pump_step:
  assumes nr: "next_reply_laws nr waiting" and i: "db_inv D free waiting A {} w" and s: "shard < V_STUB_DB_SHARDS"
    and c: "g_ctx w shard = Some h" "waiting h = (args, q) # rest"
    and l: "length (g_scratch w) = V_STUB_DB_REPLY_SCRATCH_CAP"
    and cb: "pend_cb (db_pending_at w q) = Some cb"
    and r: "serve srv args = (r, srv')" "flat_reply r" "r \<noteq> H_null"
  obtains h' g used where "waiting h' = rest" "length g = V_STUB_DB_REPLY_SCRATCH_CAP"
    "let wc = w\<lparr>g_ctx := (g_ctx w)(shard := Some h'), g_scratch := g, g_scratch_used := used\<rparr>;
         w2 = cc cb RET_CODE_OK (Some (spec_reply r)) wc
     in db_inv D free waiting A {q} wc \<and>
        pump D nr serve cc shard (srv, w) = (srv', w2\<lparr>g_db_pool := pool_put D q (g_db_pool w2)\<rparr>)"
proof -
  obtain h' where h': "nr h = Some ((args, q), h')" "waiting h' = rest"
    using nr c(2) by (rule next_replyE)
  let ?w = "w\<lparr>g_ctx := (g_ctx w)(shard := Some h')\<rparr>"
  have inv: "db_inv D free waiting A {q} ?w"
    using db_inv_pop(2) [OF i c(1) s c(2) h'(2)] by simp
  have "length (g_scratch ?w) = V_STUB_DB_REPLY_SCRATCH_CAP" "pend_cb (db_pending_at ?w q) = Some cb"
    using l cb by simp_all
  from this(1) r(2) this(2) obtain g used where g: "length g = V_STUB_DB_REPLY_SCRATCH_CAP"
    "on_reply D cc r q ?w =
      (let w1 = ?w\<lparr>g_scratch := g, g_scratch_used := used\<rparr>;
           w2 = (if r = H_null then cc cb RET_CODE_ERR None w1
                 else cc cb RET_CODE_OK (Some (spec_reply r)) w1)
       in w2\<lparr>g_db_pool := pool_put D q (g_db_pool w2)\<rparr>)"
    by (rule on_reply_flat)
  show ?thesis
    by (rule that [OF h'(2) g(1)]) (use inv g(2) h'(1) c(1) r in \<open>simp add: pump_def Let_def\<close>)
qed

end
