(* ===== verification/V_db_lua_scripts.thy ===== *)
theory V_db_lua_scripts
  imports Ports
begin

section \<open>The server-side Lua scripts and the versioned record they implement\<close>

text \<open>
  The three scripts of \<^verbatim>\<open>src/v_db_script/inc/v_db_lua_scripts.h\<close>, statement by statement,
  over an arbitrary Redis server \<open>call\<close>. \<^verbatim>\<open>redis.call\<close> aborts the script when the command
  fails, so it takes the rest of the script as a continuation; what was written before the
  failure stays written. Lua numbers are IEEE doubles: exact below \<open>2 ^ 53\<close>, rounded above.

  The second half is the contract the session scripts keep: the locale \<open>versioned_record\<close>
  (a record with a version, a compare-and-swap write and a compare-and-swap delete), what any
  sequence of such operations by any number of clients gives, and the interpretation of the
  locale on the scripts.
\<close>

subsection \<open>Lua numbers\<close>

fun bitlen :: "nat \<Rightarrow> nat" where
  "bitlen n = (if n = 0 then 0 else Suc (bitlen (n div 2)))"

declare bitlen.simps [simp del]

text \<open>Round to 53 significant bits, ties to even.\<close>

definition dbl :: "nat \<Rightarrow> nat" where
  "dbl n =
     (let e = bitlen n - 53; q = n div 2 ^ e; r = n mod 2 ^ e
      in (if 2 ^ e < 2 * r \<or> (2 * r = 2 ^ e \<and> odd q) then q + 1 else q) * 2 ^ e)"

definition dbl_int :: "int \<Rightarrow> int" where
  "dbl_int i = (if i < 0 then - int (dbl (nat (- i))) else int (dbl (nat i)))"

lemma bitlen_le: "n < 2 ^ k \<Longrightarrow> bitlen n \<le> k"
proof (induction k arbitrary: n)
  case 0
  then show ?case by (simp add: bitlen.simps)
next
  case (Suc k)
  have "bitlen (n div 2) \<le> k"
    using Suc.prems by (intro Suc.IH) simp
  then show ?case by (subst bitlen.simps) simp
qed

lemma dbl_exact [simp]: "n < 2 ^ 53 \<Longrightarrow> dbl n = n"
  using bitlen_le [of n 53] by (simp add: dbl_def)

lemma dbl_int_exact [simp]: "0 \<le> i \<Longrightarrow> i < 2 ^ 53 \<Longrightarrow> dbl_int i = i"
  by (simp add: dbl_int_def nat_less_iff)

text \<open>A string used as a number (arithmetic or \<^verbatim>\<open>tonumber\<close>); the program passes decimal digits.\<close>

definition lua_tonumber :: "string \<Rightarrow> nat option" where
  "lua_tonumber s = (if s \<noteq> [] \<and> list_all c_isdigit s then Some (dbl (dec_val s)) else None)"

lemma lua_tonumber_dec [simp]: "n < 2 ^ 53 \<Longrightarrow> lua_tonumber (dec n) = Some n"
  by (simp add: lua_tonumber_def list_all_iff dec_isdigit)

text \<open>\<^verbatim>\<open>tostring\<close> prints with \<^verbatim>\<open>%.14g\<close>: plain digits below \<open>10 ^ 14\<close>, an exponent above.\<close>

definition lua_exponent_form :: "nat \<Rightarrow> string" where
  "lua_exponent_form n =
     (let l = length (dec n); e = l - 14; q = n div 10 ^ e; r = n mod 10 ^ e;
          m = (if 10 ^ e < 2 * r \<or> (2 * r = 10 ^ e \<and> odd q) then q + 1 else q);
          x = length (dec m) + e - 1;
          ds = rev (dropWhile (\<lambda>c. c = CHR ''0'') (rev (dec m)))
      in hd ds # (if tl ds = [] then [] else CHR ''.'' # tl ds) @ ''e+'' @
         (if x < 10 then ''0'' else []) @ dec x)"

definition lua_tostring :: "int \<Rightarrow> string" where
  "lua_tostring i =
     (let n = nat (abs i); s = (if n < 10 ^ 14 then dec n else lua_exponent_form n)
      in if i < 0 then CHR ''-'' # s else s)"

lemma lua_tostring_small: "0 \<le> i \<Longrightarrow> i < 10 ^ 14 \<Longrightarrow> lua_tostring i = dec (nat i)"
  by (simp add: lua_tostring_def Let_def nat_less_iff)

subsection \<open>The scripts\<close>

definition redis_call ::
    "'db redis \<Rightarrow> string list \<Rightarrow> (v_db_reply \<Rightarrow> 'db \<Rightarrow> v_db_reply \<times> 'db) \<Rightarrow> 'db \<Rightarrow> v_db_reply \<times> 'db" where
  "redis_call call args cont db =
     (case call db args of (r, db') \<Rightarrow>
        (case r of Reply_Error e \<Rightarrow> (Reply_Error e, db') | _ \<Rightarrow> cont r db'))"

definition lua_nil_argument :: v_db_reply where
  "lua_nil_argument = Reply_Error ''ERR Lua redis lib command arguments must be strings or integers''"

definition lua_arith_error :: v_db_reply where
  "lua_arith_error = Reply_Error ''ERR attempt to perform arithmetic on a string value''"

text \<open>The tail shared by both branches: \<^verbatim>\<open>if ARGV[3] ~= '0' then EXPIRE end; return 1\<close>.\<close>

definition lua_expire_return ::
    "'db redis \<Rightarrow> string \<Rightarrow> string \<Rightarrow> 'db \<Rightarrow> v_db_reply \<times> 'db" where
  "lua_expire_return call k ttl db =
     (if ttl \<noteq> ''0''
      then redis_call call [''EXPIRE'', k, ttl] (\<lambda>_ db'. (Reply_Integer 1, db')) db
      else (Reply_Integer 1, db))"

definition V_LUA_SESS_CAS_WRITE ::
    "'db redis \<Rightarrow> string list \<Rightarrow> string list \<Rightarrow> 'db \<Rightarrow> v_db_reply \<times> 'db" where
  "V_LUA_SESS_CAS_WRITE call KEYS ARGV db = (case (KEYS, ARGV) of
     (k # _, expected # blob # ttl # _) \<Rightarrow>
       redis_call call [''HGET'', k, ''ver''] (\<lambda>v db.
         if expected = ''0'' then
           (if v \<noteq> Reply_Nil then (Reply_Integer 0, db)
            else redis_call call [''HSET'', k, ''ver'', ''1'', ''data'', blob]
                   (\<lambda>_. lua_expire_return call k ttl) db)
         else if v = Reply_Nil then (Reply_Integer (-1), db)
         else if v \<noteq> Reply_String expected then (Reply_Integer 0, db)
         else (case lua_tonumber (reply_str v) of
             None \<Rightarrow> (lua_arith_error, db)
           | Some n \<Rightarrow> redis_call call [''HSET'', k, ''ver'', dec (dbl (n + 1)), ''data'', blob]
                         (\<lambda>_. lua_expire_return call k ttl) db)) db
   | _ \<Rightarrow> (lua_nil_argument, db))"

definition V_LUA_SESS_DELETE ::
    "'db redis \<Rightarrow> string list \<Rightarrow> string list \<Rightarrow> 'db \<Rightarrow> v_db_reply \<times> 'db" where
  "V_LUA_SESS_DELETE call KEYS ARGV db = (case (KEYS, ARGV) of
     (k # _, expected # _) \<Rightarrow>
       redis_call call [''HGET'', k, ''ver''] (\<lambda>v db.
         if v = Reply_Nil then (Reply_Integer (-1), db)
         else if v \<noteq> Reply_String expected then (Reply_Integer 0, db)
         else redis_call call [''DEL'', k] (\<lambda>_ db. (Reply_Integer 1, db)) db) db
   | _ \<Rightarrow> (lua_nil_argument, db))"

text \<open>The \<^verbatim>\<open>for i = 1, n do ... break end\<close> loop that pops the free list into \<open>out\<close>.\<close>

fun lua_lpop_loop ::
    "'db redis \<Rightarrow> string \<Rightarrow> nat \<Rightarrow> string list \<Rightarrow> (string list \<Rightarrow> 'db \<Rightarrow> v_db_reply \<times> 'db) \<Rightarrow>
     'db \<Rightarrow> v_db_reply \<times> 'db" where
  "lua_lpop_loop call k 0 out cont db = cont out db"
| "lua_lpop_loop call k (Suc n) out cont db =
     redis_call call [''LPOP'', k] (\<lambda>id db.
       if id = Reply_Nil then cont out db
       else lua_lpop_loop call k n (out @ [reply_str id]) cont db) db"

text \<open>The end of the refill: a fresh range from the counter when nothing was popped.\<close>

definition lua_teid_finish ::
    "'db redis \<Rightarrow> string \<Rightarrow> string \<Rightarrow> string list \<Rightarrow> 'db \<Rightarrow> v_db_reply \<times> 'db" where
  "lua_teid_finish call next_key blk out db =
     (if out = [] then
        redis_call call [''INCRBY'', next_key, blk] (\<lambda>base db.
          case (base, lua_tonumber blk) of
            (Reply_Integer b, Some n) \<Rightarrow>
              (Reply_Array [Reply_String ''range'',
                            Reply_String (lua_tostring (dbl_int (dbl_int b - int n))),
                            Reply_String blk], db)
          | _ \<Rightarrow> (lua_arith_error, db)) db
      else (Reply_Array (Reply_String ''list'' # map Reply_String out), db))"

definition V_LUA_TEID_REFILL ::
    "'db redis \<Rightarrow> string list \<Rightarrow> string list \<Rightarrow> 'db \<Rightarrow> v_db_reply \<times> 'db" where
  "V_LUA_TEID_REFILL call KEYS ARGV db = (case (KEYS, ARGV) of
     (free_key # next_key # _, blk # flr # _) \<Rightarrow>
       redis_call call [''LLEN'', free_key] (\<lambda>len db.
         case (len, lua_tonumber flr) of
           (Reply_Integer l, Some f) \<Rightarrow>
             if int f < l
             then (case lua_tonumber blk of
                 None \<Rightarrow> (lua_arith_error, db)
               | Some n \<Rightarrow> lua_lpop_loop call free_key n [] (lua_teid_finish call next_key blk) db)
             else lua_teid_finish call next_key blk [] db
         | _ \<Rightarrow> (lua_arith_error, db)) db
   | _ \<Rightarrow> (lua_nil_argument, db))"

subsection \<open>What the session scripts do to one record\<close>

text \<open>
  A session record as the abstract store sees it: version, serialized session, time to live.
\<close>

definition sess_rec :: "keyspace \<Rightarrow> string \<Rightarrow> (nat \<times> string \<times> int option) option" where
  "sess_rec ks k = (case ks k of
     Some (RHash h, t) \<Rightarrow> (case (h ''ver'', h ''data'') of
         (Some v, Some d) \<Rightarrow> Some (dec_val v, d, t)
       | _ \<Rightarrow> None)
   | _ \<Rightarrow> None)"

text \<open>A key that only the scripts write holds nothing, or a hash with a positive version and data.\<close>

definition sess_wf :: "keyspace \<Rightarrow> string \<Rightarrow> bool" where
  "sess_wf ks k = (case ks k of
     None \<Rightarrow> True
   | Some (RHash h, t) \<Rightarrow> (case (h ''ver'', h ''data'') of
         (Some v, Some d) \<Rightarrow> 0 < dec_val v \<and> dec (dec_val v) = v
       | _ \<Rightarrow> False)
   | _ \<Rightarrow> False)"

fun new_ttl :: "int option \<Rightarrow> nat \<Rightarrow> int option" where
  "new_ttl old t = (if t = 0 then old else Some (int t))"

fun spec_cas_write ::
    "(nat \<times> string \<times> int option) option \<Rightarrow> nat \<Rightarrow> string \<Rightarrow> nat \<Rightarrow>
     int \<times> (nat \<times> string \<times> int option) option" where
  "spec_cas_write None expected blob ttl =
     (if expected = 0 then (1, Some (1, blob, new_ttl None ttl)) else (-1, None))"
| "spec_cas_write (Some (v, d, t)) expected blob ttl =
     (if expected = v then (1, Some (v + 1, blob, new_ttl t ttl)) else (0, Some (v, d, t)))"

fun spec_cas_delete ::
    "(nat \<times> string \<times> int option) option \<Rightarrow> nat \<Rightarrow> int \<times> (nat \<times> string \<times> int option) option" where
  "spec_cas_delete None expected = (-1, None)"
| "spec_cas_delete (Some (v, d, t)) expected =
     (if expected = v then (1, None) else (0, Some (v, d, t)))"

lemma sess_wf_cases:
  assumes "sess_wf ks k"
  obtains (absent) "ks k = None" "sess_rec ks k = None"
  | (present) h v d t where "ks k = Some (RHash h, t)" "h ''ver'' = Some (dec v)"
      "h ''data'' = Some d" "0 < v" "sess_rec ks k = Some (v, d, t)"
  using assms
  by (auto simp: sess_wf_def sess_rec_def split: option.splits rval.splits) (metis dec_val_dec)

text \<open>
  A command inside a script, read through the view: the reply and the next keyspace are the
  documented ones. With these as rewrite rules a script evaluates symbolically.
\<close>

lemma conforms_simps:
  assumes "redis_conforms call view" and "redis_spec (view db) args \<noteq> None"
  shows "fst (call db args) = fst (the (redis_spec (view db) args))"
    and "view (snd (call db args)) = snd (the (redis_spec (view db) args))"
  using assms unfolding redis_conforms_def by (metis option.collapse prod.collapse)+

lemma redis_call_alt:
  "redis_call call args cont db =
     (case fst (call db args) of
        Reply_Error e \<Rightarrow> (Reply_Error e, snd (call db args))
      | r \<Rightarrow> cont r (snd (call db args)))"
  by (cases "call db args") (auto simp: redis_call_def split: v_db_reply.split)

lemma hset_record:
  "redis_HSET ks [k, ''ver'', v, ''data'', b] =
     (case ks k of
        None \<Rightarrow> Some (Reply_Integer 2, ks(k \<mapsto> (RHash (Map.empty(''ver'' \<mapsto> v, ''data'' \<mapsto> b)), None)))
      | Some (RHash h, t) \<Rightarrow> Some (Reply_Integer (int (hash_new h [(''ver'', v), (''data'', b)])),
          ks(k \<mapsto> (RHash (h(''ver'' \<mapsto> v, ''data'' \<mapsto> b)), t)))
      | Some (RStr s, t) \<Rightarrow> Some (wrongtype, ks)
      | Some (RList l, t) \<Rightarrow> Some (wrongtype, ks))"
  by (simp add: redis_HSET_def hash_put_def hash_new_def split: option.split rval.split)

lemma expire_return:
  assumes c: "redis_conforms call view" and k: "view db k = Some (v, t)" and b: "ttl < 2 ^ 31"
  shows "fst (lua_expire_return call k (dec ttl) db) = Reply_Integer 1"
    and "view (snd (lua_expire_return call k (dec ttl) db)) = (view db)(k \<mapsto> (v, new_ttl t ttl))"
  using k b
  by (auto simp: lua_expire_return_def redis_call_alt conforms_simps [OF c] redis_EXPIRE_def fun_upd_idem)

lemmas script_simps = redis_call_alt redis_HGET_def redis_DEL_def hset_record

lemma cas_write_script:
  fixes blob :: string and k' :: string
  assumes c: "redis_conforms call view" and wf: "sess_wf (view db) k"
    and e: "expected + 1 < 2 ^ 53" and t: "ttl < 2 ^ 31"
  defines "res \<equiv> V_LUA_SESS_CAS_WRITE call [k] [dec expected, blob, dec ttl] db"
    and "spec \<equiv> spec_cas_write (sess_rec (view db) k) expected blob ttl"
  shows "fst res = Reply_Integer (fst spec)"
    and "sess_rec (view (snd res)) k = snd spec"
    and "sess_wf (view (snd res)) k"
    and "k' \<noteq> k \<Longrightarrow> view (snd res) k' = view db k'"
proof -
  note simps = V_LUA_SESS_CAS_WRITE_def script_simps conforms_simps [OF c] expire_return [OF c _ t]
  have "fst res = Reply_Integer (fst spec) \<and> sess_rec (view (snd res)) k = snd spec \<and>
      sess_wf (view (snd res)) k \<and> (k' \<noteq> k \<longrightarrow> view (snd res) k' = view db k')"
    using wf
  proof (cases rule: sess_wf_cases)
    case absent
    then show ?thesis
      unfolding res_def spec_def
      by (cases "expected = 0") (simp_all add: simps sess_rec_def sess_wf_def)
  next
    case (present h v d t0)
    then show ?thesis
      unfolding res_def spec_def using e
      by (cases "expected = 0"; cases "expected = v") (simp_all add: simps sess_rec_def sess_wf_def)
  qed
  then show "fst res = Reply_Integer (fst spec)" "sess_rec (view (snd res)) k = snd spec"
    "sess_wf (view (snd res)) k" "k' \<noteq> k \<Longrightarrow> view (snd res) k' = view db k'"
    by blast+
qed

lemma delete_script:
  fixes expected :: nat and k' :: string
  assumes c: "redis_conforms call view" and wf: "sess_wf (view db) k"
  defines "res \<equiv> V_LUA_SESS_DELETE call [k] [dec expected] db"
    and "spec \<equiv> spec_cas_delete (sess_rec (view db) k) expected"
  shows "fst res = Reply_Integer (fst spec)"
    and "sess_rec (view (snd res)) k = snd spec"
    and "sess_wf (view (snd res)) k"
    and "k' \<noteq> k \<Longrightarrow> view (snd res) k' = view db k'"
proof -
  note simps = V_LUA_SESS_DELETE_def script_simps conforms_simps [OF c]
  have "fst res = Reply_Integer (fst spec) \<and> sess_rec (view (snd res)) k = snd spec \<and>
      sess_wf (view (snd res)) k \<and> (k' \<noteq> k \<longrightarrow> view (snd res) k' = view db k')"
    using wf
  proof (cases rule: sess_wf_cases)
    case absent
    then show ?thesis
      unfolding res_def spec_def by (simp add: simps sess_rec_def sess_wf_def)
  next
    case (present h v d t0)
    then show ?thesis
      unfolding res_def spec_def
      by (cases "expected = v") (simp_all add: simps sess_rec_def sess_wf_def)
  qed
  then show "fst res = Reply_Integer (fst spec)" "sess_rec (view (snd res)) k = snd spec"
    "sess_wf (view (snd res)) k" "k' \<noteq> k \<Longrightarrow> view (snd res) k' = view db k'"
    by blast+
qed

subsection \<open>The contract of a versioned record\<close>

text \<open>
  Operations that expect a version: a write or a delete. \<open>run_ops\<close> runs a sequence of them,
  which is how the server sees any number of clients: it executes one script at a time, in
  some order. The winners are the operations that were answered with 1.
\<close>

datatype 'b vop = Write nat 'b | Delete nat

fun vop_expected :: "'b vop \<Rightarrow> nat" where
  "vop_expected (Write e b) = e"
| "vop_expected (Delete e) = e"

fun vop_apply :: "(nat \<times> 'b) option \<Rightarrow> 'b vop \<Rightarrow> (nat \<times> 'b) option" where
  "vop_apply (Some (v, d)) (Write e b) = Some (v + 1, b)"
| "vop_apply _ _ = None"

fun run_ops :: "('op \<Rightarrow> 's \<Rightarrow> v_db_reply \<times> 's) \<Rightarrow> 'op list \<Rightarrow> 's \<Rightarrow> v_db_reply list \<times> 's" where
  "run_ops exec [] s = ([], s)"
| "run_ops exec (x # xs) s =
     (let (r, s1) = exec x s; (rs, s2) = run_ops exec xs s1 in (r # rs, s2))"

definition winners :: "'op list \<Rightarrow> v_db_reply list \<Rightarrow> 'op list" where
  "winners xs rs = map fst (filter (\<lambda>(x, r). r = Reply_Integer 1) (zip xs rs))"

lemma winners_simps [simp]:
  "winners [] rs = []"
  "winners (x # xs) (r # rs) = (if r = Reply_Integer 1 then x # winners xs rs else winners xs rs)"
  by (simp_all add: winners_def)

locale versioned_record =
  fixes exec :: "'b vop \<Rightarrow> 's \<Rightarrow> v_db_reply \<times> 's"
    and record_of :: "'s \<Rightarrow> (nat \<times> 'b) option"
    and good :: "'s \<Rightarrow> bool"
    and limit :: nat
  assumes good_exec: "good s \<Longrightarrow> vop_expected x < limit \<Longrightarrow> good (snd (exec x s))"
    and positive: "good s \<Longrightarrow> record_of s = Some (v, d) \<Longrightarrow> 0 < v"
    and hit: "good s \<Longrightarrow> record_of s = Some (v, d) \<Longrightarrow> vop_expected x = v \<Longrightarrow> v < limit \<Longrightarrow>
      fst (exec x s) = Reply_Integer 1 \<and> record_of (snd (exec x s)) = vop_apply (record_of s) x"
    and miss: "good s \<Longrightarrow> record_of s = Some (v, d) \<Longrightarrow> vop_expected x \<noteq> v \<Longrightarrow> vop_expected x < limit \<Longrightarrow>
      fst (exec x s) = Reply_Integer 0 \<and> record_of (snd (exec x s)) = record_of s"
    and gone: "good s \<Longrightarrow> record_of s = None \<Longrightarrow> 0 < vop_expected x \<Longrightarrow> vop_expected x < limit \<Longrightarrow>
      fst (exec x s) = Reply_Integer (-1) \<and> record_of (snd (exec x s)) = None"
begin

lemma run_gone:
  assumes "good s" and "record_of s = None"
    and "\<And>x. x \<in> set xs \<Longrightarrow> 0 < vop_expected x \<and> vop_expected x < limit"
    and "run_ops exec xs s = (rs, s')"
  shows "winners xs rs = [] \<and> record_of s' = None \<and> set rs \<subseteq> {Reply_Integer (-1)}"
  using assms
proof (induction xs arbitrary: s rs)
  case Nil
  then show ?case by simp
next
  case (Cons x xs)
  obtain r s1 where e: "exec x s = (r, s1)" by fastforce
  obtain rs2 where run: "run_ops exec xs s1 = (rs2, s')" and rs: "rs = r # rs2"
    using Cons.prems(4) e by (auto split: prod.splits)
  have "r = Reply_Integer (-1)" "record_of s1 = None" "good s1"
    using gone [of s x] good_exec [of s x] Cons.prems e by auto
  with Cons.IH [of s1 rs2] Cons.prems(3) run rs show ?case by auto
qed

text \<open>
  The winners consume consecutive versions, so no two of them acted on the same state, and
  the record ends as their serial application: no update is lost.
\<close>

lemma run_serial:
  assumes "good s" and "record_of s = Some (v, d)"
    and "\<And>x. x \<in> set xs \<Longrightarrow> 0 < vop_expected x \<and> vop_expected x < limit"
    and "run_ops exec xs s = (rs, s')" and "v + length xs \<le> limit"
  shows "map vop_expected (winners xs rs) = [v ..< v + length (winners xs rs)] \<and>
    record_of s' = foldl vop_apply (Some (v, d)) (winners xs rs)"
  using assms
proof (induction xs arbitrary: s v d rs)
  case Nil
  then show ?case by simp
next
  case (Cons x xs)
  obtain r s1 where e: "exec x s = (r, s1)" by fastforce
  obtain rs2 where run: "run_ops exec xs s1 = (rs2, s')" and rs: "rs = r # rs2"
    using Cons.prems(4) e by (auto split: prod.splits)
  have good1: "good s1"
    using good_exec [of s x] Cons.prems(1,3) e by auto
  show ?case
  proof (cases "vop_expected x = v")
    case False
    then have "r = Reply_Integer 0" "record_of s1 = Some (v, d)"
      using miss [of s v d x] Cons.prems e by auto
    with Cons.IH [of s1 v d rs2] good1 Cons.prems run rs show ?thesis by auto
  next
    case True
    then have r: "r = Reply_Integer 1" and rec: "record_of s1 = vop_apply (Some (v, d)) x"
      using hit [of s v d x] Cons.prems e by auto
    show ?thesis
    proof (cases x)
      case (Write e b)
      with rec True have "record_of s1 = Some (v + 1, b)" by simp
      with Cons.IH [of s1 "v + 1" b rs2] good1 Cons.prems run
      have "map vop_expected (winners xs rs2) = [v + 1 ..< v + 1 + length (winners xs rs2)] \<and>
          record_of s' = foldl vop_apply (Some (v + 1, b)) (winners xs rs2)"
        by auto
      with r rs Write True show ?thesis
        using upt_conv_Cons [of v "v + Suc (length (winners xs rs2))"] by (simp del: upt_Suc)
    next
      case (Delete e)
      with rec have "record_of s1 = None" by simp
      then have "winners xs rs2 = []" "record_of s' = None"
        using run_gone [OF good1 _ _ run] Cons.prems(3) by auto
      with r rs Delete True show ?thesis by simp
    qed
  qed
qed

end

text \<open>
  The session scripts on one key are a versioned record, for every conforming server. The
  version stays exact below \<open>2 ^ 53\<close>, where Lua's numbers do.
\<close>

fun sess_exec :: "'db redis \<Rightarrow> string \<Rightarrow> nat \<Rightarrow> string vop \<Rightarrow> 'db \<Rightarrow> v_db_reply \<times> 'db" where
  "sess_exec call k ttl (Write e b) db = V_LUA_SESS_CAS_WRITE call [k] [dec e, b, dec ttl] db"
| "sess_exec call k ttl (Delete e) db = V_LUA_SESS_DELETE call [k] [dec e] db"

definition sess_ver_data :: "keyspace \<Rightarrow> string \<Rightarrow> (nat \<times> string) option" where
  "sess_ver_data ks k = map_option (\<lambda>(v, d, t). (v, d)) (sess_rec ks k)"

interpretation sess: versioned_record
  "sess_exec call k ttl" "\<lambda>db. sess_ver_data (view db) k"
  "\<lambda>db. redis_conforms call view \<and> sess_wf (view db) k \<and> ttl < 2 ^ 31" "2 ^ 53 - 1"
  for call :: "'db redis" and view k ttl
proof (unfold_locales, goal_cases)
  case (1 s x)
  then show ?case by (cases x) (simp_all add: cas_write_script delete_script)
next
  case (2 s v d)
  then show ?case by (auto simp: sess_ver_data_def elim!: sess_wf_cases)
next
  case (3 s v d x)
  then show ?case
    by (cases x) (auto simp: sess_ver_data_def cas_write_script delete_script)
next
  case (4 s v d x)
  then show ?case
    by (cases x) (auto simp: sess_ver_data_def cas_write_script delete_script)
next
  case (5 s x)
  then show ?case
    by (cases x) (auto simp: sess_ver_data_def cas_write_script delete_script)
qed

subsection \<open>Properties\<close>

text \<open>
  C10: the CAS-write script refines the abstract compare-and-swap on a session record: on a
  key that holds no record or a record written by the scripts, it answers 1, 0 or -1 exactly
  as the specification does, leaves the record the specification leaves (a new record at
  version 1 when version 0 is expected and none exists; version plus one and the new data
  when the expected version is the stored one; untouched otherwise; the time to live is set
  only when one is given), keeps the key well formed, and writes no other key.
\<close>

theorem cas_write_refines:
  assumes "redis_conforms call view" and "sess_wf (view db) k"
    and "expected + 1 < 2 ^ 53" and "ttl < 2 ^ 31"
    and "V_LUA_SESS_CAS_WRITE call [k] [dec expected, blob, dec ttl] db = (r, db')"
  shows "(r, sess_rec (view db') k) =
      map_prod Reply_Integer id (spec_cas_write (sess_rec (view db) k) expected blob ttl) \<and>
    sess_wf (view db') k \<and> (\<forall>k'. k' \<noteq> k \<longrightarrow> view db' k' = view db k')"
  using cas_write_script [OF assms(1-4), where blob = blob] assms(5)
  by (simp add: map_prod_def split_beta)

theorem cas_write_refines_witness:
  "\<exists>r db'. V_LUA_SESS_CAS_WRITE spec_redis [''k''] [dec 0, ''blob'', dec 30] Map.empty = (r, db') \<and>
     r = Reply_Integer 1 \<and> sess_rec db' ''k'' = Some (1, ''blob'', Some 30)"
proof -
  obtain r db' where e:
    "V_LUA_SESS_CAS_WRITE spec_redis [''k''] [dec 0, ''blob'', dec 30] Map.empty = (r, db')"
    by fastforce
  have "sess_wf Map.empty ''k''" "sess_rec Map.empty ''k'' = None"
    by (simp_all add: sess_wf_def sess_rec_def)
  then show ?thesis
    using cas_write_refines [OF spec_redis_conforms, of Map.empty "''k''" 0 30 "''blob''" r db'] e
    by simp
qed

text \<open>
  C17: no update is lost. Let any number of clients send CAS-writes and CAS-deletes for one
  session, each expecting a version it has read, and let the server execute the scripts in
  any order. The operations that succeed expect the versions \<open>v\<close>, \<open>v + 1\<close>, ... one after the
  other, each exactly once: two clients that read the same version never both succeed. The
  stored record is the result of applying the successful operations one by one.
\<close>

theorem sess_scripts_serializable:
  assumes "redis_conforms call view" and "sess_wf (view db) k" and "ttl < 2 ^ 31"
    and "sess_ver_data (view db) k = Some (v, d)"
    and "\<forall>x \<in> set ops. 0 < vop_expected x \<and> vop_expected x < 2 ^ 53 - 1"
    and "v + length ops \<le> 2 ^ 53 - 1"
    and "run_ops (sess_exec call k ttl) ops db = (rs, db')"
  shows "map vop_expected (winners ops rs) = [v ..< v + length (winners ops rs)] \<and>
    sess_ver_data (view db') k = foldl vop_apply (Some (v, d)) (winners ops rs)"
  using sess.run_serial [of call view db k ttl v d ops rs db'] assms by auto

theorem sess_scripts_serializable_witness:
  "let db = [''k'' \<mapsto> (RHash [''ver'' \<mapsto> dec 1, ''data'' \<mapsto> ''a''], None)];
       ops = [Write 1 ''b'', Write 1 ''c'', Write 2 ''d''];
       (rs, db') = run_ops (sess_exec spec_redis ''k'' 0) ops db
   in map vop_expected (winners ops rs) = [1 ..< 1 + length (winners ops rs)] \<and>
      sess_ver_data db' ''k'' = foldl vop_apply (Some (1, ''a'')) (winners ops rs)"
proof -
  define db :: keyspace where "db = [''k'' \<mapsto> (RHash [''ver'' \<mapsto> dec 1, ''data'' \<mapsto> ''a''], None)]"
  define ops where "ops = [Write 1 ''b'', Write 1 ''c'', Write 2 ''d'' :: string vop]"
  obtain rs db' where r: "run_ops (sess_exec spec_redis ''k'' 0) ops db = (rs, db')" by fastforce
  have "sess_wf db ''k''" "sess_ver_data db ''k'' = Some (1, ''a'')"
    by (simp_all add: db_def sess_wf_def sess_ver_data_def sess_rec_def)
  then have "map vop_expected (winners ops rs) = [1 ..< 1 + length (winners ops rs)] \<and>
      sess_ver_data db' ''k'' = foldl vop_apply (Some (1, ''a'')) (winners ops rs)"
    using sess_scripts_serializable [OF spec_redis_conforms, of db "''k''" 0 1 "''a''" ops rs db'] r
    by (simp add: ops_def)
  with r show ?thesis unfolding db_def ops_def by simp
qed

text \<open>
  C30: the CAS-delete script removes a record only at the version it expects, answers -1 when
  there is none, and touches no other key.
\<close>

theorem delete_refines:
  assumes "redis_conforms call view" and "sess_wf (view db) k"
    and "V_LUA_SESS_DELETE call [k] [dec expected] db = (r, db')"
  shows "(r, sess_rec (view db') k) =
      map_prod Reply_Integer id (spec_cas_delete (sess_rec (view db) k) expected) \<and>
    sess_wf (view db') k \<and> (\<forall>k'. k' \<noteq> k \<longrightarrow> view db' k' = view db k')"
  using delete_script [OF assms(1,2), where expected = expected] assms(3)
  by (simp add: map_prod_def split_beta)

theorem delete_refines_witness:
  "\<exists>r db'. V_LUA_SESS_DELETE spec_redis [''k''] [dec 3] Map.empty = (r, db') \<and>
     r = Reply_Integer (-1) \<and> sess_rec db' ''k'' = None"
proof -
  obtain r db' where e: "V_LUA_SESS_DELETE spec_redis [''k''] [dec 3] Map.empty = (r, db')"
    by fastforce
  have "sess_wf Map.empty ''k''" "sess_rec Map.empty ''k'' = None"
    by (simp_all add: sess_wf_def sess_rec_def)
  then show ?thesis
    using delete_refines [OF spec_redis_conforms, of Map.empty "''k''" 3 r db'] e by simp
qed

end
