(* ===== verification/V_db_script.thy ===== *)
theory V_db_script
  imports Event_loop V_db_lua_scripts
begin

section \<open>EVALSHA with NOSCRIPT recovery\<close>

text \<open>
  \<^verbatim>\<open>src/v_db_script\<close>: the SHA cache, the pool of in-flight EVALSHA calls with their scratch
  buffers, the pool of in-flight SCRIPT LOADs, and the recovery that reloads a script and
  repeats the call once when the server has forgotten it. The caller's key and argument bytes
  are copied, so a part is its value; the 1024-byte scratch buffer appears as the running total
  of what was copied into it.
\<close>

definition V_SCRIPT_SESS_CAS_WRITE :: nat where "V_SCRIPT_SESS_CAS_WRITE = 0"
definition V_SCRIPT_SESS_DELETE :: nat where "V_SCRIPT_SESS_DELETE = 1"
definition V_SCRIPT_TEID_REFILL :: nat where "V_SCRIPT_TEID_REFILL = 2"
definition V_SCRIPT_COUNT :: nat where "V_SCRIPT_COUNT = 3"

lemmas script_ids = V_SCRIPT_SESS_CAS_WRITE_def V_SCRIPT_SESS_DELETE_def V_SCRIPT_TEID_REFILL_def
  V_SCRIPT_COUNT_def

definition V_DB_SCRIPT_SHA_LEN :: nat where "V_DB_SCRIPT_SHA_LEN = 40"
definition V_DB_EVALSHA_MAX_PARTS :: nat where "V_DB_EVALSHA_MAX_PARTS = 12"
definition V_DB_EVALSHA_SCRATCH_BYTES :: nat where "V_DB_EVALSHA_SCRATCH_BYTES = 1024"
definition V_DB_EVALSHA_POOL_CAP :: nat where "V_DB_EVALSHA_POOL_CAP = 2048"
definition V_DB_SCRIPT_LOAD_POOL_CAP :: nat where "V_DB_SCRIPT_LOAD_POOL_CAP = 256"

text \<open>The script texts sent with SCRIPT LOAD.\<close>

definition lines_text :: "string list \<Rightarrow> string" where
  "lines_text ls = concat (map (\<lambda>l. l @ [CHR 0x0A]) ls)"

definition lua_text_sess_cas_write :: string where
  "lua_text_sess_cas_write = lines_text
     [''local v = redis.call('HGET', KEYS[1], 'ver')'',
      ''if ARGV[1] == '0' then'',
      ''    if v then return 0 end'',
      ''    redis.call('HSET', KEYS[1], 'ver', 1, 'data', ARGV[2])'',
      ''    if ARGV[3] ~= '0' then redis.call('EXPIRE', KEYS[1], ARGV[3]) end'',
      ''    return 1'',
      ''end'',
      ''if not v then return -1 end'',
      ''if v ~= ARGV[1] then return 0 end'',
      ''redis.call('HSET', KEYS[1], 'ver', v + 1, 'data', ARGV[2])'',
      ''if ARGV[3] ~= '0' then redis.call('EXPIRE', KEYS[1], ARGV[3]) end'',
      ''return 1'']"

definition lua_text_sess_delete :: string where
  "lua_text_sess_delete = lines_text
     [''local v = redis.call('HGET', KEYS[1], 'ver')'',
      ''if not v then return -1 end'',
      ''if v ~= ARGV[1] then return 0 end'',
      ''redis.call('DEL', KEYS[1])'',
      ''return 1'']"

definition lua_text_teid_refill :: string where
  "lua_text_teid_refill = lines_text
     [''local out = {}'',
      ''if redis.call('LLEN', KEYS[1]) > tonumber(ARGV[2]) then'',
      ''    for i = 1, tonumber(ARGV[1]) do'',
      ''        local id = redis.call('LPOP', KEYS[1])'',
      ''        if not id then break end'',
      ''        table.insert(out, id)'',
      ''    end'',
      ''end'',
      ''if #out == 0 then'',
      ''    local base = redis.call('INCRBY', KEYS[2], ARGV[1])'',
      ''    return {'range', tostring(base - ARGV[1]), ARGV[1]}'',
      ''end'',
      ''return {'list', unpack(out)}'']"

definition g_script_src :: "nat \<Rightarrow> string" where
  "g_script_src i =
     (if i = V_SCRIPT_SESS_CAS_WRITE then lua_text_sess_cas_write
      else if i = V_SCRIPT_SESS_DELETE then lua_text_sess_delete else lua_text_teid_refill)"

subsection \<open>State\<close>

record v_evalsha_pending =
  ev_shard :: u8
  ev_script_id :: nat
  ev_user_cb :: "v_db_cb option"
  ev_retried :: bool
  ev_parts :: "string list"

record v_script_load_ctx =
  lc_shard :: u8
  lc_script_id :: nat
  lc_resume :: "ptr option"

record ('r, 'p, 'h) script_st = "('r, 'p, 'h) db_st" +
  g_sha :: "nat \<Rightarrow> nat \<Rightarrow> string"
  g_shard_count :: int
  g_evalsha_pool :: "'p option"
  g_load_pool :: "'p option"
  evalsha_at :: "ptr \<Rightarrow> v_evalsha_pending"
  load_at :: "ptr \<Rightarrow> v_script_load_ctx"

text \<open>The type of a function that calls through a \<^verbatim>\<open>v_db_cb_t\<close>.\<close>

type_synonym 'w db_call = "v_db_cb \<Rightarrow> int \<Rightarrow> v_db_reply option \<Rightarrow> 'w \<Rightarrow> 'w"

definition call_opt :: "'w db_call \<Rightarrow> v_db_cb option \<Rightarrow> int \<Rightarrow> v_db_reply option \<Rightarrow> 'w \<Rightarrow> 'w" where
  "call_opt cc cb status reply w = (case cb of None \<Rightarrow> w | Some cb \<Rightarrow> cc cb status reply w)"

definition evalsha_put ::
    "('r, 'p) dpdk \<Rightarrow> ptr \<Rightarrow> ('r, 'p, 'h, 'a) script_st_scheme \<Rightarrow> ('r, 'p, 'h, 'a) script_st_scheme" where
  "evalsha_put D p w = w\<lparr>g_evalsha_pool := pool_put D p (g_evalsha_pool w)\<rparr>"

definition load_put ::
    "('r, 'p) dpdk \<Rightarrow> ptr \<Rightarrow> ('r, 'p, 'h, 'a) script_st_scheme \<Rightarrow> ('r, 'p, 'h, 'a) script_st_scheme" where
  "load_put D p w = w\<lparr>g_load_pool := pool_put D p (g_load_pool w)\<rparr>"

subsection \<open>Operations\<close>

text \<open>\<^verbatim>\<open>scratch_copy\<close>, called for each string in turn: the bytes used, or \<open>None\<close> when exhausted.\<close>

fun scratch_copy :: "nat \<Rightarrow> string \<Rightarrow> nat option" where
  "scratch_copy used s =
     (if V_DB_EVALSHA_SCRATCH_BYTES < used + length s then None else Some (used + length s))"

fun scratch_copy_all :: "nat \<Rightarrow> string list \<Rightarrow> nat option" where
  "scratch_copy_all used [] = Some used"
| "scratch_copy_all used (s # ss) =
     (case scratch_copy used s of None \<Rightarrow> None | Some u \<Rightarrow> scratch_copy_all u ss)"

definition request_script_load ::
    "('r, 'p) dpdk \<Rightarrow> 'h hiredis \<Rightarrow> u8 \<Rightarrow> nat \<Rightarrow> ptr option \<Rightarrow>
     ('r, 'p, 'h, 'a) script_st_scheme \<Rightarrow> int \<times> ('r, 'p, 'h, 'a) script_st_scheme" where
  "request_script_load D hi shard i resume w =
     (case pool_get D (g_load_pool w) of
        None \<Rightarrow> (RET_CODE_ERR, w)
      | Some (lc, pool) \<Rightarrow>
          let w = w\<lparr>g_load_pool := Some pool,
                    load_at := (load_at w)(lc := \<lparr>lc_shard = shard, lc_script_id = i, lc_resume = resume\<rparr>)\<rparr>;
              (rc, w) = v_port_db_cmd D hi shard (Load_reply_cb lc) [''SCRIPT'', ''LOAD'', g_script_src i] w
          in if rc \<noteq> RET_CODE_OK then (RET_CODE_ERR, load_put D lc w) else (RET_CODE_OK, w))"

definition issue_evalsha ::
    "('r, 'p) dpdk \<Rightarrow> 'h hiredis \<Rightarrow> ('r, 'p, 'h, 'a) script_st_scheme db_call \<Rightarrow> ptr \<Rightarrow>
     ('r, 'p, 'h, 'a) script_st_scheme \<Rightarrow> ('r, 'p, 'h, 'a) script_st_scheme" where
  "issue_evalsha D hi cc p w =
     (let e = evalsha_at w p;
          (rc, w) = v_port_db_cmd_argv D hi (ev_shard e) (Evalsha_reply_cb p) (ev_parts e) w
      in if rc \<noteq> RET_CODE_OK
         then evalsha_put D p (call_opt cc (ev_user_cb (evalsha_at w p)) RET_CODE_ERR None w)
         else w)"

definition load_reply_cb ::
    "('r, 'p) dpdk \<Rightarrow> 'h hiredis \<Rightarrow> ('r, 'p, 'h, 'a) script_st_scheme db_call \<Rightarrow>
     int \<Rightarrow> v_db_reply option \<Rightarrow> ptr \<Rightarrow> ('r, 'p, 'h, 'a) script_st_scheme \<Rightarrow> ('r, 'p, 'h, 'a) script_st_scheme" where
  "load_reply_cb D hi cc status reply lc w =
     (let c = load_at w lc;
          sha = (case reply of Some (Reply_String s) \<Rightarrow> if length s = V_DB_SCRIPT_SHA_LEN then Some s else None
                 | _ \<Rightarrow> None)
      in case (if status \<noteq> RET_CODE_OK then None else sha) of
           None \<Rightarrow>
             (let w = (case lc_resume c of
                         None \<Rightarrow> w
                       | Some p \<Rightarrow> evalsha_put D p
                                    (call_opt cc (ev_user_cb (evalsha_at w p)) RET_CODE_ERR reply w))
              in load_put D lc w)
         | Some s \<Rightarrow>
             (let w = w\<lparr>g_sha := (g_sha w)(unat (lc_shard c) := (g_sha w (unat (lc_shard c)))(lc_script_id c := s))\<rparr>;
                  w = (case lc_resume c of
                         None \<Rightarrow> w
                       | Some p \<Rightarrow>
                           issue_evalsha D hi cc p
                             (w\<lparr>evalsha_at := (evalsha_at w)(p := (evalsha_at w p)\<lparr>ev_parts := (ev_parts (evalsha_at w p))[1 := s]\<rparr>)\<rparr>))
              in load_put D lc w))"

definition script_reconnect_cb ::
    "('r, 'p) dpdk \<Rightarrow> 'h hiredis \<Rightarrow> u8 \<Rightarrow> ('r, 'p, 'h, 'a) script_st_scheme \<Rightarrow> ('r, 'p, 'h, 'a) script_st_scheme" where
  "script_reconnect_cb D hi shard w =
     fold (\<lambda>i w. snd (request_script_load D hi shard i None w)) [0 ..< V_SCRIPT_COUNT] w"

text \<open>\<open>zmalloc_ok\<close>: whether the startup allocation of the SHA table succeeds; it is zeroed.\<close>

definition v_db_script_init ::
    "('r, 'p) dpdk \<Rightarrow> bool \<Rightarrow> ('r, 'p, 'h, 'a) script_st_scheme \<Rightarrow> int \<times> ('r, 'p, 'h, 'a) script_st_scheme" where
  "v_db_script_init D zmalloc_ok w =
     (let w = w\<lparr>g_shard_count := v_port_db_shard_count\<rparr> in
      if g_shard_count w \<le> 0 then (RET_CODE_ERR, w)
      else if \<not> zmalloc_ok then (RET_CODE_ERR, w)
      else let w = w\<lparr>g_sha := (\<lambda>_ _. []),
                     g_evalsha_pool := rte_mempool_create D V_DB_EVALSHA_POOL_CAP,
                     g_load_pool := rte_mempool_create D V_DB_SCRIPT_LOAD_POOL_CAP\<rparr>
           in if g_evalsha_pool w = None \<or> g_load_pool w = None then (RET_CODE_ERR, w)
              else v_port_db_on_reconnect w)"

definition v_db_script_ready :: "('r, 'p, 'h, 'a) script_st_scheme \<Rightarrow> bool" where
  "v_db_script_ready w \<longleftrightarrow>
     list_all (\<lambda>s. list_all (\<lambda>i. g_sha w s i \<noteq> []) [0 ..< V_SCRIPT_COUNT]) [0 ..< nat (g_shard_count w)]"

definition is_noscript :: "int \<Rightarrow> v_db_reply option \<Rightarrow> bool" where
  "is_noscript status reply \<longleftrightarrow>
     status = RET_CODE_OK \<and>
     (case reply of Some (Reply_Error s) \<Rightarrow> 8 \<le> length s \<and> take 8 s = ''NOSCRIPT'' | _ \<Rightarrow> False)"

definition evalsha_reply_cb ::
    "('r, 'p) dpdk \<Rightarrow> 'h hiredis \<Rightarrow> ('r, 'p, 'h, 'a) script_st_scheme db_call \<Rightarrow>
     int \<Rightarrow> v_db_reply option \<Rightarrow> ptr \<Rightarrow> ('r, 'p, 'h, 'a) script_st_scheme \<Rightarrow> ('r, 'p, 'h, 'a) script_st_scheme" where
  "evalsha_reply_cb D hi cc status reply p w =
     (if is_noscript status reply \<and> \<not> ev_retried (evalsha_at w p) then
        let w = w\<lparr>evalsha_at := (evalsha_at w)(p := (evalsha_at w p)\<lparr>ev_retried := True\<rparr>)\<rparr>;
            e = evalsha_at w p;
            (rc, w) = request_script_load D hi (ev_shard e) (ev_script_id e) (Some p) w
        in if rc \<noteq> RET_CODE_OK
           then evalsha_put D p (call_opt cc (ev_user_cb (evalsha_at w p)) RET_CODE_ERR reply w)
           else w
      else evalsha_put D p (call_opt cc (ev_user_cb (evalsha_at w p)) status reply w))"

definition v_db_evalsha ::
    "('r, 'p) dpdk \<Rightarrow> 'h hiredis \<Rightarrow> ('r, 'p, 'h, 'a) script_st_scheme db_call \<Rightarrow>
     u8 \<Rightarrow> nat \<Rightarrow> string list \<Rightarrow> string list \<Rightarrow> v_db_cb \<Rightarrow>
     ('r, 'p, 'h, 'a) script_st_scheme \<Rightarrow> int \<times> ('r, 'p, 'h, 'a) script_st_scheme" where
  "v_db_evalsha D hi cc shard script_id keys argv cb w =
     (let numkeys_str = snprintf 8 (dec (length keys)) in
      if V_SCRIPT_COUNT \<le> script_id then (RET_CODE_ERR, w)
      else if V_DB_EVALSHA_MAX_PARTS < 3 + length keys + length argv then (RET_CODE_ERR, w)
      else if g_shard_count w \<le> int (unat shard) \<or> g_sha w (unat shard) script_id = []
        then (RET_CODE_ERR, w)
      else case pool_get D (g_evalsha_pool w) of
        None \<Rightarrow> (RET_CODE_ERR, w)
      | Some (p, pool) \<Rightarrow>
          let w = w\<lparr>g_evalsha_pool := Some pool\<rparr> in
          case scratch_copy_all 0 (numkeys_str # keys @ argv) of
            None \<Rightarrow> (RET_CODE_ERR, evalsha_put D p w)
          | Some used \<Rightarrow>
              let e = \<lparr>ev_shard = shard, ev_script_id = script_id, ev_user_cb = Some cb, ev_retried = False,
                       ev_parts = ''EVALSHA'' # g_sha w (unat shard) script_id # numkeys_str # keys @ argv\<rparr>
              in (RET_CODE_OK, issue_evalsha D hi cc p (w\<lparr>evalsha_at := (evalsha_at w)(p := e)\<rparr>)))"

subsection \<open>Frame\<close>

lemma db_cmd_script_frame [frame_simps]:
  "g_sha (snd (v_port_db_cmd D hi shard cb args w)) = g_sha w"
  "g_shard_count (snd (v_port_db_cmd D hi shard cb args w)) = g_shard_count w"
  "g_evalsha_pool (snd (v_port_db_cmd D hi shard cb args w)) = g_evalsha_pool w"
  "g_load_pool (snd (v_port_db_cmd D hi shard cb args w)) = g_load_pool w"
  "evalsha_at (snd (v_port_db_cmd D hi shard cb args w)) = evalsha_at w"
  "load_at (snd (v_port_db_cmd D hi shard cb args w)) = load_at w"
  "script_st.more (snd (v_port_db_cmd D hi shard cb args w)) = script_st.more w"
  by (rule db_cmd_frame; simp)+

lemma db_inv_evalsha [simp]:
  "db_inv D free waiting A H (w\<lparr>g_evalsha_pool := x\<rparr>) = db_inv D free waiting A H w"
  "db_inv D free waiting A H (w\<lparr>evalsha_at := y\<rparr>) = db_inv D free waiting A H w"
  "db_inv D free waiting A H (w\<lparr>g_load_pool := x\<rparr>) = db_inv D free waiting A H w"
  "db_inv D free waiting A H (w\<lparr>load_at := z\<rparr>) = db_inv D free waiting A H w"
  "db_inv D free waiting A H (w\<lparr>g_sha := sh\<rparr>) = db_inv D free waiting A H w"
  "db_inv D free waiting A H (evalsha_put D p w) = db_inv D free waiting A H w"
  "db_inv D free waiting A H (load_put D p w) = db_inv D free waiting A H w"
  by (simp_all add: db_inv_def waits_def evalsha_put_def load_put_def)

lemma waits_evalsha [simp]:
  "waits waiting (w\<lparr>g_evalsha_pool := x\<rparr>) = waits waiting w"
  "waits waiting (w\<lparr>evalsha_at := y\<rparr>) = waits waiting w"
  "waits waiting (evalsha_put D p w) = waits waiting w"
  by (rule ext, simp add: waits_def evalsha_put_def)+

lemma scratch_copy_all_iff:
  "scratch_copy_all u ss =
     (if ss = [] \<or> u + sum_list (map length ss) \<le> V_DB_EVALSHA_SCRATCH_BYTES
      then Some (u + sum_list (map length ss)) else None)"
  by (induction ss arbitrary: u) (auto simp: not_le)

text \<open>The conditions under which an EVALSHA call is taken on.\<close>

definition evalsha_ok :: "u8 \<Rightarrow> nat \<Rightarrow> string list \<Rightarrow> string list \<Rightarrow> ('r, 'p, 'h, 'a) script_st_scheme \<Rightarrow> bool" where
  "evalsha_ok shard i keys argv w \<longleftrightarrow>
     i < V_SCRIPT_COUNT \<and> 3 + length keys + length argv \<le> V_DB_EVALSHA_MAX_PARTS \<and>
     int (unat shard) < g_shard_count w \<and> g_sha w (unat shard) i \<noteq> [] \<and>
     length (snprintf 8 (dec (length keys))) + sum_list (map length (keys @ argv)) \<le> V_DB_EVALSHA_SCRATCH_BYTES"

definition evalsha_pending_of ::
    "u8 \<Rightarrow> nat \<Rightarrow> string list \<Rightarrow> string list \<Rightarrow> v_db_cb \<Rightarrow> ('r, 'p, 'h, 'a) script_st_scheme \<Rightarrow> v_evalsha_pending" where
  "evalsha_pending_of shard i keys argv cb w =
     \<lparr>ev_shard = shard, ev_script_id = i, ev_user_cb = Some cb, ev_retried = False,
      ev_parts = ''EVALSHA'' # g_sha w (unat shard) i # snprintf 8 (dec (length keys)) # keys @ argv\<rparr>"

lemma evalsha_refused:
  assumes "\<not> evalsha_ok shard i keys argv w \<or> pool_get D (g_evalsha_pool w) = None"
  obtains pool where "v_db_evalsha D hi cc shard i keys argv cb w = (RET_CODE_ERR, w\<lparr>g_evalsha_pool := pool\<rparr>)"
    "owns D free E H (g_evalsha_pool w) \<longrightarrow> owns D free E H pool"
proof (cases "pool_get D (g_evalsha_pool w)")
  case None
  then have "v_db_evalsha D hi cc shard i keys argv cb w = (RET_CODE_ERR, w\<lparr>g_evalsha_pool := g_evalsha_pool w\<rparr>)"
    by (simp add: v_db_evalsha_def Let_def)
  with that show ?thesis by blast
next
  case (Some a)
  then obtain p pool where g: "pool_get D (g_evalsha_pool w) = Some (p, pool)" by (cases a) auto
  then have n: "\<not> evalsha_ok shard i keys argv w" using assms by simp
  show ?thesis
  proof (cases "i < V_SCRIPT_COUNT \<and> 3 + length keys + length argv \<le> V_DB_EVALSHA_MAX_PARTS \<and>
     int (unat shard) < g_shard_count w \<and> g_sha w (unat shard) i \<noteq> []")
    case False
    then have "v_db_evalsha D hi cc shard i keys argv cb w = (RET_CODE_ERR, w\<lparr>g_evalsha_pool := g_evalsha_pool w\<rparr>)"
      by (simp add: v_db_evalsha_def Let_def not_less) linarith
    with that show ?thesis by blast
  next
    case True
    with n g have "v_db_evalsha D hi cc shard i keys argv cb w =
        (RET_CODE_ERR, w\<lparr>g_evalsha_pool := pool_put D p (Some pool)\<rparr>)"
      by (simp add: v_db_evalsha_def evalsha_ok_def scratch_copy_all_iff evalsha_put_def Let_def not_le
          del: scratch_copy_all.simps scratch_copy.simps)
    then show ?thesis
      using owns_put_get [OF _ g] by (intro that) auto
  qed
qed

lemma evalsha_taken:
  assumes "evalsha_ok shard i keys argv w" and "pool_get D (g_evalsha_pool w) = Some (p, pool)"
  shows "v_db_evalsha D hi cc shard i keys argv cb w =
    (RET_CODE_OK, issue_evalsha D hi cc p
       (w\<lparr>g_evalsha_pool := Some pool,
          evalsha_at := (evalsha_at w)(p := evalsha_pending_of shard i keys argv cb w)\<rparr>))"
  using assms
  by (simp add: v_db_evalsha_def evalsha_ok_def scratch_copy_all_iff evalsha_pending_of_def Let_def not_le
      del: scratch_copy_all.simps scratch_copy.simps)

lemma issue_evalsha_cases:
  assumes l: "hiredis_laws hi waiting" and i: "db_inv D free waiting A H w"
  obtains (sent) h h' q where "db_inv D free waiting A H (issue_evalsha D hi cc p w)"
      "unat (ev_shard (evalsha_at w p)) < V_STUB_DB_SHARDS"
      "g_ctx w (unat (ev_shard (evalsha_at w p))) = Some h"
      "g_ctx (issue_evalsha D hi cc p w) = (g_ctx w)(unat (ev_shard (evalsha_at w p)) := Some h')"
      "waiting h' = waiting h @ [(ev_parts (evalsha_at w p), q)]"
      "pend_cb (db_pending_at (issue_evalsha D hi cc p w) q) = Some (Evalsha_reply_cb p)" "q \<in> A" "q \<notin> H"
      "evalsha_at (issue_evalsha D hi cc p w) = evalsha_at w"
      "issue_evalsha D hi cc p w =
        snd (v_port_db_cmd D hi (ev_shard (evalsha_at w p)) (Evalsha_reply_cb p) (ev_parts (evalsha_at w p)) w)"
  | (failed) w1 where "issue_evalsha D hi cc p w =
        evalsha_put D p (call_opt cc (ev_user_cb (evalsha_at w p)) RET_CODE_ERR None w1)"
      "db_inv D free waiting A H w1" "waits waiting w1 = waits waiting w"
      "w1 = snd (v_port_db_cmd D hi (ev_shard (evalsha_at w p)) (Evalsha_reply_cb p) (ev_parts (evalsha_at w p)) w)"
proof -
  let ?e = "evalsha_at w p"
  obtain rc w1 where c: "v_port_db_cmd D hi (ev_shard ?e) (Evalsha_reply_cb p) (ev_parts ?e) w = (rc, w1)"
    by fastforce
  then have w1: "w1 = snd (v_port_db_cmd D hi (ev_shard ?e) (Evalsha_reply_cb p) (ev_parts ?e) w)" by simp
  then have ev: "evalsha_at w1 = evalsha_at w" by (simp add: frame_simps)
  from l i c show ?thesis
  proof (cases rule: db_cmd_cases)
    case failed
    have "issue_evalsha D hi cc p w = evalsha_put D p (call_opt cc (ev_user_cb ?e) RET_CODE_ERR None w1)"
      using c failed(1) ev by (simp add: issue_evalsha_def v_port_db_cmd_argv_def)
    with failed w1 show ?thesis by (intro that(2)) auto
  next
    case (sent h h' q)
    have eq: "issue_evalsha D hi cc p w = w1"
      using c sent(1) by (simp add: issue_evalsha_def v_port_db_cmd_argv_def)
    show ?thesis
      using sent eq ev w1 by (intro that(1) [of h h' q]) auto
  qed
qed

subsection \<open>Dispatch of an EVALSHA\<close>

text \<open>
  C31: the fate of a call to \<^verbatim>\<open>v_db_evalsha\<close>. It is taken on exactly when its script is known and
  loaded on that shard, it has at most twelve parts, its copied bytes fit the 1024-byte scratch
  buffer and a pending object is free. If not, nothing is queued and no object is lost. If so,
  either the EVALSHA waits on the shard's connection with a pending object that records the call
  and its not-yet-retried state, or the port refused it, and then the caller's callback has run
  once with \<^verbatim>\<open>RET_CODE_ERR\<close> although the call itself returns \<^verbatim>\<open>RET_CODE_OK\<close>, and the object went
  back to the pool.
\<close>

theorem evalsha_dispatch:
  assumes "hiredis_laws hi waiting" and "db_inv D free waiting A HD w" and "owns D free E H (g_evalsha_pool w)"
    and "v_db_evalsha D hi cc shard i keys argv cb w = (rc, w')"
  shows "(rc = RET_CODE_OK \<longleftrightarrow> evalsha_ok shard i keys argv w \<and> H \<noteq> E) \<and>
    (if rc = RET_CODE_OK then
       \<exists>p \<in> E - H. \<exists>w1. db_inv D free waiting A HD w1 \<and> owns D free E (insert p H) (g_evalsha_pool w1) \<and>
         evalsha_at w1 p = evalsha_pending_of shard i keys argv cb w \<and>
         (w' = w1 \<and> (\<exists>h h' q. g_ctx w (unat shard) = Some h \<and> g_ctx w' = (g_ctx w)(unat shard := Some h') \<and>
              waiting h' = waiting h @ [(ev_parts (evalsha_at w1 p), q)] \<and>
              pend_cb (db_pending_at w' q) = Some (Evalsha_reply_cb p)) \<or>
          w' = evalsha_put D p (cc cb RET_CODE_ERR None w1) \<and> waits waiting w1 = waits waiting w)
     else rc = RET_CODE_ERR \<and> db_inv D free waiting A HD w' \<and> owns D free E H (g_evalsha_pool w') \<and>
       waits waiting w' = waits waiting w)"
proof (cases "evalsha_ok shard i keys argv w \<and> H \<noteq> E")
  case False
  then have "\<not> evalsha_ok shard i keys argv w \<or> pool_get D (g_evalsha_pool w) = None"
    using owns_exhausted [OF assms(3)] by simp
  then obtain pool where "v_db_evalsha D hi cc shard i keys argv cb w = (RET_CODE_ERR, w\<lparr>g_evalsha_pool := pool\<rparr>)"
    "owns D free E H (g_evalsha_pool w) \<longrightarrow> owns D free E H pool"
    by (rule evalsha_refused [where hi = hi and cc = cc and cb = cb and free = free and E = E and H = H])
  with False assms show ?thesis by auto
next
  case True
  then have "pool_get D (g_evalsha_pool w) \<noteq> None" using owns_exhausted [OF assms(3)] by simp
  then obtain p pool where g: "pool_get D (g_evalsha_pool w) = Some (p, pool)" by auto
  define w1 where "w1 = w\<lparr>g_evalsha_pool := Some pool,
    evalsha_at := (evalsha_at w)(p := evalsha_pending_of shard i keys argv cb w)\<rparr>"
  note get = owns_get [OF assms(3) g]
  have t: "rc = RET_CODE_OK" "w' = issue_evalsha D hi cc p w1"
    using evalsha_taken [OF conjunct1 [OF True] g, of hi cc cb] assms(4) by (simp_all add: w1_def)
  have e: "evalsha_at w1 p = evalsha_pending_of shard i keys argv cb w" "g_ctx w1 = g_ctx w"
    "g_evalsha_pool w1 = Some pool" "waits waiting w1 = waits waiting w"
    by (simp_all add: w1_def)
  have sh: "ev_shard (evalsha_at w1 p) = shard" "ev_user_cb (evalsha_at w1 p) = Some cb"
    by (simp_all add: e evalsha_pending_of_def)
  have "db_inv D free waiting A HD w1" using assms(2) by (simp add: w1_def)
  from assms(1) this show ?thesis
  proof (cases rule: issue_evalsha_cases [where cc = cc and p = p])
    case (sent h h' q)
    have "g_evalsha_pool w' = Some pool" using sent(10) t(2) e(3) by (simp add: frame_simps)
    with sent True t e(1,2) get sh show ?thesis
      by (intro conjI; simp?; intro bexI [of _ p] exI [of _ w']; auto)
  next
    case (failed w2)
    have "evalsha_at w2 p = evalsha_pending_of shard i keys argv cb w" "g_evalsha_pool w2 = Some pool"
      using failed(4) e by (simp_all add: frame_simps)
    with failed True t e(4) get sh show ?thesis
      by (intro conjI; simp?; intro bexI [of _ p] exI [of _ w2]; auto simp: call_opt_def)
  qed
qed

text \<open>A small state for the witnesses: script 1 is loaded on every shard; \<open>x\<close> is what later layers add.\<close>

definition demo_sha :: string where "demo_sha = replicate 40 (CHR ''a'')"

definition demo_script :: "'a \<Rightarrow> (nat \<times> ptr list, ptr list, (string list \<times> ptr) list, 'a) script_st_scheme" where
  "demo_script x =
     \<lparr>g_rx_ring = Some (4, []), g_tx_ring = Some (4, []), g_msg_pool = Some [1, 2, 3],
      msg_at = (\<lambda>_. \<lparr>msg_buf = replicate 2048 0, msg_len = 0, msg_peer = zero_sockaddr\<rparr>),
      g_base = True, g_ctx = (\<lambda>s. if s < V_STUB_DB_SHARDS then Some [] else None),
      g_db_pool = Some [10, 11, 12, 13], db_pending_at = (\<lambda>_. \<lparr>pend_cb = None\<rparr>),
      g_reconnect_cb = True, g_scratch = replicate V_STUB_DB_REPLY_SCRATCH_CAP N_nil, g_scratch_used = 0,
      g_sha = (\<lambda>_ _. demo_sha), g_shard_count = 5, g_evalsha_pool = Some [20, 21], g_load_pool = Some [30, 31],
      evalsha_at = (\<lambda>_. \<lparr>ev_shard = 0, ev_script_id = 0, ev_user_cb = None, ev_retried = False, ev_parts = []\<rparr>),
      load_at = (\<lambda>_. \<lparr>lc_shard = 0, lc_script_id = 0, lc_resume = None\<rparr>), \<dots> = x\<rparr>"

lemma demo_script_inv:
  "db_inv list_dpdk set (\<lambda>h. h) {10, 11, 12, 13} {} (demo_script x)"
  "owns list_dpdk set {20, 21} {} (g_evalsha_pool (demo_script x))"
  "owns list_dpdk set {30, 31} {} (g_load_pool (demo_script x))"
  by (auto simp: db_inv_def owns_def waits_def demo_script_def list_pool_laws)

theorem evalsha_dispatch_witness:
  "\<exists>w'. v_db_evalsha list_dpdk list_hiredis (\<lambda>_ _ _ w. w) 2 V_SCRIPT_SESS_DELETE [''pdu_2:1''] [''1''] Store_ack_cb
      (demo_script ()) = (RET_CODE_OK, w') \<and> waits (\<lambda>h. h) w' 2 \<noteq> []"
proof -
  let ?w = "demo_script () :: (nat \<times> ptr list, ptr list, (string list \<times> ptr) list) script_st"
  obtain rc w' where c: "v_db_evalsha list_dpdk list_hiredis (\<lambda>_ _ _ w. w) 2 V_SCRIPT_SESS_DELETE
      [''pdu_2:1''] [''1''] Store_ack_cb ?w = (rc, w')" by fastforce
  have ok: "evalsha_ok 2 V_SCRIPT_SESS_DELETE [''pdu_2:1''] [''1''] ?w"
    by (simp add: evalsha_ok_def script_ids demo_script_def demo_sha_def V_DB_EVALSHA_MAX_PARTS_def
        V_DB_EVALSHA_SCRATCH_BYTES_def)
  note d = evalsha_dispatch [OF list_hiredis_laws demo_script_inv(1,2) c]
  from d ok have rc: "rc = RET_CODE_OK" by auto
  have "waits (\<lambda>h. h) w' 2 \<noteq> []"
    using c by (auto simp: v_db_evalsha_def script_ids demo_script_def demo_sha_def V_DB_EVALSHA_MAX_PARTS_def
        V_DB_EVALSHA_SCRATCH_BYTES_def V_STUB_DB_SHARDS_def Let_def pool_get_def list_dpdk_def list_hiredis_def
        issue_evalsha_def v_port_db_cmd_argv_def v_port_db_cmd_def db_pending_get_def waits_def)
  with c rc show ?thesis by simp
qed

subsection \<open>Recovery from NOSCRIPT\<close>

text \<open>
  The documented behaviour of a server's script cache: \<^verbatim>\<open>SCRIPT LOAD\<close> answers with the script's
  SHA1 and keeps the script; \<^verbatim>\<open>EVALSHA\<close> runs a script the server has and answers \<^verbatim>\<open>NOSCRIPT\<close>,
  changing nothing, for one it does not have.
\<close>

definition script_laws ::
    "'s server \<Rightarrow> (string \<Rightarrow> string) \<Rightarrow> ('s \<Rightarrow> string \<Rightarrow> bool) \<Rightarrow> ('s \<Rightarrow> string \<Rightarrow> string list \<Rightarrow> hreply \<times> 's) \<Rightarrow> bool" where
  "script_laws serve sha1 has run \<longleftrightarrow>
     (\<forall>s src. length (sha1 src) = V_DB_SCRIPT_SHA_LEN \<and>
        fst (serve s [''SCRIPT'', ''LOAD'', src]) = H_string (sha1 src) \<and>
        has (snd (serve s [''SCRIPT'', ''LOAD'', src])) src) \<and>
     (\<forall>s src args. serve s (''EVALSHA'' # sha1 src # args) =
        (if has s src then run s src args else (H_error ''NOSCRIPT No matching script. Please use EVAL.'', s)))"

text \<open>
  The module's own two callbacks, with a user whose callback only records that it was called
  and with what, in the part of the state the module does not know.
\<close>

type_synonym user_log = "(v_db_cb \<times> int \<times> v_db_reply option) list"

definition log_call :: "('r, 'p, 'h, user_log) script_st_scheme db_call" where
  "log_call cb status reply w = w\<lparr>script_st.more := script_st.more w @ [(cb, status, reply)]\<rparr>"

fun script_call :: "('r, 'p) dpdk \<Rightarrow> 'h hiredis \<Rightarrow> ('r, 'p, 'h, user_log) script_st_scheme db_call" where
  "script_call D hi (Load_reply_cb lc) status reply w = load_reply_cb D hi log_call status reply lc w"
| "script_call D hi (Evalsha_reply_cb p) status reply w = evalsha_reply_cb D hi log_call status reply p w"
| "script_call D hi cb status reply w = log_call cb status reply w"

text \<open>One command waits on the connection, with its callback.\<close>

definition alone ::
    "('h \<Rightarrow> (string list \<times> ptr) list) \<Rightarrow> ('r, 'p, 'h, 'a) db_st_scheme \<Rightarrow> nat \<Rightarrow> string list \<Rightarrow> v_db_cb \<Rightarrow> bool" where
  "alone waiting w s args cb \<longleftrightarrow>
     (\<exists>h q. g_ctx w s = Some h \<and> waiting h = [(args, q)] \<and> pend_cb (db_pending_at w q) = Some cb)"

definition hiredis_accepts :: "'h hiredis \<Rightarrow> bool" where
  "hiredis_accepts hi \<longleftrightarrow> (\<forall>h args p. redisAsyncCommand hi h args p \<noteq> None)"

lemma db_cmd_alone:
  assumes l: "hiredis_laws hi waiting" "hiredis_accepts hi" and i: "db_inv D free waiting A H w"
    and c: "unat shard < V_STUB_DB_SHARDS" "g_ctx w (unat shard) = Some h" "waiting h = []"
    and p: "pool_set free (g_db_pool w) \<noteq> {}"
  shows "fst (v_port_db_cmd D hi shard cb args w) = RET_CODE_OK"
    and "alone waiting (snd (v_port_db_cmd D hi shard cb args w)) (unat shard) args cb"
    and "db_inv D free waiting A H (snd (v_port_db_cmd D hi shard cb args w))"
proof -
  obtain rc w' where e: "v_port_db_cmd D hi shard cb args w = (rc, w')" by fastforce
  have "pool_laws D free" using i by (simp add: db_inv_def owns_def)
  with p have "pool_get D (g_db_pool w) \<noteq> None" by (simp add: pool_get_opt_None)
  then have "rc = RET_CODE_OK"
    using e c l(2) by (auto simp: v_port_db_cmd_def db_pending_get_def hiredis_accepts_def split: option.splits)
      (metis option.distinct(1))
  then show "fst (v_port_db_cmd D hi shard cb args w) = RET_CODE_OK" by (simp add: e)
  from l(1) i e have "alone waiting w' (unat shard) args cb \<and> db_inv D free waiting A H w'"
  proof (cases rule: db_cmd_cases)
    case failed
    with \<open>rc = RET_CODE_OK\<close> show ?thesis by simp
  next
    case (sent h0 h' p)
    then have "g_ctx w' (unat shard) = Some h'" "waiting h' = [(args, p)]" using c by simp_all
    with sent(2,7) show ?thesis unfolding alone_def by auto
  qed
  then show "alone waiting (snd (v_port_db_cmd D hi shard cb args w)) (unat shard) args cb"
    "db_inv D free waiting A H (snd (v_port_db_cmd D hi shard cb args w))"
    by (simp_all add: e)
qed

lemma release_alone:
  assumes "db_inv D free waiting A {q} w"
  shows "db_inv D free waiting A {} (w\<lparr>g_db_pool := pool_put D q (g_db_pool w)\<rparr>)"
    and "pool_set free (pool_put D q (g_db_pool w)) \<noteq> {}"
    and "alone waiting (w\<lparr>g_db_pool := pool_put D q (g_db_pool w)\<rparr>) s args cb = alone waiting w s args cb"
  using db_inv_release [of D free waiting A q "{}" w] assms
  by (auto simp: alone_def db_inv_def owns_def)

lemma pump_alone:
  fixes w :: "('r, 'p, 'h, 'a) script_st_scheme"
  assumes "next_reply_laws nr waiting" and "db_inv D free waiting A {} w" and "s < V_STUB_DB_SHARDS"
    and "alone waiting w s args cb" and "length (g_scratch w) = V_STUB_DB_REPLY_SCRATCH_CAP"
    and "serve srv args = (r, srv')" "flat_reply r" "r \<noteq> H_null"
  obtains wc q h where "g_ctx wc s = Some h" "waiting h = []" "db_inv D free waiting A {q} wc"
    "length (g_scratch wc) = V_STUB_DB_REPLY_SCRATCH_CAP"
    "evalsha_at wc = evalsha_at w" "load_at wc = load_at w" "g_evalsha_pool wc = g_evalsha_pool w"
    "g_load_pool wc = g_load_pool w" "g_db_pool wc = g_db_pool w" "script_st.more wc = script_st.more w"
    "pump D nr serve cc s (srv, w) =
       (srv', let w2 = cc cb RET_CODE_OK (Some (spec_reply r)) wc
              in w2\<lparr>g_db_pool := pool_put D q (g_db_pool w2)\<rparr>)"
proof -
  obtain h0 q where c: "g_ctx w s = Some h0" "waiting h0 = (args, q) # []" "pend_cb (db_pending_at w q) = Some cb"
    using assms(4) by (auto simp: alone_def)
  obtain h g used where p: "waiting h = []" "length g = V_STUB_DB_REPLY_SCRATCH_CAP"
    "let wc = w\<lparr>g_ctx := (g_ctx w)(s := Some h), g_scratch := g, g_scratch_used := used\<rparr>;
         w2 = cc cb RET_CODE_OK (Some (spec_reply r)) wc
     in db_inv D free waiting A {q} wc \<and>
        pump D nr serve cc s (srv, w) = (srv', w2\<lparr>g_db_pool := pool_put D q (g_db_pool w2)\<rparr>)"
    using assms(1,2,3) c(1,2) assms(5) c(3) assms(6,7,8) by (rule pump_step [where cc = cc])
  show ?thesis
    by (rule that [where wc = "w\<lparr>g_ctx := (g_ctx w)(s := Some h), g_scratch := g, g_scratch_used := used\<rparr>"
          and q = q and h = h])
      (use p in \<open>simp_all add: Let_def\<close>)
qed

text \<open>The three exchanges of a recovery.\<close>

lemma script_lawsD:
  assumes "script_laws serve sha1 has run"
  shows "length (sha1 src) = V_DB_SCRIPT_SHA_LEN"
    "fst (serve s [''SCRIPT'', ''LOAD'', src]) = H_string (sha1 src)"
    "has (snd (serve s [''SCRIPT'', ''LOAD'', src])) src"
    "serve s (''EVALSHA'' # sha1 src # args) =
      (if has s src then run s src args else (H_error ''NOSCRIPT No matching script. Please use EVAL.'', s))"
  using assms unfolding script_laws_def by blast+

lemma recovery_noscript:
  fixes w :: "('r, 'p, 'h, user_log) script_st_scheme"
  assumes laws: "next_reply_laws nr waiting" "hiredis_laws hi waiting" "hiredis_accepts hi"
      "script_laws serve sha1 has run"
    and inv: "db_inv D free waiting A {} w" "length (g_scratch w) = V_STUB_DB_REPLY_SCRATCH_CAP"
      "owns D free L HL (g_load_pool w)" "HL \<noteq> L" "pool_set free (g_db_pool w) \<noteq> {}"
    and s: "unat shard < V_STUB_DB_SHARDS"
    and src: "src = g_script_src i" "\<not> has srv src"
    and e: "evalsha_at w p = \<lparr>ev_shard = shard, ev_script_id = i, ev_user_cb = Some cb, ev_retried = False,
        ev_parts = ''EVALSHA'' # sha1 src # args\<rparr>"
    and al: "alone waiting w (unat shard) (''EVALSHA'' # sha1 src # args) (Evalsha_reply_cb p)"
  obtains lc w1 where "pump D nr serve (script_call D hi) (unat shard) (srv, w) = (srv, w1)"
    "db_inv D free waiting A {} w1" "length (g_scratch w1) = V_STUB_DB_REPLY_SCRATCH_CAP"
    "pool_set free (g_db_pool w1) \<noteq> {}"
    "alone waiting w1 (unat shard) [''SCRIPT'', ''LOAD'', src] (Load_reply_cb lc)"
    "load_at w1 lc = \<lparr>lc_shard = shard, lc_script_id = i, lc_resume = Some p\<rparr>"
    "evalsha_at w1 p = (evalsha_at w p)\<lparr>ev_retried := True\<rparr>" "script_st.more w1 = script_st.more w"
    "owns D free L (insert lc HL) (g_load_pool w1)" "lc \<notin> HL" "g_evalsha_pool w1 = g_evalsha_pool w"
proof -
  let ?r = "H_error ''NOSCRIPT No matching script. Please use EVAL.''"
  have sv: "serve srv (''EVALSHA'' # sha1 src # args) = (?r, srv)" "flat_reply ?r" "?r \<noteq> H_null"
    using src(2) by (simp_all add: script_lawsD(4) [OF laws(4)] flat_reply_def)
  obtain wc q h where wc: "g_ctx wc (unat shard) = Some h" "waiting h = []" "db_inv D free waiting A {q} wc"
    "length (g_scratch wc) = V_STUB_DB_REPLY_SCRATCH_CAP" "evalsha_at wc = evalsha_at w" "load_at wc = load_at w"
    "g_evalsha_pool wc = g_evalsha_pool w" "g_load_pool wc = g_load_pool w" "g_db_pool wc = g_db_pool w"
    "script_st.more wc = script_st.more w"
    "pump D nr serve (script_call D hi) (unat shard) (srv, w) =
       (srv, let w2 = script_call D hi (Evalsha_reply_cb p) RET_CODE_OK (Some (spec_reply ?r)) wc
             in w2\<lparr>g_db_pool := pool_put D q (g_db_pool w2)\<rparr>)"
    using laws(1) inv(1) s al inv(2) sv by (rule pump_alone [where cc = "script_call D hi"])
  obtain lc pool where g: "pool_get D (g_load_pool wc) = Some (lc, pool)"
    using owns_exhausted [OF inv(3)] inv(4) wc(8) by auto
  note get = owns_get [OF inv(3) g [unfolded wc(8)]]
  define w2 where "w2 = wc\<lparr>evalsha_at := (evalsha_at wc)(p := (evalsha_at wc p)\<lparr>ev_retried := True\<rparr>),
    g_load_pool := Some pool,
    load_at := (load_at wc)(lc := \<lparr>lc_shard = shard, lc_script_id = i, lc_resume = Some p\<rparr>)\<rparr>"
  have w2: "g_ctx w2 (unat shard) = Some h" "db_inv D free waiting A {q} w2" "pool_set free (g_db_pool w2) \<noteq> {}"
    using wc(1,3,9) inv(5) by (simp_all add: w2_def)
  let ?c = "v_port_db_cmd D hi shard (Load_reply_cb lc) [''SCRIPT'', ''LOAD'', src] w2"
  note cmd = db_cmd_alone [OF laws(2,3) w2(2) s w2(1) wc(2) w2(3), where cb = "Load_reply_cb lc"
      and args = "[''SCRIPT'', ''LOAD'', src]"]
  have cb: "script_call D hi (Evalsha_reply_cb p) RET_CODE_OK (Some (spec_reply ?r)) wc = snd ?c"
    using g e wc(5) cmd(1) src(1)
    by (simp add: evalsha_reply_cb_def is_noscript_def request_script_load_def Let_def w2_def split_beta)
  show ?thesis
    using wc(4,5,7,10,11) cb cmd release_alone [OF cmd(3)] get
    by (intro that [of "(snd ?c)\<lparr>g_db_pool := pool_put D q (g_db_pool (snd ?c))\<rparr>" lc])
      (simp_all add: frame_simps w2_def Let_def)
qed

lemma recovery_load:
  fixes w :: "('r, 'p, 'h, user_log) script_st_scheme"
  assumes laws: "next_reply_laws nr waiting" "hiredis_laws hi waiting" "hiredis_accepts hi"
      "script_laws serve sha1 has run"
    and inv: "db_inv D free waiting A {} w" "length (g_scratch w) = V_STUB_DB_REPLY_SCRATCH_CAP"
      "owns D free L (insert lc HL) (g_load_pool w)" "lc \<notin> HL" "pool_set free (g_db_pool w) \<noteq> {}"
    and s: "unat shard < V_STUB_DB_SHARDS"
    and e: "evalsha_at w p = \<lparr>ev_shard = shard, ev_script_id = i, ev_user_cb = Some cb, ev_retried = True,
        ev_parts = ''EVALSHA'' # old # args\<rparr>"
    and lc: "load_at w lc = \<lparr>lc_shard = shard, lc_script_id = i, lc_resume = Some p\<rparr>"
    and al: "alone waiting w (unat shard) [''SCRIPT'', ''LOAD'', src] (Load_reply_cb lc)"
  obtains w1 where "pump D nr serve (script_call D hi) (unat shard) (srv, w) =
      (snd (serve srv [''SCRIPT'', ''LOAD'', src]), w1)"
    "db_inv D free waiting A {} w1" "length (g_scratch w1) = V_STUB_DB_REPLY_SCRATCH_CAP"
    "alone waiting w1 (unat shard) (''EVALSHA'' # sha1 src # args) (Evalsha_reply_cb p)"
    "evalsha_at w1 p = (evalsha_at w p)\<lparr>ev_parts := ''EVALSHA'' # sha1 src # args\<rparr>"
    "script_st.more w1 = script_st.more w" "owns D free L HL (g_load_pool w1)"
    "g_evalsha_pool w1 = g_evalsha_pool w"
proof -
  let ?r = "H_string (sha1 src)"
  let ?srv = "snd (serve srv [''SCRIPT'', ''LOAD'', src])"
  have sv: "serve srv [''SCRIPT'', ''LOAD'', src] = (?r, ?srv)" "flat_reply ?r" "?r \<noteq> H_null"
    using script_lawsD(2) [OF laws(4), of srv src] by (simp_all add: prod_eq_iff flat_reply_def)
  obtain wc q h where wc: "g_ctx wc (unat shard) = Some h" "waiting h = []" "db_inv D free waiting A {q} wc"
    "length (g_scratch wc) = V_STUB_DB_REPLY_SCRATCH_CAP" "evalsha_at wc = evalsha_at w" "load_at wc = load_at w"
    "g_evalsha_pool wc = g_evalsha_pool w" "g_load_pool wc = g_load_pool w" "g_db_pool wc = g_db_pool w"
    "script_st.more wc = script_st.more w"
    "pump D nr serve (script_call D hi) (unat shard) (srv, w) =
       (?srv, let w2 = script_call D hi (Load_reply_cb lc) RET_CODE_OK (Some (spec_reply ?r)) wc
             in w2\<lparr>g_db_pool := pool_put D q (g_db_pool w2)\<rparr>)"
    using laws(1) inv(1) s al inv(2) sv by (rule pump_alone [where cc = "script_call D hi"])
  define sh where "sh = (g_sha wc)(unat shard := (g_sha wc (unat shard))(i := sha1 src))"
  define w2 where "w2 = wc\<lparr>g_sha := sh,
    evalsha_at := (evalsha_at wc)(p := (evalsha_at wc p)\<lparr>ev_parts := ''EVALSHA'' # sha1 src # args\<rparr>)\<rparr>"
  have w2: "g_ctx w2 (unat shard) = Some h" "db_inv D free waiting A {q} w2" "pool_set free (g_db_pool w2) \<noteq> {}"
    using wc(1,3,9) inv(5) by (simp_all add: w2_def)
  let ?c = "v_port_db_cmd D hi shard (Evalsha_reply_cb p) (''EVALSHA'' # sha1 src # args) w2"
  note cmd = db_cmd_alone [OF laws(2,3) w2(2) s w2(1) wc(2) w2(3), where cb = "Evalsha_reply_cb p"
      and args = "''EVALSHA'' # sha1 src # args"]
  have "issue_evalsha D hi log_call p w2 = snd ?c"
    using cmd(1) e wc(5) by (simp add: issue_evalsha_def v_port_db_cmd_argv_def split_beta w2_def)
  then have cb: "script_call D hi (Load_reply_cb lc) RET_CODE_OK (Some (spec_reply ?r)) wc = load_put D lc (snd ?c)"
    using script_lawsD(1) [OF laws(4), of src] lc e wc(5,6)
    by (simp add: load_reply_cb_def Let_def w2_def sh_def)
  have rel: "db_inv D free waiting A {q} (load_put D lc (snd ?c))" using cmd(3) by simp
  have al2: "alone waiting (load_put D lc (snd ?c)) (unat shard) (''EVALSHA'' # sha1 src # args) (Evalsha_reply_cb p)"
    using cmd(2) by (simp add: alone_def load_put_def)
  show ?thesis
    using wc(4-8,10,11) cb release_alone [OF rel] al2 owns_put [OF inv(3,4)]
    by (intro that [of "(load_put D lc (snd ?c))\<lparr>g_db_pool := pool_put D q (g_db_pool (load_put D lc (snd ?c)))\<rparr>"])
      (simp_all add: frame_simps w2_def Let_def, simp_all add: frame_simps load_put_def)
qed

lemma recovery_result:
  fixes w :: "('r, 'p, 'h, user_log) script_st_scheme"
  assumes laws: "next_reply_laws nr waiting"
    and inv: "db_inv D free waiting A {} w" "length (g_scratch w) = V_STUB_DB_REPLY_SCRATCH_CAP"
      "owns D free E (insert p HE) (g_evalsha_pool w)" "p \<notin> HE"
    and s: "s < V_STUB_DB_SHARDS"
    and e: "ev_user_cb (evalsha_at w p) = Some cb" "ev_retried (evalsha_at w p)"
    and al: "alone waiting w s args (Evalsha_reply_cb p)"
    and sv: "serve srv args = (r, srv')" "flat_reply r" "r \<noteq> H_null"
  obtains w1 where "pump D nr serve (script_call D hi) s (srv, w) = (srv', w1)"
    "db_inv D free waiting A {} w1" "owns D free E HE (g_evalsha_pool w1)" "g_load_pool w1 = g_load_pool w"
    "script_st.more w1 = script_st.more w @ [(cb, RET_CODE_OK, Some (spec_reply r))]"
proof -
  obtain wc q h where wc: "g_ctx wc s = Some h" "waiting h = []" "db_inv D free waiting A {q} wc"
    "length (g_scratch wc) = V_STUB_DB_REPLY_SCRATCH_CAP" "evalsha_at wc = evalsha_at w" "load_at wc = load_at w"
    "g_evalsha_pool wc = g_evalsha_pool w" "g_load_pool wc = g_load_pool w" "g_db_pool wc = g_db_pool w"
    "script_st.more wc = script_st.more w"
    "pump D nr serve (script_call D hi) s (srv, w) =
       (srv', let w2 = script_call D hi (Evalsha_reply_cb p) RET_CODE_OK (Some (spec_reply r)) wc
             in w2\<lparr>g_db_pool := pool_put D q (g_db_pool w2)\<rparr>)"
    using laws(1) inv(1) s al inv(2) sv by (rule pump_alone [where cc = "script_call D hi"])
  define w2 where "w2 = evalsha_put D p (log_call cb RET_CODE_OK (Some (spec_reply r)) wc)"
  have w2: "g_db_pool w2 = g_db_pool wc" "db_inv D free waiting A {q} w2" "g_load_pool w2 = g_load_pool w"
    using wc(3,8) by (simp_all add: w2_def evalsha_put_def log_call_def db_inv_def waits_def)
  have cb: "script_call D hi (Evalsha_reply_cb p) RET_CODE_OK (Some (spec_reply r)) wc = w2"
    using e wc(5) by (simp add: evalsha_reply_cb_def call_opt_def w2_def)
  show ?thesis
    using wc(7,10,11) cb w2 release_alone(1) [OF w2(2)] owns_put [OF inv(3,4)]
    by (intro that [of "w2\<lparr>g_db_pool := pool_put D q (g_db_pool w2)\<rparr>"])
      (simp_all add: Let_def, simp_all add: w2_def evalsha_put_def log_call_def)
qed

text \<open>
  C14: losing the script cache is invisible to the caller. When the server has forgotten a
  script (a failover), a waiting EVALSHA is answered NOSCRIPT, the module loads the script and
  repeats the call with the SHA the load returned. After these three exchanges the script has
  run exactly once, on the server that now has it, the caller's callback has run exactly once,
  with the script's reply, and every pending object is back in its pool.
\<close>

theorem noscript_recovery:
  fixes w :: "('r, 'p, 'h, user_log) script_st_scheme"
  assumes laws: "next_reply_laws nr waiting" "hiredis_laws hi waiting" "hiredis_accepts hi"
      "script_laws serve sha1 has run"
    and inv: "db_inv D free waiting A {} w" "length (g_scratch w) = V_STUB_DB_REPLY_SCRATCH_CAP"
      "pool_set free (g_db_pool w) \<noteq> {}"
      "owns D free L HL (g_load_pool w)" "HL \<noteq> L" "owns D free E (insert p HE) (g_evalsha_pool w)" "p \<notin> HE"
    and s: "unat shard < V_STUB_DB_SHARDS"
    and src: "src = g_script_src i" "\<not> has srv src"
    and e: "evalsha_at w p = \<lparr>ev_shard = shard, ev_script_id = i, ev_user_cb = Some cb, ev_retried = False,
        ev_parts = ''EVALSHA'' # sha1 src # args\<rparr>"
    and al: "alone waiting w (unat shard) (''EVALSHA'' # sha1 src # args) (Evalsha_reply_cb p)"
    and res: "run (snd (serve srv [''SCRIPT'', ''LOAD'', src])) src args = (r, srv')" "flat_reply r" "r \<noteq> H_null"
  shows "\<exists>w'. (pump D nr serve (script_call D hi) (unat shard) ^^ 3) (srv, w) = (srv', w') \<and>
    script_st.more w' = script_st.more w @ [(cb, RET_CODE_OK, Some (spec_reply r))] \<and>
    db_inv D free waiting A {} w' \<and> owns D free E HE (g_evalsha_pool w') \<and> owns D free L HL (g_load_pool w')"
proof -
  let ?srv = "snd (serve srv [''SCRIPT'', ''LOAD'', src])"
  obtain lc w1 where w1: "pump D nr serve (script_call D hi) (unat shard) (srv, w) = (srv, w1)"
    "db_inv D free waiting A {} w1" "length (g_scratch w1) = V_STUB_DB_REPLY_SCRATCH_CAP"
    "pool_set free (g_db_pool w1) \<noteq> {}"
    "alone waiting w1 (unat shard) [''SCRIPT'', ''LOAD'', src] (Load_reply_cb lc)"
    "load_at w1 lc = \<lparr>lc_shard = shard, lc_script_id = i, lc_resume = Some p\<rparr>"
    "evalsha_at w1 p = (evalsha_at w p)\<lparr>ev_retried := True\<rparr>" "script_st.more w1 = script_st.more w"
    "owns D free L (insert lc HL) (g_load_pool w1)" "lc \<notin> HL" "g_evalsha_pool w1 = g_evalsha_pool w"
    using laws inv(1,2,4,5,3) s src e al by (rule recovery_noscript)
  have e1: "evalsha_at w1 p = \<lparr>ev_shard = shard, ev_script_id = i, ev_user_cb = Some cb, ev_retried = True,
        ev_parts = ''EVALSHA'' # sha1 src # args\<rparr>"
    by (simp add: w1(7) e)
  obtain w2 where w2: "pump D nr serve (script_call D hi) (unat shard) (srv, w1) = (?srv, w2)"
    "db_inv D free waiting A {} w2" "length (g_scratch w2) = V_STUB_DB_REPLY_SCRATCH_CAP"
    "alone waiting w2 (unat shard) (''EVALSHA'' # sha1 src # args) (Evalsha_reply_cb p)"
    "evalsha_at w2 p = (evalsha_at w1 p)\<lparr>ev_parts := ''EVALSHA'' # sha1 src # args\<rparr>"
    "script_st.more w2 = script_st.more w1" "owns D free L HL (g_load_pool w2)"
    "g_evalsha_pool w2 = g_evalsha_pool w1"
    using laws w1(2,3,9,10,4) s e1 w1(6,5) by (rule recovery_load)
  have e2: "ev_user_cb (evalsha_at w2 p) = Some cb" "ev_retried (evalsha_at w2 p)"
    by (simp_all add: w2(5) e1)
  have o2: "owns D free E (insert p HE) (g_evalsha_pool w2)" using inv(6) w1(11) w2(8) by simp
  have sv: "serve ?srv (''EVALSHA'' # sha1 src # args) = (r, srv')"
    using script_lawsD(3,4) [OF laws(4)] res(1) by simp
  obtain w3 where w3: "pump D nr serve (script_call D hi) (unat shard) (?srv, w2) = (srv', w3)"
    "db_inv D free waiting A {} w3" "owns D free E HE (g_evalsha_pool w3)" "g_load_pool w3 = g_load_pool w2"
    "script_st.more w3 = script_st.more w2 @ [(cb, RET_CODE_OK, Some (spec_reply r))]"
    using laws(1) w2(2,3) o2 inv(7) s e2 w2(4) sv res(2,3) by (rule recovery_result [where hi = hi])
  have "(pump D nr serve (script_call D hi) (unat shard) ^^ 3) (srv, w) = (srv', w3)"
    using w1(1) w2(1) w3(1) by (simp add: numeral_3_eq_3)
  with w1(8) w2(6,7) w3 show ?thesis by auto
qed

text \<open>A server that counts how often the script ran, with one SHA for every text.\<close>

definition demo_server :: "(bool \<times> nat) server" where
  "demo_server s args =
     (case args of
        a # b # as \<Rightarrow>
          if a = ''EVALSHA'' then
            if fst s then (H_integer 1, (True, Suc (snd s)))
            else (H_error ''NOSCRIPT No matching script. Please use EVAL.'', s)
          else (H_string demo_sha, (True, snd s))
      | _ \<Rightarrow> (H_nil, s))"

lemma demo_server_laws:
  "script_laws demo_server (\<lambda>_. demo_sha) (\<lambda>s _. fst s) (\<lambda>s _ _. (H_integer 1, (True, Suc (snd s))))"
  by (simp add: script_laws_def demo_server_def demo_sha_def V_DB_SCRIPT_SHA_LEN_def)

definition demo_recovery :: "(nat \<times> ptr list, ptr list, (string list \<times> ptr) list, user_log) script_st_scheme" where
  "demo_recovery = (demo_script [])
     \<lparr>g_ctx := (\<lambda>s. if s = 2 then Some [([''EVALSHA'', demo_sha, ''1'', ''pdu_2:1'', ''1''], 10)]
                    else if s < V_STUB_DB_SHARDS then Some [] else None),
      g_db_pool := Some [11, 12, 13], db_pending_at := (\<lambda>_. \<lparr>pend_cb = Some (Evalsha_reply_cb 20)\<rparr>),
      g_evalsha_pool := Some [21],
      evalsha_at := (\<lambda>_. \<lparr>ev_shard = 2, ev_script_id = 1, ev_user_cb = Some (Delete_reply_cb 7), ev_retried = False,
         ev_parts = [''EVALSHA'', demo_sha, ''1'', ''pdu_2:1'', ''1'']\<rparr>)\<rparr>"

theorem noscript_recovery_witness:
  "\<exists>w'. (pump list_dpdk list_reader demo_server (script_call list_dpdk list_hiredis) 2 ^^ 3)
      ((False, 0), demo_recovery) = ((True, 1), w') \<and>
    script_st.more w' = [(Delete_reply_cb 7, RET_CODE_OK, Some (Reply_Integer 1))]"
proof -
  have "waits (\<lambda>h. h) demo_recovery s = (if s = 2 then [10] else [])" for s
    by (simp add: waits_def demo_recovery_def)
  moreover from this have "(\<Union>s < V_STUB_DB_SHARDS. set (waits (\<lambda>h. h) demo_recovery s)) = {10}"
    by (auto simp: V_STUB_DB_SHARDS_def)
  ultimately have "db_inv list_dpdk set (\<lambda>h. h) {10, 11, 12, 13} {} demo_recovery"
    by (auto simp: db_inv_def owns_def list_pool_laws) (auto simp: demo_recovery_def)
  then have inv: "db_inv list_dpdk set (\<lambda>h. h) {10, 11, 12, 13} {} demo_recovery"
    "length (g_scratch demo_recovery) = V_STUB_DB_REPLY_SCRATCH_CAP" "pool_set set (g_db_pool demo_recovery) \<noteq> {}"
    "owns list_dpdk set {30, 31} {} (g_load_pool demo_recovery)" "{} \<noteq> {30, 31 :: ptr}"
    "owns list_dpdk set {20, 21} (insert 20 {}) (g_evalsha_pool demo_recovery)" "20 \<notin> ({} :: ptr set)"
    by (auto simp: demo_recovery_def demo_script_def owns_def list_pool_laws)
  have "hiredis_accepts list_hiredis" by (simp add: hiredis_accepts_def list_hiredis_def)
  note t = noscript_recovery [OF list_reader_laws list_hiredis_laws this demo_server_laws inv,
      where shard = 2 and i = 1 and src = "g_script_src 1" and srv = "(False, 0)" and cb = "Delete_reply_cb 7"
        and args = "[''1'', ''pdu_2:1'', ''1'']" and r = "H_integer 1" and srv' = "(True, 1)"]
  have "\<exists>w'. (pump list_dpdk list_reader demo_server (script_call list_dpdk list_hiredis) (unat (2 :: u8)) ^^ 3)
      ((False, 0), demo_recovery) = ((True, 1), w') \<and>
    script_st.more w' = script_st.more demo_recovery @ [(Delete_reply_cb 7, RET_CODE_OK, Some (spec_reply (H_integer 1)))] \<and>
    db_inv list_dpdk set (\<lambda>h. h) {10, 11, 12, 13} {} w' \<and> owns list_dpdk set {20, 21} {} (g_evalsha_pool w') \<and>
    owns list_dpdk set {30, 31} {} (g_load_pool w')"
    by (rule t) (simp_all add: V_STUB_DB_SHARDS_def demo_recovery_def alone_def demo_server_def flat_reply_def)
  then show ?thesis by (auto simp: demo_recovery_def demo_script_def)
qed

end
