(* ===== verification/V_seid.thy ===== *)
theory V_seid
  imports Prelude
begin

section \<open>SEID and TEID layout\<close>

text \<open>
  \<^verbatim>\<open>src/v_seid\<close>: the bit layout of session and tunnel identifiers, with packing, field
  extraction and the validation of identifiers that arrive from the network. A fallible
  function with an out-parameter returns \<open>None\<close> for \<^verbatim>\<open>RET_CODE_ERR\<close> and \<open>Some\<close> of the
  value written through the pointer for \<^verbatim>\<open>RET_CODE_OK\<close>; logging has no effect on the state
  and is left out.
\<close>

definition V_NUM_PARTS :: nat where "V_NUM_PARTS = 1024"
definition V_SEID_FMT_VER :: u64 where "V_SEID_FMT_VER = 1"
definition V_SEID_FMT_SHIFT :: nat where "V_SEID_FMT_SHIFT = 60"
definition V_SEID_RSV_SHIFT :: nat where "V_SEID_RSV_SHIFT = 56"
definition V_SEID_RSV_MASK :: u64 where "V_SEID_RSV_MASK = 0xF"
definition V_SEID_PART_SHIFT :: nat where "V_SEID_PART_SHIFT = 46"
definition V_SEID_PART_MASK :: u64 where "V_SEID_PART_MASK = 0x3FF"
definition V_SEID_LOCAL_BITS :: nat where "V_SEID_LOCAL_BITS = 46"
definition V_SEID_LOCAL_MASK :: u64 where
  "V_SEID_LOCAL_MASK = push_bit V_SEID_LOCAL_BITS 1 - 1"

definition V_TEID_RSV_SHIFT :: nat where "V_TEID_RSV_SHIFT = 31"
definition V_TEID_PART_SHIFT :: nat where "V_TEID_PART_SHIFT = 21"
definition V_TEID_PART_MASK :: u32 where "V_TEID_PART_MASK = 0x3FF"
definition V_TEID_LOCAL_BITS :: nat where "V_TEID_LOCAL_BITS = 21"
definition V_TEID_LOCAL_MASK :: u32 where
  "V_TEID_LOCAL_MASK = push_bit V_TEID_LOCAL_BITS 1 - 1"

lemmas layout_defs =
  V_NUM_PARTS_def V_SEID_FMT_VER_def V_SEID_FMT_SHIFT_def V_SEID_RSV_SHIFT_def
  V_SEID_RSV_MASK_def V_SEID_PART_SHIFT_def V_SEID_PART_MASK_def V_SEID_LOCAL_BITS_def
  V_SEID_LOCAL_MASK_def V_TEID_RSV_SHIFT_def V_TEID_PART_SHIFT_def V_TEID_PART_MASK_def
  V_TEID_LOCAL_BITS_def V_TEID_LOCAL_MASK_def

definition v_seid_encode :: "u16 \<Rightarrow> u64 \<Rightarrow> u64 option" where
  "v_seid_encode part_id local =
     (if V_NUM_PARTS \<le> unat part_id then None
      else if V_SEID_LOCAL_MASK < local then None
      else Some (push_bit V_SEID_FMT_SHIFT V_SEID_FMT_VER OR
                 push_bit V_SEID_PART_SHIFT (ucast part_id) OR
                 (local AND V_SEID_LOCAL_MASK)))"

definition v_seid_part :: "u64 \<Rightarrow> u16" where
  "v_seid_part seid = ucast (drop_bit V_SEID_PART_SHIFT seid AND V_SEID_PART_MASK)"

definition v_seid_local :: "u64 \<Rightarrow> u64" where
  "v_seid_local seid = seid AND V_SEID_LOCAL_MASK"

definition v_teid_encode :: "u16 \<Rightarrow> u32 \<Rightarrow> u32 option" where
  "v_teid_encode part_id local =
     (if V_NUM_PARTS \<le> unat part_id then None
      else if local = 0 \<or> V_TEID_LOCAL_MASK < local then None
      else Some (push_bit V_TEID_PART_SHIFT (ucast part_id) OR (local AND V_TEID_LOCAL_MASK)))"

definition v_teid_part :: "u32 \<Rightarrow> u16" where
  "v_teid_part teid = ucast (drop_bit V_TEID_PART_SHIFT teid AND V_TEID_PART_MASK)"

definition v_teid_local :: "u32 \<Rightarrow> u32" where
  "v_teid_local teid = teid AND V_TEID_LOCAL_MASK"

definition v_seid_validate :: "u64 \<Rightarrow> u16 option" where
  "v_seid_validate seid =
     (if drop_bit V_SEID_FMT_SHIFT seid \<noteq> V_SEID_FMT_VER then None
      else if drop_bit V_SEID_RSV_SHIFT seid AND V_SEID_RSV_MASK \<noteq> 0 then None
      else let part = v_seid_part seid in
           if V_NUM_PARTS \<le> unat part then None else Some part)"

definition v_teid_validate :: "u32 \<Rightarrow> u16 option" where
  "v_teid_validate teid =
     (if teid = 0 then None
      else if drop_bit V_TEID_RSV_SHIFT teid \<noteq> 0 then None
      else let part = v_teid_part teid in
           if V_NUM_PARTS \<le> unat part then None else Some part)"

subsection \<open>The layout in arithmetic\<close>

text \<open>
  The three SEID fields do not overlap, so packing is a sum and unpacking is division; the
  lemmas below carry every later proof about identifiers over to natural numbers.
\<close>

lemma seid_local_mask: "V_SEID_LOCAL_MASK = mask 46"
  by (simp add: layout_defs mask_eq_decr_exp push_bit_eq_mult)

lemma teid_local_mask: "V_TEID_LOCAL_MASK = mask 21"
  by (simp add: layout_defs mask_eq_decr_exp push_bit_eq_mult)

lemma part_masks: "V_SEID_PART_MASK = mask 10" "V_TEID_PART_MASK = mask 10"
  by (simp_all add: layout_defs mask_eq_decr_exp)

lemma rsv_mask: "V_SEID_RSV_MASK = mask 4"
  by (simp add: layout_defs mask_eq_decr_exp)

lemma word_lt_bits:
  fixes w :: "'a :: len word"
  assumes "unat w < 2 ^ k"
  shows "take_bit k w = w"
  by (metis assms take_bit_nat_eq_self_iff unsigned_take_bit_eq unsigned_word_eqI)

lemma bit_lt:
  fixes w :: "'a :: len word"
  assumes "unat w < 2 ^ k" and "bit w n"
  shows "n < k"
  using assms by (metis bit_take_bit_iff word_lt_bits)

lemma le_local_mask:
  "\<not> V_SEID_LOCAL_MASK < l \<longleftrightarrow> unat l < 2 ^ 46" for l :: u64
  by (simp add: layout_defs word_less_nat_alt push_bit_eq_mult) linarith

lemma le_teid_local_mask:
  "\<not> V_TEID_LOCAL_MASK < l \<longleftrightarrow> unat l < 2 ^ 21" for l :: u32
  by (simp add: layout_defs word_less_nat_alt push_bit_eq_mult) linarith

text \<open>The packed word, bit by bit.\<close>

lemma bit_seid:
  assumes "v_seid_encode p l = Some s"
  shows "bit s n \<longleftrightarrow> n = 60 \<or> (46 \<le> n \<and> n < 56 \<and> bit p (n - 46)) \<or> (n < 46 \<and> bit l n)"
proof -
  define ver :: u64 where "ver = push_bit 60 1"
  have ver: "bit ver n \<longleftrightarrow> n = 60"
    unfolding ver_def by (subst bit_push_bit_iff) (auto simp: bit_1_iff)
  from assms have p: "unat p < 2 ^ 10"
    and s: "s = ver OR push_bit 46 (ucast p) OR (l AND mask 46)"
    by (auto simp: v_seid_encode_def seid_local_mask V_NUM_PARTS_def V_SEID_FMT_SHIFT_def
        V_SEID_FMT_VER_def V_SEID_PART_SHIFT_def ver_def split: if_splits)
  show ?thesis
    unfolding s using bit_lt [OF p, of "n - 46"]
    by (auto simp: ver bit_or_iff bit_and_iff bit_push_bit_iff bit_mask_iff bit_ucast_iff
        dest: bit_imp_le_length)
qed

lemma seid_encode_Some:
  "(\<exists>s. v_seid_encode p l = Some s) \<longleftrightarrow> unat p < 1024 \<and> unat l < 2 ^ 46"
  using le_local_mask [of l] by (auto simp: v_seid_encode_def V_NUM_PARTS_def)

lemma seid_part_encode:
  assumes e: "v_seid_encode p l = Some s"
  shows "v_seid_part s = p"
proof (rule bit_word_eqI)
  fix n :: nat
  from e have "unat p < 2 ^ 10" using seid_encode_Some [of p l] by auto
  then show "bit (v_seid_part s) n = bit p n" if "n < LENGTH(16)"
    using bit_seid [OF e, of "46 + n"] bit_lt [of p 10 n] that
    by (auto simp: v_seid_part_def part_masks bit_ucast_iff bit_and_iff bit_drop_bit_eq bit_mask_iff
        V_SEID_PART_SHIFT_def)
qed

lemma seid_local_encode:
  assumes e: "v_seid_encode p l = Some s"
  shows "v_seid_local s = l"
proof (rule bit_word_eqI)
  fix n :: nat
  from e have "unat l < 2 ^ 46" using seid_encode_Some [of p l] by auto
  then show "bit (v_seid_local s) n = bit l n" if "n < LENGTH(64)"
    using bit_seid [OF e, of n] bit_lt [of l 46 n]
    by (auto simp: v_seid_local_def seid_local_mask bit_and_iff bit_mask_iff)
qed

lemma ucast_low_bits_lt: "unat (ucast (w AND mask 10) :: u16) < 1024" for w :: "'a :: len word"
proof -
  have "unat (ucast (w AND mask 10) :: u16) = take_bit 10 (unat w)"
    by (simp add: unsigned_ucast_eq unsigned_take_bit_eq flip: take_bit_eq_mask)
  then show ?thesis
    using take_bit_nat_less_exp [of 10 "unat w"] by simp
qed

lemma seid_part_lt: "unat (v_seid_part s) < 1024"
  unfolding v_seid_part_def part_masks by (rule ucast_low_bits_lt)

text \<open>The range check of the partition can never fail: the field has ten bits.\<close>

lemma seid_validate_alt:
  "v_seid_validate s =
     (if drop_bit 60 s = 1 \<and> drop_bit 56 s AND mask 4 = 0 then Some (v_seid_part s) else None)"
  using seid_part_lt [of s]
  by (auto simp: v_seid_validate_def Let_def V_NUM_PARTS_def V_SEID_FMT_SHIFT_def V_SEID_FMT_VER_def
      V_SEID_RSV_SHIFT_def rsv_mask)

lemma bit_drop_eq:
  fixes w v :: "'a :: len word"
  assumes "drop_bit k w = v"
  shows "bit w (k + n) = bit v n"
  using assms by (metis add.commute bit_drop_bit_eq comp_apply)

lemma seid_validate_encode:
  assumes v: "v_seid_validate s = Some p"
  shows "v_seid_encode p (v_seid_local s) = Some s"
proof -
  from v have p: "p = v_seid_part s" and fmt: "drop_bit 60 s = 1"
    and rsv: "drop_bit 56 s AND mask 4 = 0"
    by (auto simp: seid_validate_alt split: if_splits)
  have l: "unat (v_seid_local s) < 2 ^ 46"
    unfolding v_seid_local_def seid_local_mask
    using take_bit_nat_less_exp [of 46] by (simp add: unsigned_take_bit_eq flip: take_bit_eq_mask)
  obtain s' where e: "v_seid_encode p (v_seid_local s) = Some s'"
    using seid_encode_Some [of p "v_seid_local s"] l seid_part_lt [of s] p by auto
  have "s' = s"
  proof (rule bit_word_eqI)
    fix n :: nat
    assume n: "n < LENGTH(64)"
    have hi: "bit s n \<longleftrightarrow> n = 60" if "60 \<le> n"
      using bit_drop_eq [OF fmt, of "n - 60"] that by (auto simp: bit_1_iff)
    have "\<not> bit (drop_bit 56 s AND mask 4) (n - 56)"
      unfolding rsv by simp
    then have mid: "\<not> bit s n" if "56 \<le> n" "n < 60"
      using that by (auto simp: bit_and_iff bit_drop_bit_eq bit_mask_iff)
    show "bit s' n = bit s n"
      using hi mid n unfolding bit_seid [OF e] p
      by (cases "n < 56"; cases "n < 60") (auto simp: v_seid_part_def v_seid_local_def seid_local_mask part_masks bit_ucast_iff
          bit_and_iff bit_drop_bit_eq bit_mask_iff V_SEID_PART_SHIFT_def not_less)
  qed
  with e show ?thesis by simp
qed

lemma seid_validate_of_encode:
  assumes e: "v_seid_encode p l = Some s"
  shows "v_seid_validate s = Some p"
proof -
  have "drop_bit 60 s = 1"
    by (rule bit_word_eqI) (auto simp: bit_drop_bit_eq bit_seid [OF e] bit_1_iff)
  moreover have "drop_bit 56 s AND mask 4 = 0"
    by (rule bit_word_eqI) (auto simp: bit_drop_bit_eq bit_seid [OF e] bit_and_iff bit_mask_iff)
  ultimately show ?thesis
    using seid_part_encode [OF e] by (simp add: seid_validate_alt)
qed

lemma seid_nonzero:
  assumes e: "v_seid_encode p l = Some s"
  shows "s \<noteq> 0"
  using bit_seid [OF e, of 60] by auto

subsection \<open>TEID fields\<close>

definition teid_pack :: "u16 \<Rightarrow> u32 \<Rightarrow> u32" where
  "teid_pack p l = push_bit 21 (ucast p) OR (l AND mask 21)"

lemma bit_teid_pack:
  assumes "unat p < 1024"
  shows "bit (teid_pack p l) n \<longleftrightarrow> (21 \<le> n \<and> n < 31 \<and> bit p (n - 21)) \<or> (n < 21 \<and> bit l n)"
  using assms bit_lt [of p 10 "n - 21"]
  by (auto simp: teid_pack_def bit_or_iff bit_and_iff bit_push_bit_iff bit_mask_iff bit_ucast_iff
      dest: bit_imp_le_length)

lemma teid_encode_eq:
  "v_teid_encode p l = Some t \<longleftrightarrow>
     unat p < 1024 \<and> l \<noteq> 0 \<and> unat l < 2 ^ 21 \<and> t = teid_pack p l"
  using le_teid_local_mask [of l]
  by (auto simp: v_teid_encode_def teid_local_mask V_NUM_PARTS_def V_TEID_PART_SHIFT_def teid_pack_def not_less)

lemma teid_part_pack:
  assumes "unat p < 1024"
  shows "v_teid_part (teid_pack p l) = p"
proof (rule bit_word_eqI)
  fix n :: nat
  assume "n < LENGTH(16)"
  then show "bit (v_teid_part (teid_pack p l)) n = bit p n"
    using bit_teid_pack [OF assms, of l "21 + n"] bit_lt [of p 10 n] assms
    by (auto simp: v_teid_part_def part_masks bit_ucast_iff bit_and_iff bit_drop_bit_eq bit_mask_iff
        V_TEID_PART_SHIFT_def)
qed

lemma teid_local_pack:
  assumes "unat p < 1024" and "unat l < 2 ^ 21"
  shows "v_teid_local (teid_pack p l) = l"
proof (rule bit_word_eqI)
  fix n :: nat
  show "bit (v_teid_local (teid_pack p l)) n = bit l n"
    using bit_teid_pack [OF assms(1), of l n] bit_lt [OF assms(2), of n]
    by (auto simp: v_teid_local_def teid_local_mask bit_and_iff bit_mask_iff)
qed

lemma teid_part_lt: "unat (v_teid_part t) < 1024"
  unfolding v_teid_part_def part_masks by (rule ucast_low_bits_lt)

lemma teid_validate_alt:
  "v_teid_validate t = (if t \<noteq> 0 \<and> drop_bit 31 t = 0 then Some (v_teid_part t) else None)"
  using teid_part_lt [of t]
  by (auto simp: v_teid_validate_def Let_def V_NUM_PARTS_def V_TEID_RSV_SHIFT_def)

lemma teid_pack_rsv: "unat p < 1024 \<Longrightarrow> drop_bit 31 (teid_pack p l) = 0"
  by (rule bit_word_eqI) (simp add: bit_drop_bit_eq bit_teid_pack)

lemma teid_unpack:
  assumes "drop_bit 31 t = 0"
  shows "teid_pack (v_teid_part t) (v_teid_local t) = t"
proof (rule bit_word_eqI)
  fix n :: nat
  assume n: "n < LENGTH(32)"
  have "\<not> bit t n" if "31 \<le> n"
    using bit_drop_eq [OF assms, of "n - 31"] that by simp
  with n show "bit (teid_pack (v_teid_part t) (v_teid_local t)) n = bit t n"
    unfolding bit_teid_pack [OF teid_part_lt]
    by (cases "n < 31") (auto simp: v_teid_part_def v_teid_local_def teid_local_mask part_masks bit_ucast_iff
          bit_and_iff bit_drop_bit_eq bit_mask_iff V_TEID_PART_SHIFT_def not_less)
qed

lemma teid_local_lt: "unat (v_teid_local t) < 2 ^ 21"
  unfolding v_teid_local_def teid_local_mask
  using take_bit_nat_less_exp [of 21] by (simp add: unsigned_take_bit_eq flip: take_bit_eq_mask)

lemma teid_local_zero: "v_teid_local 0 = 0"
  by (simp add: v_teid_local_def)

lemma teid_pack_zero: "unat p < 1024 \<Longrightarrow> teid_pack p l = 0 \<Longrightarrow> p = 0"
  using teid_part_pack [of p l] by (simp add: v_teid_part_def)

subsection \<open>Properties\<close>

text \<open>
  C28: a SEID that is packed can be unpacked: both fields come back as they went in, and the
  network-input validation accepts the SEID and reports its partition. Two allocations with
  a different partition or a different local index therefore never share a SEID.
\<close>

theorem seid_encode_roundtrip:
  assumes "v_seid_encode part_id local = Some seid"
  shows "v_seid_part seid = part_id \<and> v_seid_local seid = local \<and>
    v_seid_validate seid = Some part_id \<and> seid \<noteq> 0"
  using assms seid_part_encode seid_local_encode seid_validate_of_encode seid_nonzero by blast

theorem seid_encode_roundtrip_witness:
  "v_seid_part 0x1000C00000000005 = 3 \<and> v_seid_local 0x1000C00000000005 = 5 \<and>
    v_seid_validate 0x1000C00000000005 = Some 3 \<and> (0x1000C00000000005 :: u64) \<noteq> 0"
proof -
  have "v_seid_encode 3 5 = Some 0x1000C00000000005"
    by code_simp
  then show ?thesis by (rule seid_encode_roundtrip)
qed

text \<open>
  C11: the validation of an inbound SEID accepts exactly the identifiers the encoder can
  produce, and reports the partition they were produced for. In particular the partition it
  hands on is always a valid index into the 1024 partitions, whatever 64-bit value an
  attacker sends.
\<close>

theorem seid_validate_iff_encoded:
  "v_seid_validate seid = Some part \<longleftrightarrow>
     (\<exists>local. v_seid_encode part local = Some seid) \<and> unat part < V_NUM_PARTS"
proof
  assume v: "v_seid_validate seid = Some part"
  then have "unat part < 1024"
    using seid_part_lt [of seid] by (auto simp: seid_validate_alt split: if_splits)
  with seid_validate_encode [OF v]
  show "(\<exists>local. v_seid_encode part local = Some seid) \<and> unat part < V_NUM_PARTS"
    by (auto simp: V_NUM_PARTS_def)
next
  assume "(\<exists>local. v_seid_encode part local = Some seid) \<and> unat part < V_NUM_PARTS"
  then show "v_seid_validate seid = Some part"
    using seid_validate_of_encode by blast
qed

text \<open>
  C29: the same two facts for tunnel identifiers. Packing and unpacking are inverse and never
  give the reserved TEID 0. The validation, however, accepts more than the encoder mints:
  besides the encoded TEIDs it also accepts the value with local index 0 of every partition
  but partition 0, although the local index 0 is reserved.
\<close>

theorem teid_validate_iff:
  "v_teid_validate teid = Some part \<longleftrightarrow>
     (\<exists>local. v_teid_encode part local = Some teid) \<or>
     (part \<noteq> 0 \<and> unat part < V_NUM_PARTS \<and> teid = push_bit V_TEID_PART_SHIFT (ucast part))"
proof
  assume "v_teid_validate teid = Some part"
  then have t: "teid \<noteq> 0" "drop_bit 31 teid = 0" and p: "part = v_teid_part teid"
    by (auto simp: teid_validate_alt split: if_splits)
  have u: "teid_pack part (v_teid_local teid) = teid"
    unfolding p by (rule teid_unpack [OF t(2)])
  have lt: "unat part < 1024"
    unfolding p by (rule teid_part_lt)
  show "(\<exists>local. v_teid_encode part local = Some teid) \<or>
     (part \<noteq> 0 \<and> unat part < V_NUM_PARTS \<and> teid = push_bit V_TEID_PART_SHIFT (ucast part))"
  proof (cases "v_teid_local teid = 0")
    case True
    with u have "push_bit 21 (ucast part) = teid" by (simp add: teid_pack_def)
    with t(1) lt show ?thesis
      unfolding V_NUM_PARTS_def V_TEID_PART_SHIFT_def by (metis push_bit_of_0 unsigned_0)
  next
    case False
    with u lt teid_local_lt [of teid] have "v_teid_encode part (v_teid_local teid) = Some teid"
      by (simp add: teid_encode_eq)
    then show ?thesis by blast
  qed
next
  assume "(\<exists>local. v_teid_encode part local = Some teid) \<or>
     (part \<noteq> 0 \<and> unat part < V_NUM_PARTS \<and> teid = push_bit V_TEID_PART_SHIFT (ucast part))"
  then obtain l where p: "unat part < 1024" and t: "teid = teid_pack part l"
    and l: "part \<noteq> 0 \<or> (l \<noteq> 0 \<and> unat l < 2 ^ 21)"
  proof
    assume "\<exists>local. v_teid_encode part local = Some teid"
    then show ?thesis using that by (auto simp: teid_encode_eq)
  next
    assume "part \<noteq> 0 \<and> unat part < V_NUM_PARTS \<and> teid = push_bit V_TEID_PART_SHIFT (ucast part)"
    then show ?thesis
      using that [of 0] by (simp add: V_NUM_PARTS_def V_TEID_PART_SHIFT_def teid_pack_def)
  qed
  have "teid \<noteq> 0"
    using l teid_pack_zero [OF p, of l] teid_local_pack [OF p, of l] t teid_local_zero by metis
  then show "v_teid_validate teid = Some part"
    using teid_pack_rsv [OF p, of l] teid_part_pack [OF p, of l] t
    by (simp add: teid_validate_alt)
qed

text \<open>
  A TEID that is packed unpacks to the same partition and local index, is accepted by
  the validation, and is never the reserved value 0.
\<close>

lemma teid_encode_roundtrip:
  assumes "v_teid_encode part_id local = Some teid"
  shows "v_teid_part teid = part_id \<and> v_teid_local teid = local \<and>
    v_teid_validate teid = Some part_id \<and> teid \<noteq> 0"
proof -
  from assms have p: "unat part_id < 1024" and l: "local \<noteq> 0" "unat local < 2 ^ 21"
    and t: "teid = teid_pack part_id local"
    by (simp_all add: teid_encode_eq)
  have local: "v_teid_local teid = local" unfolding t by (rule teid_local_pack [OF p l(2)])
  have "teid \<noteq> 0"
    using local l(1) teid_local_zero by metis
  moreover have "v_teid_part teid = part_id" unfolding t by (rule teid_part_pack [OF p])
  moreover have "drop_bit 31 teid = 0" unfolding t by (rule teid_pack_rsv [OF p])
  ultimately show ?thesis
    using local by (simp add: teid_validate_alt)
qed

lemma teid_encode_roundtrip_instance:
  "v_teid_part 0x600007 = 3 \<and> v_teid_local 0x600007 = 7 \<and>
    v_teid_validate 0x600007 = Some 3 \<and> (0x600007 :: u32) \<noteq> 0"
proof -
  have "v_teid_encode 3 7 = Some 0x600007"
    by code_simp
  then show ?thesis by (rule teid_encode_roundtrip)
qed

end
