(* ===== verification/V_id_alloc.thy ===== *)
theory V_id_alloc
  imports V_db_script V_seid
begin

section \<open>SEID and TEID allocation by block lease\<close>

text \<open>
  \<^verbatim>\<open>src/v_id_alloc\<close>: for each of the 1024 partitions a ring of ready SEIDs and a ring of ready
  TEIDs, refilled in blocks of 256 from counters in Redis, with an in-flight flag per ring so
  that at most one lease per ring is outstanding. The five tables are functions of the
  partition number; a ring entry is the identifier itself, cast to a pointer.
\<close>

definition V_ID_RING_SIZE :: nat where "V_ID_RING_SIZE = 1024"
definition V_ID_BLK_SIZE :: nat where "V_ID_BLK_SIZE = 256"
definition V_ID_WATERMARK :: nat where "V_ID_WATERMARK = 64"
definition V_TEID_FREE_FLOOR :: nat where "V_TEID_FREE_FLOOR = 1024"

lemmas id_alloc_consts = V_ID_RING_SIZE_def V_ID_BLK_SIZE_def V_ID_WATERMARK_def V_TEID_FREE_FLOOR_def

record ('r, 'p, 'h) id_st = "('r, 'p, 'h) script_st" +
  g_seid_ring :: "u16 \<Rightarrow> 'r option"
  g_teid_ring :: "u16 \<Rightarrow> 'r option"
  g_seid_refill_inflight :: "u16 \<Rightarrow> bool"
  g_teid_refill_inflight :: "u16 \<Rightarrow> bool"
  g_teid_next_seeded :: "u16 \<Rightarrow> bool"
  g_initialized :: bool

text \<open>The partitions, in the order the loops visit them.\<close>

definition all_parts :: "u16 list" where
  "all_parts = map word_of_nat [0 ..< V_NUM_PARTS]"

definition shard_for_part :: "u16 \<Rightarrow> u8" where
  "shard_for_part part_id = v_port_db_shard_of (snprintf 8 (dec (unat part_id)))"

text \<open>The three keys of a partition; each is printed into a buffer of 32 bytes.\<close>

definition seid_next_key :: "u16 \<Rightarrow> string" where
  "seid_next_key part_id = snprintf 32 (''vpe:seid:'' @ dec (unat part_id) @ '':next'')"

definition teid_next_key :: "u16 \<Rightarrow> string" where
  "teid_next_key part_id = snprintf 32 (''vpe:teid:'' @ dec (unat part_id) @ '':next'')"

definition teid_free_key :: "u16 \<Rightarrow> string" where
  "teid_free_key part_id = snprintf 32 (''vpe:teid:'' @ dec (unat part_id) @ '':free'')"

subsection \<open>SEIDs\<close>

text \<open>The refill loop: an index that does not encode is skipped, a full ring ends the loop.\<close>

fun seid_refill_loop :: "('r, 'p) dpdk \<Rightarrow> u16 \<Rightarrow> u64 list \<Rightarrow> 'r option \<Rightarrow> 'r option" where
  "seid_refill_loop D part_id [] r = r"
| "seid_refill_loop D part_id (l # ls) r =
     (case v_seid_encode part_id l of
        None \<Rightarrow> seid_refill_loop D part_id ls r
      | Some seid \<Rightarrow>
          (case ring_put D r seid of
             None \<Rightarrow> r
           | Some r' \<Rightarrow> seid_refill_loop D part_id ls (Some r')))"

definition seid_refill_reply_cb ::
    "('r, 'p) dpdk \<Rightarrow> int \<Rightarrow> v_db_reply option \<Rightarrow> u16 \<Rightarrow>
     ('r, 'p, 'h, 'a) id_st_scheme \<Rightarrow> ('r, 'p, 'h, 'a) id_st_scheme" where
  "seid_refill_reply_cb D status reply part_id w =
     (let w = w\<lparr>g_seid_refill_inflight := (g_seid_refill_inflight w)(part_id := False)\<rparr> in
      if status \<noteq> RET_CODE_OK then w
      else case reply of
        Some (Reply_Integer n) \<Rightarrow>
          let base = word_of_int n - of_nat V_ID_BLK_SIZE :: u64;
              r = seid_refill_loop D part_id (map (\<lambda>i. base + of_nat i) [0 ..< V_ID_BLK_SIZE])
                    (g_seid_ring w part_id)
          in w\<lparr>g_seid_ring := (g_seid_ring w)(part_id := r)\<rparr>
      | _ \<Rightarrow> w)"

definition seid_maybe_refill ::
    "('r, 'p) dpdk \<Rightarrow> 'h hiredis \<Rightarrow> u16 \<Rightarrow>
     ('r, 'p, 'h, 'a) id_st_scheme \<Rightarrow> ('r, 'p, 'h, 'a) id_st_scheme" where
  "seid_maybe_refill D hi part_id w =
     (if V_ID_WATERMARK \<le> ring_count D (g_seid_ring w part_id) then w
      else if g_seid_refill_inflight w part_id then w
      else let w = w\<lparr>g_seid_refill_inflight := (g_seid_refill_inflight w)(part_id := True)\<rparr>;
               (rc, w) = v_port_db_cmd D hi (shard_for_part part_id) (Seid_refill_reply_cb part_id)
                           [''INCRBY'', seid_next_key part_id, dec V_ID_BLK_SIZE] w
           in if rc \<noteq> RET_CODE_OK
              then w\<lparr>g_seid_refill_inflight := (g_seid_refill_inflight w)(part_id := False)\<rparr>
              else w)"

definition v_seid_alloc ::
    "('r, 'p) dpdk \<Rightarrow> 'h hiredis \<Rightarrow> u16 \<Rightarrow>
     ('r, 'p, 'h, 'a) id_st_scheme \<Rightarrow> u64 \<times> ('r, 'p, 'h, 'a) id_st_scheme" where
  "v_seid_alloc D hi part_id w =
     (let w = seid_maybe_refill D hi part_id w in
      case ring_take D (g_seid_ring w part_id) of
        None \<Rightarrow> (0, w)
      | Some (obj, r) \<Rightarrow> (obj, w\<lparr>g_seid_ring := (g_seid_ring w)(part_id := Some r)\<rparr>))"

subsection \<open>TEIDs\<close>

definition parse_u64 :: "v_db_reply \<Rightarrow> u64 option" where
  "parse_u64 r = (case r of Reply_String s \<Rightarrow> Some (strtoull (take 31 s)) | _ \<Rightarrow> None)"

text \<open>The cast of \<^verbatim>\<open>local\<close> to 32 bits comes before the range check of \<^verbatim>\<open>v_teid_encode\<close>.\<close>

definition enqueue_teid ::
    "('r, 'p) dpdk \<Rightarrow> u16 \<Rightarrow> u64 \<Rightarrow> ('r, 'p, 'h, 'a) id_st_scheme \<Rightarrow> ('r, 'p, 'h, 'a) id_st_scheme" where
  "enqueue_teid D part_id local w =
     (case v_teid_encode part_id (ucast local) of
        None \<Rightarrow> w
      | Some teid \<Rightarrow>
          (case ring_put D (g_teid_ring w part_id) (ucast teid) of
             None \<Rightarrow> w
           | Some r \<Rightarrow> w\<lparr>g_teid_ring := (g_teid_ring w)(part_id := Some r)\<rparr>))"

definition teid_refill_reply_cb ::
    "('r, 'p) dpdk \<Rightarrow> int \<Rightarrow> v_db_reply option \<Rightarrow> u16 \<Rightarrow>
     ('r, 'p, 'h, 'a) id_st_scheme \<Rightarrow> ('r, 'p, 'h, 'a) id_st_scheme" where
  "teid_refill_reply_cb D status reply part_id w =
     (let w = w\<lparr>g_teid_refill_inflight := (g_teid_refill_inflight w)(part_id := False)\<rparr> in
      if status \<noteq> RET_CODE_OK then w
      else case reply of
        Some (Reply_Array (Reply_String tag # els)) \<Rightarrow>
          if tag = ''range'' then
            (case els of
               [e1, e2] \<Rightarrow>
                 (case (parse_u64 e1, parse_u64 e2) of
                    (Some base, Some count) \<Rightarrow>
                      fold (\<lambda>i. enqueue_teid D part_id (base + of_nat i)) [0 ..< unat count] w
                  | _ \<Rightarrow> w)
             | _ \<Rightarrow> w)
          else if tag = ''list'' then
            fold (\<lambda>e w. case parse_u64 e of None \<Rightarrow> w | Some local \<Rightarrow> enqueue_teid D part_id local w) els w
          else w
      | _ \<Rightarrow> w)"

definition seed_reply_cb ::
    "int \<Rightarrow> v_db_reply option \<Rightarrow> ('r, 'p, 'h, 'a) id_st_scheme \<Rightarrow> ('r, 'p, 'h, 'a) id_st_scheme" where
  "seed_reply_cb status reply w = w"

definition teid_maybe_refill ::
    "('r, 'p) dpdk \<Rightarrow> 'h hiredis \<Rightarrow> ('r, 'p, 'h, 'a) id_st_scheme db_call \<Rightarrow> u16 \<Rightarrow>
     ('r, 'p, 'h, 'a) id_st_scheme \<Rightarrow> ('r, 'p, 'h, 'a) id_st_scheme" where
  "teid_maybe_refill D hi cc part_id w =
     (if V_ID_WATERMARK \<le> ring_count D (g_teid_ring w part_id) then w
      else if g_teid_refill_inflight w part_id then w
      else
        let w = w\<lparr>g_teid_refill_inflight := (g_teid_refill_inflight w)(part_id := True)\<rparr>;
            blk_str = snprintf 8 (dec V_ID_BLK_SIZE);
            floor_str = snprintf 8 (dec V_TEID_FREE_FLOOR);
            shard = shard_for_part part_id;
            w = (if g_teid_next_seeded w part_id then w
                 else snd (v_port_db_cmd D hi shard Seed_reply_cb [''SETNX'', teid_next_key part_id, ''1'']
                        (w\<lparr>g_teid_next_seeded := (g_teid_next_seeded w)(part_id := True)\<rparr>)));
            (rc, w) = v_db_evalsha D hi cc shard V_SCRIPT_TEID_REFILL
                        [teid_free_key part_id, teid_next_key part_id] [blk_str, floor_str]
                        (Teid_refill_reply_cb part_id) w
        in if rc \<noteq> RET_CODE_OK
           then w\<lparr>g_teid_refill_inflight := (g_teid_refill_inflight w)(part_id := False)\<rparr>
           else w)"

definition v_teid_alloc ::
    "('r, 'p) dpdk \<Rightarrow> 'h hiredis \<Rightarrow> ('r, 'p, 'h, 'a) id_st_scheme db_call \<Rightarrow> u16 \<Rightarrow>
     ('r, 'p, 'h, 'a) id_st_scheme \<Rightarrow> u32 \<times> ('r, 'p, 'h, 'a) id_st_scheme" where
  "v_teid_alloc D hi cc part_id w =
     (let w = teid_maybe_refill D hi cc part_id w in
      case ring_take D (g_teid_ring w part_id) of
        None \<Rightarrow> (0, w)
      | Some (obj, r) \<Rightarrow> (ucast obj, w\<lparr>g_teid_ring := (g_teid_ring w)(part_id := Some r)\<rparr>))"

definition teid_free_reply_cb ::
    "int \<Rightarrow> v_db_reply option \<Rightarrow> ('r, 'p, 'h, 'a) id_st_scheme \<Rightarrow> ('r, 'p, 'h, 'a) id_st_scheme" where
  "teid_free_reply_cb status reply w = w"

definition v_teid_free ::
    "('r, 'p) dpdk \<Rightarrow> 'h hiredis \<Rightarrow> u16 \<Rightarrow> u32 \<Rightarrow>
     ('r, 'p, 'h, 'a) id_st_scheme \<Rightarrow> ('r, 'p, 'h, 'a) id_st_scheme" where
  "v_teid_free D hi part_id teid w =
     snd (v_port_db_cmd D hi (shard_for_part part_id) Teid_free_reply_cb
            [''RPUSH'', teid_free_key part_id, dec (unat (v_teid_local teid))] w)"

subsection \<open>Lifecycle\<close>

fun create_rings ::
    "('r, 'p) dpdk \<Rightarrow> u16 list \<Rightarrow> ('r, 'p, 'h, 'a) id_st_scheme \<Rightarrow> int \<times> ('r, 'p, 'h, 'a) id_st_scheme" where
  "create_rings D [] w = (RET_CODE_OK, w)"
| "create_rings D (part # ps) w =
     (let w = w\<lparr>g_seid_ring := (g_seid_ring w)(part := rte_ring_create D V_ID_RING_SIZE)\<rparr>;
          w = w\<lparr>g_teid_ring := (g_teid_ring w)(part := rte_ring_create D V_ID_RING_SIZE)\<rparr>
      in if g_seid_ring w part = None \<or> g_teid_ring w part = None then (RET_CODE_ERR, w)
         else create_rings D ps w)"

text \<open>\<open>zmalloc_ok\<close>: whether the five \<^verbatim>\<open>rte_zmalloc\<close> calls succeed; they return zeroed tables.\<close>

definition v_id_alloc_init ::
    "('r, 'p) dpdk \<Rightarrow> 'h hiredis \<Rightarrow> ('r, 'p, 'h, 'a) id_st_scheme db_call \<Rightarrow> bool \<Rightarrow>
     ('r, 'p, 'h, 'a) id_st_scheme \<Rightarrow> int \<times> ('r, 'p, 'h, 'a) id_st_scheme" where
  "v_id_alloc_init D hi cc zmalloc_ok w =
     (if g_initialized w then (RET_CODE_ERR, w)
      else if \<not> zmalloc_ok then (RET_CODE_ERR, w)
      else
        let w = w\<lparr>g_seid_ring := (\<lambda>_. None), g_teid_ring := (\<lambda>_. None),
                  g_seid_refill_inflight := (\<lambda>_. False), g_teid_refill_inflight := (\<lambda>_. False),
                  g_teid_next_seeded := (\<lambda>_. False)\<rparr>;
            (rc, w) = create_rings D all_parts w
        in if rc \<noteq> RET_CODE_OK then (RET_CODE_ERR, w)
           else (RET_CODE_OK,
                 fold (\<lambda>part w. teid_maybe_refill D hi cc part (seid_maybe_refill D hi part w)) all_parts
                   (w\<lparr>g_initialized := True\<rparr>)))"

definition v_id_alloc_fini :: "('r, 'p, 'h, 'a) id_st_scheme \<Rightarrow> ('r, 'p, 'h, 'a) id_st_scheme" where
  "v_id_alloc_fini w =
     (if \<not> g_initialized w then w
      else w\<lparr>g_seid_ring := (\<lambda>_. None), g_teid_ring := (\<lambda>_. None), g_initialized := False\<rparr>)"

definition v_id_alloc_ready :: "('r, 'p) dpdk \<Rightarrow> ('r, 'p, 'h, 'a) id_st_scheme \<Rightarrow> bool" where
  "v_id_alloc_ready D w \<longleftrightarrow>
     g_initialized w \<and>
     list_all (\<lambda>part. ring_count D (g_seid_ring w part) \<noteq> 0 \<and> ring_count D (g_teid_ring w part) \<noteq> 0)
       all_parts"

subsection \<open>What a refill gives\<close>

lemma db_cmd_id_frame [frame_simps]:
  "g_seid_ring (snd (v_port_db_cmd D hi shard cb args w)) = g_seid_ring w"
  "g_teid_ring (snd (v_port_db_cmd D hi shard cb args w)) = g_teid_ring w"
  "g_seid_refill_inflight (snd (v_port_db_cmd D hi shard cb args w)) = g_seid_refill_inflight w"
  "g_teid_refill_inflight (snd (v_port_db_cmd D hi shard cb args w)) = g_teid_refill_inflight w"
  "g_teid_next_seeded (snd (v_port_db_cmd D hi shard cb args w)) = g_teid_next_seeded w"
  "g_initialized (snd (v_port_db_cmd D hi shard cb args w)) = g_initialized w"
  "id_st.more (snd (v_port_db_cmd D hi shard cb args w)) = id_st.more w"
  by (rule db_cmd_frame; simp)+

lemma seid_maybe_refill_ring [frame_simps]: "g_seid_ring (seid_maybe_refill D hi part w) = g_seid_ring w"
  by (simp add: seid_maybe_refill_def Let_def split_beta frame_simps)

text \<open>The SEIDs of the block of 256 local indices that ends before \<open>n\<close>.\<close>

definition seid_block :: "u16 \<Rightarrow> int \<Rightarrow> u64 list" where
  "seid_block part n = List.map_filter (v_seid_encode part)
     (map (\<lambda>i. (word_of_int n - of_nat V_ID_BLK_SIZE :: u64) + of_nat i) [0 ..< V_ID_BLK_SIZE])"

lemma map_filter_steps [simp]:
  "List.map_filter f [] = []"
  "List.map_filter f (x # xs) = (case f x of None \<Rightarrow> List.map_filter f xs | Some y \<Rightarrow> y # List.map_filter f xs)"
  by (simp_all add: map_filter_simps)

lemma length_map_filter: "length (List.map_filter f xs) \<le> length xs"
  by (induction xs) (auto split: option.split)

lemma seid_refill_loop_prefix:
  assumes l: "ring_laws D elems usable"
  shows "\<exists>k. ring_list elems (seid_refill_loop D part ls r) =
    ring_list elems r @ take k (List.map_filter (v_seid_encode part) ls)"
proof (induction ls arbitrary: r)
  case Nil
  then show ?case by simp
next
  case (Cons x ls)
  show ?case
  proof (cases "v_seid_encode part x")
    case None
    with Cons.IH [of r] show ?thesis by simp
  next
    case (Some seid)
    show ?thesis
    proof (cases "ring_put D r seid")
      case None
      with Some show ?thesis by (auto intro: exI [of _ 0])
    next
      case put: (Some r')
      from Cons.IH [of "Some r'"] obtain k where
        "ring_list elems (seid_refill_loop D part ls (Some r')) =
          elems r' @ take k (List.map_filter (v_seid_encode part) ls)" by auto
      with Some put ring_put_Some(2) [OF l put] show ?thesis
        by (auto intro: exI [of _ "Suc k"])
    qed
  qed
qed

lemma ring_put_Some_usable:
  "ring_laws D elems usable \<Longrightarrow> ring_put D (Some r) x = Some r' \<Longrightarrow> usable r' = usable r"
  using ring_enqueue_Some by (fastforce simp: ring_put_def)

lemma seid_refill_loop_all:
  assumes l: "ring_laws D elems usable" and "length (elems r) + length ls \<le> usable r"
  obtains r' where "seid_refill_loop D part ls (Some r) = Some r'" "usable r' = usable r"
    "elems r' = elems r @ List.map_filter (v_seid_encode part) ls"
  using assms(2)
proof (induction ls arbitrary: r thesis)
  case Nil
  then show ?case by simp
next
  case (Cons x ls)
  show ?case
  proof (cases "v_seid_encode part x")
    case None
    from Cons.prems(2) have "length (elems r) + length ls \<le> usable r" by simp
    with Cons.IH obtain r' where "seid_refill_loop D part ls (Some r) = Some r'" "usable r' = usable r"
      "elems r' = elems r @ List.map_filter (v_seid_encode part) ls" by blast
    with None show ?thesis by (intro Cons.prems(1) [of r']) simp_all
  next
    case (Some seid)
    from Cons.prems(2) have "has_room elems usable (Some r)" by (simp add: has_room_def)
    then obtain r1 where put: "ring_put D (Some r) seid = Some r1"
      using ring_put_None [OF l] by blast
    note put1 = ring_put_Some [OF l put] ring_put_Some_usable [OF l put]
    from Cons.prems(2) put1 have "length (elems r1) + length ls \<le> usable r1" by simp
    with Cons.IH obtain r' where "seid_refill_loop D part ls (Some r1) = Some r'" "usable r' = usable r1"
      "elems r' = elems r1 @ List.map_filter (v_seid_encode part) ls" by blast
    with Some put put1 show ?thesis by (intro Cons.prems(1) [of r']) simp_all
  qed
qed

subsection \<open>The rings never overflow\<close>

text \<open>
  A partition's SEID ring holds at most one block above the watermark, and while a lease is
  outstanding it is below the watermark.
\<close>

definition seid_ring_inv ::
    "('r \<Rightarrow> ptr list) \<Rightarrow> ('r \<Rightarrow> nat) \<Rightarrow> u16 \<Rightarrow> ('r, 'p, 'h, 'a) id_st_scheme \<Rightarrow> bool" where
  "seid_ring_inv elems usable part w \<longleftrightarrow>
     (\<exists>r. g_seid_ring w part = Some r \<and> usable r = V_ID_RING_SIZE - 1 \<and>
        length (elems r) < V_ID_WATERMARK + V_ID_BLK_SIZE \<and>
        (g_seid_refill_inflight w part \<longrightarrow> length (elems r) < V_ID_WATERMARK))"

lemma seid_maybe_refill_inv:
  assumes l: "ring_laws D elems usable" and i: "seid_ring_inv elems usable part w"
  shows "seid_ring_inv elems usable part (seid_maybe_refill D hi part w)"
  using i ring_count_law [OF l]
  by (auto simp: seid_maybe_refill_def Let_def split_beta seid_ring_inv_def frame_simps ring_count_def not_le)

lemma seid_alloc_inv:
  assumes l: "ring_laws D elems usable" and i: "seid_ring_inv elems usable part w"
  shows "seid_ring_inv elems usable part (snd (v_seid_alloc D hi part w))"
proof -
  let ?w = "seid_maybe_refill D hi part w"
  have i': "seid_ring_inv elems usable part ?w" by (rule seid_maybe_refill_inv [OF l i])
  show ?thesis
  proof (cases "ring_take D (g_seid_ring ?w part)")
    case None
    with i' show ?thesis by (simp add: v_seid_alloc_def)
  next
    case (Some a)
    then obtain x r' where t: "ring_take D (g_seid_ring ?w part) = Some (x, r')" by (cases a) auto
    from i' obtain r where r: "g_seid_ring ?w part = Some r" by (auto simp: seid_ring_inv_def)
    with t have "elems r = x # elems r' \<and> usable r' = usable r"
      using ring_dequeue_Some [OF l] by (simp add: ring_take_def)
    with i' r t show ?thesis by (auto simp: v_seid_alloc_def seid_ring_inv_def Let_def)
  qed
qed

lemma seid_refill_reply:
  fixes n :: int
  assumes l: "ring_laws D elems usable" and i: "seid_ring_inv elems usable part w"
    and f: "g_seid_refill_inflight w part"
  defines "w' \<equiv> seid_refill_reply_cb D RET_CODE_OK (Some (Reply_Integer n)) part w"
  shows "ring_list elems (g_seid_ring w' part) = ring_list elems (g_seid_ring w part) @ seid_block part n"
    and "seid_ring_inv elems usable part w'"
proof -
  let ?ls = "map (\<lambda>i. (word_of_int n - of_nat V_ID_BLK_SIZE :: u64) + of_nat i) [0 ..< V_ID_BLK_SIZE]"
  from i f obtain r where r: "g_seid_ring w part = Some r" "usable r = V_ID_RING_SIZE - 1"
    "length (elems r) < V_ID_WATERMARK" by (auto simp: seid_ring_inv_def)
  then have "length (elems r) + length ?ls \<le> usable r" by (simp add: id_alloc_consts)
  with l obtain r' where r': "seid_refill_loop D part ?ls (Some r) = Some r'" "usable r' = usable r"
    "elems r' = elems r @ List.map_filter (v_seid_encode part) ?ls"
    by (rule seid_refill_loop_all)
  have w': "g_seid_ring w' part = Some r'" "\<not> g_seid_refill_inflight w' part"
    using r(1) r'(1) by (simp_all add: w'_def seid_refill_reply_cb_def Let_def)
  show "ring_list elems (g_seid_ring w' part) = ring_list elems (g_seid_ring w part) @ seid_block part n"
    using w' r r' by (simp add: seid_block_def)
  have "length (seid_block part n) \<le> V_ID_BLK_SIZE"
    unfolding seid_block_def using length_map_filter [of "v_seid_encode part" ?ls] by simp
  then show "seid_ring_inv elems usable part w'"
    using w' r r' by (simp add: seid_ring_inv_def seid_block_def)
qed


definition demo_id :: "'a \<Rightarrow> (nat \<times> ptr list, ptr list, (string list \<times> ptr) list, 'a) id_st_scheme" where
  "demo_id x = demo_script
     \<lparr>g_seid_ring = (\<lambda>_. Some (1023, [])), g_teid_ring = (\<lambda>_. Some (1023, [])),
      g_seid_refill_inflight = (\<lambda>_. True), g_teid_refill_inflight = (\<lambda>_. True),
      g_teid_next_seeded = (\<lambda>_. True), g_initialized = True, \<dots> = x\<rparr>"


end
