(* ===== verification/Le_bytes.thy ===== *)
theory Le_bytes
  imports Prelude
begin

section \<open>Integers in memory\<close>

text \<open>
  The stubs copy structs to and from byte buffers with \<^verbatim>\<open>memcpy\<close>; the program runs on
  little-endian machines, so an integer field is its bytes, least significant first.
\<close>

definition le_bytes :: "nat \<Rightarrow> 'a :: len word \<Rightarrow> u8 list" where
  "le_bytes n w = map (\<lambda>i. ucast (drop_bit (8 * i) w)) [0 ..< n]"

definition of_le :: "u8 list \<Rightarrow> 'a :: len word" where
  "of_le bs = foldr (\<lambda>b acc. ucast b OR push_bit 8 acc) bs 0"

lemma length_le_bytes [simp]: "length (le_bytes n w) = n"
  by (simp add: le_bytes_def)

lemma of_le_Cons: "of_le (b # bs) = ucast b OR push_bit 8 (of_le bs)"
  by (simp add: of_le_def)

lemma of_le_Nil [simp]: "of_le [] = 0"
  by (simp add: of_le_def)

lemma bit_of_le:
  "bit (of_le bs :: 'a :: len word) i \<longleftrightarrow>
     i < LENGTH('a) \<and> i div 8 < length bs \<and> bit (bs ! (i div 8)) (i mod 8)"
proof (induction bs arbitrary: i)
  case Nil
  then show ?case by simp
next
  case (Cons b bs)
  show ?case
  proof (cases "i < 8")
    case True
    then show ?thesis
      by (auto simp: of_le_Cons bit_or_iff bit_push_bit_iff bit_ucast_iff possible_bit_word)
  next
    case False
    have "bit b i \<Longrightarrow> i < 8" using bit_imp_le_length [of b i] by simp
    moreover have "i div 8 = Suc ((i - 8) div 8)" "i mod 8 = (i - 8) mod 8"
      using False by (simp_all add: le_div_geq le_mod_geq)
    ultimately show ?thesis
      using False Cons.IH [of "i - 8"]
      by (auto simp: of_le_Cons bit_or_iff bit_push_bit_iff bit_ucast_iff possible_bit_word)
  qed
qed

lemma of_le_bytes:
  assumes "LENGTH('a) = 8 * n"
  shows "of_le (le_bytes n w) = (w :: 'a :: len word)"
proof (rule bit_word_eqI)
  fix i assume "i < LENGTH('a)"
  then have "i div 8 < n" using assms by simp
  then show "bit (of_le (le_bytes n w) :: 'a word) i \<longleftrightarrow> bit w i"
    using \<open>i < LENGTH('a)\<close>
    by (simp add: bit_of_le) (simp add: le_bytes_def bit_ucast_iff bit_drop_bit_eq)
qed

lemma of_le_words [simp]:
  "of_le (le_bytes 4 w4) = w4" "of_le (le_bytes 8 w8) = w8"
  for w4 :: u32 and w8 :: u64
  by (rule of_le_bytes, simp)+

end
