(* ===== verification/Object_pool.thy ===== *)
theory Object_pool
  imports Dpdk
begin

section \<open>Pools whose objects know whether they are in use\<close>

text \<open>
  The contract the session contexts, the decoded messages and the transactions share: an
  allocation returns NULL or an object nobody holds, a release of a held object returns it, and
  a release of NULL or of an object that is not held changes nothing. \<open>inv H w\<close> says that \<open>H\<close> is
  the set of objects held in state \<open>w\<close>; \<open>A\<close> is the set of all objects.
\<close>

locale object_pool =
  fixes inv :: "ptr set \<Rightarrow> 'w \<Rightarrow> bool" and A :: "ptr set"
    and alloc :: "'w \<Rightarrow> ptr \<times> 'w" and release :: "ptr \<Rightarrow> 'w \<Rightarrow> 'w"
  assumes held: "inv H w \<Longrightarrow> H \<subseteq> A \<and> 0 \<notin> A"
    and alloc_fresh: "inv H w \<Longrightarrow> alloc w = (x, w') \<Longrightarrow> x \<noteq> 0 \<Longrightarrow> x \<in> A - H \<and> inv (insert x H) w'"
    and alloc_refused: "inv H w \<Longrightarrow> alloc w = (0, w') \<Longrightarrow> inv H w'"
    and release_held: "inv H w \<Longrightarrow> x \<in> H \<Longrightarrow> inv (H - {x}) (release x w)"
    and release_other: "inv H w \<Longrightarrow> x \<notin> H \<Longrightarrow> x \<in> insert 0 A \<Longrightarrow> release x w = w"
begin

lemma release_inv:
  assumes "inv H w" and "x \<in> insert 0 A"
  shows "inv (H - {x}) (release x w)"
  using release_held [OF assms(1), of x] release_other [OF assms(1) _ assms(2)] assms(1)
  by (cases "x \<in> H") auto

lemma double_release:
  assumes "inv H w" and "x \<in> insert 0 A"
  shows "release x (release x w) = release x w"
  by (rule release_other [OF release_inv [OF assms]]) (use assms(2) in auto)

text \<open>Releasing a list of objects, with repetitions and NULLs, releases each held one once.\<close>

lemma release_all:
  assumes "inv H w" and "set xs \<subseteq> insert 0 A"
  shows "inv (H - set xs) (fold release xs w)"
  using assms
proof (induction xs arbitrary: H w)
  case (Cons x xs)
  have "inv (H - {x}) (release x w)" by (rule release_inv [OF Cons.prems(1)]) (use Cons.prems(2) in simp)
  moreover have "set xs \<subseteq> insert 0 A" using Cons.prems(2) by auto
  ultimately have "inv (H - {x} - set xs) (fold release xs (release x w))" by (rule Cons.IH)
  then show ?case by (simp add: Diff_insert2 [of H x "set xs"])
qed simp

text \<open>A freed object is the only way to see an address again.\<close>

lemma alloc_twice:
  assumes "inv H w" and "alloc w = (x, w1)" "x \<noteq> 0" and "alloc w1 = (y, w2)"
  shows "y \<noteq> x"
  using alloc_fresh [OF assms(1-3)] alloc_fresh [OF _ assms(4)] assms(3) by auto

lemma alloc_release:
  assumes "inv H w" and "alloc w = (x, w1)" "x \<noteq> 0"
  shows "inv H (release x w1)"
  using alloc_fresh [OF assms] release_held [of "insert x H" w1 x] by (simp add: insert_Diff_if)

end

text \<open>A pool that refuses only when every object is held.\<close>

locale full_pool = object_pool +
  assumes alloc_null_iff: "inv H w \<Longrightarrow> fst (alloc w) = 0 \<longleftrightarrow> H = A"
begin

lemma alloc_cases:
  assumes "inv H w"
  shows "case alloc w of (x, w') \<Rightarrow> if H = A then x = 0 \<and> inv H w' else x \<in> A - H \<and> inv (insert x H) w'"
  using alloc_null_iff [OF assms] alloc_fresh [OF assms] alloc_refused [OF assms] held [OF assms]
  by (auto split: prod.split)

text \<open>A released object makes room for an allocation.\<close>

lemma release_makes_room:
  assumes "inv H w" and "x \<in> H"
  shows "fst (alloc (release x w)) \<noteq> 0"
  using alloc_null_iff [OF release_held [OF assms]] assms(2) held [OF assms(1)] by auto

end

end
