(* ===== verification/V_stub_mem.thy ===== *)
theory V_stub_mem
  imports V_id_alloc Le_bytes Object_pool
begin

section \<open>Session contexts and their pool\<close>

text \<open>
  \<^verbatim>\<open>stubs/v_stub_common.h\<close> and \<^verbatim>\<open>stubs/v_stub_mem\<close>: the session context, its mempool with the
  magic number that guards against double frees, and the serialised form. A context is the C
  struct with its two runs of padding bytes, which \<^verbatim>\<open>memset\<close> and \<^verbatim>\<open>memcpy\<close> treat like the rest.
\<close>

definition V_STUB_CTX_MAGIC :: u32 where "V_STUB_CTX_MAGIC = 0x53455343"
definition V_STUB_CTX_PAYLOAD :: nat where "V_STUB_CTX_PAYLOAD = 128"

record v_stub_ses_ctx =
  ctx_magic :: u32
  ctx_pad4 :: "u8 list"
  ctx_seid :: u64
  ctx_teid :: u32
  ctx_v4_ue_ip :: u32
  ctx_v6_ue_ip :: "u8 list"
  ctx_has_ue_ip :: u8
  ctx_payload :: "u8 list"
  ctx_pad7 :: "u8 list"

definition zero_ctx :: v_stub_ses_ctx where
  "zero_ctx =
     \<lparr>ctx_magic = 0, ctx_pad4 = replicate 4 0, ctx_seid = 0, ctx_teid = 0, ctx_v4_ue_ip = 0,
      ctx_v6_ue_ip = replicate 16 0, ctx_has_ue_ip = 0, ctx_payload = replicate V_STUB_CTX_PAYLOAD 0,
      ctx_pad7 = replicate 7 0\<rparr>"

text \<open>The array members have their declared sizes.\<close>

definition ctx_wf :: "v_stub_ses_ctx \<Rightarrow> bool" where
  "ctx_wf c \<longleftrightarrow>
     length (ctx_pad4 c) = 4 \<and> length (ctx_v6_ue_ip c) = 16 \<and>
     length (ctx_payload c) = V_STUB_CTX_PAYLOAD \<and> length (ctx_pad7 c) = 7"

definition sizeof_ctx :: nat where "sizeof_ctx = 176"

definition ctx_bytes :: "v_stub_ses_ctx \<Rightarrow> u8 list" where
  "ctx_bytes c =
     le_bytes 4 (ctx_magic c) @ ctx_pad4 c @ le_bytes 8 (ctx_seid c) @ le_bytes 4 (ctx_teid c) @
     le_bytes 4 (ctx_v4_ue_ip c) @ ctx_v6_ue_ip c @ [ctx_has_ue_ip c] @ ctx_payload c @ ctx_pad7 c"

text \<open>The bytes of the member at offset \<open>o\<close> with size \<open>n\<close>.\<close>

definition field_at :: "nat \<Rightarrow> nat \<Rightarrow> u8 list \<Rightarrow> u8 list" where
  "field_at off n bs = take n (drop off bs)"

definition ctx_of_bytes :: "u8 list \<Rightarrow> v_stub_ses_ctx" where
  "ctx_of_bytes bs =
     \<lparr>ctx_magic = of_le (field_at 0 4 bs), ctx_pad4 = field_at 4 4 bs,
      ctx_seid = of_le (field_at 8 8 bs), ctx_teid = of_le (field_at 16 4 bs),
      ctx_v4_ue_ip = of_le (field_at 20 4 bs), ctx_v6_ue_ip = field_at 24 16 bs,
      ctx_has_ue_ip = bs ! 40, ctx_payload = field_at 41 128 bs, ctx_pad7 = field_at 169 7 bs\<rparr>"

record ('r, 'p, 'h) mem_st = "('r, 'p, 'h) id_st" +
  g_ctx_pool :: "'p option"
  g_capacity :: u32
  ctx_at :: "ptr \<Rightarrow> v_stub_ses_ctx"

subsection \<open>Operations\<close>

definition v_port_mem_init ::
    "('r, 'p) dpdk \<Rightarrow> u32 \<Rightarrow> ('r, 'p, 'h, 'a) mem_st_scheme \<Rightarrow> int \<times> ('r, 'p, 'h, 'a) mem_st_scheme" where
  "v_port_mem_init D capacity w =
     (if g_ctx_pool w \<noteq> None then (RET_CODE_ERR, w)
      else let w = w\<lparr>g_ctx_pool := rte_mempool_create D (unat capacity)\<rparr> in
           if g_ctx_pool w = None then (RET_CODE_ERR, w)
           else (RET_CODE_OK, w\<lparr>g_capacity := capacity\<rparr>))"

definition v_port_mem_fini :: "('r, 'p, 'h, 'a) mem_st_scheme \<Rightarrow> ('r, 'p, 'h, 'a) mem_st_scheme" where
  "v_port_mem_fini w = (if g_ctx_pool w \<noteq> None then w\<lparr>g_ctx_pool := None, g_capacity := 0\<rparr> else w)"

definition v_port_ctx_alloc ::
    "('r, 'p) dpdk \<Rightarrow> ('r, 'p, 'h, 'a) mem_st_scheme \<Rightarrow> ptr \<times> ('r, 'p, 'h, 'a) mem_st_scheme" where
  "v_port_ctx_alloc D w =
     (case pool_get D (g_ctx_pool w) of
        None \<Rightarrow> (0, w)
      | Some (c, pool) \<Rightarrow>
          (c, w\<lparr>g_ctx_pool := Some pool,
                ctx_at := (ctx_at w)(c := zero_ctx\<lparr>ctx_magic := V_STUB_CTX_MAGIC\<rparr>)\<rparr>))"

definition v_port_ctx_free ::
    "('r, 'p) dpdk \<Rightarrow> ptr \<Rightarrow> ('r, 'p, 'h, 'a) mem_st_scheme \<Rightarrow> ('r, 'p, 'h, 'a) mem_st_scheme" where
  "v_port_ctx_free D c w =
     (if c = 0 then w
      else if ctx_magic (ctx_at w c) \<noteq> V_STUB_CTX_MAGIC then w
      else w\<lparr>ctx_at := (ctx_at w)(c := zero_ctx), g_ctx_pool := pool_put D c (g_ctx_pool w)\<rparr>)"

definition v_port_ctx_clear ::
    "ptr \<Rightarrow> ('r, 'p, 'h, 'a) mem_st_scheme \<Rightarrow> ('r, 'p, 'h, 'a) mem_st_scheme" where
  "v_port_ctx_clear c w =
     (if c = 0 then w
      else w\<lparr>ctx_at := (ctx_at w)(c := zero_ctx\<lparr>ctx_magic := ctx_magic (ctx_at w c)\<rparr>)\<rparr>)"

definition v_port_ctx_pool_in_use :: "('r, 'p) dpdk \<Rightarrow> ('r, 'p, 'h, 'a) mem_st_scheme \<Rightarrow> u64" where
  "v_port_ctx_pool_in_use D w =
     (case g_ctx_pool w of
        None \<Rightarrow> 0
      | Some pool \<Rightarrow> ucast (g_capacity w - of_nat (rte_mempool_avail_count D pool)))"

text \<open>The serializer of \<^verbatim>\<open>v_stub_pfcp.c\<close>: a copy of the struct, if the buffer is large enough.\<close>

definition v_port_pdu_serialize :: "v_stub_ses_ctx \<Rightarrow> nat \<Rightarrow> u8 list option" where
  "v_port_pdu_serialize c cap = (if cap < sizeof_ctx then None else Some (ctx_bytes c))"

definition v_port_pdu_deserialize :: "u8 list \<Rightarrow> v_stub_ses_ctx option" where
  "v_port_pdu_deserialize buf = (if length buf < sizeof_ctx then None else Some (ctx_of_bytes (take sizeof_ctx buf)))"

lemma ctx_wf_zero [simp]: "ctx_wf zero_ctx" "ctx_wf (zero_ctx\<lparr>ctx_magic := m\<rparr>)"
  by (simp_all add: ctx_wf_def zero_ctx_def)

lemma length_ctx_bytes [simp]: "ctx_wf c \<Longrightarrow> length (ctx_bytes c) = sizeof_ctx"
  by (simp add: ctx_bytes_def ctx_wf_def sizeof_ctx_def V_STUB_CTX_PAYLOAD_def)

text \<open>A member is found at the offset the preceding members add up to.\<close>

lemma field_at_skip: "length xs \<le> off \<Longrightarrow> field_at off n (xs @ ys) = field_at (off - length xs) n ys"
  by (simp add: field_at_def)

lemma field_at_Cons: "0 < off \<Longrightarrow> field_at off n (x # xs) = field_at (off - 1) n xs"
  by (simp add: field_at_def drop_Cons')

lemma field_at_here: "length xs = n \<Longrightarrow> field_at 0 n (xs @ ys) = xs"
  by (simp add: field_at_def)

lemma ctx_of_ctx_bytes [simp]:
  assumes "ctx_wf c"
  shows "ctx_of_bytes (ctx_bytes c) = c"
proof -
  note w = assms [unfolded ctx_wf_def V_STUB_CTX_PAYLOAD_def]
  have last: "field_at 0 7 (ctx_pad7 c) = ctx_pad7 c" using w by (simp add: field_at_def)
  show ?thesis
    using w last
    by (simp add: ctx_of_bytes_def ctx_bytes_def field_at_skip field_at_Cons field_at_here nth_append)
qed

lemma serialize_deserialize:
  "ctx_wf c \<Longrightarrow> v_port_pdu_serialize c cap = Some bs \<Longrightarrow> v_port_pdu_deserialize bs = Some c"
  by (auto simp: v_port_pdu_serialize_def v_port_pdu_deserialize_def split: if_splits)

subsection \<open>Ownership of the contexts\<close>

text \<open>
  The contexts the program holds are exactly the ones whose magic number is set; the others
  are zeroed and free.
\<close>

definition ctx_inv ::
    "('r, 'p) dpdk \<Rightarrow> ('p \<Rightarrow> ptr set) \<Rightarrow> ptr set \<Rightarrow> ptr set \<Rightarrow> ('r, 'p, 'h, 'a) mem_st_scheme \<Rightarrow> bool" where
  "ctx_inv D free C H w \<longleftrightarrow>
     owns D free C H (g_ctx_pool w) \<and> 0 \<notin> C \<and> finite C \<and> card C = unat (g_capacity w) \<and>
     (\<forall>c \<in> C. ctx_magic (ctx_at w c) = V_STUB_CTX_MAGIC \<longleftrightarrow> c \<in> H)"

lemma magic_nonzero [simp]: "V_STUB_CTX_MAGIC \<noteq> 0" "0 \<noteq> V_STUB_CTX_MAGIC"
  by (simp_all add: V_STUB_CTX_MAGIC_def)

lemma zero_ctx_magic [simp]: "ctx_magic zero_ctx = 0"
  by (simp add: zero_ctx_def)

lemma ctx_alloc_inv:
  assumes i: "ctx_inv D free C H w" and a: "v_port_ctx_alloc D w = (c, w')"
  shows "if H = C then c = 0 \<and> w' = w
    else c \<in> C - H \<and> ctx_inv D free C (insert c H) w' \<and>
      ctx_at w' = (ctx_at w)(c := zero_ctx\<lparr>ctx_magic := V_STUB_CTX_MAGIC\<rparr>)"
proof -
  have o: "owns D free C H (g_ctx_pool w)" using i by (simp add: ctx_inv_def)
  show ?thesis
  proof (cases "pool_get D (g_ctx_pool w)")
    case None
    then have "H = C" using owns_exhausted [OF o] by simp
    with None a show ?thesis by (simp add: v_port_ctx_alloc_def)
  next
    case (Some x)
    then obtain pool where p: "pool_get D (g_ctx_pool w) = Some (c, pool)"
      and w': "w' = w\<lparr>g_ctx_pool := Some pool, ctx_at := (ctx_at w)(c := zero_ctx\<lparr>ctx_magic := V_STUB_CTX_MAGIC\<rparr>)\<rparr>"
      using a by (auto simp: v_port_ctx_alloc_def split: prod.splits)
    have "H \<noteq> C" using owns_exhausted [OF o] p by auto
    with owns_get [OF o p] i w' show ?thesis by (auto simp: ctx_inv_def)
  qed
qed

lemma ctx_free_inv:
  assumes i: "ctx_inv D free C H w"
  shows "c \<in> H \<Longrightarrow> ctx_inv D free C (H - {c}) (v_port_ctx_free D c w)"
    and "c \<in> C - H \<Longrightarrow> v_port_ctx_free D c w = w"
    and "c = 0 \<Longrightarrow> v_port_ctx_free D c w = w"
proof -
  have o: "owns D free C H (g_ctx_pool w)" and z: "0 \<notin> C" and HC: "H \<subseteq> C"
    using i by (auto simp: ctx_inv_def owns_def)
  show "ctx_inv D free C (H - {c}) (v_port_ctx_free D c w)" if c: "c \<in> H"
  proof -
    have m: "c \<noteq> 0" "ctx_magic (ctx_at w c) = V_STUB_CTX_MAGIC" using i c z HC by (auto simp: ctx_inv_def)
    have "owns D free C (insert c (H - {c})) (g_ctx_pool w)" using o c by (simp add: insert_absorb)
    then have "owns D free C (H - {c}) (pool_put D c (g_ctx_pool w))" by (rule owns_put) simp
    with i m show ?thesis by (auto simp: ctx_inv_def v_port_ctx_free_def)
  qed
  show "v_port_ctx_free D c w = w" if "c \<in> C - H" using i that by (auto simp: ctx_inv_def v_port_ctx_free_def)
  show "v_port_ctx_free D c w = w" if "c = 0" using that by (simp add: v_port_ctx_free_def)
qed

lemma ctx_pool_in_use:
  assumes i: "ctx_inv D free C H w"
  shows "v_port_ctx_pool_in_use D w = of_nat (card H)"
proof -
  obtain pool where p: "g_ctx_pool w = Some pool" and l: "pool_laws D free"
    and s: "free pool \<inter> H = {}" "free pool \<union> H = C" and C: "finite C" "card C = unat (g_capacity w)"
    using i by (auto simp: ctx_inv_def owns_def)
  from s C have sum: "card (free pool) + card H = unat (g_capacity w)" by (metis card_Un_disjoint finite_Un)
  from arg_cong [OF sum, of "word_of_nat :: nat \<Rightarrow> u32"]
  have "g_capacity w = of_nat (card (free pool)) + of_nat (card H)" by simp
  then have d: "g_capacity w - of_nat (card (free pool)) = (of_nat (card H) :: u32)" by simp
  have "unat (g_capacity w) < 2 ^ LENGTH(32)" by (rule unsigned_less)
  then have "unat (of_nat (card H) :: u32) = card H" using sum by (simp add: unat_of_nat)
  then have "ucast (of_nat (card H) :: u32) = (of_nat (card H) :: u64)" by (metis of_nat_unat)
  then show ?thesis using p d by (simp add: v_port_ctx_pool_in_use_def pool_avail_law [OF l])
qed

lemma ctx_clear_inv: "ctx_inv D free C H w \<Longrightarrow> ctx_inv D free C H (v_port_ctx_clear c w)"
  by (auto simp: ctx_inv_def v_port_ctx_clear_def)

lemma ctx_init_inv:
  assumes "pool_laws D free" and "g_ctx_pool w = None" and "v_port_mem_init D capacity w = (RET_CODE_OK, w')"
    and "\<forall>c. ctx_magic (ctx_at w c) \<noteq> V_STUB_CTX_MAGIC"
  shows "\<exists>C. ctx_inv D free C {} w' \<and> card C = unat capacity"
  using assms pool_create_law [OF assms(1), of "unat capacity"]
  by (auto simp: v_port_mem_init_def ctx_inv_def owns_def Let_def split: if_splits)

text \<open>The context pool meets the contract of an object pool.\<close>

interpretation ctx: full_pool "\<lambda>H w. ctx_inv D free C H w" C "v_port_ctx_alloc D" "v_port_ctx_free D"
  for D free C
proof
  show "H \<subseteq> C \<and> 0 \<notin> C" if "ctx_inv D free C H w" for H and w :: "('a, 'b, 'c, 'd) mem_st_scheme"
    using that by (auto simp: ctx_inv_def owns_def)
  show "x \<in> C - H \<and> ctx_inv D free C (insert x H) w'"
    if "ctx_inv D free C H w" "v_port_ctx_alloc D w = (x, w')" "x \<noteq> 0"
    for H x and w w' :: "('a, 'b, 'c, 'd) mem_st_scheme"
    using ctx_alloc_inv [OF that(1,2)] that(3) by (simp split: if_splits)
  show "ctx_inv D free C H w'" if "ctx_inv D free C H w" "v_port_ctx_alloc D w = (0, w')"
    for H and w w' :: "('a, 'b, 'c, 'd) mem_st_scheme"
    using ctx_alloc_inv [OF that] that(1) by (auto simp: ctx_inv_def split: if_splits)
  show "fst (v_port_ctx_alloc D w) = 0 \<longleftrightarrow> H = C" if "ctx_inv D free C H w"
    for H and w :: "('a, 'b, 'c, 'd) mem_st_scheme"
    using ctx_alloc_inv [OF that, of "fst (v_port_ctx_alloc D w)" "snd (v_port_ctx_alloc D w)"] that
    by (auto simp: ctx_inv_def split: if_splits)
qed (auto dest: ctx_free_inv)

subsection \<open>Properties\<close>

text \<open>
  C35: the context pool never hands out a context twice and catches a double free. From the
  state \<^verbatim>\<open>v_port_mem_init\<close> sets up, an allocation returns NULL when all contexts are held and
  otherwise a fresh one; freeing a held context returns it, freeing it again does nothing, and
  \<^verbatim>\<open>v_port_ctx_pool_in_use\<close>, the leak test of the suite, is the number of contexts held.
\<close>

theorem ctx_pool_discipline:
  assumes "ctx_inv D free C H w"
  shows "(case v_port_ctx_alloc D w of (c, w') \<Rightarrow>
       if H = C then c = 0 \<and> w' = w else c \<in> C - H \<and> ctx_inv D free C (insert c H) w') \<and>
    (\<forall>c \<in> H. let w' = v_port_ctx_free D c w
       in ctx_inv D free C (H - {c}) w' \<and> v_port_ctx_free D c w' = w') \<and>
    ctx_inv D free C H (v_port_ctx_clear p w) \<and>
    v_port_ctx_pool_in_use D w = of_nat (card H)"
proof -
  have "case v_port_ctx_alloc D w of (c, w') \<Rightarrow>
       if H = C then c = 0 \<and> w' = w else c \<in> C - H \<and> ctx_inv D free C (insert c H) w'"
    using ctx_alloc_inv [OF assms] by (auto split: prod.split if_splits)
  moreover have "ctx_inv D free C (H - {c}) (v_port_ctx_free D c w)"
    "v_port_ctx_free D c (v_port_ctx_free D c w) = v_port_ctx_free D c w" if "c \<in> H" for c
  proof -
    show i: "ctx_inv D free C (H - {c}) (v_port_ctx_free D c w)" by (rule ctx_free_inv(1) [OF assms that])
    have "c \<in> C" using assms that by (auto simp: ctx_inv_def owns_def)
    then show "v_port_ctx_free D c (v_port_ctx_free D c w) = v_port_ctx_free D c w"
      using ctx_free_inv(2) [OF i] by simp
  qed
  ultimately show ?thesis using ctx_pool_in_use [OF assms] ctx_clear_inv [OF assms] by (simp add: Let_def)
qed

definition demo_mem :: "'a \<Rightarrow> (nat \<times> ptr list, ptr list, (string list \<times> ptr) list, 'a) mem_st_scheme" where
  "demo_mem x = demo_id
     \<lparr>g_ctx_pool = Some [41, 42], g_capacity = 3,
      ctx_at = (\<lambda>c. zero_ctx\<lparr>ctx_magic := if c = 40 then V_STUB_CTX_MAGIC else 0\<rparr>), \<dots> = x\<rparr>"

lemma demo_mem_inv: "ctx_inv list_dpdk set {40, 41, 42} {40} (demo_mem x)"
  by (auto simp: ctx_inv_def owns_def demo_mem_def demo_id_def demo_script_def list_pool_laws)

theorem ctx_pool_discipline_witness:
  "v_port_ctx_pool_in_use list_dpdk (demo_mem ()) = 1 \<and>
   v_port_ctx_free list_dpdk 40 (v_port_ctx_free list_dpdk 40 (demo_mem ())) = v_port_ctx_free list_dpdk 40 (demo_mem ())"
  using ctx_pool_discipline [OF demo_mem_inv [of "()"], where p = 40] by (simp add: Let_def)

end
