(* ===== verification/V_stub_pfcp.thy ===== *)
theory V_stub_pfcp
  imports V_stub_mem
begin

section \<open>PFCP messages and the PFCP port\<close>

text \<open>
  \<^verbatim>\<open>stubs/v_stub_pfcp\<close>: the decoder with its message pool, the accessors, the session builder,
  the response encoder and the captured transmission. A \<^verbatim>\<open>pfcp_msg *\<close> is an address into
  \<open>pfcp_at\<close>.
\<close>

definition V_STUB_PFCP_MSG_POOL_CAP :: nat where "V_STUB_PFCP_MSG_POOL_CAP = 4096"
definition V_STUB_TX_BUF_CAP :: nat where "V_STUB_TX_BUF_CAP = 512"
definition V_STUB_MSG_MAGIC :: u32 where "V_STUB_MSG_MAGIC = 0x4d534731"

definition V_PFCP_MSG_SESSION_EST_REQ :: u8 where "V_PFCP_MSG_SESSION_EST_REQ = 50"
definition V_PFCP_MSG_SESSION_MOD_REQ :: u8 where "V_PFCP_MSG_SESSION_MOD_REQ = 52"
definition V_PFCP_MSG_SESSION_DEL_REQ :: u8 where "V_PFCP_MSG_SESSION_DEL_REQ = 54"

definition V_PFCP_CAUSE_REQUEST_ACCEPTED :: u8 where "V_PFCP_CAUSE_REQUEST_ACCEPTED = 1"
definition V_PFCP_CAUSE_REQUEST_REJECTED :: u8 where "V_PFCP_CAUSE_REQUEST_REJECTED = 64"
definition V_PFCP_CAUSE_SESSION_CTX_NOT_FOUND :: u8 where "V_PFCP_CAUSE_SESSION_CTX_NOT_FOUND = 65"
definition V_PFCP_CAUSE_SYSTEM_FAILURE :: u8 where "V_PFCP_CAUSE_SYSTEM_FAILURE = 69"
definition V_PFCP_CAUSE_NO_RESOURCES_AVAILABLE :: u8 where "V_PFCP_CAUSE_NO_RESOURCES_AVAILABLE = 71"

lemmas pfcp_types = V_PFCP_MSG_SESSION_EST_REQ_def V_PFCP_MSG_SESSION_MOD_REQ_def V_PFCP_MSG_SESSION_DEL_REQ_def
lemmas pfcp_causes = V_PFCP_CAUSE_REQUEST_ACCEPTED_def V_PFCP_CAUSE_REQUEST_REJECTED_def
  V_PFCP_CAUSE_SESSION_CTX_NOT_FOUND_def V_PFCP_CAUSE_SYSTEM_FAILURE_def
  V_PFCP_CAUSE_NO_RESOURCES_AVAILABLE_def

record pfcp_msg =
  pm_magic :: u32
  pm_type :: u8
  pm_has_ue_ip :: u8
  pm_seq :: u32
  pm_seid :: u64
  pm_smf_fseid :: u64
  pm_v4_ue_ip :: u32
  pm_v6_ue_ip :: "u8 list"

definition zero_pfcp_msg :: pfcp_msg where
  "zero_pfcp_msg =
     \<lparr>pm_magic = 0, pm_type = 0, pm_has_ue_ip = 0, pm_seq = 0, pm_seid = 0, pm_smf_fseid = 0,
      pm_v4_ue_ip = 0, pm_v6_ue_ip = replicate 16 0\<rparr>"

record ('r, 'p, 'h) pfcp_st = "('r, 'p, 'h) mem_st" +
  g_pfcp_pool :: "'p option"
  pfcp_at :: "ptr \<Rightarrow> pfcp_msg"
  g_rx_cb :: bool
  g_last_tx :: "u8 list"
  g_last_tx_len :: nat

subsection \<open>The wire structs\<close>

definition sizeof_wire_req :: nat where "sizeof_wire_req = 44"
definition sizeof_wire_rsp :: nat where "sizeof_wire_rsp = 16"

record v_stub_wire_req =
  wr_type :: u8
  wr_has_ue_ip :: u8
  wr_rsv :: u16
  wr_seq :: u32
  wr_seid :: u64
  wr_smf_fseid :: u64
  wr_v4_ue_ip :: u32
  wr_v6_ue_ip :: "u8 list"

definition wire_req_bytes :: "v_stub_wire_req \<Rightarrow> u8 list" where
  "wire_req_bytes r =
     [wr_type r, wr_has_ue_ip r] @ le_bytes 2 (wr_rsv r) @ le_bytes 4 (wr_seq r) @ le_bytes 8 (wr_seid r) @
     le_bytes 8 (wr_smf_fseid r) @ le_bytes 4 (wr_v4_ue_ip r) @ wr_v6_ue_ip r"

definition wire_req_of_bytes :: "u8 list \<Rightarrow> v_stub_wire_req" where
  "wire_req_of_bytes bs =
     \<lparr>wr_type = bs ! 0, wr_has_ue_ip = bs ! 1, wr_rsv = of_le (field_at 2 2 bs),
      wr_seq = of_le (field_at 4 4 bs), wr_seid = of_le (field_at 8 8 bs),
      wr_smf_fseid = of_le (field_at 16 8 bs), wr_v4_ue_ip = of_le (field_at 24 4 bs),
      wr_v6_ue_ip = field_at 28 16 bs\<rparr>"

record v_stub_wire_rsp =
  ws_type :: u8
  ws_cause :: u8
  ws_rsv :: u16
  ws_seq :: u32
  ws_seid :: u64

definition wire_rsp_bytes :: "v_stub_wire_rsp \<Rightarrow> u8 list" where
  "wire_rsp_bytes r =
     [ws_type r, ws_cause r] @ le_bytes 2 (ws_rsv r) @ le_bytes 4 (ws_seq r) @ le_bytes 8 (ws_seid r)"

subsection \<open>Operations\<close>

definition ensure_msg_pool ::
    "('r, 'p) dpdk \<Rightarrow> ('r, 'p, 'h, 'a) pfcp_st_scheme \<Rightarrow> int \<times> ('r, 'p, 'h, 'a) pfcp_st_scheme" where
  "ensure_msg_pool D w =
     (if g_pfcp_pool w \<noteq> None then (RET_CODE_OK, w)
      else let w = w\<lparr>g_pfcp_pool := rte_mempool_create D V_STUB_PFCP_MSG_POOL_CAP\<rparr> in
           if g_pfcp_pool w = None then (RET_CODE_ERR, w) else (RET_CODE_OK, w))"

definition v_port_pfcp_io_init ::
    "('r, 'p) dpdk \<Rightarrow> ('r, 'p, 'h, 'a) pfcp_st_scheme \<Rightarrow> int \<times> ('r, 'p, 'h, 'a) pfcp_st_scheme" where
  "v_port_pfcp_io_init D w =
     (let (rc, w) = ensure_msg_pool D w in
      if rc \<noteq> RET_CODE_OK then (RET_CODE_ERR, w) else (RET_CODE_OK, w\<lparr>g_rx_cb := True\<rparr>))"

definition v_port_pfcp_io_send ::
    "sockaddr \<Rightarrow> u8 list \<Rightarrow> ('r, 'p, 'h, 'a) pfcp_st_scheme \<Rightarrow> int \<times> ('r, 'p, 'h, 'a) pfcp_st_scheme" where
  "v_port_pfcp_io_send peer buf w =
     (if V_STUB_TX_BUF_CAP < length buf then (RET_CODE_ERR, w)
      else (RET_CODE_OK, w\<lparr>g_last_tx := buf @ drop (length buf) (g_last_tx w), g_last_tx_len := length buf\<rparr>))"

text \<open>The decoder returns the address of the message, NULL on failure.\<close>

definition v_port_pfcp_decode ::
    "('r, 'p) dpdk \<Rightarrow> u8 list \<Rightarrow> ('r, 'p, 'h, 'a) pfcp_st_scheme \<Rightarrow> ptr option \<times> ('r, 'p, 'h, 'a) pfcp_st_scheme" where
  "v_port_pfcp_decode D buf w =
     (if length buf < sizeof_wire_req then (None, w)
      else let (rc, w) = ensure_msg_pool D w in
           if rc \<noteq> RET_CODE_OK then (None, w)
           else let wire = wire_req_of_bytes (take sizeof_wire_req buf) in
                case pool_get D (g_pfcp_pool w) of
                  None \<Rightarrow> (None, w)
                | Some (m, pool) \<Rightarrow>
                    (Some m,
                     w\<lparr>g_pfcp_pool := Some pool,
                       pfcp_at := (pfcp_at w)(m :=
                         \<lparr>pm_magic = V_STUB_MSG_MAGIC, pm_type = wr_type wire, pm_has_ue_ip = wr_has_ue_ip wire,
                          pm_seq = wr_seq wire, pm_seid = wr_seid wire, pm_smf_fseid = wr_smf_fseid wire,
                          pm_v4_ue_ip = wr_v4_ue_ip wire, pm_v6_ue_ip = wr_v6_ue_ip wire\<rparr>)\<rparr>))"

definition v_port_pfcp_msg_free ::
    "('r, 'p) dpdk \<Rightarrow> ptr \<Rightarrow> ('r, 'p, 'h, 'a) pfcp_st_scheme \<Rightarrow> ('r, 'p, 'h, 'a) pfcp_st_scheme" where
  "v_port_pfcp_msg_free D msg w =
     (if msg = 0 then w
      else if pm_magic (pfcp_at w msg) \<noteq> V_STUB_MSG_MAGIC then w
      else w\<lparr>pfcp_at := (pfcp_at w)(msg := zero_pfcp_msg), g_pfcp_pool := pool_put D msg (g_pfcp_pool w)\<rparr>)"

definition v_port_pfcp_msg_type :: "pfcp_msg \<Rightarrow> u8" where "v_port_pfcp_msg_type m = pm_type m"
definition v_port_pfcp_hdr_seid :: "pfcp_msg \<Rightarrow> u64" where "v_port_pfcp_hdr_seid m = pm_seid m"
definition v_port_pfcp_seq :: "pfcp_msg \<Rightarrow> u32" where "v_port_pfcp_seq m = pm_seq m"
definition v_port_pfcp_smf_fseid :: "pfcp_msg \<Rightarrow> u64" where "v_port_pfcp_smf_fseid m = pm_smf_fseid m"

lemmas pfcp_accessors = v_port_pfcp_msg_type_def v_port_pfcp_hdr_seid_def v_port_pfcp_seq_def
  v_port_pfcp_smf_fseid_def

definition v_port_pfcp_ue_ip :: "pfcp_msg \<Rightarrow> (u32 \<times> u8 list) option" where
  "v_port_pfcp_ue_ip m = (if pm_has_ue_ip m = 0 then None else Some (pm_v4_ue_ip m, pm_v6_ue_ip m))"

definition fill_pattern :: "u32 \<Rightarrow> v_stub_ses_ctx \<Rightarrow> v_stub_ses_ctx" where
  "fill_pattern seed c =
     c\<lparr>ctx_payload := map (\<lambda>i. ucast (ucast seed + of_nat i :: u64)) [0 ..< V_STUB_CTX_PAYLOAD]\<rparr>"

text \<open>The three session builders always succeed and return the new contents of the context.\<close>

definition v_port_pfcp_build_session ::
    "pfcp_msg \<Rightarrow> u64 \<Rightarrow> u32 \<Rightarrow> v_stub_ses_ctx \<Rightarrow> v_stub_ses_ctx option" where
  "v_port_pfcp_build_session req seid teid c =
     Some (fill_pattern (pm_seq req)
       (c\<lparr>ctx_seid := seid, ctx_teid := teid, ctx_has_ue_ip := pm_has_ue_ip req,
          ctx_v4_ue_ip := pm_v4_ue_ip req, ctx_v6_ue_ip := pm_v6_ue_ip req\<rparr>))"

definition v_port_pfcp_modify_session :: "pfcp_msg \<Rightarrow> v_stub_ses_ctx \<Rightarrow> v_stub_ses_ctx option" where
  "v_port_pfcp_modify_session req c = Some (fill_pattern (pm_seq req XOR 0xA5A5A5A5) c)"

definition v_port_pfcp_delete_session :: "pfcp_msg \<Rightarrow> v_stub_ses_ctx \<Rightarrow> v_stub_ses_ctx option" where
  "v_port_pfcp_delete_session req c = Some c"

definition v_port_pfcp_ctx_teid :: "v_stub_ses_ctx \<Rightarrow> u32" where
  "v_port_pfcp_ctx_teid c = ctx_teid c"

text \<open>The response; a NULL context gives SEID 0.\<close>

definition v_port_pfcp_encode_rsp ::
    "pfcp_msg \<Rightarrow> v_stub_ses_ctx option \<Rightarrow> u8 \<Rightarrow> nat \<Rightarrow> u8 list option" where
  "v_port_pfcp_encode_rsp req ctx cause cap =
     (if cap < sizeof_wire_rsp then None
      else Some (wire_rsp_bytes
        \<lparr>ws_type = pm_type req + 1, ws_cause = cause, ws_rsv = 0, ws_seq = pm_seq req,
         ws_seid = (case ctx of None \<Rightarrow> 0 | Some c \<Rightarrow> ctx_seid c)\<rparr>))"

subsection \<open>The test surface\<close>

record v_stub_pfcp_desc =
  d_type :: u8
  d_seq :: u32
  d_seid :: u64
  d_smf_fseid :: u64
  d_has_ue_ip :: int
  d_v4_ue_ip :: u32
  d_v6_ue_ip :: "u8 list"

definition v_stub_pfcp_encode :: "v_stub_pfcp_desc \<Rightarrow> nat \<Rightarrow> u8 list" where
  "v_stub_pfcp_encode d cap =
     (if cap < sizeof_wire_req then []
      else wire_req_bytes
        \<lparr>wr_type = d_type d, wr_has_ue_ip = (if d_has_ue_ip d \<noteq> 0 then 1 else 0), wr_rsv = 0,
         wr_seq = d_seq d, wr_seid = d_seid d, wr_smf_fseid = d_smf_fseid d,
         wr_v4_ue_ip = d_v4_ue_ip d, wr_v6_ue_ip = d_v6_ue_ip d\<rparr>)"

text \<open>The only receive callback the program registers is \<^verbatim>\<open>v_dispatch_rx\<close>.\<close>

definition v_stub_pfcp_io_inject_rx ::
    "('r, 'p) dpdk \<Rightarrow> u8 list \<Rightarrow> sockaddr option \<Rightarrow> ('r, 'p, 'h, 'a) pfcp_st_scheme \<Rightarrow> ('r, 'p, 'h, 'a) pfcp_st_scheme" where
  "v_stub_pfcp_io_inject_rx D buf peer w = (if g_rx_cb w then v_dispatch_rx D buf peer w else w)"

definition v_stub_pfcp_io_last_tx :: "nat \<Rightarrow> ('r, 'p, 'h, 'a) pfcp_st_scheme \<Rightarrow> u8 list \<times> nat" where
  "v_stub_pfcp_io_last_tx out_cap w =
     (take (min (g_last_tx_len w) out_cap) (g_last_tx w), g_last_tx_len w)"

definition v_stub_pfcp_io_reset :: "('r, 'p, 'h, 'a) pfcp_st_scheme \<Rightarrow> ('r, 'p, 'h, 'a) pfcp_st_scheme" where
  "v_stub_pfcp_io_reset w = w\<lparr>g_last_tx_len := 0, g_last_tx := replicate V_STUB_TX_BUF_CAP 0\<rparr>"

subsection \<open>Ownership of the decoded messages\<close>

definition msg_inv ::
    "('r, 'p) dpdk \<Rightarrow> ('p \<Rightarrow> ptr set) \<Rightarrow> ptr set \<Rightarrow> ptr set \<Rightarrow> ('r, 'p, 'h, 'a) pfcp_st_scheme \<Rightarrow> bool" where
  "msg_inv D free M H w \<longleftrightarrow>
     owns D free M H (g_pfcp_pool w) \<and> 0 \<notin> M \<and>
     (\<forall>m \<in> M. pm_magic (pfcp_at w m) = V_STUB_MSG_MAGIC \<longleftrightarrow> m \<in> H)"

lemma msg_magic_nonzero [simp]: "V_STUB_MSG_MAGIC \<noteq> 0" "0 \<noteq> V_STUB_MSG_MAGIC"
  by (simp_all add: V_STUB_MSG_MAGIC_def)

lemma zero_pfcp_msg_magic [simp]: "pm_magic zero_pfcp_msg = 0"
  by (simp add: zero_pfcp_msg_def)

text \<open>What the decoder stores for a request of 44 bytes or more.\<close>

definition msg_of_wire :: "v_stub_wire_req \<Rightarrow> pfcp_msg" where
  "msg_of_wire wire =
     \<lparr>pm_magic = V_STUB_MSG_MAGIC, pm_type = wr_type wire, pm_has_ue_ip = wr_has_ue_ip wire,
      pm_seq = wr_seq wire, pm_seid = wr_seid wire, pm_smf_fseid = wr_smf_fseid wire,
      pm_v4_ue_ip = wr_v4_ue_ip wire, pm_v6_ue_ip = wr_v6_ue_ip wire\<rparr>"

lemma decode_short: "length buf < sizeof_wire_req \<Longrightarrow> v_port_pfcp_decode D buf w = (None, w)"
  by (simp add: v_port_pfcp_decode_def)

lemma decode_long:
  assumes "g_pfcp_pool w \<noteq> None" and "sizeof_wire_req \<le> length buf"
  shows "v_port_pfcp_decode D buf w =
    (case pool_get D (g_pfcp_pool w) of
       None \<Rightarrow> (None, w)
     | Some (m, pool) \<Rightarrow>
         (Some m, w\<lparr>g_pfcp_pool := Some pool,
            pfcp_at := (pfcp_at w)(m := msg_of_wire (wire_req_of_bytes (take sizeof_wire_req buf)))\<rparr>))"
  using assms
  by (cases "pool_get D (g_pfcp_pool w)") (auto simp: v_port_pfcp_decode_def ensure_msg_pool_def Let_def msg_of_wire_def)

lemma msg_of_wire_magic [simp]: "pm_magic (msg_of_wire r) = V_STUB_MSG_MAGIC"
  by (simp add: msg_of_wire_def)

lemma decode_inv:
  assumes i: "msg_inv D free M H w" and d: "v_port_pfcp_decode D buf w = (r, w')"
  shows "case r of
      None \<Rightarrow> w' = w \<and> (length buf < sizeof_wire_req \<or> H = M)
    | Some m \<Rightarrow> m \<in> M - H \<and> sizeof_wire_req \<le> length buf \<and> msg_inv D free M (insert m H) w' \<and>
        pfcp_at w' = (pfcp_at w)(m := msg_of_wire (wire_req_of_bytes (take sizeof_wire_req buf)))"
proof (cases "length buf < sizeof_wire_req")
  case True
  then show ?thesis using d by (auto simp: decode_short)
next
  case False
  have o: "owns D free M H (g_pfcp_pool w)" using i by (simp add: msg_inv_def)
  have long: "g_pfcp_pool w \<noteq> None" "sizeof_wire_req \<le> length buf" using o False by (auto simp: owns_def)
  show ?thesis
  proof (cases "pool_get D (g_pfcp_pool w)")
    case None
    then show ?thesis using d owns_exhausted [OF o] by (auto simp: decode_long [OF long])
  next
    case (Some x)
    then obtain m pool where p: "pool_get D (g_pfcp_pool w) = Some (m, pool)" by (cases x) auto
    have r: "r = Some m" "w' = w\<lparr>g_pfcp_pool := Some pool,
        pfcp_at := (pfcp_at w)(m := msg_of_wire (wire_req_of_bytes (take sizeof_wire_req buf)))\<rparr>"
      using d by (simp_all add: decode_long [OF long] p)
    show ?thesis using i owns_get [OF o p] long(2) by (auto simp: r msg_inv_def)
  qed
qed

lemma msg_free_inv:
  assumes i: "msg_inv D free M H w"
  shows "m \<in> H \<Longrightarrow> msg_inv D free M (H - {m}) (v_port_pfcp_msg_free D m w)"
    and "m \<notin> H \<Longrightarrow> m \<in> insert 0 M \<Longrightarrow> v_port_pfcp_msg_free D m w = w"
proof -
  have o: "owns D free M H (g_pfcp_pool w)" and z: "0 \<notin> M" and HM: "H \<subseteq> M"
    using i by (auto simp: msg_inv_def owns_def)
  show "msg_inv D free M (H - {m}) (v_port_pfcp_msg_free D m w)" if m: "m \<in> H"
  proof -
    have g: "m \<noteq> 0" "pm_magic (pfcp_at w m) = V_STUB_MSG_MAGIC" using i m z HM by (auto simp: msg_inv_def)
    have "owns D free M (insert m (H - {m})) (g_pfcp_pool w)" using o m by (simp add: insert_absorb)
    then have "owns D free M (H - {m}) (pool_put D m (g_pfcp_pool w))" by (rule owns_put) simp
    with i g show ?thesis by (auto simp: msg_inv_def v_port_pfcp_msg_free_def)
  qed
  show "v_port_pfcp_msg_free D m w = w" if "m \<notin> H" "m \<in> insert 0 M"
    using i that by (auto simp: msg_inv_def v_port_pfcp_msg_free_def)
qed

text \<open>The decoder and \<^verbatim>\<open>v_port_pfcp_msg_free\<close> are the allocation and release of an object pool.\<close>

definition decode_ptr ::
    "('r, 'p) dpdk \<Rightarrow> u8 list \<Rightarrow> ('r, 'p, 'h, 'a) pfcp_st_scheme \<Rightarrow> ptr \<times> ('r, 'p, 'h, 'a) pfcp_st_scheme" where
  "decode_ptr D buf w = (case v_port_pfcp_decode D buf w of (r, w') \<Rightarrow> (case r of None \<Rightarrow> 0 | Some m \<Rightarrow> m, w'))"

interpretation msg: object_pool "\<lambda>H w. msg_inv D free M H w" M "decode_ptr D buf" "v_port_pfcp_msg_free D"
  for D free M buf
proof
  show "H \<subseteq> M \<and> 0 \<notin> M" if "msg_inv D free M H w" for H and w :: "('a, 'b, 'c, 'd) pfcp_st_scheme"
    using that by (auto simp: msg_inv_def owns_def)
  show "x \<in> M - H \<and> msg_inv D free M (insert x H) w'"
    if i: "msg_inv D free M H w" and d: "decode_ptr D buf w = (x, w')" and x: "x \<noteq> 0"
    for H x and w w' :: "('a, 'b, 'c, 'd) pfcp_st_scheme"
  proof -
    obtain r where r: "v_port_pfcp_decode D buf w = (r, w')" "x = (case r of None \<Rightarrow> 0 | Some m \<Rightarrow> m)"
      using d by (auto simp: decode_ptr_def split: prod.splits)
    show ?thesis using decode_inv [OF i r(1)] r(2) x by (auto split: option.splits)
  qed
  show "msg_inv D free M H w'" if i: "msg_inv D free M H w" and d: "decode_ptr D buf w = (0, w')"
    for H and w w' :: "('a, 'b, 'c, 'd) pfcp_st_scheme"
  proof -
    obtain r where r: "v_port_pfcp_decode D buf w = (r, w')" "0 = (case r of None \<Rightarrow> 0 | Some m \<Rightarrow> m)"
      using d by (auto simp: decode_ptr_def split: prod.splits)
    show ?thesis using decode_inv [OF i r(1)] r(2) i by (auto simp: msg_inv_def split: option.splits)
  qed
qed (auto dest: msg_free_inv)

subsection \<open>Properties\<close>

lemma of_le_u16 [simp]: "of_le (le_bytes 2 w) = w" for w :: u16
  by (rule of_le_bytes) simp

lemma length_wire_req_bytes [simp]: "length (wr_v6_ue_ip r) = 16 \<Longrightarrow> length (wire_req_bytes r) = sizeof_wire_req"
  by (simp add: wire_req_bytes_def sizeof_wire_req_def)

lemma wire_req_roundtrip [simp]:
  assumes "length (wr_v6_ue_ip r) = 16"
  shows "wire_req_of_bytes (wire_req_bytes r) = r"
proof -
  have last: "field_at 0 16 (wr_v6_ue_ip r) = wr_v6_ue_ip r" using assms by (simp add: field_at_def)
  show ?thesis
    using assms last
    by (simp add: wire_req_of_bytes_def wire_req_bytes_def field_at_skip field_at_Cons field_at_here)
qed

text \<open>
  C36: a request survives the wire. What the encoder writes for a request, followed by any
  bytes at all, decodes to a fresh message object whose accessors return what was encoded; a
  UE address is reported exactly when the request carried one. A datagram shorter than the
  44 bytes of a request is refused and leaves no trace, and releasing the message gives back
  the pool it came from.
\<close>

theorem pfcp_request_roundtrip:
  assumes "msg_inv D free M H w" and "H \<noteq> M" and "sizeof_wire_req \<le> cap" and "length (d_v6_ue_ip d) = 16"
  shows "\<exists>m w'. v_port_pfcp_decode D (v_stub_pfcp_encode d cap @ rest) w = (Some m, w') \<and>
      m \<in> M - H \<and> msg_inv D free M (insert m H) w' \<and>
      v_port_pfcp_msg_type (pfcp_at w' m) = d_type d \<and> v_port_pfcp_seq (pfcp_at w' m) = d_seq d \<and>
      v_port_pfcp_hdr_seid (pfcp_at w' m) = d_seid d \<and> v_port_pfcp_smf_fseid (pfcp_at w' m) = d_smf_fseid d \<and>
      v_port_pfcp_ue_ip (pfcp_at w' m) = (if d_has_ue_ip d \<noteq> 0 then Some (d_v4_ue_ip d, d_v6_ue_ip d) else None) \<and>
      msg_inv D free M H (v_port_pfcp_msg_free D m w') \<and>
      (\<forall>n < sizeof_wire_req. v_port_pfcp_decode D (take n (v_stub_pfcp_encode d cap)) w = (None, w))"
proof -
  define r where "r = \<lparr>wr_type = d_type d, wr_has_ue_ip = (if d_has_ue_ip d \<noteq> 0 then 1 else 0), wr_rsv = 0,
     wr_seq = d_seq d, wr_seid = d_seid d, wr_smf_fseid = d_smf_fseid d, wr_v4_ue_ip = d_v4_ue_ip d, wr_v6_ue_ip = d_v6_ue_ip d\<rparr>"
  have l: "length (wr_v6_ue_ip r) = 16" using assms(4) by (simp add: r_def)
  have e: "v_stub_pfcp_encode d cap = wire_req_bytes r" using assms(3) by (simp add: v_stub_pfcp_encode_def r_def)
  obtain x w' where d: "v_port_pfcp_decode D (wire_req_bytes r @ rest) w = (x, w')" by fastforce
  have t: "take sizeof_wire_req (wire_req_bytes r @ rest) = wire_req_bytes r" using l by simp
  obtain m where m: "x = Some m" "m \<in> M - H" "msg_inv D free M (insert m H) w'" "pfcp_at w' m = msg_of_wire r"
    using decode_inv [OF assms(1) d] assms(2) l by (auto simp: t split: option.splits)
  have "msg_inv D free M (insert m H - {m}) (v_port_pfcp_msg_free D m w')" by (rule msg_free_inv(1) [OF m(3)]) simp
  moreover have "insert m H - {m} = H" using m(2) by auto
  moreover have "\<forall>n < sizeof_wire_req. v_port_pfcp_decode D (take n (wire_req_bytes r)) w = (None, w)"
    by (intro allI impI decode_short) simp
  ultimately show ?thesis
    using d m by (intro exI [of _ m] exI [of _ w'])
      (simp add: e pfcp_accessors v_port_pfcp_ue_ip_def, simp add: msg_of_wire_def r_def)
qed

definition demo_pfcp :: "'a \<Rightarrow> (nat \<times> ptr list, ptr list, (string list \<times> ptr) list, 'a) pfcp_st_scheme" where
  "demo_pfcp x = demo_mem
     \<lparr>g_pfcp_pool = Some [51, 52],
      pfcp_at = (\<lambda>m. if m = 50 then zero_pfcp_msg\<lparr>pm_magic := V_STUB_MSG_MAGIC, pm_type := 50, pm_seq := 9\<rparr> else zero_pfcp_msg),
      g_rx_cb = True, g_last_tx = replicate 512 0, g_last_tx_len = 0, \<dots> = x\<rparr>"

lemma demo_pfcp_inv: "msg_inv list_dpdk set {50, 51, 52} {50} (demo_pfcp x)"
  by (auto simp: msg_inv_def owns_def demo_pfcp_def demo_mem_def demo_id_def demo_script_def list_pool_laws)

definition demo_desc :: v_stub_pfcp_desc where
  "demo_desc = \<lparr>d_type = 52, d_seq = 7, d_seid = 99, d_smf_fseid = 5, d_has_ue_ip = 1,
     d_v4_ue_ip = 3, d_v6_ue_ip = replicate 16 0\<rparr>"

theorem pfcp_request_roundtrip_witness:
  "\<exists>m w'. v_port_pfcp_decode list_dpdk (v_stub_pfcp_encode demo_desc 44 @ [1, 2]) (demo_pfcp ()) = (Some m, w') \<and>
     v_port_pfcp_seq (pfcp_at w' m) = 7 \<and> v_port_pfcp_hdr_seid (pfcp_at w' m) = 99"
proof -
  have "({50 :: ptr}) \<noteq> {50, 51, 52}" by auto
  from pfcp_request_roundtrip [OF demo_pfcp_inv [of "()"] this, of 44 demo_desc "[1, 2]"]
  show ?thesis by (auto simp: sizeof_wire_req_def demo_desc_def)
qed

lemma rsp_layout:
  "case v_port_pfcp_encode_rsp req ctx cause cap of
     None \<Rightarrow> cap < 16
   | Some bs \<Rightarrow> 16 \<le> cap \<and> length bs = 16 \<and> bs ! 0 = v_port_pfcp_msg_type req + 1 \<and> bs ! 1 = cause \<and>
       of_le (field_at 4 4 bs) = v_port_pfcp_seq req \<and>
       of_le (field_at 8 8 bs) = (case ctx of None \<Rightarrow> 0 | Some c \<Rightarrow> ctx_seid c)"
proof -
  have last: "field_at 0 8 (le_bytes 8 (s :: u64)) = le_bytes 8 s" for s by (simp add: field_at_def)
  show ?thesis
    by (simp add: v_port_pfcp_encode_rsp_def sizeof_wire_rsp_def wire_rsp_bytes_def pfcp_accessors
        field_at_skip field_at_Cons field_at_here last)
qed

text \<open>
  A response names its request. It is refused exactly for a buffer of less than 16 bytes;
  otherwise its type is the request's plus one, it carries the cause and the request's sequence
  number, and its SEID is that of the context, 0 without one.
\<close>

lemma pfcp_response_layout:
  "case v_port_pfcp_encode_rsp req ctx cause cap of
     None \<Rightarrow> cap < 16
   | Some bs \<Rightarrow> 16 \<le> cap \<and> length bs = 16 \<and> bs ! 0 = v_port_pfcp_msg_type req + 1 \<and> bs ! 1 = cause \<and>
       of_le (field_at 4 4 bs) = v_port_pfcp_seq req \<and>
       of_le (field_at 8 8 bs) = (case ctx of None \<Rightarrow> 0 | Some c \<Rightarrow> ctx_seid c)"
  by (rule rsp_layout)

end
