(* ===== verification/V_stub_txn.thy ===== *)
theory V_stub_txn
  imports V_stub_pfcp
begin

section \<open>The transaction table\<close>

text \<open>
  \<^verbatim>\<open>stubs/v_stub_txn\<close> behind \<^verbatim>\<open>include/v_port_txn.h\<close>: a pool of transactions, a table of slots
  that lists the live ones, a simulated clock and one hard timeout per transaction. The two
  arrays have \<^verbatim>\<open>V_STUB_TXN_CAP\<close> entries; a loop over all slots is a recursion over the list.
\<close>

definition V_STUB_TXN_CAP :: nat where "V_STUB_TXN_CAP = 8192"
definition V_STUB_TXN_HARD_TIMEOUT_MS :: u64 where "V_STUB_TXN_HARD_TIMEOUT_MS = 2000"

datatype v_txn_state =
    TXN_ST_RECV
  | TXN_ST_DB_READ_WAIT
  | TXN_ST_DB_WRITE_WAIT
  | TXN_ST_VDP_WAIT
  | TXN_ST_DB_CONFIRM_WAIT
  | TXN_ST_REPLIED

record v_txn =
  t_state :: v_txn_state
  t_db_ver :: u64
  t_cas_retry :: u8
  t_part_id :: u16
  t_seid :: u64
  t_teid :: u32
  t_req :: ptr
  t_ctx :: ptr
  t_peer :: sockaddr
  t_deadline_ms :: u64
  t_impl :: ptr

definition zero_txn :: v_txn where
  "zero_txn =
     \<lparr>t_state = TXN_ST_RECV, t_db_ver = 0, t_cas_retry = 0, t_part_id = 0, t_seid = 0, t_teid = 0,
      t_req = 0, t_ctx = 0, t_peer = zero_sockaddr, t_deadline_ms = 0, t_impl = 0\<rparr>"

record ('r, 'p, 'h) txn_st = "('r, 'p, 'h) pfcp_st" +
  g_txn_pool :: "'p option"
  txn_at :: "ptr \<Rightarrow> v_txn"
  g_slots :: "ptr list"
  g_fired :: "bool list"
  g_now_ms :: u64
  g_timeout_cb :: bool

text \<open>An assignment to a member of \<open>*t\<close>.\<close>

definition txn_upd ::
    "ptr \<Rightarrow> (v_txn \<Rightarrow> v_txn) \<Rightarrow> ('r, 'p, 'h, 'a) txn_st_scheme \<Rightarrow> ('r, 'p, 'h, 'a) txn_st_scheme" where
  "txn_upd t f w = w\<lparr>txn_at := (txn_at w)(t := f (txn_at w t))\<rparr>"

subsection \<open>Operations\<close>

definition v_port_txn_init ::
    "('r, 'p) dpdk \<Rightarrow> ('r, 'p, 'h, 'a) txn_st_scheme \<Rightarrow> int \<times> ('r, 'p, 'h, 'a) txn_st_scheme" where
  "v_port_txn_init D w =
     (if g_txn_pool w \<noteq> None then (RET_CODE_ERR, w)
      else let w = w\<lparr>g_txn_pool := rte_mempool_create D V_STUB_TXN_CAP\<rparr> in
           if g_txn_pool w = None then (RET_CODE_ERR, w)
           else (RET_CODE_OK, w\<lparr>g_slots := replicate V_STUB_TXN_CAP 0, g_fired := replicate V_STUB_TXN_CAP False,
                               g_now_ms := 0\<rparr>))"

definition v_port_txn_fini :: "('r, 'p, 'h, 'a) txn_st_scheme \<Rightarrow> ('r, 'p, 'h, 'a) txn_st_scheme" where
  "v_port_txn_fini w = w\<lparr>g_txn_pool := None, g_slots := replicate V_STUB_TXN_CAP 0\<rparr>"

text \<open>The linear scans: the index of the first slot with the given content.\<close>

fun slot_index :: "ptr \<Rightarrow> ptr list \<Rightarrow> nat option" where
  "slot_index t [] = None"
| "slot_index t (x # xs) = (if x = t then Some 0 else map_option Suc (slot_index t xs))"

definition slot_of :: "ptr \<Rightarrow> ('r, 'p, 'h, 'a) txn_st_scheme \<Rightarrow> nat option" where
  "slot_of t w = slot_index t (g_slots w)"

definition v_port_txn_create ::
    "('r, 'p) dpdk \<Rightarrow> ('r, 'p, 'h, 'a) txn_st_scheme \<Rightarrow> ptr \<times> ('r, 'p, 'h, 'a) txn_st_scheme" where
  "v_port_txn_create D w =
     (case slot_index 0 (g_slots w) of
        None \<Rightarrow> (0, w)
      | Some slot \<Rightarrow>
          (case pool_get D (g_txn_pool w) of
             None \<Rightarrow> (0, w)
           | Some (t, pool) \<Rightarrow>
               (t, w\<lparr>g_txn_pool := Some pool,
                     txn_at := (txn_at w)(t := zero_txn\<lparr>t_deadline_ms := g_now_ms w + V_STUB_TXN_HARD_TIMEOUT_MS\<rparr>),
                     g_slots := (g_slots w)[slot := t], g_fired := (g_fired w)[slot := False]\<rparr>)))"

definition v_port_txn_destroy ::
    "('r, 'p) dpdk \<Rightarrow> ptr \<Rightarrow> ('r, 'p, 'h, 'a) txn_st_scheme \<Rightarrow> ('r, 'p, 'h, 'a) txn_st_scheme" where
  "v_port_txn_destroy D t w =
     (if t = 0 then w
      else case slot_of t w of
        None \<Rightarrow> w
      | Some slot \<Rightarrow>
          w\<lparr>g_slots := (g_slots w)[slot := 0], g_fired := (g_fired w)[slot := False],
            txn_at := (txn_at w)(t := zero_txn), g_txn_pool := pool_put D t (g_txn_pool w)\<rparr>)"

text \<open>A scan for the first live transaction with a property; NULL if there is none.\<close>

fun txn_scan :: "(v_txn \<Rightarrow> bool) \<Rightarrow> (ptr \<Rightarrow> v_txn) \<Rightarrow> ptr list \<Rightarrow> ptr" where
  "txn_scan P txns [] = 0"
| "txn_scan P txns (t # ts) = (if t \<noteq> 0 \<and> P (txns t) then t else txn_scan P txns ts)"

definition v_port_txn_find_by_seq :: "u64 \<Rightarrow> u32 \<Rightarrow> ('r, 'p, 'h, 'a) txn_st_scheme \<Rightarrow> ptr" where
  "v_port_txn_find_by_seq smf_fseid seq w =
     txn_scan (\<lambda>t. t_req t \<noteq> 0 \<and> v_port_pfcp_smf_fseid (pfcp_at w (t_req t)) = smf_fseid \<and>
                   v_port_pfcp_seq (pfcp_at w (t_req t)) = seq) (txn_at w) (g_slots w)"

definition v_port_txn_find_by_seid :: "u64 \<Rightarrow> ('r, 'p, 'h, 'a) txn_st_scheme \<Rightarrow> ptr" where
  "v_port_txn_find_by_seid seid w = txn_scan (\<lambda>t. t_seid t = seid) (txn_at w) (g_slots w)"

definition v_port_txn_set_state ::
    "ptr \<Rightarrow> v_txn_state \<Rightarrow> ('r, 'p, 'h, 'a) txn_st_scheme \<Rightarrow> ('r, 'p, 'h, 'a) txn_st_scheme" where
  "v_port_txn_set_state t st w = txn_upd t (\<lambda>x. x\<lparr>t_state := st\<rparr>) w"

definition v_port_txn_on_timeout :: "('r, 'p, 'h, 'a) txn_st_scheme \<Rightarrow> int \<times> ('r, 'p, 'h, 'a) txn_st_scheme" where
  "v_port_txn_on_timeout w = (RET_CODE_OK, w\<lparr>g_timeout_cb := True\<rparr>)"

text \<open>One iteration of the timer sweep at slot \<open>i\<close>; \<open>tcb\<close> is the registered timeout callback.\<close>

definition timer_sweep_slot ::
    "(ptr \<Rightarrow> ('r, 'p, 'h, 'a) txn_st_scheme \<Rightarrow> ('r, 'p, 'h, 'a) txn_st_scheme) \<Rightarrow> nat \<Rightarrow>
     ('r, 'p, 'h, 'a) txn_st_scheme \<Rightarrow> ('r, 'p, 'h, 'a) txn_st_scheme" where
  "timer_sweep_slot tcb i w =
     (let t = g_slots w ! i in
      if t = 0 \<or> g_fired w ! i then w
      else if t_deadline_ms (txn_at w t) \<le> g_now_ms w then
        let w = w\<lparr>g_fired := (g_fired w)[i := True]\<rparr> in
        if g_timeout_cb w then tcb t w else w
      else w)"

definition v_port_txn_test_advance_ms ::
    "(ptr \<Rightarrow> ('r, 'p, 'h, 'a) txn_st_scheme \<Rightarrow> ('r, 'p, 'h, 'a) txn_st_scheme) \<Rightarrow> u64 \<Rightarrow>
     ('r, 'p, 'h, 'a) txn_st_scheme \<Rightarrow> ('r, 'p, 'h, 'a) txn_st_scheme" where
  "v_port_txn_test_advance_ms tcb ms w =
     fold (timer_sweep_slot tcb) [0 ..< length (g_slots w)] (w\<lparr>g_now_ms := g_now_ms w + ms\<rparr>)"

definition v_port_txn_test_hard_timeout_ms :: u64 where
  "v_port_txn_test_hard_timeout_ms = V_STUB_TXN_HARD_TIMEOUT_MS"

subsection \<open>The table and the pool\<close>

lemma slot_index_Some: "slot_index t xs = Some i \<Longrightarrow> i < length xs \<and> xs ! i = t"
  by (induction xs arbitrary: i) (auto split: if_splits)

lemma slot_index_None [simp]: "slot_index t xs = None \<longleftrightarrow> t \<notin> set xs"
  by (induction xs) auto

text \<open>No transaction is listed in two slots; the live ones are the ones listed.\<close>

definition slots_distinct :: "ptr list \<Rightarrow> bool" where
  "slots_distinct xs \<longleftrightarrow>
     (\<forall>i < length xs. \<forall>j < length xs. xs ! i = xs ! j \<longrightarrow> xs ! i \<noteq> 0 \<longrightarrow> i = j)"

definition live :: "('r, 'p, 'h, 'a) txn_st_scheme \<Rightarrow> ptr set" where
  "live w = set (g_slots w) - {0}"

definition txn_inv ::
    "('r, 'p) dpdk \<Rightarrow> ('p \<Rightarrow> ptr set) \<Rightarrow> ptr set \<Rightarrow> ptr set \<Rightarrow> ('r, 'p, 'h, 'a) txn_st_scheme \<Rightarrow> bool" where
  "txn_inv D free T H w \<longleftrightarrow>
     owns D free T H (g_txn_pool w) \<and> 0 \<notin> T \<and> finite T \<and> card T = length (g_slots w) \<and>
     length (g_fired w) = length (g_slots w) \<and> slots_distinct (g_slots w) \<and> live w = H"

lemma slots_distinct_put:
  assumes "slots_distinct xs" and "i < length xs" "xs ! i = 0" and "t \<notin> set xs"
  shows "slots_distinct (xs[i := t])"
  using assms by (auto simp: slots_distinct_def nth_list_update)

lemma slots_distinct_clear:
  assumes "slots_distinct xs" shows "slots_distinct (xs[i := 0])"
  using assms unfolding slots_distinct_def
  by (metis length_list_update nth_list_update_eq nth_list_update_neq)

lemma set_slots_put:
  assumes "i < length xs" and "xs ! i = 0" and "t \<noteq> 0"
  shows "set (xs[i := t]) - {0} = insert t (set xs - {0})"
proof -
  have "x \<in> set (xs[i := t])" if "x \<in> set xs" "x \<noteq> 0" for x
  proof -
    from that(1) obtain j where j: "j < length xs" "xs ! j = x" by (auto simp: in_set_conv_nth)
    with that(2) assms(2) have "i \<noteq> j" by auto
    with j show ?thesis by (metis length_list_update nth_list_update_neq nth_mem)
  qed
  moreover have "t \<in> set (xs[i := t])" using assms(1) by (simp add: set_update_memI)
  moreover have "set (xs[i := t]) \<subseteq> insert t (set xs)" by (rule set_update_subset_insert)
  ultimately show ?thesis using assms(3) by auto
qed

lemma set_slots_clear:
  assumes "slots_distinct xs" and "i < length xs"
  shows "set (xs[i := 0]) - {0} = set xs - {0, xs ! i}"
proof (cases "xs ! i = 0")
  case True
  then have "xs[i := 0] = xs" by (metis list_update_id)
  then show ?thesis using True by simp
next
  case False
  have "x \<in> set (xs[i := 0])" if "x \<in> set xs" "x \<noteq> xs ! i" for x
  proof -
    from that(1) obtain j where j: "j < length xs" "xs ! j = x" by (auto simp: in_set_conv_nth)
    with that(2) have "i \<noteq> j" by auto
    with j show ?thesis by (metis length_list_update nth_list_update_neq nth_mem)
  qed
  moreover have "x \<noteq> xs ! i" if x: "x \<in> set (xs[i := 0])" "x \<noteq> 0" for x
  proof
    assume e: "x = xs ! i"
    from x(1) obtain j where j: "j < length xs" "xs[i := 0] ! j = x" by (auto simp: in_set_conv_nth)
    then have "j \<noteq> i" using x(2) assms(2) by (auto simp: nth_list_update)
    with j have "xs ! j = xs ! i" using e by simp
    then show False using assms \<open>j \<noteq> i\<close> j(1) False by (auto simp: slots_distinct_def)
  qed
  moreover have "set (xs[i := 0]) \<subseteq> insert 0 (set xs)" by (rule set_update_subset_insert)
  ultimately show ?thesis by blast
qed

lemma free_slot_exists:
  assumes "txn_inv D free T H w" and "H \<noteq> T"
  shows "0 \<in> set (g_slots w)"
proof (rule ccontr)
  assume n: "0 \<notin> set (g_slots w)"
  have i: "slots_distinct (g_slots w)" "live w = H" "finite T" "card T = length (g_slots w)" "H \<subseteq> T"
    using assms(1) by (auto simp: txn_inv_def owns_def)
  have "distinct (g_slots w)"
    using i(1) n unfolding slots_distinct_def distinct_conv_nth by (metis nth_mem)
  from distinct_card [OF this] have "card H = card T" using i n by (simp add: live_def)
  then show False using assms(2) i(3,5) card_subset_eq by blast
qed

text \<open>The effect of a creation and of a destruction on the table.\<close>

lemma txn_create_cases:
  assumes i: "txn_inv D free T H w" and c: "v_port_txn_create D w = (t, w')"
  shows "if H = T then t = 0 \<and> w' = w
    else t \<in> T - H \<and> txn_inv D free T (insert t H) w' \<and>
      txn_at w' = (txn_at w)(t := zero_txn\<lparr>t_deadline_ms := g_now_ms w + V_STUB_TXN_HARD_TIMEOUT_MS\<rparr>)"
proof (cases "H = T")
  case True
  have "pool_get D (g_txn_pool w) = None" using i True owns_exhausted [of D free T H "g_txn_pool w"] by (simp add: txn_inv_def)
  then show ?thesis using c True by (auto simp: v_port_txn_create_def split: option.splits)
next
  case False
  have o: "owns D free T H (g_txn_pool w)" using i by (simp add: txn_inv_def)
  obtain slot where s: "slot_index 0 (g_slots w) = Some slot"
    using free_slot_exists [OF i False] slot_index_None by blast
  then have sl: "slot < length (g_slots w)" "g_slots w ! slot = 0" using slot_index_Some by auto
  obtain p pool where p: "pool_get D (g_txn_pool w) = Some (p, pool)"
    using owns_exhausted [OF o] False by fastforce
  note g = owns_get [OF o p]
  have t: "t = p" "w' = w\<lparr>g_txn_pool := Some pool,
      txn_at := (txn_at w)(p := zero_txn\<lparr>t_deadline_ms := g_now_ms w + V_STUB_TXN_HARD_TIMEOUT_MS\<rparr>),
      g_slots := (g_slots w)[slot := p], g_fired := (g_fired w)[slot := False]\<rparr>"
    using c by (auto simp: v_port_txn_create_def s p)
  have p0: "p \<noteq> 0" "p \<notin> set (g_slots w)" using i g(1,2) by (auto simp: txn_inv_def live_def)
  have "set ((g_slots w)[slot := p]) - {0} = insert p H"
    using set_slots_put [OF sl p0(1)] i by (simp add: txn_inv_def live_def)
  moreover have "slots_distinct ((g_slots w)[slot := p])"
    using i by (intro slots_distinct_put sl p0) (simp add: txn_inv_def)
  ultimately show ?thesis using False t g i by (auto simp: txn_inv_def live_def)
qed

lemma txn_destroy_inv:
  assumes i: "txn_inv D free T H w"
  shows "t \<in> H \<Longrightarrow> txn_inv D free T (H - {t}) (v_port_txn_destroy D t w)"
    and "t \<in> H \<Longrightarrow> txn_at (v_port_txn_destroy D t w) = (txn_at w)(t := zero_txn)"
    and "t \<notin> H \<Longrightarrow> v_port_txn_destroy D t w = w"
proof -
  have o: "owns D free T H (g_txn_pool w)" and sd: "slots_distinct (g_slots w)" and l: "live w = H"
    using i by (auto simp: txn_inv_def)
  show "t \<notin> H \<Longrightarrow> v_port_txn_destroy D t w = w"
    using l by (auto simp: v_port_txn_destroy_def slot_of_def live_def split: option.split dest: slot_index_Some)
  assume t: "t \<in> H"
  then have t0: "t \<noteq> 0" "t \<in> set (g_slots w)" using l by (auto simp: live_def)
  then obtain slot where s: "slot_index t (g_slots w) = Some slot" using slot_index_None by blast
  then have sl: "slot < length (g_slots w)" "g_slots w ! slot = t" using slot_index_Some by auto
  have w': "v_port_txn_destroy D t w =
      w\<lparr>g_slots := (g_slots w)[slot := 0], g_fired := (g_fired w)[slot := False],
        txn_at := (txn_at w)(t := zero_txn), g_txn_pool := pool_put D t (g_txn_pool w)\<rparr>"
    using t0 by (simp add: v_port_txn_destroy_def slot_of_def s)
  have "owns D free T (insert t (H - {t})) (g_txn_pool w)" using o t by (simp add: insert_absorb)
  then have "owns D free T (H - {t}) (pool_put D t (g_txn_pool w))" by (rule owns_put) simp
  moreover have "set ((g_slots w)[slot := 0]) - {0} = H - {t}"
    using set_slots_clear [OF sd sl(1)] l sl(2) by (auto simp: live_def)
  ultimately show "txn_inv D free T (H - {t}) (v_port_txn_destroy D t w)"
    using i slots_distinct_clear [OF sd, of slot] by (simp add: w' txn_inv_def live_def)
  show "txn_at (v_port_txn_destroy D t w) = (txn_at w)(t := zero_txn)" by (simp add: w')
qed

interpretation txn: full_pool "\<lambda>H w. txn_inv D free T H w" T "v_port_txn_create D" "v_port_txn_destroy D"
  for D free T
proof
  show "H \<subseteq> T \<and> 0 \<notin> T" if "txn_inv D free T H w" for H and w :: "('a, 'b, 'c, 'd) txn_st_scheme"
    using that by (auto simp: txn_inv_def owns_def)
  show "x \<in> T - H \<and> txn_inv D free T (insert x H) w'"
    if "txn_inv D free T H w" "v_port_txn_create D w = (x, w')" "x \<noteq> 0"
    for H x and w w' :: "('a, 'b, 'c, 'd) txn_st_scheme"
    using txn_create_cases [OF that(1,2)] that(3) by (simp split: if_splits)
  show "txn_inv D free T H w'" if "txn_inv D free T H w" "v_port_txn_create D w = (0, w')"
    for H and w w' :: "('a, 'b, 'c, 'd) txn_st_scheme"
    using txn_create_cases [OF that] that(1) by (auto simp: txn_inv_def split: if_splits)
  show "fst (v_port_txn_create D w) = 0 \<longleftrightarrow> H = T" if "txn_inv D free T H w"
    for H and w :: "('a, 'b, 'c, 'd) txn_st_scheme"
    using txn_create_cases [OF that, of "fst (v_port_txn_create D w)" "snd (v_port_txn_create D w)"] that
    by (auto simp: txn_inv_def split: if_splits)
qed (auto dest: txn_destroy_inv)

subsection \<open>Lookups\<close>

lemma txn_scan_cases:
  "(txn_scan P txns xs = 0 \<and> (\<forall>t \<in> set xs - {0}. \<not> P (txns t))) \<or>
   (txn_scan P txns xs \<in> set xs - {0} \<and> P (txns (txn_scan P txns xs)))"
  by (induction xs) auto

lemma find_by_seid_cases:
  "case v_port_txn_find_by_seid seid w of t \<Rightarrow>
     if t = 0 then \<forall>t \<in> live w. t_seid (txn_at w t) \<noteq> seid else t \<in> live w \<and> t_seid (txn_at w t) = seid"
  using txn_scan_cases [of "\<lambda>t. t_seid t = seid" "txn_at w" "g_slots w"]
  by (auto simp: v_port_txn_find_by_seid_def live_def)

text \<open>Does transaction \<open>t\<close> carry the request with this F-SEID and sequence number?\<close>

definition txn_matches :: "u64 \<Rightarrow> u32 \<Rightarrow> ('r, 'p, 'h, 'a) txn_st_scheme \<Rightarrow> ptr \<Rightarrow> bool" where
  "txn_matches smf_fseid seq w t \<longleftrightarrow>
     t_req (txn_at w t) \<noteq> 0 \<and> pm_smf_fseid (pfcp_at w (t_req (txn_at w t))) = smf_fseid \<and>
     pm_seq (pfcp_at w (t_req (txn_at w t))) = seq"

lemma find_by_seq_cases:
  "case v_port_txn_find_by_seq smf_fseid seq w of t \<Rightarrow>
     if t = 0 then \<forall>t \<in> live w. \<not> txn_matches smf_fseid seq w t else t \<in> live w \<and> txn_matches smf_fseid seq w t"
  using txn_scan_cases [of "\<lambda>t. t_req t \<noteq> 0 \<and> v_port_pfcp_smf_fseid (pfcp_at w (t_req t)) = smf_fseid \<and>
      v_port_pfcp_seq (pfcp_at w (t_req t)) = seq" "txn_at w" "g_slots w"]
  by (auto simp: v_port_txn_find_by_seq_def live_def txn_matches_def pfcp_accessors)

subsection \<open>Properties\<close>

text \<open>
  C37: the transaction table. Creation fails only when all transactions are live, and otherwise
  returns one that is not, zeroed and with its deadline two seconds ahead, leaving the others
  alone. Destruction removes exactly the given transaction; destroying it again, or destroying
  NULL or a foreign pointer, does nothing. A lookup by sequence number finds a live transaction
  with that request whenever there is one, and never a destroyed one.
\<close>

theorem txn_table_discipline:
  assumes "txn_inv D free T H w"
  shows "(case v_port_txn_create D w of (t, w') \<Rightarrow>
       if H = T then t = 0 \<and> w' = w
       else t \<in> T - H \<and> txn_inv D free T (insert t H) w' \<and>
         txn_at w' = (txn_at w)(t := zero_txn\<lparr>t_deadline_ms := g_now_ms w + 2000\<rparr>)) \<and>
    txn_inv D free T (H - {t}) (v_port_txn_destroy D t w) \<and>
    v_port_txn_destroy D t (v_port_txn_destroy D t w) = v_port_txn_destroy D t w \<and>
    (t \<notin> H \<longrightarrow> v_port_txn_destroy D t w = w) \<and>
    (case v_port_txn_find_by_seq smf_fseid seq w of t \<Rightarrow>
       if t = 0 then \<forall>t \<in> H. \<not> txn_matches smf_fseid seq w t else t \<in> H \<and> txn_matches smf_fseid seq w t)"
proof -
  have d: "txn_inv D free T (H - {t}) (v_port_txn_destroy D t w)"
    using txn_destroy_inv [OF assms, of t] assms by (cases "t \<in> H") simp_all
  moreover have "v_port_txn_destroy D t (v_port_txn_destroy D t w) = v_port_txn_destroy D t w"
    by (rule txn_destroy_inv(3) [OF d]) simp
  moreover have "live w = H" using assms by (simp add: txn_inv_def)
  moreover have "case v_port_txn_create D w of (t, w') \<Rightarrow>
       if H = T then t = 0 \<and> w' = w
       else t \<in> T - H \<and> txn_inv D free T (insert t H) w' \<and>
         txn_at w' = (txn_at w)(t := zero_txn\<lparr>t_deadline_ms := g_now_ms w + 2000\<rparr>)"
    using txn_create_cases [OF assms]
    by (auto simp: V_STUB_TXN_HARD_TIMEOUT_MS_def split: prod.split if_splits)
  ultimately show ?thesis
    using find_by_seq_cases [of smf_fseid seq w] txn_destroy_inv(3) [OF assms, of t] by auto
qed

definition demo_txn :: "'a \<Rightarrow> (nat \<times> ptr list, ptr list, (string list \<times> ptr) list, 'a) txn_st_scheme" where
  "demo_txn x = demo_pfcp
     \<lparr>g_txn_pool = Some [61, 62],
      txn_at = (\<lambda>t. if t = 60 then zero_txn\<lparr>t_req := 50, t_ctx := 40, t_deadline_ms := 2000\<rparr> else zero_txn),
      g_slots = [0, 60, 0], g_fired = [False, False, False], g_now_ms = 0, g_timeout_cb = True, \<dots> = x\<rparr>"

lemma demo_txn_inv: "txn_inv list_dpdk set {60, 61, 62} {60} (demo_txn x)"
  by (auto simp: txn_inv_def owns_def demo_txn_def demo_pfcp_def demo_mem_def demo_id_def demo_script_def
      list_pool_laws live_def slots_distinct_def nth_Cons split: nat.split)

theorem txn_table_discipline_witness:
  "fst (v_port_txn_create list_dpdk (demo_txn ())) \<in> {61, 62} \<and>
   v_port_txn_destroy list_dpdk 61 (demo_txn ()) = demo_txn ()"
proof -
  have "({60 :: ptr}) \<noteq> {60, 61, 62}" by auto
  then show ?thesis
    using txn_table_discipline [OF demo_txn_inv [of "()"], of 61 5 7] by (auto split: prod.splits)
qed

end
