(* ===== verification/V_sess_store.thy ===== *)
theory V_sess_store
  imports V_stub_txn
begin

section \<open>The session store\<close>

text \<open>
  \<^verbatim>\<open>src/v_sess_store\<close>: reading a session record, writing it under compare-and-swap, clearing
  its time to live and deleting it, each an asynchronous call with a pending object. The union
  of a pending object is a datatype; a reply callback always finds the member its request
  stored (were it another, the C code would call through a pointer of the wrong type, and the
  model does nothing).
\<close>

definition V_SESS_BLOB_MAX_BYTES :: nat where "V_SESS_BLOB_MAX_BYTES = 2048"
definition V_SESS_PENDING_POOL_CAP :: nat where "V_SESS_PENDING_POOL_CAP = 4096"
definition V_SESS_PENDING_TTL :: nat where "V_SESS_PENDING_TTL = 30"
definition V_CAS_MAX_RETRY :: nat where "V_CAS_MAX_RETRY = 3"

datatype v_cas_result = V_CAS_OK | V_CAS_CONFLICT | V_CAS_GONE
datatype v_sess_state = V_SESS_PENDING | V_SESS_CONFIRMED

text \<open>The callbacks passed to the store, with the transaction they get as argument.\<close>

datatype v_sess_read_cb = Mod_read_cb ptr | Del_read_cb ptr

datatype v_sess_cas_cb =
    Cas_write_cb ptr
  | Mod_cas_cb ptr
  | Mod_compensate_write_cb ptr
  | Del_delete_cb ptr
  | Delete_pending_noop_cb
  | Delete_pending_cb

datatype v_sess_cb = Confirm_cb ptr | Confirm_retry_cb

datatype v_sess_pending =
    Sess_read v_sess_read_cb ptr
  | Sess_cas v_sess_cas_cb u64
  | Sess_simple v_sess_cb

record ('r, 'p, 'h) sess_st = "('r, 'p, 'h) txn_st" +
  g_sess_pool :: "'p option"
  sess_pending_at :: "ptr \<Rightarrow> v_sess_pending"

type_synonym 'w read_call = "v_sess_read_cb \<Rightarrow> int \<Rightarrow> v_cas_result \<Rightarrow> ptr \<Rightarrow> u64 \<Rightarrow> 'w \<Rightarrow> 'w"
type_synonym 'w cas_call = "v_sess_cas_cb \<Rightarrow> int \<Rightarrow> v_cas_result \<Rightarrow> u64 \<Rightarrow> 'w \<Rightarrow> 'w"
type_synonym 'w simple_call = "v_sess_cb \<Rightarrow> int \<Rightarrow> 'w \<Rightarrow> 'w"

definition ensure_pool ::
    "('r, 'p) dpdk \<Rightarrow> ('r, 'p, 'h, 'a) sess_st_scheme \<Rightarrow> int \<times> ('r, 'p, 'h, 'a) sess_st_scheme" where
  "ensure_pool D w =
     (if g_sess_pool w \<noteq> None then (RET_CODE_OK, w)
      else let w = w\<lparr>g_sess_pool := rte_mempool_create D V_SESS_PENDING_POOL_CAP\<rparr> in
           if g_sess_pool w = None then (RET_CODE_ERR, w) else (RET_CODE_OK, w))"

definition sess_put ::
    "('r, 'p) dpdk \<Rightarrow> ptr \<Rightarrow> ('r, 'p, 'h, 'a) sess_st_scheme \<Rightarrow> ('r, 'p, 'h, 'a) sess_st_scheme" where
  "sess_put D p w = w\<lparr>g_sess_pool := pool_put D p (g_sess_pool w)\<rparr>"

text \<open>\<^verbatim>\<open>rte_mempool_get\<close> and the assignments to the members of the pending object.\<close>

definition sess_get ::
    "('r, 'p) dpdk \<Rightarrow> v_sess_pending \<Rightarrow> ('r, 'p, 'h, 'a) sess_st_scheme \<Rightarrow>
     (ptr \<times> ('r, 'p, 'h, 'a) sess_st_scheme) option" where
  "sess_get D u w =
     (case pool_get D (g_sess_pool w) of
        None \<Rightarrow> None
      | Some (p, pool) \<Rightarrow>
          Some (p, w\<lparr>g_sess_pool := Some pool, sess_pending_at := (sess_pending_at w)(p := u)\<rparr>))"

definition make_key :: "u16 \<Rightarrow> u64 \<Rightarrow> string" where
  "make_key part_id seid = snprintf 64 (''pdu_'' @ dec (unat part_id) @ '':'' @ dec (unat seid))"

subsection \<open>Read\<close>

definition read_reply_cb ::
    "('r, 'p) dpdk \<Rightarrow> ('r, 'p, 'h, 'a) sess_st_scheme read_call \<Rightarrow>
     int \<Rightarrow> v_db_reply option \<Rightarrow> ptr \<Rightarrow> ('r, 'p, 'h, 'a) sess_st_scheme \<Rightarrow> ('r, 'p, 'h, 'a) sess_st_scheme" where
  "read_reply_cb D rc status reply p w =
     (case sess_pending_at w p of
        Sess_read cb ctx \<Rightarrow>
          (case (if status \<noteq> RET_CODE_OK then None else reply) of
             Some (Reply_Array [data, ver]) \<Rightarrow>
               if data = Reply_Nil \<or> ver = Reply_Nil then
                 sess_put D p (rc cb RET_CODE_OK V_CAS_GONE ctx 0 w)
               else
                 (case v_port_pdu_deserialize (bytes_of_chars (reply_str data)) of
                    None \<Rightarrow> sess_put D p (rc cb RET_CODE_ERR V_CAS_GONE ctx 0 w)
                  | Some c \<Rightarrow>
                      sess_put D p (rc cb RET_CODE_OK V_CAS_OK ctx (strtoull (take 23 (reply_str ver)))
                        (w\<lparr>ctx_at := (ctx_at w)(ctx := c)\<rparr>)))
           | _ \<Rightarrow> sess_put D p (rc cb RET_CODE_ERR V_CAS_GONE ctx 0 w))
      | _ \<Rightarrow> w)"

definition v_sess_read ::
    "('r, 'p) dpdk \<Rightarrow> 'h hiredis \<Rightarrow> u16 \<Rightarrow> u64 \<Rightarrow> ptr \<Rightarrow> v_sess_read_cb \<Rightarrow>
     ('r, 'p, 'h, 'a) sess_st_scheme \<Rightarrow> int \<times> ('r, 'p, 'h, 'a) sess_st_scheme" where
  "v_sess_read D hi part_id seid ctx cb w =
     (let (rc, w) = ensure_pool D w in
      if rc \<noteq> RET_CODE_OK then (RET_CODE_ERR, w)
      else let key = make_key part_id seid in
           case sess_get D (Sess_read cb ctx) w of
             None \<Rightarrow> (RET_CODE_ERR, w)
           | Some (p, w) \<Rightarrow>
               let (rc, w) = v_port_db_cmd D hi (v_port_db_shard_of key) (Read_reply_cb p)
                               [''HMGET'', key, ''data'', ''ver''] w
               in if rc \<noteq> RET_CODE_OK then (RET_CODE_ERR, sess_put D p w) else (RET_CODE_OK, w))"

subsection \<open>Compare-and-swap write\<close>

definition cas_write_reply_cb ::
    "('r, 'p) dpdk \<Rightarrow> ('r, 'p, 'h, 'a) sess_st_scheme cas_call \<Rightarrow>
     int \<Rightarrow> v_db_reply option \<Rightarrow> ptr \<Rightarrow> ('r, 'p, 'h, 'a) sess_st_scheme \<Rightarrow> ('r, 'p, 'h, 'a) sess_st_scheme" where
  "cas_write_reply_cb D ccas status reply p w =
     (case sess_pending_at w p of
        Sess_cas cb exp_ver \<Rightarrow>
          sess_put D p
            (case (if status \<noteq> RET_CODE_OK then None else reply) of
               Some (Reply_Integer n) \<Rightarrow>
                 if n = 1 then ccas cb RET_CODE_OK V_CAS_OK (if exp_ver = 0 then 1 else exp_ver + 1) w
                 else if n = 0 then ccas cb RET_CODE_OK V_CAS_CONFLICT 0 w
                 else if n = -1 then ccas cb RET_CODE_OK V_CAS_GONE 0 w
                 else ccas cb RET_CODE_ERR V_CAS_GONE 0 w
             | _ \<Rightarrow> ccas cb RET_CODE_ERR V_CAS_GONE 0 w)
      | _ \<Rightarrow> w)"

definition v_sess_cas_write ::
    "('r, 'p) dpdk \<Rightarrow> 'h hiredis \<Rightarrow> ('r, 'p, 'h, 'a) sess_st_scheme db_call \<Rightarrow>
     u16 \<Rightarrow> u64 \<Rightarrow> u64 \<Rightarrow> ptr \<Rightarrow> v_sess_state \<Rightarrow> v_sess_cas_cb \<Rightarrow>
     ('r, 'p, 'h, 'a) sess_st_scheme \<Rightarrow> int \<times> ('r, 'p, 'h, 'a) sess_st_scheme" where
  "v_sess_cas_write D hi cc part_id seid exp_ver ctx state cb w =
     (let (rc, w) = ensure_pool D w in
      if rc \<noteq> RET_CODE_OK then (RET_CODE_ERR, w)
      else let key = make_key part_id seid in
        case v_port_pdu_serialize (ctx_at w ctx) V_SESS_BLOB_MAX_BYTES of
          None \<Rightarrow> (RET_CODE_ERR, w)
        | Some blob \<Rightarrow>
            let ver_str = snprintf 24 (dec (unat exp_ver));
                ttl_str = snprintf 8 (dec (if state = V_SESS_PENDING then V_SESS_PENDING_TTL else 0))
            in case sess_get D (Sess_cas cb exp_ver) w of
                 None \<Rightarrow> (RET_CODE_ERR, w)
               | Some (p, w) \<Rightarrow>
                   let (rc, w) = v_db_evalsha D hi cc (v_port_db_shard_of key) V_SCRIPT_SESS_CAS_WRITE
                                   [key] [ver_str, chars_of_bytes blob, ttl_str] (Cas_write_reply_cb p) w
                   in if rc \<noteq> RET_CODE_OK then (RET_CODE_ERR, sess_put D p w) else (RET_CODE_OK, w))"

subsection \<open>Confirm\<close>

definition confirm_reply_cb ::
    "('r, 'p) dpdk \<Rightarrow> ('r, 'p, 'h, 'a) sess_st_scheme simple_call \<Rightarrow>
     int \<Rightarrow> v_db_reply option \<Rightarrow> ptr \<Rightarrow> ('r, 'p, 'h, 'a) sess_st_scheme \<Rightarrow> ('r, 'p, 'h, 'a) sess_st_scheme" where
  "confirm_reply_cb D sc status reply p w =
     (case sess_pending_at w p of
        Sess_simple cb \<Rightarrow> sess_put D p (sc cb status w)
      | _ \<Rightarrow> w)"

definition v_sess_confirm ::
    "('r, 'p) dpdk \<Rightarrow> 'h hiredis \<Rightarrow> u16 \<Rightarrow> u64 \<Rightarrow> v_sess_cb \<Rightarrow>
     ('r, 'p, 'h, 'a) sess_st_scheme \<Rightarrow> int \<times> ('r, 'p, 'h, 'a) sess_st_scheme" where
  "v_sess_confirm D hi part_id seid cb w =
     (let (rc, w) = ensure_pool D w in
      if rc \<noteq> RET_CODE_OK then (RET_CODE_ERR, w)
      else let key = make_key part_id seid in
           case sess_get D (Sess_simple cb) w of
             None \<Rightarrow> (RET_CODE_ERR, w)
           | Some (p, w) \<Rightarrow>
               let (rc, w) = v_port_db_cmd D hi (v_port_db_shard_of key) (Confirm_reply_cb p) [''PERSIST'', key] w
               in if rc \<noteq> RET_CODE_OK then (RET_CODE_ERR, sess_put D p w) else (RET_CODE_OK, w))"

subsection \<open>Delete\<close>

definition delete_reply_cb ::
    "('r, 'p) dpdk \<Rightarrow> ('r, 'p, 'h, 'a) sess_st_scheme cas_call \<Rightarrow>
     int \<Rightarrow> v_db_reply option \<Rightarrow> ptr \<Rightarrow> ('r, 'p, 'h, 'a) sess_st_scheme \<Rightarrow> ('r, 'p, 'h, 'a) sess_st_scheme" where
  "delete_reply_cb D ccas status reply p w =
     (case sess_pending_at w p of
        Sess_cas cb exp_ver \<Rightarrow>
          sess_put D p
            (case (if status \<noteq> RET_CODE_OK then None else reply) of
               Some (Reply_Integer n) \<Rightarrow>
                 if n = 1 then ccas cb RET_CODE_OK V_CAS_OK 0 w
                 else if n = 0 then ccas cb RET_CODE_OK V_CAS_CONFLICT 0 w
                 else if n = -1 then ccas cb RET_CODE_OK V_CAS_GONE 0 w
                 else ccas cb RET_CODE_ERR V_CAS_GONE 0 w
             | _ \<Rightarrow> ccas cb RET_CODE_ERR V_CAS_GONE 0 w)
      | _ \<Rightarrow> w)"

definition v_sess_delete ::
    "('r, 'p) dpdk \<Rightarrow> 'h hiredis \<Rightarrow> ('r, 'p, 'h, 'a) sess_st_scheme db_call \<Rightarrow>
     u16 \<Rightarrow> u64 \<Rightarrow> u64 \<Rightarrow> v_sess_cas_cb \<Rightarrow>
     ('r, 'p, 'h, 'a) sess_st_scheme \<Rightarrow> int \<times> ('r, 'p, 'h, 'a) sess_st_scheme" where
  "v_sess_delete D hi cc part_id seid exp_ver cb w =
     (let (rc, w) = ensure_pool D w in
      if rc \<noteq> RET_CODE_OK then (RET_CODE_ERR, w)
      else let key = make_key part_id seid;
               ver_str = snprintf 24 (dec (unat exp_ver))
           in case sess_get D (Sess_cas cb exp_ver) w of
                None \<Rightarrow> (RET_CODE_ERR, w)
              | Some (p, w) \<Rightarrow>
                  let (rc, w) = v_db_evalsha D hi cc (v_port_db_shard_of key) V_SCRIPT_SESS_DELETE
                                  [key] [ver_str] (Delete_reply_cb p) w
                  in if rc \<noteq> RET_CODE_OK then (RET_CODE_ERR, sess_put D p w) else (RET_CODE_OK, w))"

definition v_sess_store_test_pending_in_use :: "('r, 'p) dpdk \<Rightarrow> ('r, 'p, 'h, 'a) sess_st_scheme \<Rightarrow> u64" where
  "v_sess_store_test_pending_in_use D w =
     (case g_sess_pool w of
        None \<Rightarrow> 0
      | Some pool \<Rightarrow> of_nat V_SESS_PENDING_POOL_CAP - of_nat (rte_mempool_avail_count D pool))"

subsection \<open>Keys and numbers on the wire\<close>

lemma dec_u16_length: "length (dec (unat (x :: u16))) \<le> 5"
  using unsigned_less [of x, where ?'a = nat] by (intro length_dec) simp_all

lemma dec_u32_length: "length (dec (unat (x :: u32))) \<le> 10"
  using unsigned_less [of x, where ?'a = nat] by (intro length_dec) simp_all

lemma dec_u64_length: "length (dec (unat (x :: u64))) \<le> 20"
  using unsigned_less [of x, where ?'a = nat] by (intro length_dec) simp_all

lemma make_key_exact: "make_key part seid = ''pdu_'' @ dec (unat part) @ '':'' @ dec (unat seid)"
  using dec_u16_length [of part] dec_u64_length [of seid] by (simp add: make_key_def)

lemma ver_str_exact [simp]: "snprintf 24 (dec (unat (v :: u64))) = dec (unat v)"
  using dec_u64_length [of v] by simp

definition ttl_of :: "v_sess_state \<Rightarrow> nat" where
  "ttl_of state = (if state = V_SESS_PENDING then V_SESS_PENDING_TTL else 0)"

lemma ttl_str_exact [simp]: "snprintf 8 (dec (ttl_of state)) = dec (ttl_of state)"
proof -
  have "length (dec (ttl_of state)) \<le> 2" by (rule length_dec) (simp_all add: ttl_of_def V_SESS_PENDING_TTL_def)
  then show ?thesis by simp
qed

lemma take_ver [simp]: "v < 10 ^ 23 \<Longrightarrow> take 23 (dec v) = dec v"
  using length_dec [of v 23] by simp

lemma serialize_ctx: "v_port_pdu_serialize c V_SESS_BLOB_MAX_BYTES = Some (ctx_bytes c)"
  by (simp add: v_port_pdu_serialize_def V_SESS_BLOB_MAX_BYTES_def sizeof_ctx_def)

lemma deserialize_ctx [simp]: "ctx_wf c \<Longrightarrow> v_port_pdu_deserialize (ctx_bytes c) = Some c"
  using serialize_deserialize [OF _ serialize_ctx] .

text \<open>What a read finds, for a well-formed record.\<close>

lemma read_reply_record:
  assumes "sess_pending_at w p = Sess_read cb ctx"
  shows "read_reply_cb D rc RET_CODE_OK (Some (Reply_Array [Reply_Nil, Reply_Nil])) p w =
      sess_put D p (rc cb RET_CODE_OK V_CAS_GONE ctx 0 w)"
    and "ctx_wf c \<Longrightarrow> v < 2 ^ 64 \<Longrightarrow>
      read_reply_cb D rc RET_CODE_OK (Some (Reply_Array [Reply_String (chars_of_bytes (ctx_bytes c)), Reply_String (dec v)])) p w =
      sess_put D p (rc cb RET_CODE_OK V_CAS_OK ctx (of_nat v) (w\<lparr>ctx_at := (ctx_at w)(ctx := c)\<rparr>))"
  using assms by (simp_all add: read_reply_cb_def strtoull_dec)

lemma hmget_record:
  assumes "redis_conforms call view" and "sess_wf (view db) k"
  shows "fst (call db [''HMGET'', k, ''data'', ''ver'']) =
      (case sess_rec (view db) k of
         None \<Rightarrow> Reply_Array [Reply_Nil, Reply_Nil]
       | Some (v, d, t) \<Rightarrow> Reply_Array [Reply_String d, Reply_String (dec v)])"
  using assms(2)
  by (cases rule: sess_wf_cases) (simp_all add: conforms_simps [OF assms(1)] redis_HMGET_def)

text \<open>The outcome a client is told for each answer of the two scripts.\<close>

fun cas_outcome :: "int \<Rightarrow> v_cas_result" where
  "cas_outcome r = (if r = 1 then V_CAS_OK else if r = 0 then V_CAS_CONFLICT else V_CAS_GONE)"

lemma cas_write_reply_outcome:
  assumes "sess_pending_at w p = Sess_cas cb exp_ver" and "r \<in> {1, 0, -1}"
  shows "cas_write_reply_cb D ccas RET_CODE_OK (Some (Reply_Integer r)) p w =
    sess_put D p (ccas cb RET_CODE_OK (cas_outcome r) (if r = 1 then exp_ver + 1 else 0) w)"
  using assms by (auto simp: cas_write_reply_cb_def)

lemma delete_reply_outcome:
  assumes "sess_pending_at w p = Sess_cas cb exp_ver" and "r \<in> {1, 0, -1}"
  shows "delete_reply_cb D ccas RET_CODE_OK (Some (Reply_Integer r)) p w =
    sess_put D p (ccas cb RET_CODE_OK (cas_outcome r) 0 w)"
  using assms by (auto simp: delete_reply_cb_def)

lemma spec_cas_write_codes: "fst (spec_cas_write rec e b t) \<in> {1, 0, -1}"
  by (cases "(rec, e, b, t)" rule: spec_cas_write.cases) auto

subsection \<open>Properties\<close>

text \<open>
  C12: what one pod writes, another reads. A CAS-write of a session, executed by the server and
  answered to the writer, tells it OK, CONFLICT or GONE as the record's version demands; after
  an OK, a read by any client on any pod finds the same session, byte for byte, and the version
  it is told is the one the writer was told. After anything else the record is what it was.
\<close>

theorem sess_write_read_roundtrip:
  assumes "redis_conforms call view" and "sess_wf (view db) (make_key part seid)"
    and "unat exp_ver + 1 < 2 ^ 53" and "ctx_wf c"
    and "v_port_pdu_serialize c V_SESS_BLOB_MAX_BYTES = Some blob"
    and "V_LUA_SESS_CAS_WRITE call [make_key part seid]
      [snprintf 24 (dec (unat exp_ver)), chars_of_bytes blob, snprintf 8 (dec (ttl_of state))] db = (r, db')"
    and "sess_pending_at w p = Sess_cas cb exp_ver" and "sess_pending_at w2 q = Sess_read rcb ctx"
  shows "\<exists>res ver. cas_write_reply_cb D ccas RET_CODE_OK (Some r) p w = sess_put D p (ccas cb RET_CODE_OK res ver w) \<and>
    (case sess_rec (view db) (make_key part seid) of
       None \<Rightarrow> res = (if exp_ver = 0 then V_CAS_OK else V_CAS_GONE)
     | Some (v, d, t) \<Rightarrow> res = (if unat exp_ver = v then V_CAS_OK else V_CAS_CONFLICT)) \<and>
    (if res = V_CAS_OK then
       read_reply_cb D rc RET_CODE_OK (Some (fst (call db' [''HMGET'', make_key part seid, ''data'', ''ver'']))) q w2 =
         sess_put D q (rc rcb RET_CODE_OK V_CAS_OK ctx ver (w2\<lparr>ctx_at := (ctx_at w2)(ctx := c)\<rparr>))
     else sess_rec (view db') (make_key part seid) = sess_rec (view db) (make_key part seid))"
proof -
  let ?k = "make_key part seid" and ?e = "unat exp_ver"
  have blob: "blob = ctx_bytes c" using assms(5) by (simp add: serialize_ctx)
  have t: "ttl_of state < 2 ^ 31" by (simp add: ttl_of_def V_SESS_PENDING_TTL_def)
  let ?spec = "spec_cas_write (sess_rec (view db) ?k) ?e (chars_of_bytes blob) (ttl_of state)"
  note s = cas_write_script [OF assms(1,2,3) t, where blob = "chars_of_bytes blob"]
  have run: "V_LUA_SESS_CAS_WRITE call [?k] [dec ?e, chars_of_bytes blob, dec (ttl_of state)] db = (r, db')"
    using assms(6) by simp
  have r: "r = Reply_Integer (fst ?spec)" "sess_rec (view db') ?k = snd ?spec" "sess_wf (view db') ?k"
    using s(1-3) by (simp_all add: run)
  have reply: "cas_write_reply_cb D ccas RET_CODE_OK (Some r) p w =
      sess_put D p (ccas cb RET_CODE_OK (cas_outcome (fst ?spec)) (if fst ?spec = 1 then exp_ver + 1 else 0) w)"
    unfolding r(1) by (rule cas_write_reply_outcome [OF assms(7) spec_cas_write_codes])
  have v: "of_nat (?e + 1) = exp_ver + 1" "?e + 1 < 2 ^ 64" "?e = 0 \<longleftrightarrow> exp_ver = 0" using assms(3) by (simp_all add: unat_eq_zero)
  have read: "read_reply_cb D rc RET_CODE_OK (Some (fst (call db' [''HMGET'', ?k, ''data'', ''ver'']))) q w2 =
      sess_put D q (rc rcb RET_CODE_OK V_CAS_OK ctx (exp_ver + 1) (w2\<lparr>ctx_at := (ctx_at w2)(ctx := c)\<rparr>))"
    if "sess_rec (view db') ?k = Some (?e + 1, chars_of_bytes (ctx_bytes c), ttl)" for ttl
    using hmget_record [OF assms(1) r(3)] that read_reply_record(2) [OF assms(8,4) v(2)] v(1)
    by (simp add: add.commute)
  show ?thesis
  proof (cases "sess_rec (view db) ?k")
    case None
    then show ?thesis using reply read r(2) v(3) unfolding blob
      by (cases "exp_ver = 0") (auto intro!: exI)
  next
    case (Some x)
    then obtain v d t where x: "sess_rec (view db) ?k = Some (v, d, t)" by (cases x) auto
    then show ?thesis using reply read r(2) unfolding blob
      by (cases "?e = v") (auto intro!: exI)
  qed
qed

definition demo_sess :: "'a \<Rightarrow> (nat \<times> ptr list, ptr list, (string list \<times> ptr) list, 'a) sess_st_scheme" where
  "demo_sess x = demo_txn
     \<lparr>g_sess_pool = Some [71, 72],
      sess_pending_at = (\<lambda>p. if p = 70 then Sess_cas (Cas_write_cb 60) 0 else Sess_read (Mod_read_cb 60) 40), \<dots> = x\<rparr>"

lemmas demo_sess_defs = demo_sess_def demo_txn_def demo_pfcp_def demo_mem_def demo_id_def demo_script_def

theorem sess_write_read_roundtrip_witness:
  "\<exists>r db' res ver. V_LUA_SESS_CAS_WRITE spec_redis [make_key 1 5]
      [snprintf 24 (dec (unat (0 :: u64))), chars_of_bytes (ctx_bytes zero_ctx), snprintf 8 (dec (ttl_of V_SESS_PENDING))]
      Map.empty = (r, db') \<and> res = V_CAS_OK \<and>
     cas_write_reply_cb list_dpdk (\<lambda>_ _ _ _ w. w) RET_CODE_OK (Some r) 70 (demo_sess ()) = sess_put list_dpdk 70 (demo_sess ())"
proof -
  obtain r db' where run: "V_LUA_SESS_CAS_WRITE spec_redis [make_key 1 5]
      [snprintf 24 (dec (unat (0 :: u64))), chars_of_bytes (ctx_bytes zero_ctx), snprintf 8 (dec (ttl_of V_SESS_PENDING))]
      Map.empty = (r, db')" by fastforce
  have e: "sess_wf Map.empty (make_key 1 5)" "sess_rec Map.empty (make_key 1 5) = None"
    by (simp_all add: sess_wf_def sess_rec_def)
  have p: "sess_pending_at (demo_sess ()) 70 = Sess_cas (Cas_write_cb 60) 0"
    "sess_pending_at (demo_sess ()) 71 = Sess_read (Mod_read_cb 60) 40" by (simp_all add: demo_sess_defs)
  show ?thesis
    using sess_write_read_roundtrip [where exp_ver = 0 and ccas = "\<lambda>_ _ _ _ w. w" and D = list_dpdk and c = zero_ctx,
        OF spec_redis_conforms _ _ _ serialize_ctx run p] e run
    by auto
qed



end
