(* ===== verification/V_retrans_cache.thy ===== *)
theory V_retrans_cache
  imports V_sess_store
begin

section \<open>The retransmission cache\<close>

text \<open>
  \<^verbatim>\<open>src/v_retrans_cache\<close>: the response to a request, kept in Redis for ten seconds under the
  SMF's F-SEID and the sequence number, so that a retransmission gets the same answer on
  whichever pod it lands.
\<close>

definition V_RETRANS_PENDING_POOL_CAP :: nat where "V_RETRANS_PENDING_POOL_CAP = 4096"
definition V_RETRANS_TTL :: nat where "V_RETRANS_TTL = 10"

datatype v_retrans_cb = Retrans_lookup_cb ptr | Mod_retrans_lookup_cb ptr | Del_retrans_lookup_cb ptr

record ('r, 'p, 'h) retrans_st = "('r, 'p, 'h) sess_st" +
  g_retrans_pool :: "'p option"
  retrans_pending_at :: "ptr \<Rightarrow> v_retrans_cb"

text \<open>Status, hit flag and the response bytes.\<close>

type_synonym 'w retrans_call = "v_retrans_cb \<Rightarrow> int \<Rightarrow> bool \<Rightarrow> u8 list \<Rightarrow> 'w \<Rightarrow> 'w"

definition ensure_retrans_pool ::
    "('r, 'p) dpdk \<Rightarrow> ('r, 'p, 'h, 'a) retrans_st_scheme \<Rightarrow> int \<times> ('r, 'p, 'h, 'a) retrans_st_scheme" where
  "ensure_retrans_pool D w =
     (if g_retrans_pool w \<noteq> None then (RET_CODE_OK, w)
      else let w = w\<lparr>g_retrans_pool := rte_mempool_create D V_RETRANS_PENDING_POOL_CAP\<rparr> in
           if g_retrans_pool w = None then (RET_CODE_ERR, w) else (RET_CODE_OK, w))"

definition retrans_put ::
    "('r, 'p) dpdk \<Rightarrow> ptr \<Rightarrow> ('r, 'p, 'h, 'a) retrans_st_scheme \<Rightarrow> ('r, 'p, 'h, 'a) retrans_st_scheme" where
  "retrans_put D p w = w\<lparr>g_retrans_pool := pool_put D p (g_retrans_pool w)\<rparr>"

text \<open>The hash of the eight bytes of the F-SEID, least significant first.\<close>

definition v_retrans_part :: "u64 \<Rightarrow> u16" where
  "v_retrans_part smf_fseid =
     ucast (fnv1a (map (\<lambda>i. ucast (drop_bit (i * 8) smf_fseid)) [0 ..< 8]) mod of_nat V_NUM_PARTS)"

definition retrans_key :: "u16 \<Rightarrow> u64 \<Rightarrow> u32 \<Rightarrow> string" where
  "retrans_key part_id smf_fseid seq =
     snprintf 64 (''txn_'' @ dec (unat part_id) @ '':'' @ dec (unat smf_fseid) @ '':'' @ dec (unat seq))"

definition lookup_reply_cb ::
    "('r, 'p) dpdk \<Rightarrow> ('r, 'p, 'h, 'a) retrans_st_scheme retrans_call \<Rightarrow>
     int \<Rightarrow> v_db_reply option \<Rightarrow> ptr \<Rightarrow> ('r, 'p, 'h, 'a) retrans_st_scheme \<Rightarrow> ('r, 'p, 'h, 'a) retrans_st_scheme" where
  "lookup_reply_cb D rcall status reply p w =
     (let cb = retrans_pending_at w p in
      retrans_put D p
        (if status \<noteq> RET_CODE_OK then rcall cb RET_CODE_ERR False [] w
         else case reply of
           None \<Rightarrow> rcall cb RET_CODE_OK False [] w
         | Some Reply_Nil \<Rightarrow> rcall cb RET_CODE_OK False [] w
         | Some (Reply_String s) \<Rightarrow> rcall cb RET_CODE_OK True (bytes_of_chars s) w
         | Some _ \<Rightarrow> rcall cb RET_CODE_ERR False [] w))"

definition v_retrans_lookup ::
    "('r, 'p) dpdk \<Rightarrow> 'h hiredis \<Rightarrow> u16 \<Rightarrow> u64 \<Rightarrow> u32 \<Rightarrow> v_retrans_cb \<Rightarrow>
     ('r, 'p, 'h, 'a) retrans_st_scheme \<Rightarrow> int \<times> ('r, 'p, 'h, 'a) retrans_st_scheme" where
  "v_retrans_lookup D hi part_id smf_fseid seq cb w =
     (let (rc, w) = ensure_retrans_pool D w in
      if rc \<noteq> RET_CODE_OK then (RET_CODE_ERR, w)
      else let key = retrans_key part_id smf_fseid seq in
           case pool_get D (g_retrans_pool w) of
             None \<Rightarrow> (RET_CODE_ERR, w)
           | Some (p, pool) \<Rightarrow>
               let w = w\<lparr>g_retrans_pool := Some pool, retrans_pending_at := (retrans_pending_at w)(p := cb)\<rparr>;
                   (rc, w) = v_port_db_cmd D hi (v_port_db_shard_of key) (Lookup_reply_cb p) [''GET'', key] w
               in if rc \<noteq> RET_CODE_OK then (RET_CODE_ERR, retrans_put D p w) else (RET_CODE_OK, w))"

definition store_ack_cb ::
    "int \<Rightarrow> v_db_reply option \<Rightarrow> ('r, 'p, 'h, 'a) retrans_st_scheme \<Rightarrow> ('r, 'p, 'h, 'a) retrans_st_scheme" where
  "store_ack_cb status reply w = w"

definition v_retrans_store ::
    "('r, 'p) dpdk \<Rightarrow> 'h hiredis \<Rightarrow> u16 \<Rightarrow> u64 \<Rightarrow> u32 \<Rightarrow> u8 list \<Rightarrow>
     ('r, 'p, 'h, 'a) retrans_st_scheme \<Rightarrow> int \<times> ('r, 'p, 'h, 'a) retrans_st_scheme" where
  "v_retrans_store D hi part_id smf_fseid seq resp w =
     (let key = retrans_key part_id smf_fseid seq in
      v_port_db_cmd_argv D hi (v_port_db_shard_of key) Store_ack_cb
        [''SETEX'', key, snprintf 8 (dec V_RETRANS_TTL), chars_of_bytes resp] w)"

subsection \<open>Keys and requests\<close>

lemma hash_part_lt: "unat (ucast (h mod of_nat V_NUM_PARTS) :: u16) < V_NUM_PARTS" for h :: u32
proof -
  have "unat (ucast (h mod of_nat V_NUM_PARTS) :: u16) \<le> unat (h mod of_nat V_NUM_PARTS)"
    by (simp add: unsigned_ucast_eq take_bit_nat_less_eq_self)
  also have "\<dots> < V_NUM_PARTS" by (simp add: V_NUM_PARTS_def unat_mod_distrib)
  finally show ?thesis .
qed

lemma v_retrans_part_lt: "unat (v_retrans_part f) < V_NUM_PARTS"
  unfolding v_retrans_part_def by (rule hash_part_lt)

lemma retrans_key_exact:
  "retrans_key part f seq = ''txn_'' @ dec (unat part) @ '':'' @ dec (unat f) @ '':'' @ dec (unat seq)"
  using dec_u16_length [of part] dec_u64_length [of f] dec_u32_length [of seq] by (simp add: retrans_key_def)

lemma retrans_key_inj:
  assumes "retrans_key part f seq = retrans_key part' f' seq'"
  shows "part = part' \<and> f = f' \<and> seq = seq'"
proof -
  have e: "dec (unat part) @ CHR '':'' # dec (unat f) @ CHR '':'' # dec (unat seq) =
      dec (unat part') @ CHR '':'' # dec (unat f') @ CHR '':'' # dec (unat seq')"
    using assms by (simp add: retrans_key_exact)
  from dec_sep_inj [OF e] have p: "unat part = unat part'" and
    e2: "dec (unat f) @ CHR '':'' # dec (unat seq) = dec (unat f') @ CHR '':'' # dec (unat seq')" by auto
  from dec_sep_inj [OF e2] p show ?thesis by (simp add: word_unat_eq_iff)
qed

lemma retrans_ttl_exact: "snprintf 8 (dec V_RETRANS_TTL) = dec 10"
proof -
  have "length (dec 10) \<le> 2" by (rule length_dec) simp_all
  then show ?thesis by (simp add: V_RETRANS_TTL_def)
qed

lemma retrans_lookup_request:
  assumes "hiredis_laws hi waiting" and "v_retrans_lookup D hi part f seq cb w = (RET_CODE_OK, w')"
  shows "\<exists>p w1. queued waiting (unat (v_port_db_shard_of (retrans_key part f seq)))
      [''GET'', retrans_key part f seq] (Lookup_reply_cb p) w1 w' \<and> g_ctx w1 = g_ctx w \<and>
    retrans_pending_at w' p = cb"
proof -
  let ?s = "v_port_db_shard_of (retrans_key part f seq)"
  obtain w0 where w0: "ensure_retrans_pool D w = (RET_CODE_OK, w0)" "g_ctx w0 = g_ctx w"
    using assms(2) by (auto simp: v_retrans_lookup_def ensure_retrans_pool_def Let_def split: if_splits prod.splits)
  obtain p pool where p: "pool_get D (g_retrans_pool w0) = Some (p, pool)"
    using assms(2) w0 by (cases "pool_get D (g_retrans_pool w0)") (auto simp: v_retrans_lookup_def)
  let ?w1 = "w0\<lparr>g_retrans_pool := Some pool, retrans_pending_at := (retrans_pending_at w0)(p := cb)\<rparr>"
  have c: "v_port_db_cmd D hi ?s (Lookup_reply_cb p) [''GET'', retrans_key part f seq] ?w1 = (RET_CODE_OK, w')"
    using assms(2) w0 p by (auto simp: v_retrans_lookup_def Let_def split: prod.splits if_splits)
  have "retrans_pending_at (snd (v_port_db_cmd D hi ?s (Lookup_reply_cb p) [''GET'', retrans_key part f seq] ?w1)) =
      retrans_pending_at ?w1" by (rule db_cmd_frame) simp_all
  then show ?thesis using db_cmd_queued [OF assms(1) c] w0(2) c by (intro exI [of _ p] exI [of _ ?w1]) simp
qed

subsection \<open>Properties\<close>

text \<open>
  C13: a retransmission gets the answer that was sent. When \<^verbatim>\<open>v_retrans_store\<close> is accepted, the
  command it queues sets the response, byte for byte, under the request's key for ten seconds.
  A lookup with the same F-SEID and sequence number, on whichever pod, then queues the command
  whose reply makes its callback run with a hit and these bytes; a lookup with any other F-SEID
  or sequence number gets what it would have got without the store.
\<close>

theorem retrans_roundtrip:
  assumes "hiredis_laws hi waiting" and "redis_conforms call view"
    and "v_retrans_store D hi (v_retrans_part f) f seq resp w = (RET_CODE_OK, w')"
    and "v_retrans_lookup D hi (v_retrans_part f') f' seq' cb w2 = (RET_CODE_OK, w2')"
  shows "\<exists>shard args. queued waiting shard args Store_ack_cb w w' \<and>
    (\<forall>db. view (snd (call db args)) =
       (view db)(retrans_key (v_retrans_part f) f seq \<mapsto> (RStr (chars_of_bytes resp), Some 10))) \<and>
    (\<exists>shard2 args2 p w1. queued waiting shard2 args2 (Lookup_reply_cb p) w1 w2' \<and> g_ctx w1 = g_ctx w2 \<and>
       retrans_pending_at w2' p = cb \<and>
       (\<forall>db. if f' = f \<and> seq' = seq
        then lookup_reply_cb D rcall RET_CODE_OK (Some (fst (call (snd (call db args)) args2))) p w2' =
             retrans_put D p (rcall cb RET_CODE_OK True resp w2')
        else fst (call (snd (call db args)) args2) = fst (call db args2)))"
proof -
  let ?k = "retrans_key (v_retrans_part f) f seq" and ?k' = "retrans_key (v_retrans_part f') f' seq'"
  let ?args = "[''SETEX'', ?k, dec 10, chars_of_bytes resp]"
  have "queued waiting (unat (v_port_db_shard_of ?k)) ?args Store_ack_cb w w'"
    by (rule db_cmd_queued [OF assms(1), of D])
      (use assms(3) in \<open>simp add: v_retrans_store_def retrans_ttl_exact v_port_db_cmd_argv_def Let_def\<close>)
  moreover have v: "view (snd (call db ?args)) = (view db)(?k \<mapsto> (RStr (chars_of_bytes resp), Some 10))" for db
    using conforms_simps(2) [OF assms(2), of db ?args] by (simp add: redis_SETEX_def)
  moreover obtain p w1 where "queued waiting (unat (v_port_db_shard_of ?k')) [''GET'', ?k'] (Lookup_reply_cb p) w1 w2'"
    "g_ctx w1 = g_ctx w2" "retrans_pending_at w2' p = cb"
    using retrans_lookup_request [OF assms(1,4)] by blast
  moreover have "if f' = f \<and> seq' = seq
      then lookup_reply_cb D rcall RET_CODE_OK (Some (fst (call (snd (call db ?args)) [''GET'', ?k']))) p w2' =
           retrans_put D p (rcall cb RET_CODE_OK True resp w2')
      else fst (call (snd (call db ?args)) [''GET'', ?k']) = fst (call db [''GET'', ?k'])" for db
    using retrans_key_inj [of "v_retrans_part f" f seq "v_retrans_part f'" f' seq'] calculation(5)
    by (auto simp: conforms_simps [OF assms(2)] redis_GET_def v lookup_reply_cb_def Let_def)
  ultimately show ?thesis by blast
qed

lemma shard_of_lt [simp]: "unat (v_port_db_shard_of key) < V_STUB_DB_SHARDS"
proof -
  have n: "n mod V_STUB_DB_SHARDS < V_STUB_DB_SHARDS" "V_STUB_DB_SHARDS < 256" for n
    by (simp_all add: V_STUB_DB_SHARDS_def)
  then have "n mod V_STUB_DB_SHARDS < 256" for n using less_trans by blast
  then show ?thesis
    using n(1) by (simp add: v_port_db_shard_of_def unat_of_nat)
qed

lemma list_pool_get [simp]: "pool_get list_dpdk (Some (x # xs)) = Some (x, removeAll x xs)"
  by (simp add: pool_get_def list_dpdk_def)

lemma list_cmd_accepted:
  assumes "g_ctx w (unat shard) = Some h" and "unat shard < V_STUB_DB_SHARDS" and "g_db_pool w = Some (x # xs)"
  shows "fst (v_port_db_cmd list_dpdk list_hiredis shard cb args w) = RET_CODE_OK"
  using assms by (simp add: v_port_db_cmd_def db_pending_get_def list_hiredis_def)

definition demo_retrans :: "'a \<Rightarrow> (nat \<times> ptr list, ptr list, (string list \<times> ptr) list, 'a) retrans_st_scheme" where
  "demo_retrans x = demo_sess
     \<lparr>g_retrans_pool = Some [81, 82], retrans_pending_at = (\<lambda>p. Retrans_lookup_cb 60), \<dots> = x\<rparr>"

lemmas demo_retrans_defs = demo_retrans_def demo_sess_defs

theorem retrans_roundtrip_witness:
  "\<exists>w1 w2 args args2 p.
     v_retrans_store list_dpdk list_hiredis (v_retrans_part 3) 3 7 [1, 2] (demo_retrans ()) = (RET_CODE_OK, w1) \<and>
     v_retrans_lookup list_dpdk list_hiredis (v_retrans_part 3) 3 7 (Retrans_lookup_cb 60) (demo_retrans ()) = (RET_CODE_OK, w2) \<and>
     (\<forall>db. lookup_reply_cb list_dpdk (\<lambda>_ _ hit bs w. if hit \<and> bs = [1, 2] then w\<lparr>g_base := False\<rparr> else w) RET_CODE_OK
       (Some (fst (spec_redis (snd (spec_redis db args)) args2))) p w2 = retrans_put list_dpdk p (w2\<lparr>g_base := False\<rparr>))"
proof -
  let ?w = "demo_retrans ()" and ?k = "retrans_key (v_retrans_part 3) 3 7"
  have "fst (v_retrans_store list_dpdk list_hiredis (v_retrans_part 3) 3 7 [1, 2] ?w) = RET_CODE_OK"
    by (simp add: v_retrans_store_def v_port_db_cmd_argv_def Let_def)
      (rule list_cmd_accepted; simp add: demo_retrans_defs)
  then obtain w1 where s: "v_retrans_store list_dpdk list_hiredis (v_retrans_part 3) 3 7 [1, 2] ?w = (RET_CODE_OK, w1)"
    by (metis prod.collapse)
  let ?w' = "?w\<lparr>g_retrans_pool := Some [82], retrans_pending_at := (retrans_pending_at ?w)(81 := Retrans_lookup_cb 60)\<rparr>"
  have "fst (v_port_db_cmd list_dpdk list_hiredis (v_port_db_shard_of ?k) (Lookup_reply_cb 81) [''GET'', ?k] ?w') = RET_CODE_OK"
    by (rule list_cmd_accepted) (simp_all add: demo_retrans_defs)
  moreover have "g_retrans_pool ?w = Some [81, 82]" by (simp add: demo_retrans_defs)
  ultimately have "fst (v_retrans_lookup list_dpdk list_hiredis (v_retrans_part 3) 3 7 (Retrans_lookup_cb 60) ?w) = RET_CODE_OK"
    by (simp add: v_retrans_lookup_def ensure_retrans_pool_def Let_def split_beta)
  then obtain w2 where l: "v_retrans_lookup list_dpdk list_hiredis (v_retrans_part 3) 3 7 (Retrans_lookup_cb 60) ?w = (RET_CODE_OK, w2)"
    by (metis prod.collapse)
  show ?thesis
    using retrans_roundtrip [OF list_hiredis_laws spec_redis_conforms s l,
        where rcall = "\<lambda>_ _ hit bs w. if hit \<and> bs = [1, 2] then w\<lparr>g_base := False\<rparr> else w"] s l
    by auto
qed

end
