(* ===== verification/V_node_state.thy ===== *)
theory V_node_state
  imports V_retrans_cache
begin

section \<open>Node identity, recovery time stamp, association\<close>

text \<open>
  \<^verbatim>\<open>src/v_node_state\<close>: the three values every pod of the node must agree on, kept in Redis
  under keys derived from the configured node identifier. A client's callback with its
  argument is an address; what it does is the argument \<open>rcall\<close>, \<open>scall\<close> or \<open>acall\<close> of the
  reply handlers. \<open>now\<close> is what \<^verbatim>\<open>time(NULL)\<close> returns.
\<close>

definition V_NODE_ID_MAX_BYTES :: nat where "V_NODE_ID_MAX_BYTES = 64"
definition V_NODE_STATE_PENDING_POOL_CAP :: nat where "V_NODE_STATE_PENDING_POOL_CAP = 64"

record ('r, 'p, 'h) node_st = "('r, 'p, 'h) retrans_st" +
  g_node_id_hex :: string
  g_recovery_key :: string
  g_assoc_key :: string
  g_recovery_ts :: u32
  g_recovery_ts_ready :: bool
  g_node_pool :: "'p option"
  node_pending_at :: "ptr \<Rightarrow> ptr"

definition ensure_node_pool ::
    "('r, 'p) dpdk \<Rightarrow> ('r, 'p, 'h, 'a) node_st_scheme \<Rightarrow> int \<times> ('r, 'p, 'h, 'a) node_st_scheme" where
  "ensure_node_pool D w =
     (if g_node_pool w \<noteq> None then (RET_CODE_OK, w)
      else let w = w\<lparr>g_node_pool := rte_mempool_create D V_NODE_STATE_PENDING_POOL_CAP\<rparr> in
           if g_node_pool w = None then (RET_CODE_ERR, w) else (RET_CODE_OK, w))"

definition hex_digit :: "nat \<Rightarrow> char" where
  "hex_digit d = (if d < 10 then char_of (48 + d) else char_of (87 + d))"

text \<open>\<^verbatim>\<open>snprintf(.., 3, "%02x", b)\<close>\<close>

definition hex_byte :: "u8 \<Rightarrow> string" where
  "hex_byte b = [hex_digit (unat b div 16), hex_digit (unat b mod 16)]"

definition v_node_state_init ::
    "('r, 'p) dpdk \<Rightarrow> u8 list \<Rightarrow> ('r, 'p, 'h, 'a) node_st_scheme \<Rightarrow> int \<times> ('r, 'p, 'h, 'a) node_st_scheme" where
  "v_node_state_init D node_id w =
     (if length node_id = 0 \<or> V_NODE_ID_MAX_BYTES < length node_id then (RET_CODE_ERR, w)
      else let (rc, w) = ensure_node_pool D w in
           if rc \<noteq> RET_CODE_OK then (RET_CODE_ERR, w)
           else let w = w\<lparr>g_node_id_hex := concat (map hex_byte node_id)\<rparr>;
                    w = w\<lparr>g_recovery_key := snprintf (V_NODE_ID_MAX_BYTES * 2 + 32) (''upf:'' @ g_node_id_hex w @ '':recovery'')\<rparr>;
                    w = w\<lparr>g_assoc_key := snprintf (V_NODE_ID_MAX_BYTES * 2 + 32) (''upf:'' @ g_node_id_hex w @ '':assoc'')\<rparr>
                in (RET_CODE_OK, w\<lparr>g_recovery_ts_ready := False\<rparr>))"

definition v_node_state_fini :: "('r, 'p, 'h, 'a) node_st_scheme \<Rightarrow> ('r, 'p, 'h, 'a) node_st_scheme" where
  "v_node_state_fini w = w\<lparr>g_node_pool := None, g_recovery_ts_ready := False\<rparr>"

definition node_put ::
    "('r, 'p) dpdk \<Rightarrow> ptr \<Rightarrow> ('r, 'p, 'h, 'a) node_st_scheme \<Rightarrow> ('r, 'p, 'h, 'a) node_st_scheme" where
  "node_put D p w = w\<lparr>g_node_pool := pool_put D p (g_node_pool w)\<rparr>"

text \<open>\<^verbatim>\<open>pending_get\<close> with the assignment of the callback to the union.\<close>

definition pending_get ::
    "('r, 'p) dpdk \<Rightarrow> ptr \<Rightarrow> ('r, 'p, 'h, 'a) node_st_scheme \<Rightarrow> (ptr \<times> ('r, 'p, 'h, 'a) node_st_scheme) option" where
  "pending_get D cb w =
     (case pool_get D (g_node_pool w) of
        None \<Rightarrow> None
      | Some (p, pool) \<Rightarrow>
          Some (p, w\<lparr>g_node_pool := Some pool, node_pending_at := (node_pending_at w)(p := cb)\<rparr>))"

definition recovery_reply_cb ::
    "('r, 'p) dpdk \<Rightarrow> (ptr \<Rightarrow> int \<Rightarrow> u32 \<Rightarrow> ('r, 'p, 'h, 'a) node_st_scheme \<Rightarrow> ('r, 'p, 'h, 'a) node_st_scheme) \<Rightarrow>
     u64 \<Rightarrow> int \<Rightarrow> v_db_reply option \<Rightarrow> ptr \<Rightarrow>
     ('r, 'p, 'h, 'a) node_st_scheme \<Rightarrow> ('r, 'p, 'h, 'a) node_st_scheme" where
  "recovery_reply_cb D rcall now status reply p w =
     (let cb = node_pending_at w p;
          w = node_put D p w
      in if status \<noteq> RET_CODE_OK then rcall cb RET_CODE_ERR 0 w
         else let ts = (case reply of
                          Some (Reply_String s) \<Rightarrow> ucast (strtoull (take 23 s))
                        | _ \<Rightarrow> ucast now);
                  w = w\<lparr>g_recovery_ts := ts, g_recovery_ts_ready := True\<rparr>
              in rcall cb RET_CODE_OK (g_recovery_ts w) w)"

text \<open>The shape all four requests share: a pending object, the command, the error path.\<close>

definition node_request ::
    "('r, 'p) dpdk \<Rightarrow> 'h hiredis \<Rightarrow> ptr \<Rightarrow> string \<Rightarrow> (ptr \<Rightarrow> v_db_cb) \<Rightarrow> string list \<Rightarrow>
     ('r, 'p, 'h, 'a) node_st_scheme \<Rightarrow> int \<times> ('r, 'p, 'h, 'a) node_st_scheme" where
  "node_request D hi cb key mk args w =
     (case pending_get D cb w of
        None \<Rightarrow> (RET_CODE_ERR, w)
      | Some (p, w) \<Rightarrow>
          let (rc, w) = v_port_db_cmd D hi (v_port_db_shard_of key) (mk p) args w
          in if rc \<noteq> RET_CODE_OK then (RET_CODE_ERR, node_put D p w) else (RET_CODE_OK, w))"

definition v_node_state_load_recovery_ts ::
    "('r, 'p) dpdk \<Rightarrow> 'h hiredis \<Rightarrow> u64 \<Rightarrow> ptr \<Rightarrow>
     ('r, 'p, 'h, 'a) node_st_scheme \<Rightarrow> int \<times> ('r, 'p, 'h, 'a) node_st_scheme" where
  "v_node_state_load_recovery_ts D hi now cb w =
     node_request D hi cb (g_recovery_key w) Recovery_reply_cb
       [''SET'', g_recovery_key w, dec (unat (ucast now :: u32)), ''NX'', ''GET''] w"

definition v_node_state_force_new_recovery_ts ::
    "('r, 'p) dpdk \<Rightarrow> 'h hiredis \<Rightarrow> u64 \<Rightarrow> ptr \<Rightarrow>
     ('r, 'p, 'h, 'a) node_st_scheme \<Rightarrow> int \<times> ('r, 'p, 'h, 'a) node_st_scheme" where
  "v_node_state_force_new_recovery_ts D hi now cb w =
     node_request D hi cb (g_recovery_key w) Recovery_reply_cb
       [''SET'', g_recovery_key w, dec (unat (ucast now :: u32))] w"

definition v_node_state_recovery_ts :: "('r, 'p, 'h, 'a) node_st_scheme \<Rightarrow> u32" where
  "v_node_state_recovery_ts w = g_recovery_ts w"

definition v_node_state_recovery_ts_ready :: "('r, 'p, 'h, 'a) node_st_scheme \<Rightarrow> bool" where
  "v_node_state_recovery_ts_ready w = g_recovery_ts_ready w"

definition simple_ack_cb ::
    "('r, 'p) dpdk \<Rightarrow> (ptr \<Rightarrow> int \<Rightarrow> ('r, 'p, 'h, 'a) node_st_scheme \<Rightarrow> ('r, 'p, 'h, 'a) node_st_scheme) \<Rightarrow>
     int \<Rightarrow> v_db_reply option \<Rightarrow> ptr \<Rightarrow>
     ('r, 'p, 'h, 'a) node_st_scheme \<Rightarrow> ('r, 'p, 'h, 'a) node_st_scheme" where
  "simple_ack_cb D scall status reply p w =
     (let cb = node_pending_at w p in scall cb status (node_put D p w))"

definition v_node_state_set_associated ::
    "('r, 'p) dpdk \<Rightarrow> 'h hiredis \<Rightarrow> u64 \<Rightarrow> ptr \<Rightarrow>
     ('r, 'p, 'h, 'a) node_st_scheme \<Rightarrow> int \<times> ('r, 'p, 'h, 'a) node_st_scheme" where
  "v_node_state_set_associated D hi smf cb w =
     node_request D hi cb (g_assoc_key w) Simple_ack_cb
       [''HSET'', g_assoc_key w, ''associated'', ''1'', ''smf'', dec (unat smf)] w"

definition v_node_state_clear_associated ::
    "('r, 'p) dpdk \<Rightarrow> 'h hiredis \<Rightarrow> ptr \<Rightarrow>
     ('r, 'p, 'h, 'a) node_st_scheme \<Rightarrow> int \<times> ('r, 'p, 'h, 'a) node_st_scheme" where
  "v_node_state_clear_associated D hi cb w =
     node_request D hi cb (g_assoc_key w) Simple_ack_cb [''HSET'', g_assoc_key w, ''associated'', ''0''] w"

definition assoc_query_reply_cb ::
    "('r, 'p) dpdk \<Rightarrow> (ptr \<Rightarrow> int \<Rightarrow> bool \<Rightarrow> u64 \<Rightarrow> ('r, 'p, 'h, 'a) node_st_scheme \<Rightarrow> ('r, 'p, 'h, 'a) node_st_scheme) \<Rightarrow>
     int \<Rightarrow> v_db_reply option \<Rightarrow> ptr \<Rightarrow>
     ('r, 'p, 'h, 'a) node_st_scheme \<Rightarrow> ('r, 'p, 'h, 'a) node_st_scheme" where
  "assoc_query_reply_cb D acall status reply p w =
     (let cb = node_pending_at w p;
          w = node_put D p w
      in case (if status \<noteq> RET_CODE_OK then None else reply) of
           Some (Reply_Array [associated_r, smf_r]) \<Rightarrow>
             if associated_r = Reply_Nil then acall cb RET_CODE_OK False 0 w
             else let s = reply_str associated_r;
                      associated = (1 \<le> length s \<and> s ! 0 = CHR ''1'');
                      smf = (case smf_r of
                               Reply_String t \<Rightarrow> if associated then strtoull (take 23 t) else 0
                             | _ \<Rightarrow> 0)
                  in acall cb RET_CODE_OK associated smf w
         | _ \<Rightarrow> acall cb RET_CODE_ERR False 0 w)"

definition v_node_state_query_associated ::
    "('r, 'p) dpdk \<Rightarrow> 'h hiredis \<Rightarrow> ptr \<Rightarrow>
     ('r, 'p, 'h, 'a) node_st_scheme \<Rightarrow> int \<times> ('r, 'p, 'h, 'a) node_st_scheme" where
  "v_node_state_query_associated D hi cb w =
     node_request D hi cb (g_assoc_key w) Assoc_query_reply_cb
       [''HMGET'', g_assoc_key w, ''associated'', ''smf''] w"

subsection \<open>Keys\<close>

lemma hex_digit_inj: "a < 16 \<Longrightarrow> b < 16 \<Longrightarrow> hex_digit a = hex_digit b \<Longrightarrow> a = b"
proof -
  assume ab: "a < 16" "b < 16" and e: "hex_digit a = hex_digit b"
  have o: "of_char (hex_digit n) = (if n < 10 then 48 + n else 87 + n)" if "n < 16" for n
    using that by (simp add: hex_digit_def)
  from arg_cong [OF e, of "of_char :: char \<Rightarrow> nat"] o [OF ab(1)] o [OF ab(2)] show "a = b"
    by (simp split: if_splits)
qed

lemma length_hex_byte [simp]: "length (hex_byte b) = 2"
  by (simp add: hex_byte_def)

lemma hex_byte_inj:
  assumes "hex_byte a = hex_byte b" shows "a = b"
proof -
  have lt: "unat (x :: u8) div 16 < 16" "unat x mod 16 < 16" for x
    using unat_u8_lt [of x] by (simp_all add: less_mult_imp_div_less)
  have "unat a div 16 = unat b div 16" "unat a mod 16 = unat b mod 16"
    using assms hex_digit_inj [OF lt(1) [of a] lt(1) [of b]] hex_digit_inj [OF lt(2) [of a] lt(2) [of b]]
    by (simp_all add: hex_byte_def)
  then show ?thesis by (metis div_mult_mod_eq word_unat_eq_iff)
qed

lemma hex_inj: "concat (map hex_byte xs) = concat (map hex_byte ys) \<Longrightarrow> xs = ys"
proof (induction xs arbitrary: ys)
  case Nil
  then show ?case by (cases ys) (auto simp: hex_byte_def)
next
  case (Cons x xs)
  then obtain y ys' where ys: "ys = y # ys'" by (cases ys) (auto simp: hex_byte_def)
  with Cons.prems have "hex_byte x = hex_byte y" "concat (map hex_byte xs) = concat (map hex_byte ys')"
    by (auto simp: append_eq_append_conv)
  with Cons.IH ys show ?case by (simp add: hex_byte_inj)
qed

lemma length_hex: "length (concat (map hex_byte xs)) = 2 * length xs"
  by (induction xs) auto

definition recovery_key :: "u8 list \<Rightarrow> string" where
  "recovery_key node_id = ''upf:'' @ concat (map hex_byte node_id) @ '':recovery''"

definition assoc_key :: "u8 list \<Rightarrow> string" where
  "assoc_key node_id = ''upf:'' @ concat (map hex_byte node_id) @ '':assoc''"

lemma node_keys_inj:
  "recovery_key a = recovery_key b \<longleftrightarrow> a = b" "assoc_key a = assoc_key b \<longleftrightarrow> a = b" "recovery_key a \<noteq> assoc_key b"
proof -
  show "recovery_key a = recovery_key b \<longleftrightarrow> a = b" "assoc_key a = assoc_key b \<longleftrightarrow> a = b"
    using hex_inj [of a b] by (auto simp: recovery_key_def assoc_key_def)
  show "recovery_key a \<noteq> assoc_key b"
  proof
    assume "recovery_key a = assoc_key b"
    then have "last (recovery_key a) = last (assoc_key b)" by simp
    then show False by (simp add: recovery_key_def assoc_key_def)
  qed
qed

lemma node_init_ok:
  assumes "v_node_state_init D node_id w = (RET_CODE_OK, w')"
  shows "0 < length node_id" "length node_id \<le> 64" "g_recovery_key w' = recovery_key node_id"
    "g_assoc_key w' = assoc_key node_id" "\<not> v_node_state_recovery_ts_ready w'" "g_node_pool w' \<noteq> None"
  using assms
  by (auto simp: v_node_state_init_def ensure_node_pool_def Let_def V_NODE_ID_MAX_BYTES_def
      recovery_key_def assoc_key_def length_hex v_node_state_recovery_ts_ready_def split: if_splits)

subsection \<open>Requests\<close>

lemma node_request_queued:
  assumes "hiredis_laws hi waiting" and "node_request D hi cb key mk args w = (RET_CODE_OK, w')"
  shows "\<exists>p w1. queued waiting (unat (v_port_db_shard_of key)) args (mk p) w1 w' \<and> g_ctx w1 = g_ctx w \<and>
    node_pending_at w' p = cb"
proof -
  let ?s = "v_port_db_shard_of key"
  obtain p pool where p: "pool_get D (g_node_pool w) = Some (p, pool)"
    using assms(2) by (cases "pool_get D (g_node_pool w)") (auto simp: node_request_def pending_get_def)
  let ?w1 = "w\<lparr>g_node_pool := Some pool, node_pending_at := (node_pending_at w)(p := cb)\<rparr>"
  have c: "v_port_db_cmd D hi ?s (mk p) args ?w1 = (RET_CODE_OK, w')"
    using assms(2) p by (auto simp: node_request_def pending_get_def split: prod.splits if_splits)
  have "node_pending_at (snd (v_port_db_cmd D hi ?s (mk p) args ?w1)) = node_pending_at ?w1"
    by (rule db_cmd_frame) simp_all
  then show ?thesis using db_cmd_queued [OF assms(1) c] c by (intro exI [of _ p] exI [of _ ?w1]) simp
qed

lemma dec_u32_inj_take: "take 23 (dec (unat (x :: u32))) = dec (unat x)"
  using dec_u32_length [of x] by simp

lemma strtoull_u32: "ucast (strtoull (dec (unat (x :: u32)))) = x"
proof -
  have "unat x < 2 ^ 64" using unsigned_less [of x, where ?'a = nat] by simp
  moreover have "ucast (ucast x :: u64) = x" by (rule bit_word_eqI) (simp add: bit_ucast_iff)
  ultimately show ?thesis by (simp add: strtoull_dec)
qed

subsection \<open>Properties\<close>

text \<open>
  Node identifiers do not share state. \<^verbatim>\<open>v_node_state_init\<close> succeeds only for identifiers of 1
  to 64 bytes, and then neither key is truncated: different identifiers have different keys,
  and no recovery key is an association key.
\<close>

lemma node_keys_distinct:
  assumes "v_node_state_init D a w = (RET_CODE_OK, w')" and "v_node_state_init D b v = (RET_CODE_OK, v')"
  shows "(g_recovery_key w' = g_recovery_key v' \<longleftrightarrow> a = b) \<and> (g_assoc_key w' = g_assoc_key v' \<longleftrightarrow> a = b) \<and>
    g_recovery_key w' \<noteq> g_assoc_key v' \<and> length a \<in> {1..64}"
  using node_init_ok [OF assms(1)] node_init_ok [OF assms(2)] node_keys_inj by (auto simp: Suc_le_eq)

definition demo_node :: "'a \<Rightarrow> (nat \<times> ptr list, ptr list, (string list \<times> ptr) list, 'a) node_st_scheme" where
  "demo_node x = demo_retrans
     \<lparr>g_node_id_hex = ''01'', g_recovery_key = recovery_key [1], g_assoc_key = assoc_key [1], g_recovery_ts = 0,
      g_recovery_ts_ready = False, g_node_pool = Some [91, 92], node_pending_at = (\<lambda>_. 0), \<dots> = x\<rparr>"

lemmas demo_node_defs = demo_node_def demo_retrans_defs

lemma node_keys_distinct_instance:
  "\<exists>w' v'. v_node_state_init list_dpdk [1] (demo_node ()) = (RET_CODE_OK, w') \<and>
     v_node_state_init list_dpdk [16] (demo_node ()) = (RET_CODE_OK, v') \<and> g_assoc_key w' \<noteq> g_assoc_key v'"
proof -
  have ok: "fst (v_node_state_init list_dpdk [b] (demo_node ())) = RET_CODE_OK" for b
    by (simp add: v_node_state_init_def ensure_node_pool_def demo_node_defs V_NODE_ID_MAX_BYTES_def Let_def)
  obtain w' v' where "v_node_state_init list_dpdk [1] (demo_node ()) = (RET_CODE_OK, w')"
    "v_node_state_init list_dpdk [16] (demo_node ()) = (RET_CODE_OK, v')"
    using ok by (metis prod.collapse)
  with node_keys_distinct [OF this] show ?thesis by auto
qed



text \<open>The association key holds nothing or a hash.\<close>

definition assoc_wf :: "keyspace \<Rightarrow> string \<Rightarrow> bool" where
  "assoc_wf ks k = (case ks k of None \<Rightarrow> True | Some (RHash h, t) \<Rightarrow> True | _ \<Rightarrow> False)"

text \<open>
  C40: the association state. Once the command of \<^verbatim>\<open>v_node_state_set_associated\<close> has reached the
  server, a query on any pod reports associated with that SMF; once the command of
  \<^verbatim>\<open>v_node_state_clear_associated\<close> has, it reports not associated and no SMF, whatever was stored
  before, and so it does when nothing was ever stored.
\<close>

theorem association_roundtrip:
  assumes "hiredis_laws hi waiting" and "redis_conforms call view"
    and "v_node_state_set_associated D hi smf cb w = (RET_CODE_OK, w')"
    and "v_node_state_clear_associated D hi cb2 v = (RET_CODE_OK, v')"
    and "g_assoc_key w = k" and "g_assoc_key v = k"
  shows "\<exists>set_args clear_args s p s2 p2 w1 v1.
    queued waiting s set_args (Simple_ack_cb p) w1 w' \<and> queued waiting s2 clear_args (Simple_ack_cb p2) v1 v' \<and>
    (\<forall>db q x. assoc_wf (view db) k \<longrightarrow>
       assoc_query_reply_cb D acall RET_CODE_OK (Some (fst (call (snd (call db set_args)) [''HMGET'', k, ''associated'', ''smf'']))) q x =
         acall (node_pending_at x q) RET_CODE_OK True smf (node_put D q x) \<and>
       assoc_query_reply_cb D acall RET_CODE_OK (Some (fst (call (snd (call db clear_args)) [''HMGET'', k, ''associated'', ''smf'']))) q x =
         acall (node_pending_at x q) RET_CODE_OK False 0 (node_put D q x) \<and>
       (view db k = None \<longrightarrow>
         assoc_query_reply_cb D acall RET_CODE_OK (Some (fst (call db [''HMGET'', k, ''associated'', ''smf'']))) q x =
         acall (node_pending_at x q) RET_CODE_OK False 0 (node_put D q x)))"
proof -
  let ?set = "[''HSET'', k, ''associated'', ''1'', ''smf'', dec (unat smf)]"
  let ?clear = "[''HSET'', k, ''associated'', ''0'']"
  obtain p w1 where q1: "queued waiting (unat (v_port_db_shard_of k)) ?set (Simple_ack_cb p) w1 w'"
    using node_request_queued [OF assms(1) assms(3) [unfolded v_node_state_set_associated_def]] assms(5) by auto
  obtain p2 v1 where q2: "queued waiting (unat (v_port_db_shard_of k)) ?clear (Simple_ack_cb p2) v1 v'"
    using node_request_queued [OF assms(1) assms(4) [unfolded v_node_state_clear_associated_def]] assms(6) by auto
  have take_smf: "take 23 (dec (unat smf)) = dec (unat smf)" using dec_u64_length [of smf] by simp
  note simps = conforms_simps [OF assms(2)] redis_HSET_def redis_HMGET_def hash_put_def assoc_query_reply_cb_def Let_def take_smf
  have "assoc_query_reply_cb D acall RET_CODE_OK (Some (fst (call (snd (call db ?set)) [''HMGET'', k, ''associated'', ''smf'']))) q x =
      acall (node_pending_at x q) RET_CODE_OK True smf (node_put D q x)"
    "assoc_query_reply_cb D acall RET_CODE_OK (Some (fst (call (snd (call db ?clear)) [''HMGET'', k, ''associated'', ''smf'']))) q x =
      acall (node_pending_at x q) RET_CODE_OK False 0 (node_put D q x)"
    "view db k = None \<Longrightarrow>
      assoc_query_reply_cb D acall RET_CODE_OK (Some (fst (call db [''HMGET'', k, ''associated'', ''smf'']))) q x =
      acall (node_pending_at x q) RET_CODE_OK False 0 (node_put D q x)"
    if wf: "assoc_wf (view db) k" for db q x
  proof -
    consider "view db k = None" | h t where "view db k = Some (RHash h, t)"
      using wf by (auto simp: assoc_wf_def split: option.splits rval.splits)
    note c = this
    show "assoc_query_reply_cb D acall RET_CODE_OK (Some (fst (call (snd (call db ?set)) [''HMGET'', k, ''associated'', ''smf'']))) q x =
      acall (node_pending_at x q) RET_CODE_OK True smf (node_put D q x)"
      by (cases rule: c) (simp_all add: simps)
    show "assoc_query_reply_cb D acall RET_CODE_OK (Some (fst (call (snd (call db ?clear)) [''HMGET'', k, ''associated'', ''smf'']))) q x =
      acall (node_pending_at x q) RET_CODE_OK False 0 (node_put D q x)"
      by (cases rule: c) (simp_all add: simps split: v_db_reply.split)
    show "assoc_query_reply_cb D acall RET_CODE_OK (Some (fst (call db [''HMGET'', k, ''associated'', ''smf'']))) q x =
      acall (node_pending_at x q) RET_CODE_OK False 0 (node_put D q x)" if "view db k = None"
      using that by (simp add: simps)
  qed
  with q1 q2 show ?thesis by blast
qed

theorem association_roundtrip_witness:
  "\<exists>w' v' set_args.
     v_node_state_set_associated list_dpdk list_hiredis 9 0 (demo_node ()) = (RET_CODE_OK, w') \<and>
     v_node_state_clear_associated list_dpdk list_hiredis 0 (demo_node ()) = (RET_CODE_OK, v') \<and>
     g_recovery_ts (assoc_query_reply_cb list_dpdk (\<lambda>_ _ a s w. if a then w\<lparr>g_recovery_ts := ucast s\<rparr> else w) RET_CODE_OK
       (Some (fst (spec_redis (snd (spec_redis Map.empty set_args)) [''HMGET'', assoc_key [1], ''associated'', ''smf'']))) 90 (demo_node ())) = 9"
proof -
  let ?w = "demo_node ()"
  have ok: "fst (node_request list_dpdk list_hiredis cb key mk args ?w) = RET_CODE_OK" for cb key mk args
  proof -
    have "fst (v_port_db_cmd list_dpdk list_hiredis (v_port_db_shard_of key) (mk 91) args
        (?w\<lparr>g_node_pool := Some [92], node_pending_at := (node_pending_at ?w)(91 := cb)\<rparr>)) = RET_CODE_OK"
      by (rule list_cmd_accepted) (simp_all add: demo_node_defs)
    moreover have "g_node_pool ?w = Some [91, 92]" by (simp add: demo_node_defs)
    ultimately show ?thesis by (simp add: node_request_def pending_get_def split_beta)
  qed
  obtain w' v' where s: "v_node_state_set_associated list_dpdk list_hiredis 9 0 ?w = (RET_CODE_OK, w')"
    and c: "v_node_state_clear_associated list_dpdk list_hiredis 0 ?w = (RET_CODE_OK, v')"
    unfolding v_node_state_set_associated_def v_node_state_clear_associated_def using ok by (metis prod.collapse)
  have k: "g_assoc_key ?w = assoc_key [1]" by (simp add: demo_node_defs)
  define acall where "acall = (\<lambda>(_ :: ptr) (_ :: int) a (s :: u64) w. if a then w\<lparr>g_recovery_ts := ucast s\<rparr> else w :: (nat \<times> ptr list, ptr list, (string list \<times> ptr) list) node_st)"
  obtain set_args where
    "\<forall>db q x. assoc_wf db (assoc_key [1]) \<longrightarrow>
       assoc_query_reply_cb list_dpdk acall RET_CODE_OK
         (Some (fst (spec_redis (snd (spec_redis db set_args)) [''HMGET'', assoc_key [1], ''associated'', ''smf'']))) q x =
       acall (node_pending_at x q) RET_CODE_OK True 9 (node_put list_dpdk q x)"
    using association_roundtrip [OF list_hiredis_laws spec_redis_conforms s c k k, where acall = acall]
    by (elim exE conjE) (rule that, blast)
  from this [rule_format, of Map.empty 90 ?w]
  have "assoc_query_reply_cb list_dpdk acall RET_CODE_OK
      (Some (fst (spec_redis (snd (spec_redis Map.empty set_args)) [''HMGET'', assoc_key [1], ''associated'', ''smf'']))) 90 ?w =
    (node_put list_dpdk 90 ?w)\<lparr>g_recovery_ts := 9\<rparr>" by (simp add: assoc_wf_def acall_def)
  with s c show ?thesis unfolding acall_def by (intro exI [of _ w'] exI [of _ v'] exI [of _ set_args]) simp
qed

end
