(* ===== verification/V_flow.thy ===== *)
theory V_flow
  imports V_node_state
begin

section \<open>The session flows\<close>

text \<open>
  \<^verbatim>\<open>src/v_flow\<close> with the VDP port of \<^verbatim>\<open>stubs/v_stub_vdp\<close>: establishment, modification and
  deletion of a session, each a chain of asynchronous calls whose callbacks carry the
  transaction. A callback passed to a port or a store is a constructor applied to the
  transaction's address, so that the C code's cycles between callbacks (a conflict restarts
  the read) are cycles of the event loop and not of the definitions. The VDP stub answers
  synchronously: its operations call the callback before they return.
\<close>

definition V_PART_RR_SPAN :: nat where "V_PART_RR_SPAN = 16"

datatype v_vdp_result = V_VDP_ACCEPT | V_VDP_REJECT | V_VDP_TIMEOUT
datatype v_vdp_cb = Vdp_create_cb ptr | Mod_vdp_cb ptr | Del_vdp_cb ptr

record ('r, 'p, 'h) flow_st = "('r, 'p, 'h) node_st" +
  g_forced_set :: bool
  g_forced :: v_vdp_result
  g_rr_base :: u16
  g_rr_ctr :: u16

type_synonym 'w vdp_call = "v_vdp_cb \<Rightarrow> v_vdp_result \<Rightarrow> 'w \<Rightarrow> 'w"

subsection \<open>The VDP port\<close>

definition v_port_vdp_io_init :: "('r, 'p, 'h, 'a) flow_st_scheme \<Rightarrow> int \<times> ('r, 'p, 'h, 'a) flow_st_scheme" where
  "v_port_vdp_io_init w = (RET_CODE_OK, w\<lparr>g_forced_set := False\<rparr>)"

definition next_result :: "('r, 'p, 'h, 'a) flow_st_scheme \<Rightarrow> v_vdp_result" where
  "next_result w = (if g_forced_set w then g_forced w else V_VDP_ACCEPT)"

definition v_port_vdp_session_create ::
    "('r, 'p, 'h, 'a) flow_st_scheme vdp_call \<Rightarrow> u16 \<Rightarrow> ptr \<Rightarrow> v_vdp_cb \<Rightarrow>
     ('r, 'p, 'h, 'a) flow_st_scheme \<Rightarrow> int \<times> ('r, 'p, 'h, 'a) flow_st_scheme" where
  "v_port_vdp_session_create vc part_id ctx cb w = (RET_CODE_OK, vc cb (next_result w) w)"

definition v_port_vdp_session_modify ::
    "('r, 'p, 'h, 'a) flow_st_scheme vdp_call \<Rightarrow> u16 \<Rightarrow> ptr \<Rightarrow> v_vdp_cb \<Rightarrow>
     ('r, 'p, 'h, 'a) flow_st_scheme \<Rightarrow> int \<times> ('r, 'p, 'h, 'a) flow_st_scheme" where
  "v_port_vdp_session_modify vc part_id ctx cb w = (RET_CODE_OK, vc cb (next_result w) w)"

definition v_port_vdp_session_delete ::
    "('r, 'p, 'h, 'a) flow_st_scheme vdp_call \<Rightarrow> u16 \<Rightarrow> u64 \<Rightarrow> v_vdp_cb \<Rightarrow>
     ('r, 'p, 'h, 'a) flow_st_scheme \<Rightarrow> int \<times> ('r, 'p, 'h, 'a) flow_st_scheme" where
  "v_port_vdp_session_delete vc part_id seid cb w = (RET_CODE_OK, vc cb (next_result w) w)"

definition v_port_vdp_test_force_result ::
    "v_vdp_result \<Rightarrow> ('r, 'p, 'h, 'a) flow_st_scheme \<Rightarrow> ('r, 'p, 'h, 'a) flow_st_scheme" where
  "v_port_vdp_test_force_result res w = w\<lparr>g_forced_set := True, g_forced := res\<rparr>"

definition v_port_vdp_test_reset :: "('r, 'p, 'h, 'a) flow_st_scheme \<Rightarrow> ('r, 'p, 'h, 'a) flow_st_scheme" where
  "v_port_vdp_test_reset w = w\<lparr>g_forced_set := False\<rparr>"

lemmas vdp_port_defs = v_port_vdp_session_create_def v_port_vdp_session_modify_def v_port_vdp_session_delete_def

subsection \<open>Choice of the partition\<close>

definition part_rr :: "('r, 'p, 'h, 'a) flow_st_scheme \<Rightarrow> u16 \<times> ('r, 'p, 'h, 'a) flow_st_scheme" where
  "part_rr w =
     ((g_rr_base w + (g_rr_ctr w AND of_nat (V_PART_RR_SPAN - 1))) AND of_nat (V_NUM_PARTS - 1),
      w\<lparr>g_rr_ctr := g_rr_ctr w + 1\<rparr>)"

definition hash_ue_ip :: "u32 \<Rightarrow> u8 list \<Rightarrow> u16" where
  "hash_ue_ip v4 v6 =
     ucast (fnv1a (map (\<lambda>i. ucast (drop_bit (i * 8) v4)) [0 ..< 4] @ map (\<lambda>i. v6 ! i) [0 ..< 16])
              mod of_nat V_NUM_PARTS)"

text \<open>\<open>addr\<close> is the address of the static variable, \<open>pid\<close> the process identifier.\<close>

definition v_flow_init ::
    "u64 \<Rightarrow> u64 \<Rightarrow> ('r, 'p, 'h, 'a) flow_st_scheme \<Rightarrow> int \<times> ('r, 'p, 'h, 'a) flow_st_scheme" where
  "v_flow_init addr pid w =
     (RET_CODE_OK, w\<lparr>g_rr_base := ucast (addr XOR pid) AND of_nat (V_NUM_PARTS - 1), g_rr_ctr := 0\<rparr>)"

subsection \<open>Establishment\<close>

definition delete_pending_noop_cb ::
    "int \<Rightarrow> v_cas_result \<Rightarrow> u64 \<Rightarrow> ('r, 'p, 'h, 'a) flow_st_scheme \<Rightarrow> ('r, 'p, 'h, 'a) flow_st_scheme" where
  "delete_pending_noop_cb status result new_ver w = w"

text \<open>Freeing a context or request a transaction holds, and clearing the member.\<close>

definition free_ctx ::
    "('r, 'p) dpdk \<Rightarrow> ptr \<Rightarrow> ('r, 'p, 'h, 'a) txn_st_scheme \<Rightarrow> ('r, 'p, 'h, 'a) txn_st_scheme" where
  "free_ctx D t w =
     (if t_ctx (txn_at w t) \<noteq> 0
      then txn_upd t (\<lambda>x. x\<lparr>t_ctx := 0\<rparr>) (v_port_ctx_free D (t_ctx (txn_at w t)) w) else w)"

definition free_impl ::
    "('r, 'p) dpdk \<Rightarrow> ptr \<Rightarrow> ('r, 'p, 'h, 'a) txn_st_scheme \<Rightarrow> ('r, 'p, 'h, 'a) txn_st_scheme" where
  "free_impl D t w =
     (if t_impl (txn_at w t) \<noteq> 0
      then txn_upd t (\<lambda>x. x\<lparr>t_impl := 0\<rparr>) (v_port_ctx_free D (t_impl (txn_at w t)) w) else w)"

definition free_req ::
    "('r, 'p) dpdk \<Rightarrow> ptr \<Rightarrow> ('r, 'p, 'h, 'a) txn_st_scheme \<Rightarrow> ('r, 'p, 'h, 'a) txn_st_scheme" where
  "free_req D t w =
     (if t_req (txn_at w t) \<noteq> 0
      then txn_upd t (\<lambda>x. x\<lparr>t_req := 0\<rparr>) (v_port_pfcp_msg_free D (t_req (txn_at w t)) w) else w)"

definition finish ::
    "('r, 'p) dpdk \<Rightarrow> 'h hiredis \<Rightarrow> ptr \<Rightarrow> u8 \<Rightarrow>
     ('r, 'p, 'h, 'a) flow_st_scheme \<Rightarrow> ('r, 'p, 'h, 'a) flow_st_scheme" where
  "finish D hi t cause w =
     (let req = pfcp_at w (t_req (txn_at w t));
          ctx = t_ctx (txn_at w t);
          ctx_for_rsp = (if cause = V_PFCP_CAUSE_REQUEST_ACCEPTED \<and> ctx \<noteq> 0 then Some (ctx_at w ctx) else None);
          w = (case v_port_pfcp_encode_rsp req ctx_for_rsp cause 512 of
                 None \<Rightarrow> w
               | Some buf \<Rightarrow>
                   let smf_fseid = v_port_pfcp_smf_fseid req;
                       seq = v_port_pfcp_seq req;
                       rpart = v_retrans_part smf_fseid;
                       w = snd (v_retrans_store D hi rpart smf_fseid seq buf w)
                   in snd (v_dispatch_tx_enqueue D buf (Some (t_peer (txn_at w t))) w));
          w = v_port_txn_set_state t TXN_ST_REPLIED w
      in v_port_txn_destroy D t (free_req D t (free_ctx D t w)))"

definition confirm_cb ::
    "('r, 'p) dpdk \<Rightarrow> 'h hiredis \<Rightarrow> int \<Rightarrow> ptr \<Rightarrow>
     ('r, 'p, 'h, 'a) flow_st_scheme \<Rightarrow> ('r, 'p, 'h, 'a) flow_st_scheme" where
  "confirm_cb D hi status t w =
     (if status \<noteq> RET_CODE_OK then finish D hi t V_PFCP_CAUSE_SYSTEM_FAILURE w
      else finish D hi t V_PFCP_CAUSE_REQUEST_ACCEPTED w)"

definition vdp_create_cb ::
    "('r, 'p) dpdk \<Rightarrow> 'h hiredis \<Rightarrow> ('r, 'p, 'h, 'a) flow_st_scheme db_call \<Rightarrow> v_vdp_result \<Rightarrow> ptr \<Rightarrow>
     ('r, 'p, 'h, 'a) flow_st_scheme \<Rightarrow> ('r, 'p, 'h, 'a) flow_st_scheme" where
  "vdp_create_cb D hi cc res t w =
     (if res \<noteq> V_VDP_ACCEPT then
        let x = txn_at w t;
            w = snd (v_sess_delete D hi cc (t_part_id x) (t_seid x) (t_db_ver x) Delete_pending_noop_cb w);
            w = v_teid_free D hi (t_part_id (txn_at w t)) (t_teid (txn_at w t)) w
        in finish D hi t V_PFCP_CAUSE_REQUEST_REJECTED w
      else
        let w = v_port_txn_set_state t TXN_ST_DB_CONFIRM_WAIT w;
            x = txn_at w t;
            (rc, w) = v_sess_confirm D hi (t_part_id x) (t_seid x) (Confirm_cb t) w
        in if rc \<noteq> RET_CODE_OK then finish D hi t V_PFCP_CAUSE_SYSTEM_FAILURE w else w)"

subsection \<open>The VDP callbacks of modification and deletion\<close>

definition mod_compensate_write_cb ::
    "('r, 'p) dpdk \<Rightarrow> 'h hiredis \<Rightarrow> int \<Rightarrow> v_cas_result \<Rightarrow> u64 \<Rightarrow> ptr \<Rightarrow>
     ('r, 'p, 'h, 'a) flow_st_scheme \<Rightarrow> ('r, 'p, 'h, 'a) flow_st_scheme" where
  "mod_compensate_write_cb D hi status result new_ver t w = finish D hi t V_PFCP_CAUSE_REQUEST_REJECTED w"

definition mod_vdp_cb ::
    "('r, 'p) dpdk \<Rightarrow> 'h hiredis \<Rightarrow> ('r, 'p, 'h, 'a) flow_st_scheme db_call \<Rightarrow> v_vdp_result \<Rightarrow> ptr \<Rightarrow>
     ('r, 'p, 'h, 'a) flow_st_scheme \<Rightarrow> ('r, 'p, 'h, 'a) flow_st_scheme" where
  "mod_vdp_cb D hi cc res t w =
     (let prev = t_impl (txn_at w t);
          w = txn_upd t (\<lambda>x. x\<lparr>t_impl := 0\<rparr>) w
      in if res \<noteq> V_VDP_ACCEPT then
           let x = txn_at w t;
               (rc, w) = v_sess_cas_write D hi cc (t_part_id x) (t_seid x) (t_db_ver x) prev V_SESS_CONFIRMED
                           (Mod_compensate_write_cb t) w;
               w = v_port_ctx_free D prev w
           in if rc \<noteq> RET_CODE_OK then finish D hi t V_PFCP_CAUSE_SYSTEM_FAILURE w else w
         else
           let w = (if prev \<noteq> 0 then v_port_ctx_free D prev w else w)
           in finish D hi t V_PFCP_CAUSE_REQUEST_ACCEPTED w)"

definition del_vdp_cb ::
    "('r, 'p) dpdk \<Rightarrow> 'h hiredis \<Rightarrow> ('r, 'p, 'h, 'a) flow_st_scheme db_call \<Rightarrow> v_vdp_result \<Rightarrow> ptr \<Rightarrow>
     ('r, 'p, 'h, 'a) flow_st_scheme \<Rightarrow> ('r, 'p, 'h, 'a) flow_st_scheme" where
  "del_vdp_cb D hi cc res t w =
     (if res \<noteq> V_VDP_ACCEPT then finish D hi t V_PFCP_CAUSE_REQUEST_REJECTED w
      else
        let w = v_port_txn_set_state t TXN_ST_DB_WRITE_WAIT w;
            x = txn_at w t;
            (rc, w) = v_sess_delete D hi cc (t_part_id x) (t_seid x) (t_db_ver x) (Del_delete_cb t) w
        in if rc \<noteq> RET_CODE_OK then finish D hi t V_PFCP_CAUSE_SYSTEM_FAILURE w else w)"

text \<open>The call through a \<^verbatim>\<open>v_vdp_cb_t\<close>.\<close>

fun vdp_call ::
    "('r, 'p) dpdk \<Rightarrow> 'h hiredis \<Rightarrow> ('r, 'p, 'h, 'a) flow_st_scheme db_call \<Rightarrow>
     ('r, 'p, 'h, 'a) flow_st_scheme vdp_call" where
  "vdp_call D hi cc (Vdp_create_cb t) res w = vdp_create_cb D hi cc res t w"
| "vdp_call D hi cc (Mod_vdp_cb t) res w = mod_vdp_cb D hi cc res t w"
| "vdp_call D hi cc (Del_vdp_cb t) res w = del_vdp_cb D hi cc res t w"

subsection \<open>Establishment, continued\<close>

definition cas_write_cb ::
    "('r, 'p) dpdk \<Rightarrow> 'h hiredis \<Rightarrow> ('r, 'p, 'h, 'a) flow_st_scheme db_call \<Rightarrow>
     int \<Rightarrow> v_cas_result \<Rightarrow> u64 \<Rightarrow> ptr \<Rightarrow>
     ('r, 'p, 'h, 'a) flow_st_scheme \<Rightarrow> ('r, 'p, 'h, 'a) flow_st_scheme" where
  "cas_write_cb D hi cc status result new_ver t w =
     (if status \<noteq> RET_CODE_OK \<or> result \<noteq> V_CAS_OK then
        finish D hi t V_PFCP_CAUSE_SYSTEM_FAILURE
          (v_teid_free D hi (t_part_id (txn_at w t)) (t_teid (txn_at w t)) w)
      else
        let w = txn_upd t (\<lambda>x. x\<lparr>t_db_ver := new_ver\<rparr>) w;
            w = v_port_txn_set_state t TXN_ST_VDP_WAIT w;
            x = txn_at w t;
            (rc, w) = v_port_vdp_session_create (vdp_call D hi cc) (t_part_id x) (t_ctx x) (Vdp_create_cb t) w
        in if rc \<noteq> RET_CODE_OK then
             let x = txn_at w t;
                 w = snd (v_sess_delete D hi cc (t_part_id x) (t_seid x) (t_db_ver x) Delete_pending_noop_cb w);
                 w = v_teid_free D hi (t_part_id (txn_at w t)) (t_teid (txn_at w t)) w
             in finish D hi t V_PFCP_CAUSE_SYSTEM_FAILURE w
           else w)"

text \<open>A cache hit, in all three flows: send the cached bytes and drop the transaction.\<close>

definition retrans_hit ::
    "('r, 'p) dpdk \<Rightarrow> u8 list \<Rightarrow> ptr \<Rightarrow> ('r, 'p, 'h, 'a) flow_st_scheme \<Rightarrow> ('r, 'p, 'h, 'a) flow_st_scheme" where
  "retrans_hit D resp t w =
     (let w = snd (v_dispatch_tx_enqueue D resp (Some (t_peer (txn_at w t))) w);
          w = v_port_pfcp_msg_free D (t_req (txn_at w t)) w
      in v_port_txn_destroy D t (txn_upd t (\<lambda>x. x\<lparr>t_req := 0\<rparr>) w))"

definition retrans_lookup_cb ::
    "('r, 'p) dpdk \<Rightarrow> 'h hiredis \<Rightarrow> ('r, 'p, 'h, 'a) flow_st_scheme db_call \<Rightarrow>
     int \<Rightarrow> bool \<Rightarrow> u8 list \<Rightarrow> ptr \<Rightarrow>
     ('r, 'p, 'h, 'a) flow_st_scheme \<Rightarrow> ('r, 'p, 'h, 'a) flow_st_scheme" where
  "retrans_lookup_cb D hi cc status hit resp t w =
     (if status = RET_CODE_OK \<and> hit then retrans_hit D resp t w
      else
        let (part, w) = (case v_port_pfcp_ue_ip (pfcp_at w (t_req (txn_at w t))) of
                           Some (v4, v6) \<Rightarrow> (hash_ue_ip v4 v6, w)
                         | None \<Rightarrow> part_rr w);
            w = txn_upd t (\<lambda>x. x\<lparr>t_part_id := part\<rparr>) w;
            (seid, w) = v_seid_alloc D hi part w;
            (teid, w) = v_teid_alloc D hi cc part w
        in if seid = 0 \<or> teid = 0 then
             let w = (if teid \<noteq> 0 then v_teid_free D hi part teid w else w)
             in finish D hi t V_PFCP_CAUSE_NO_RESOURCES_AVAILABLE w
           else
             let w = txn_upd t (\<lambda>x. x\<lparr>t_seid := seid, t_teid := teid\<rparr>) w;
                 (ctx, w) = v_port_ctx_alloc D w
             in if ctx = 0 then finish D hi t V_PFCP_CAUSE_SYSTEM_FAILURE (v_teid_free D hi part teid w)
                else
                  let w = txn_upd t (\<lambda>x. x\<lparr>t_ctx := ctx\<rparr>) w
                  in case v_port_pfcp_build_session (pfcp_at w (t_req (txn_at w t))) seid teid (ctx_at w ctx) of
                       None \<Rightarrow> finish D hi t V_PFCP_CAUSE_SYSTEM_FAILURE (v_teid_free D hi part teid w)
                     | Some c \<Rightarrow>
                         let w = v_port_txn_set_state t TXN_ST_DB_WRITE_WAIT (w\<lparr>ctx_at := (ctx_at w)(ctx := c)\<rparr>);
                             (rc, w) = v_sess_cas_write D hi cc part seid 0 ctx V_SESS_PENDING (Cas_write_cb t) w
                         in if rc \<noteq> RET_CODE_OK
                            then finish D hi t V_PFCP_CAUSE_SYSTEM_FAILURE (v_teid_free D hi part teid w)
                            else w)"

text \<open>
  What the three entry points share: the transaction, its request, the caller's address, and
  the lookup in the retransmission cache. \<open>init\<close> sets the members a session request carries.
\<close>

definition start_txn ::
    "('r, 'p) dpdk \<Rightarrow> 'h hiredis \<Rightarrow> (ptr \<Rightarrow> v_retrans_cb) \<Rightarrow> (v_txn \<Rightarrow> v_txn) \<Rightarrow> ptr \<Rightarrow> sockaddr option \<Rightarrow>
     ('r, 'p, 'h, 'a) flow_st_scheme \<Rightarrow> ('r, 'p, 'h, 'a) flow_st_scheme" where
  "start_txn D hi mk init req peer w =
     (let smf_fseid = v_port_pfcp_smf_fseid (pfcp_at w req);
          seq = v_port_pfcp_seq (pfcp_at w req);
          rpart = v_retrans_part smf_fseid;
          (t, w) = v_port_txn_create D w
      in if t = 0 then v_port_pfcp_msg_free D req w
         else
           let w = txn_upd t (\<lambda>x. x\<lparr>t_req := req\<rparr>) w;
               w = (case peer of None \<Rightarrow> w | Some a \<Rightarrow> txn_upd t (\<lambda>x. x\<lparr>t_peer := a\<rparr>) w);
               w = txn_upd t init w;
               w = v_port_txn_set_state t TXN_ST_RECV w;
               (rc, w) = v_retrans_lookup D hi rpart smf_fseid seq (mk t) w
           in if rc \<noteq> RET_CODE_OK then
                let w = v_port_pfcp_msg_free D (t_req (txn_at w t)) w
                in v_port_txn_destroy D t (txn_upd t (\<lambda>x. x\<lparr>t_req := 0\<rparr>) w)
              else w)"

definition handle_establishment ::
    "('r, 'p) dpdk \<Rightarrow> 'h hiredis \<Rightarrow> ptr \<Rightarrow> sockaddr option \<Rightarrow>
     ('r, 'p, 'h, 'a) flow_st_scheme \<Rightarrow> ('r, 'p, 'h, 'a) flow_st_scheme" where
  "handle_establishment D hi req peer w = start_txn D hi Retrans_lookup_cb (\<lambda>x. x) req peer w"

subsection \<open>Modification\<close>

definition mod_start_read ::
    "('r, 'p) dpdk \<Rightarrow> 'h hiredis \<Rightarrow> ptr \<Rightarrow>
     ('r, 'p, 'h, 'a) flow_st_scheme \<Rightarrow> ('r, 'p, 'h, 'a) flow_st_scheme" where
  "mod_start_read D hi t w =
     (let w = v_port_txn_set_state t TXN_ST_DB_READ_WAIT w;
          x = txn_at w t;
          (rc, w) = v_sess_read D hi (t_part_id x) (t_seid x) (t_ctx x) (Mod_read_cb t) w
      in if rc \<noteq> RET_CODE_OK then finish D hi t V_PFCP_CAUSE_SYSTEM_FAILURE w else w)"

definition mod_cas_cb ::
    "('r, 'p) dpdk \<Rightarrow> 'h hiredis \<Rightarrow> ('r, 'p, 'h, 'a) flow_st_scheme db_call \<Rightarrow>
     int \<Rightarrow> v_cas_result \<Rightarrow> u64 \<Rightarrow> ptr \<Rightarrow>
     ('r, 'p, 'h, 'a) flow_st_scheme \<Rightarrow> ('r, 'p, 'h, 'a) flow_st_scheme" where
  "mod_cas_cb D hi cc status result new_ver t w =
     (if status \<noteq> RET_CODE_OK then finish D hi t V_PFCP_CAUSE_SYSTEM_FAILURE (free_impl D t w)
      else case result of
        V_CAS_OK \<Rightarrow>
          let w = txn_upd t (\<lambda>x. x\<lparr>t_db_ver := new_ver\<rparr>) w;
              w = v_port_txn_set_state t TXN_ST_VDP_WAIT w;
              x = txn_at w t;
              (rc, w) = v_port_vdp_session_modify (vdp_call D hi cc) (t_part_id x) (t_ctx x) (Mod_vdp_cb t) w
          in if rc \<noteq> RET_CODE_OK then finish D hi t V_PFCP_CAUSE_SYSTEM_FAILURE (free_impl D t w) else w
      | V_CAS_CONFLICT \<Rightarrow>
          let w = free_impl D t w;
              w = txn_upd t (\<lambda>x. x\<lparr>t_cas_retry := t_cas_retry x + 1\<rparr>) w
          in if V_CAS_MAX_RETRY \<le> unat (t_cas_retry (txn_at w t))
             then finish D hi t V_PFCP_CAUSE_SYSTEM_FAILURE w
             else mod_start_read D hi t (v_port_ctx_clear (t_ctx (txn_at w t)) w)
      | V_CAS_GONE \<Rightarrow> finish D hi t V_PFCP_CAUSE_SESSION_CTX_NOT_FOUND (free_impl D t w))"

definition mod_read_cb ::
    "('r, 'p) dpdk \<Rightarrow> 'h hiredis \<Rightarrow> ('r, 'p, 'h, 'a) flow_st_scheme db_call \<Rightarrow>
     int \<Rightarrow> v_cas_result \<Rightarrow> ptr \<Rightarrow> u64 \<Rightarrow> ptr \<Rightarrow>
     ('r, 'p, 'h, 'a) flow_st_scheme \<Rightarrow> ('r, 'p, 'h, 'a) flow_st_scheme" where
  "mod_read_cb D hi cc status found ctx ver t w =
     (if status \<noteq> RET_CODE_OK then finish D hi t V_PFCP_CAUSE_SYSTEM_FAILURE w
      else if found \<noteq> V_CAS_OK then finish D hi t V_PFCP_CAUSE_SESSION_CTX_NOT_FOUND w
      else
        let w = txn_upd t (\<lambda>x. x\<lparr>t_db_ver := ver\<rparr>) w;
            (prev, w) = v_port_ctx_alloc D w
        in if prev = 0 then finish D hi t V_PFCP_CAUSE_SYSTEM_FAILURE w
           else
             case Option.bind (v_port_pdu_serialize (ctx_at w ctx) 2048) v_port_pdu_deserialize of
               None \<Rightarrow> finish D hi t V_PFCP_CAUSE_SYSTEM_FAILURE (v_port_ctx_free D prev w)
             | Some snapshot \<Rightarrow>
                 let w = w\<lparr>ctx_at := (ctx_at w)(prev := snapshot)\<rparr>;
                     w = txn_upd t (\<lambda>x. x\<lparr>t_impl := prev\<rparr>) w
                 in case v_port_pfcp_modify_session (pfcp_at w (t_req (txn_at w t))) (ctx_at w ctx) of
                      None \<Rightarrow> finish D hi t V_PFCP_CAUSE_SYSTEM_FAILURE
                                (txn_upd t (\<lambda>x. x\<lparr>t_impl := 0\<rparr>) (v_port_ctx_free D prev w))
                    | Some c \<Rightarrow>
                        let w = v_port_txn_set_state t TXN_ST_DB_WRITE_WAIT (w\<lparr>ctx_at := (ctx_at w)(ctx := c)\<rparr>);
                            x = txn_at w t;
                            (rc, w) = v_sess_cas_write D hi cc (t_part_id x) (t_seid x) (t_db_ver x) ctx
                                        V_SESS_CONFIRMED (Mod_cas_cb t) w
                        in if rc \<noteq> RET_CODE_OK
                           then finish D hi t V_PFCP_CAUSE_SYSTEM_FAILURE
                                  (txn_upd t (\<lambda>x. x\<lparr>t_impl := 0\<rparr>) (v_port_ctx_free D prev w))
                           else w)"

definition mod_retrans_lookup_cb ::
    "('r, 'p) dpdk \<Rightarrow> 'h hiredis \<Rightarrow> int \<Rightarrow> bool \<Rightarrow> u8 list \<Rightarrow> ptr \<Rightarrow>
     ('r, 'p, 'h, 'a) flow_st_scheme \<Rightarrow> ('r, 'p, 'h, 'a) flow_st_scheme" where
  "mod_retrans_lookup_cb D hi status hit resp t w =
     (if status = RET_CODE_OK \<and> hit then retrans_hit D resp t w
      else
        let (ctx, w) = v_port_ctx_alloc D w;
            w = txn_upd t (\<lambda>x. x\<lparr>t_ctx := ctx\<rparr>) w
        in if ctx = 0 then finish D hi t V_PFCP_CAUSE_SYSTEM_FAILURE w else mod_start_read D hi t w)"

definition reply_ctx_not_found ::
    "('r, 'p) dpdk \<Rightarrow> ptr \<Rightarrow> sockaddr option \<Rightarrow>
     ('r, 'p, 'h, 'a) flow_st_scheme \<Rightarrow> ('r, 'p, 'h, 'a) flow_st_scheme" where
  "reply_ctx_not_found D req peer w =
     (let w = (case v_port_pfcp_encode_rsp (pfcp_at w req) None V_PFCP_CAUSE_SESSION_CTX_NOT_FOUND 512 of
                 Some buf \<Rightarrow> snd (v_dispatch_tx_enqueue D buf peer w)
               | None \<Rightarrow> w)
      in v_port_pfcp_msg_free D req w)"

definition handle_modification ::
    "('r, 'p) dpdk \<Rightarrow> 'h hiredis \<Rightarrow> ptr \<Rightarrow> sockaddr option \<Rightarrow>
     ('r, 'p, 'h, 'a) flow_st_scheme \<Rightarrow> ('r, 'p, 'h, 'a) flow_st_scheme" where
  "handle_modification D hi req peer w =
     (let seid = v_port_pfcp_hdr_seid (pfcp_at w req) in
      case v_seid_validate seid of
        None \<Rightarrow> reply_ctx_not_found D req peer w
      | Some part \<Rightarrow>
          start_txn D hi Mod_retrans_lookup_cb (\<lambda>x. x\<lparr>t_part_id := part, t_seid := seid\<rparr>) req peer w)"

subsection \<open>Deletion\<close>

definition del_start_read ::
    "('r, 'p) dpdk \<Rightarrow> 'h hiredis \<Rightarrow> ptr \<Rightarrow>
     ('r, 'p, 'h, 'a) flow_st_scheme \<Rightarrow> ('r, 'p, 'h, 'a) flow_st_scheme" where
  "del_start_read D hi t w =
     (let w = v_port_txn_set_state t TXN_ST_DB_READ_WAIT w;
          x = txn_at w t;
          (rc, w) = v_sess_read D hi (t_part_id x) (t_seid x) (t_ctx x) (Del_read_cb t) w
      in if rc \<noteq> RET_CODE_OK then finish D hi t V_PFCP_CAUSE_SYSTEM_FAILURE w else w)"

definition del_delete_cb ::
    "('r, 'p) dpdk \<Rightarrow> 'h hiredis \<Rightarrow> int \<Rightarrow> v_cas_result \<Rightarrow> u64 \<Rightarrow> ptr \<Rightarrow>
     ('r, 'p, 'h, 'a) flow_st_scheme \<Rightarrow> ('r, 'p, 'h, 'a) flow_st_scheme" where
  "del_delete_cb D hi status result new_ver t w =
     (if status \<noteq> RET_CODE_OK then finish D hi t V_PFCP_CAUSE_SYSTEM_FAILURE w
      else case result of
        V_CAS_OK \<Rightarrow>
          let teid = v_port_pfcp_ctx_teid (ctx_at w (t_ctx (txn_at w t)))
          in finish D hi t V_PFCP_CAUSE_REQUEST_ACCEPTED (v_teid_free D hi (t_part_id (txn_at w t)) teid w)
      | V_CAS_CONFLICT \<Rightarrow>
          let w = txn_upd t (\<lambda>x. x\<lparr>t_cas_retry := t_cas_retry x + 1\<rparr>) w
          in if V_CAS_MAX_RETRY \<le> unat (t_cas_retry (txn_at w t))
             then finish D hi t V_PFCP_CAUSE_SYSTEM_FAILURE w
             else del_start_read D hi t (v_port_ctx_clear (t_ctx (txn_at w t)) w)
      | V_CAS_GONE \<Rightarrow> finish D hi t V_PFCP_CAUSE_SESSION_CTX_NOT_FOUND w)"

definition del_read_cb ::
    "('r, 'p) dpdk \<Rightarrow> 'h hiredis \<Rightarrow> ('r, 'p, 'h, 'a) flow_st_scheme db_call \<Rightarrow>
     int \<Rightarrow> v_cas_result \<Rightarrow> ptr \<Rightarrow> u64 \<Rightarrow> ptr \<Rightarrow>
     ('r, 'p, 'h, 'a) flow_st_scheme \<Rightarrow> ('r, 'p, 'h, 'a) flow_st_scheme" where
  "del_read_cb D hi cc status found ctx ver t w =
     (if status \<noteq> RET_CODE_OK then finish D hi t V_PFCP_CAUSE_SYSTEM_FAILURE w
      else if found \<noteq> V_CAS_OK then finish D hi t V_PFCP_CAUSE_SESSION_CTX_NOT_FOUND w
      else
        let w = txn_upd t (\<lambda>x. x\<lparr>t_db_ver := ver\<rparr>) w;
            w = v_port_txn_set_state t TXN_ST_VDP_WAIT w;
            x = txn_at w t;
            (rc, w) = v_port_vdp_session_delete (vdp_call D hi cc) (t_part_id x) (t_seid x) (Del_vdp_cb t) w
        in if rc \<noteq> RET_CODE_OK then finish D hi t V_PFCP_CAUSE_SYSTEM_FAILURE w else w)"

definition del_retrans_lookup_cb ::
    "('r, 'p) dpdk \<Rightarrow> 'h hiredis \<Rightarrow> int \<Rightarrow> bool \<Rightarrow> u8 list \<Rightarrow> ptr \<Rightarrow>
     ('r, 'p, 'h, 'a) flow_st_scheme \<Rightarrow> ('r, 'p, 'h, 'a) flow_st_scheme" where
  "del_retrans_lookup_cb D hi status hit resp t w =
     (if status = RET_CODE_OK \<and> hit then retrans_hit D resp t w
      else
        let (ctx, w) = v_port_ctx_alloc D w;
            w = txn_upd t (\<lambda>x. x\<lparr>t_ctx := ctx\<rparr>) w
        in if ctx = 0 then finish D hi t V_PFCP_CAUSE_SYSTEM_FAILURE w else del_start_read D hi t w)"

definition handle_deletion ::
    "('r, 'p) dpdk \<Rightarrow> 'h hiredis \<Rightarrow> ptr \<Rightarrow> sockaddr option \<Rightarrow>
     ('r, 'p, 'h, 'a) flow_st_scheme \<Rightarrow> ('r, 'p, 'h, 'a) flow_st_scheme" where
  "handle_deletion D hi req peer w =
     (let seid = v_port_pfcp_hdr_seid (pfcp_at w req) in
      case v_seid_validate seid of
        None \<Rightarrow> reply_ctx_not_found D req peer w
      | Some part \<Rightarrow>
          start_txn D hi Del_retrans_lookup_cb (\<lambda>x. x\<lparr>t_part_id := part, t_seid := seid\<rparr>) req peer w)"

subsection \<open>Entry point\<close>

definition v_flow_handle_msg ::
    "('r, 'p) dpdk \<Rightarrow> 'h hiredis \<Rightarrow> v_dispatch_msg \<Rightarrow>
     ('r, 'p, 'h, 'a) flow_st_scheme \<Rightarrow> ('r, 'p, 'h, 'a) flow_st_scheme" where
  "v_flow_handle_msg D hi msg w =
     (case v_port_pfcp_decode D (take (msg_len msg) (msg_buf msg)) w of
        (None, w) \<Rightarrow> w
      | (Some req, w) \<Rightarrow>
          let type = v_port_pfcp_msg_type (pfcp_at w req) in
          if type = V_PFCP_MSG_SESSION_EST_REQ then handle_establishment D hi req (Some (msg_peer msg)) w
          else if type = V_PFCP_MSG_SESSION_MOD_REQ then handle_modification D hi req (Some (msg_peer msg)) w
          else if type = V_PFCP_MSG_SESSION_DEL_REQ then handle_deletion D hi req (Some (msg_peer msg)) w
          else v_port_pfcp_msg_free D req w)"

subsection \<open>A state to evaluate on\<close>

definition demo_flow :: "'a \<Rightarrow> (nat \<times> ptr list, ptr list, (string list \<times> ptr) list, 'a) flow_st_scheme" where
  "demo_flow x = demo_node
     \<lparr>g_forced_set = False, g_forced = V_VDP_ACCEPT, g_rr_base = 0, g_rr_ctr = 0, \<dots> = x\<rparr>"

lemmas demo_flow_defs = demo_flow_def demo_node_defs

end
