(* ===== verification/V_txn.thy ===== *)
theory V_txn
  imports V_flow
begin

section \<open>The timeout sweeper, and the calls through callback pointers\<close>

text \<open>
  \<^verbatim>\<open>src/v_txn\<close>: what a hard timeout does to a transaction in each of its states. With it every
  function whose address the program passes as a callback is defined, and the second part
  defines the indirect calls: one function per callback type, from a callback to the function
  it names.
\<close>

definition confirm_retry_cb ::
    "int \<Rightarrow> ('r, 'p, 'h, 'a) flow_st_scheme \<Rightarrow> ('r, 'p, 'h, 'a) flow_st_scheme" where
  "confirm_retry_cb status w = w"

definition delete_pending_cb ::
    "int \<Rightarrow> v_cas_result \<Rightarrow> u64 \<Rightarrow> ('r, 'p, 'h, 'a) flow_st_scheme \<Rightarrow> ('r, 'p, 'h, 'a) flow_st_scheme" where
  "delete_pending_cb status result new_ver w = w"

definition timeout_handler ::
    "('r, 'p) dpdk \<Rightarrow> 'h hiredis \<Rightarrow> ('r, 'p, 'h, 'a) flow_st_scheme db_call \<Rightarrow> ptr \<Rightarrow>
     ('r, 'p, 'h, 'a) flow_st_scheme \<Rightarrow> ('r, 'p, 'h, 'a) flow_st_scheme" where
  "timeout_handler D hi cc t w =
     (let x = txn_at w t;
          w = (case t_state x of
                 TXN_ST_RECV \<Rightarrow> w
               | TXN_ST_DB_READ_WAIT \<Rightarrow> w
               | TXN_ST_DB_WRITE_WAIT \<Rightarrow> w
               | TXN_ST_VDP_WAIT \<Rightarrow>
                   if t_db_ver x = 0
                   then snd (v_sess_delete D hi cc (t_part_id x) (t_seid x) 1 Delete_pending_cb w)
                   else w
               | TXN_ST_DB_CONFIRM_WAIT \<Rightarrow>
                   snd (v_sess_confirm D hi (t_part_id x) (t_seid x) Confirm_retry_cb w)
               | TXN_ST_REPLIED \<Rightarrow> w)
      in v_port_txn_destroy D t (free_req D t (free_ctx D t w)))"

definition v_txn_sm_init :: "('r, 'p, 'h, 'a) flow_st_scheme \<Rightarrow> int \<times> ('r, 'p, 'h, 'a) flow_st_scheme" where
  "v_txn_sm_init w = v_port_txn_on_timeout w"

definition v_txn_sm_fini :: "('r, 'p, 'h, 'a) flow_st_scheme \<Rightarrow> ('r, 'p, 'h, 'a) flow_st_scheme" where
  "v_txn_sm_fini w = w"

subsection \<open>Calls through callback pointers\<close>

fun read_call ::
    "('r, 'p) dpdk \<Rightarrow> 'h hiredis \<Rightarrow> ('r, 'p, 'h, 'a) flow_st_scheme db_call \<Rightarrow>
     ('r, 'p, 'h, 'a) flow_st_scheme read_call" where
  "read_call D hi cc (Mod_read_cb t) status found ctx ver w = mod_read_cb D hi cc status found ctx ver t w"
| "read_call D hi cc (Del_read_cb t) status found ctx ver w = del_read_cb D hi cc status found ctx ver t w"

fun cas_call ::
    "('r, 'p) dpdk \<Rightarrow> 'h hiredis \<Rightarrow> ('r, 'p, 'h, 'a) flow_st_scheme db_call \<Rightarrow>
     ('r, 'p, 'h, 'a) flow_st_scheme cas_call" where
  "cas_call D hi cc (Cas_write_cb t) status res ver w = cas_write_cb D hi cc status res ver t w"
| "cas_call D hi cc (Mod_cas_cb t) status res ver w = mod_cas_cb D hi cc status res ver t w"
| "cas_call D hi cc (Mod_compensate_write_cb t) status res ver w = mod_compensate_write_cb D hi status res ver t w"
| "cas_call D hi cc (Del_delete_cb t) status res ver w = del_delete_cb D hi status res ver t w"
| "cas_call D hi cc Delete_pending_noop_cb status res ver w = delete_pending_noop_cb status res ver w"
| "cas_call D hi cc Delete_pending_cb status res ver w = delete_pending_cb status res ver w"

fun simple_call ::
    "('r, 'p) dpdk \<Rightarrow> 'h hiredis \<Rightarrow> ('r, 'p, 'h, 'a) flow_st_scheme simple_call" where
  "simple_call D hi (Confirm_cb t) status w = confirm_cb D hi status t w"
| "simple_call D hi Confirm_retry_cb status w = confirm_retry_cb status w"

fun retrans_call ::
    "('r, 'p) dpdk \<Rightarrow> 'h hiredis \<Rightarrow> ('r, 'p, 'h, 'a) flow_st_scheme db_call \<Rightarrow>
     ('r, 'p, 'h, 'a) flow_st_scheme retrans_call" where
  "retrans_call D hi cc (Retrans_lookup_cb t) status hit resp w = retrans_lookup_cb D hi cc status hit resp t w"
| "retrans_call D hi cc (Mod_retrans_lookup_cb t) status hit resp w = mod_retrans_lookup_cb D hi status hit resp t w"
| "retrans_call D hi cc (Del_retrans_lookup_cb t) status hit resp w = del_retrans_lookup_cb D hi status hit resp t w"

text \<open>
  The call through a \<^verbatim>\<open>v_db_cb_t\<close>. \<open>now\<close> is the wall clock; \<open>cc\<close> is used by the functions that
  themselves call through such a pointer before they return. The clients of the node state
  only log.
\<close>

fun db_callback ::
    "('r, 'p) dpdk \<Rightarrow> 'h hiredis \<Rightarrow> u64 \<Rightarrow> ('r, 'p, 'h, 'a) flow_st_scheme db_call \<Rightarrow>
     ('r, 'p, 'h, 'a) flow_st_scheme db_call" where
  "db_callback D hi now cc (Load_reply_cb lc) status reply w = load_reply_cb D hi cc status reply lc w"
| "db_callback D hi now cc (Evalsha_reply_cb p) status reply w = evalsha_reply_cb D hi cc status reply p w"
| "db_callback D hi now cc (Seid_refill_reply_cb part) status reply w = seid_refill_reply_cb D status reply part w"
| "db_callback D hi now cc (Teid_refill_reply_cb part) status reply w = teid_refill_reply_cb D status reply part w"
| "db_callback D hi now cc Seed_reply_cb status reply w = seed_reply_cb status reply w"
| "db_callback D hi now cc Teid_free_reply_cb status reply w = teid_free_reply_cb status reply w"
| "db_callback D hi now cc (Read_reply_cb p) status reply w = read_reply_cb D (read_call D hi cc) status reply p w"
| "db_callback D hi now cc (Cas_write_reply_cb p) status reply w = cas_write_reply_cb D (cas_call D hi cc) status reply p w"
| "db_callback D hi now cc (Confirm_reply_cb p) status reply w = confirm_reply_cb D (simple_call D hi) status reply p w"
| "db_callback D hi now cc (Delete_reply_cb p) status reply w = delete_reply_cb D (cas_call D hi cc) status reply p w"
| "db_callback D hi now cc (Lookup_reply_cb p) status reply w = lookup_reply_cb D (retrans_call D hi cc) status reply p w"
| "db_callback D hi now cc Store_ack_cb status reply w = store_ack_cb status reply w"
| "db_callback D hi now cc (Recovery_reply_cb p) status reply w = recovery_reply_cb D (\<lambda>_ _ _ w. w) now status reply p w"
| "db_callback D hi now cc (Simple_ack_cb p) status reply w = simple_ack_cb D (\<lambda>_ _ w. w) status reply p w"
| "db_callback D hi now cc (Assoc_query_reply_cb p) status reply w = assoc_query_reply_cb D (\<lambda>_ _ _ _ w. w) status reply p w"

text \<open>
  A callback may call another before it returns: an EVALSHA reply calls its user's callback,
  which may issue an EVALSHA that fails at once and calls \<^emph>\<open>its\<close> user's callback. The depth of
  that nesting is the argument; at depth 0 nothing is called.
\<close>

fun db_call_at ::
    "('r, 'p) dpdk \<Rightarrow> 'h hiredis \<Rightarrow> u64 \<Rightarrow> nat \<Rightarrow> ('r, 'p, 'h, 'a) flow_st_scheme db_call" where
  "db_call_at D hi now 0 = (\<lambda>cb status reply w. w)"
| "db_call_at D hi now (Suc n) = db_callback D hi now (db_call_at D hi now n)"

definition db_call :: "('r, 'p) dpdk \<Rightarrow> 'h hiredis \<Rightarrow> u64 \<Rightarrow> ('r, 'p, 'h, 'a) flow_st_scheme db_call" where
  "db_call D hi now = db_call_at D hi now 3"

end
