(* ===== verification/Calls.thy ===== *)
theory Calls
  imports Event_loop "HOL-Library.Multiset"
begin

section \<open>The callbacks that wait for a reply\<close>

text \<open>
  The multiset of callbacks whose commands wait on some connection: what the program has asked
  the database and not yet heard. Sending a command adds its callback, delivering a reply
  removes it; nothing else changes the multiset.
\<close>

definition cb_of :: "('r, 'p, 'h, 'a) db_st_scheme \<Rightarrow> ptr \<Rightarrow> v_db_cb" where
  "cb_of w q = the (pend_cb (db_pending_at w q))"

definition calls ::
    "('h \<Rightarrow> (string list \<times> ptr) list) \<Rightarrow> ('r, 'p, 'h, 'a) db_st_scheme \<Rightarrow> v_db_cb multiset" where
  "calls waiting w = (\<Sum>s < V_STUB_DB_SHARDS. image_mset (cb_of w) (mset (waits waiting w s)))"

text \<open>Every waiting object records a callback.\<close>

definition calls_set :: "('h \<Rightarrow> (string list \<times> ptr) list) \<Rightarrow> ('r, 'p, 'h, 'a) db_st_scheme \<Rightarrow> bool" where
  "calls_set waiting w \<longleftrightarrow>
     (\<forall>s < V_STUB_DB_SHARDS. \<forall>q \<in> set (waits waiting w s). pend_cb (db_pending_at w q) \<noteq> None)"

lemma waits_cong: "g_ctx w' = g_ctx w \<Longrightarrow> waits waiting w' = waits waiting w"
  by (rule ext) (simp add: waits_def)

lemma calls_agree:
  assumes "waits waiting w' = waits waiting w"
    and "\<And>s q. s < V_STUB_DB_SHARDS \<Longrightarrow> q \<in> set (waits waiting w s) \<Longrightarrow> db_pending_at w' q = db_pending_at w q"
  shows "calls waiting w' = calls waiting w" "calls_set waiting w' = calls_set waiting w"
proof -
  show "calls waiting w' = calls waiting w"
    unfolding calls_def assms(1)
    by (intro sum.cong refl image_mset_cong) (simp add: assms(2) cb_of_def)
  show "calls_set waiting w' = calls_set waiting w"
    unfolding calls_set_def assms(1) using assms(2) by simp
qed

lemma calls_cong:
  assumes "g_ctx w' = g_ctx w" and "db_pending_at w' = db_pending_at w"
  shows "calls waiting w' = calls waiting w" "calls_set waiting w' = calls_set waiting w"
  using calls_agree [OF waits_cong [OF assms(1)]] assms(2) by auto

text \<open>The sum over the connections when one of them gets one more or one less entry.\<close>

lemma sum_add_one:
  fixes f g :: "nat \<Rightarrow> 'b multiset"
  assumes "s < n" and "g s = add_mset x (f s)" and "\<And>t. t \<noteq> s \<Longrightarrow> g t = f t"
  shows "(\<Sum>t < n. g t) = add_mset x (\<Sum>t < n. f t)"
proof -
  have fin: "finite {..< n}" "s \<in> {..< n}" using assms(1) by simp_all
  have "(\<Sum>t \<in> {..< n} - {s}. g t) = (\<Sum>t \<in> {..< n} - {s}. f t)"
    using assms(3) by (intro sum.cong) auto
  then show ?thesis
    using sum.remove [OF fin, of g] sum.remove [OF fin, of f] assms(2) by simp
qed

lemma db_inv_fresh:
  assumes "db_inv D free waiting A (insert p H) w" and "s < V_STUB_DB_SHARDS"
  shows "p \<notin> set (waits waiting w s)"
  using assms by (auto simp: db_inv_def)

lemma db_cmd_calls:
  assumes l: "hiredis_laws hi waiting" and i: "db_inv D free waiting A H w"
    and c: "v_port_db_cmd D hi shard cb args w = (rc, w')"
  shows "db_inv D free waiting A H w'"
    and "calls waiting w' = (if rc = RET_CODE_OK then add_mset cb (calls waiting w) else calls waiting w)"
    and "calls_set waiting w \<Longrightarrow> calls_set waiting w'"
    and "rc = RET_CODE_OK \<or> rc = RET_CODE_ERR"
proof -
  show "db_inv D free waiting A H w'" "rc = RET_CODE_OK \<or> rc = RET_CODE_ERR"
    using l i c by (cases rule: db_cmd_cases; simp)+
  have "calls waiting w' = (if rc = RET_CODE_OK then add_mset cb (calls waiting w) else calls waiting w) \<and>
    (calls_set waiting w \<longrightarrow> calls_set waiting w')"
  proof (cases "V_STUB_DB_SHARDS \<le> unat shard \<or> g_ctx w (unat shard) = None \<or> db_pending_get D (Some cb) w = None")
    case True
    then have "rc = RET_CODE_ERR" "w' = w"
      using c by (auto simp: v_port_db_cmd_def split: if_splits option.splits)
    then show ?thesis by simp
  next
    case False
    then obtain h p w1 where s: "unat shard < V_STUB_DB_SHARDS" and h: "g_ctx w (unat shard) = Some h"
      and g: "db_pending_get D (Some cb) w = Some (p, w1)"
      by (auto simp: not_le)
    note get = db_pending_get_inv [OF i g]
    have at: "db_pending_at w1 = (db_pending_at w)(p := \<lparr>pend_cb = Some cb\<rparr>)"
      using g by (auto simp: db_pending_get_def split: option.splits)
    have same: "calls waiting w1 = calls waiting w" "calls_set waiting w1 = calls_set waiting w"
      by (rule calls_agree [OF waits_cong [OF get(3)]];
          use db_inv_fresh [OF get(2)] waits_cong [OF get(3), of waiting] in \<open>auto simp: at\<close>)+
    show ?thesis
    proof (cases "redisAsyncCommand hi h args p")
      case None
      with c s h g have r: "rc = RET_CODE_ERR" "w' = w1\<lparr>g_db_pool := pool_put D p (g_db_pool w1)\<rparr>"
        by (auto simp: v_port_db_cmd_def)
      have "calls waiting w' = calls waiting w1" "calls_set waiting w' = calls_set waiting w1"
        by (rule calls_cong; simp add: r)+
      then show ?thesis using same r by simp
    next
      case (Some h')
      with c s h g have r: "rc = RET_CODE_OK" "w' = w1\<lparr>g_ctx := (g_ctx w1)(unat shard := Some h')\<rparr>"
        by (auto simp: v_port_db_cmd_def)
      have "waiting h' = waiting h @ [(args, p)]" using l Some by (simp add: hiredis_laws_def)
      then have w': "waits waiting w' t = (if t = unat shard then waits waiting w1 t @ [p] else waits waiting w1 t)" for t
        using h get(3) by (simp add: waits_def r)
      have e: "cb_of w' = cb_of w1" by (rule ext) (simp add: r cb_of_def)
      have "calls waiting w' = add_mset (cb_of w1 p) (calls waiting w1)"
        unfolding calls_def e by (rule sum_add_one [OF s]) (simp_all add: w')
      moreover have "cb_of w1 p = cb" by (simp add: cb_of_def at)
      moreover have "db_pending_at w' = db_pending_at w1" by (simp add: r)
      then have "calls_set waiting w'" if "calls_set waiting w1"
        using that at by (fastforce simp: calls_set_def w' split: if_splits)
      ultimately show ?thesis using same r by simp
    qed
  qed
  then show "calls waiting w' = (if rc = RET_CODE_OK then add_mset cb (calls waiting w) else calls waiting w)"
    "calls_set waiting w \<Longrightarrow> calls_set waiting w'" by blast+
qed

text \<open>A reply is read: its command leaves the queue.\<close>

lemma pop_calls:
  assumes c: "g_ctx w s = Some h" "s < V_STUB_DB_SHARDS" and h: "waiting h = (args, q) # rest" "waiting h' = rest"
    and a: "calls_set waiting w"
  shows "calls waiting w = add_mset (cb_of w q) (calls waiting (w\<lparr>g_ctx := (g_ctx w)(s := Some h')\<rparr>))"
    and "calls_set waiting (w\<lparr>g_ctx := (g_ctx w)(s := Some h')\<rparr>)"
    and "pend_cb (db_pending_at w q) = Some (cb_of w q)"
proof -
  let ?w = "w\<lparr>g_ctx := (g_ctx w)(s := Some h')\<rparr>"
  have ws: "waits waiting w s = q # waits waiting ?w s" and wt: "t \<noteq> s \<Longrightarrow> waits waiting w t = waits waiting ?w t" for t
    using c h by (simp_all add: waits_def)
  have e: "cb_of ?w = cb_of w" by (rule ext) (simp add: cb_of_def)
  show "calls waiting w = add_mset (cb_of w q) (calls waiting ?w)"
    unfolding calls_def e by (rule sum_add_one [OF c(2)]) (simp_all add: ws wt)
  have "set (waits waiting ?w t) \<subseteq> set (waits waiting w t)" for t using ws wt [of t] by (cases "t = s") auto
  then show "calls_set waiting ?w" using a by (fastforce simp: calls_set_def)
  show "pend_cb (db_pending_at w q) = Some (cb_of w q)"
    using a c(2) ws by (auto simp: calls_set_def cb_of_def)
qed

text \<open>Whatever the reply is, the recorded callback runs once and the object goes back.\<close>

definition delivered :: "hreply \<Rightarrow> ('r, 'p, 'h, 'a) db_st_scheme \<Rightarrow> v_db_reply option" where
  "delivered r w =
     (if r = H_null then None else case convert_reply r (g_scratch w, 0) of (i, g, used) \<Rightarrow> map_option (reply_at g) i)"

lemma on_reply_runs:
  assumes "pend_cb (db_pending_at w q) = Some cb"
  shows "\<exists>g used. on_reply D cc r q w =
    (let w2 = cc cb (if r = H_null then RET_CODE_ERR else RET_CODE_OK) (delivered r w) (w\<lparr>g_scratch := g, g_scratch_used := used\<rparr>)
     in w2\<lparr>g_db_pool := pool_put D q (g_db_pool w2)\<rparr>)"
proof (cases "r = H_null")
  case True
  have "w\<lparr>g_scratch_used := 0\<rparr> = w\<lparr>g_scratch := g_scratch w, g_scratch_used := 0\<rparr>" by simp
  with True assms show ?thesis
    by (intro exI [of _ "g_scratch w"] exI [of _ 0]) (simp add: on_reply_def delivered_def)
next
  case False
  obtain i g used where "convert_reply r (g_scratch w, 0) = (i, g, used)" by (metis prod_cases3)
  with False assms show ?thesis by (intro exI [of _ g] exI [of _ used]) (simp add: on_reply_def delivered_def)
qed

end
