(* ===== verification/Ownership.thy ===== *)
theory Ownership
  imports V_txn Calls
begin

section \<open>Who owns what: an account of every pooled object\<close>

text \<open>
  Each object the session flows take from a pool (pending calls, contexts, decoded messages,
  transactions) is at every moment in exactly one place: free in its pool, in the hands of the
  running code, or owned by a command that waits for its reply: the command's callback leads
  through pending objects to a transaction, and the transaction to its request and contexts. A
  token stands for one such object, \<open>cb_toks\<close> gives the tokens a callback owns, and \<open>acct X w\<close>
  says that the waiting callbacks and the running code, which holds \<open>X\<close>, own every object that
  is not free, each once.
\<close>

datatype tok =
    Tdb ptr
  | Tev ptr
  | Tld ptr
  | Tss ptr
  | Trt ptr
  | Tcx ptr
  | Tms ptr
  | Ttx ptr

definition held :: "(ptr \<Rightarrow> tok) \<Rightarrow> tok multiset \<Rightarrow> ptr set" where
  "held k K = {p. k p \<in># K}"

definition uniq :: "tok multiset \<Rightarrow> bool" where
  "uniq K \<longleftrightarrow> (\<forall>k. count K k \<le> 1)"

lemma held_simps [simp]:
  "held k {#} = {}" "held k (add_mset x K) = {p. k p = x} \<union> held k K" "held k (K + L) = held k K \<union> held k L"
  by (auto simp: held_def)

lemma uniq_add [simp]: "uniq (add_mset k K) \<longleftrightarrow> k \<notin># K \<and> uniq K"
proof
  assume u: "uniq (add_mset k K)"
  have c: "count (add_mset k K) j \<le> 1" for j using u by (simp add: uniq_def)
  have "count K k = 0" using c [of k] by simp
  moreover have "count K j \<le> 1" for j using c [of j] by (simp split: if_splits)
  ultimately show "k \<notin># K \<and> uniq K" by (simp add: uniq_def count_eq_zero_iff)
next
  assume "k \<notin># K \<and> uniq K"
  then show "uniq (add_mset k K)" by (simp add: uniq_def not_in_iff)
qed

lemma uniq_empty [simp]: "uniq {#}"
  by (simp add: uniq_def)

lemma not_held [simp]: "p \<notin> held k K \<longleftrightarrow> k p \<notin># K"
  by (simp add: held_def)

lemma in_held: "p \<in> held k K \<longleftrightarrow> k p \<in># K"
  by (simp add: held_def)

subsection \<open>What a callback owns\<close>

definition opt_tok :: "(ptr \<Rightarrow> tok) \<Rightarrow> ptr \<Rightarrow> tok multiset" where
  "opt_tok k p = (if p = 0 then {#} else {#k p#})"

lemma opt_tok_simps [simp]: "opt_tok k 0 = {#}" "p \<noteq> 0 \<Longrightarrow> opt_tok k p = {#k p#}"
  by (simp_all add: opt_tok_def)

definition rec_toks :: "v_txn \<Rightarrow> tok multiset" where
  "rec_toks x = opt_tok Tms (t_req x) + opt_tok Tcx (t_ctx x) + opt_tok Tcx (t_impl x)"

definition txn_toks :: "('r, 'p, 'h, 'a) txn_st_scheme \<Rightarrow> ptr \<Rightarrow> tok multiset" where
  "txn_toks w t = add_mset (Ttx t) (rec_toks (txn_at w t))"

fun sess_txn :: "v_sess_pending \<Rightarrow> ptr option" where
  "sess_txn (Sess_read (Mod_read_cb t) ctx) = Some t"
| "sess_txn (Sess_read (Del_read_cb t) ctx) = Some t"
| "sess_txn (Sess_cas (Cas_write_cb t) v) = Some t"
| "sess_txn (Sess_cas (Mod_cas_cb t) v) = Some t"
| "sess_txn (Sess_cas (Mod_compensate_write_cb t) v) = Some t"
| "sess_txn (Sess_cas (Del_delete_cb t) v) = Some t"
| "sess_txn (Sess_cas Delete_pending_noop_cb v) = None"
| "sess_txn (Sess_cas Delete_pending_cb v) = None"
| "sess_txn (Sess_simple (Confirm_cb t)) = Some t"
| "sess_txn (Sess_simple Confirm_retry_cb) = None"

text \<open>What the transaction looks like when the callback runs.\<close>

fun sess_ok :: "(ptr \<Rightarrow> v_txn) \<Rightarrow> v_sess_pending \<Rightarrow> bool" where
  "sess_ok x (Sess_read (Mod_read_cb t) ctx) \<longleftrightarrow> t_impl (x t) = 0 \<and> t_ctx (x t) = ctx \<and> ctx \<noteq> 0"
| "sess_ok x (Sess_read (Del_read_cb t) ctx) \<longleftrightarrow> t_impl (x t) = 0 \<and> t_ctx (x t) = ctx \<and> ctx \<noteq> 0"
| "sess_ok x (Sess_cas (Cas_write_cb t) v) \<longleftrightarrow> t_impl (x t) = 0"
| "sess_ok x (Sess_cas (Mod_cas_cb t) v) \<longleftrightarrow> t_ctx (x t) \<noteq> 0"
| "sess_ok x (Sess_cas (Mod_compensate_write_cb t) v) \<longleftrightarrow> t_impl (x t) = 0"
| "sess_ok x (Sess_cas (Del_delete_cb t) v) \<longleftrightarrow> t_impl (x t) = 0 \<and> t_ctx (x t) \<noteq> 0"
| "sess_ok x (Sess_cas Delete_pending_noop_cb v) \<longleftrightarrow> True"
| "sess_ok x (Sess_cas Delete_pending_cb v) \<longleftrightarrow> True"
| "sess_ok x (Sess_simple (Confirm_cb t)) \<longleftrightarrow> t_impl (x t) = 0"
| "sess_ok x (Sess_simple Confirm_retry_cb) \<longleftrightarrow> True"

definition sess_toks :: "('r, 'p, 'h, 'a) txn_st_scheme \<Rightarrow> v_sess_pending \<Rightarrow> tok multiset" where
  "sess_toks w u = (case sess_txn u of None \<Rightarrow> {#} | Some t \<Rightarrow> txn_toks w t)"

fun retrans_txn :: "v_retrans_cb \<Rightarrow> ptr" where
  "retrans_txn (Retrans_lookup_cb t) = t"
| "retrans_txn (Mod_retrans_lookup_cb t) = t"
| "retrans_txn (Del_retrans_lookup_cb t) = t"

text \<open>Callbacks of the users of the database port and of \<^verbatim>\<open>v_db_evalsha\<close>.\<close>

fun ucb_toks :: "('r, 'p, 'h, 'a) retrans_st_scheme \<Rightarrow> v_db_cb \<Rightarrow> tok multiset" where
  "ucb_toks w (Read_reply_cb p) = add_mset (Tss p) (sess_toks w (sess_pending_at w p))"
| "ucb_toks w (Cas_write_reply_cb p) = add_mset (Tss p) (sess_toks w (sess_pending_at w p))"
| "ucb_toks w (Confirm_reply_cb p) = add_mset (Tss p) (sess_toks w (sess_pending_at w p))"
| "ucb_toks w (Delete_reply_cb p) = add_mset (Tss p) (sess_toks w (sess_pending_at w p))"
| "ucb_toks w (Lookup_reply_cb p) = add_mset (Trt p) (txn_toks w (retrans_txn (retrans_pending_at w p)))"
| "ucb_toks w _ = {#}"

fun ucb_ok :: "('r, 'p, 'h, 'a) retrans_st_scheme \<Rightarrow> v_db_cb \<Rightarrow> bool" where
  "ucb_ok w (Read_reply_cb p) \<longleftrightarrow> (case sess_pending_at w p of Sess_read _ _ \<Rightarrow> True | _ \<Rightarrow> False) \<and> sess_ok (txn_at w) (sess_pending_at w p)"
| "ucb_ok w (Cas_write_reply_cb p) \<longleftrightarrow> (case sess_pending_at w p of Sess_cas _ _ \<Rightarrow> True | _ \<Rightarrow> False) \<and> sess_ok (txn_at w) (sess_pending_at w p)"
| "ucb_ok w (Confirm_reply_cb p) \<longleftrightarrow> (case sess_pending_at w p of Sess_simple _ \<Rightarrow> True | _ \<Rightarrow> False) \<and> sess_ok (txn_at w) (sess_pending_at w p)"
| "ucb_ok w (Delete_reply_cb p) \<longleftrightarrow> (case sess_pending_at w p of Sess_cas _ _ \<Rightarrow> True | _ \<Rightarrow> False) \<and> sess_ok (txn_at w) (sess_pending_at w p)"
| "ucb_ok w (Lookup_reply_cb p) \<longleftrightarrow>
     (let x = txn_at w (retrans_txn (retrans_pending_at w p)) in t_ctx x = 0 \<and> t_impl x = 0)"
| "ucb_ok w (Load_reply_cb p) \<longleftrightarrow> False"
| "ucb_ok w (Evalsha_reply_cb p) \<longleftrightarrow> False"
| "ucb_ok w _ \<longleftrightarrow> True"

definition ev_toks :: "('r, 'p, 'h, 'a) retrans_st_scheme \<Rightarrow> ptr \<Rightarrow> tok multiset" where
  "ev_toks w e = add_mset (Tev e) (case ev_user_cb (evalsha_at w e) of None \<Rightarrow> {#} | Some u \<Rightarrow> ucb_toks w u)"

text \<open>The callbacks that are passed to \<^verbatim>\<open>v_db_evalsha\<close>.\<close>

fun script_user :: "v_db_cb \<Rightarrow> bool" where
  "script_user (Cas_write_reply_cb p) \<longleftrightarrow> True"
| "script_user (Delete_reply_cb p) \<longleftrightarrow> True"
| "script_user (Teid_refill_reply_cb part) \<longleftrightarrow> True"
| "script_user _ \<longleftrightarrow> False"

definition ev_ok :: "('r, 'p, 'h, 'a) retrans_st_scheme \<Rightarrow> ptr \<Rightarrow> bool" where
  "ev_ok w e \<longleftrightarrow> (case ev_user_cb (evalsha_at w e) of None \<Rightarrow> True | Some u \<Rightarrow> script_user u \<and> ucb_ok w u)"

fun cb_toks :: "('r, 'p, 'h, 'a) retrans_st_scheme \<Rightarrow> v_db_cb \<Rightarrow> tok multiset" where
  "cb_toks w (Evalsha_reply_cb e) = ev_toks w e"
| "cb_toks w (Load_reply_cb l) =
     add_mset (Tld l) (case lc_resume (load_at w l) of None \<Rightarrow> {#} | Some e \<Rightarrow> ev_toks w e)"
| "cb_toks w cb = ucb_toks w cb"

fun cb_ok :: "('r, 'p, 'h, 'a) retrans_st_scheme \<Rightarrow> v_db_cb \<Rightarrow> bool" where
  "cb_ok w (Evalsha_reply_cb e) \<longleftrightarrow> ev_ok w e"
| "cb_ok w (Load_reply_cb l) \<longleftrightarrow> (case lc_resume (load_at w l) of None \<Rightarrow> True | Some e \<Rightarrow> ev_ok w e)"
| "cb_ok w cb \<longleftrightarrow> ucb_ok w cb"

lemma ucb_cb: "ucb_ok w cb \<Longrightarrow> cb_toks w cb = ucb_toks w cb \<and> cb_ok w cb"
  by (cases cb) simp_all

text \<open>The tokens depend only on the objects they stand for.\<close>

fun agree_on :: "('r, 'p, 'h, 'a) retrans_st_scheme \<Rightarrow> ('r, 'p, 'h, 'a) retrans_st_scheme \<Rightarrow> tok \<Rightarrow> bool" where
  "agree_on w w' (Tev e) \<longleftrightarrow> evalsha_at w' e = evalsha_at w e"
| "agree_on w w' (Tld l) \<longleftrightarrow> load_at w' l = load_at w l"
| "agree_on w w' (Tss p) \<longleftrightarrow> sess_pending_at w' p = sess_pending_at w p"
| "agree_on w w' (Trt p) \<longleftrightarrow> retrans_pending_at w' p = retrans_pending_at w p"
| "agree_on w w' (Ttx t) \<longleftrightarrow> txn_at w' t = txn_at w t"
| "agree_on w w' (Tdb q) \<longleftrightarrow> True"
| "agree_on w w' (Tcx c) \<longleftrightarrow> True"
| "agree_on w w' (Tms m) \<longleftrightarrow> True"

lemma sess_ok_agree:
  assumes "\<forall>t. sess_txn u = Some t \<longrightarrow> x' t = x t"
  shows "sess_ok x' u = sess_ok x u"
  using assms by (cases u rule: sess_txn.cases) simp_all

lemma sess_toks_agree:
  assumes "\<forall>k \<in># sess_toks w u. agree_on w w' k"
  shows "sess_toks w' u = sess_toks w u" "sess_ok (txn_at w') u = sess_ok (txn_at w) u"
proof -
  have a: "txn_at w' t = txn_at w t" if "sess_txn u = Some t" for t
    using assms that by (simp add: sess_toks_def txn_toks_def)
  then show "sess_ok (txn_at w') u = sess_ok (txn_at w) u" by (intro sess_ok_agree) blast
  show "sess_toks w' u = sess_toks w u"
    using a by (auto simp: sess_toks_def txn_toks_def split: option.split)
qed

lemma ucb_toks_agree:
  assumes a: "\<forall>k \<in># ucb_toks w cb. agree_on w w' k"
  shows "ucb_toks w' cb = ucb_toks w cb \<and> ucb_ok w' cb = ucb_ok w cb"
proof -
  have s: "sess_toks w' (sess_pending_at w p) = sess_toks w (sess_pending_at w p) \<and>
      sess_pending_at w' p = sess_pending_at w p \<and>
      sess_ok (txn_at w') (sess_pending_at w p) = sess_ok (txn_at w) (sess_pending_at w p)"
    if "\<forall>k \<in># add_mset (Tss p) (sess_toks w (sess_pending_at w p)). agree_on w w' k" for p
    using that sess_toks_agree [of w "sess_pending_at w p" w'] by simp
  have r: "retrans_pending_at w' p = retrans_pending_at w p \<and>
      txn_at w' (retrans_txn (retrans_pending_at w p)) = txn_at w (retrans_txn (retrans_pending_at w p))"
    if "\<forall>k \<in># add_mset (Trt p) (txn_toks w (retrans_txn (retrans_pending_at w p))). agree_on w w' k" for p
    using that by (simp add: txn_toks_def)
  show ?thesis
  proof (cases cb)
    case (Read_reply_cb p) then show ?thesis using s [of p] a by simp
  next
    case (Cas_write_reply_cb p) then show ?thesis using s [of p] a by simp
  next
    case (Confirm_reply_cb p) then show ?thesis using s [of p] a by simp
  next
    case (Delete_reply_cb p) then show ?thesis using s [of p] a by simp
  next
    case (Lookup_reply_cb p) then show ?thesis using r [of p] a by (simp add: txn_toks_def)
  qed simp_all
qed

lemma ev_toks_agree:
  assumes "\<forall>k \<in># ev_toks w e. agree_on w w' k"
  shows "ev_toks w' e = ev_toks w e \<and> ev_ok w' e = ev_ok w e"
proof -
  have "evalsha_at w' e = evalsha_at w e" using assms by (simp add: ev_toks_def)
  then show ?thesis
    using assms ucb_toks_agree [of w _ w'] by (simp add: ev_toks_def ev_ok_def split: option.splits)
qed

lemma cb_toks_agree:
  assumes "\<forall>k \<in># cb_toks w cb. agree_on w w' k"
  shows "cb_toks w' cb = cb_toks w cb \<and> cb_ok w' cb = cb_ok w cb"
proof (cases cb)
  case (Evalsha_reply_cb e)
  then show ?thesis using assms ev_toks_agree [of w e w'] by simp
next
  case (Load_reply_cb l)
  then show ?thesis using assms ev_toks_agree [of w _ w'] by (simp split: option.splits)
qed (use assms ucb_toks_agree [of w cb w'] in simp_all)

subsection \<open>The account\<close>

definition inflight ::
    "('h \<Rightarrow> (string list \<times> ptr) list) \<Rightarrow> ('r, 'p, 'h, 'a) retrans_st_scheme \<Rightarrow> tok multiset" where
  "inflight waiting w = (\<Sum>cb \<in># calls waiting w. cb_toks w cb)"

text \<open>All objects of each pool.\<close>

record arena =
  ar_db :: "ptr set"
  ar_ev :: "ptr set"
  ar_ld :: "ptr set"
  ar_ss :: "ptr set"
  ar_rt :: "ptr set"
  ar_cx :: "ptr set"
  ar_ms :: "ptr set"
  ar_tx :: "ptr set"

definition pools ::
    "('r, 'p) dpdk \<Rightarrow> ('p \<Rightarrow> ptr set) \<Rightarrow> arena \<Rightarrow> tok multiset \<Rightarrow> ('r, 'p, 'h, 'a) retrans_st_scheme \<Rightarrow> bool" where
  "pools D free U K w \<longleftrightarrow>
     uniq K \<and>
     owns D free (ar_ev U) (held Tev K) (g_evalsha_pool w) \<and>
     owns D free (ar_ld U) (held Tld K) (g_load_pool w) \<and>
     owns_lazy D free V_SESS_PENDING_POOL_CAP (ar_ss U) (held Tss K) (g_sess_pool w) \<and>
     owns_lazy D free V_RETRANS_PENDING_POOL_CAP (ar_rt U) (held Trt K) (g_retrans_pool w) \<and>
     ctx_inv D free (ar_cx U) (held Tcx K) w \<and>
     msg_inv D free (ar_ms U) (held Tms K) w \<and>
     txn_inv D free (ar_tx U) (held Ttx K) w"

definition acct ::
    "('r, 'p) dpdk \<Rightarrow> ('p \<Rightarrow> ptr set) \<Rightarrow> ('h \<Rightarrow> (string list \<times> ptr) list) \<Rightarrow> arena \<Rightarrow> tok multiset \<Rightarrow>
     ('r, 'p, 'h, 'a) retrans_st_scheme \<Rightarrow> bool" where
  "acct D free waiting U X w \<longleftrightarrow>
     db_inv D free waiting (ar_db U) (held Tdb X) w \<and> calls_set waiting w \<and>
     (\<forall>cb \<in># calls waiting w. cb_ok w cb) \<and> pools D free U (inflight waiting w + X) w"

lemma acct_uniq:
  assumes "acct D free waiting U X w" and "k \<in># X"
  shows "k \<notin># inflight waiting w"
proof
  assume "k \<in># inflight waiting w"
  then have "0 < count (inflight waiting w) k" "0 < count X k" using assms(2) by simp_all
  moreover have "count (inflight waiting w + X) k \<le> 1" using assms(1) by (simp add: acct_def pools_def uniq_def)
  ultimately show False unfolding count_union by linarith
qed

lemma inflight_agree:
  assumes "calls waiting w' = calls waiting w" and "\<forall>k \<in># inflight waiting w. agree_on w w' k"
  shows "inflight waiting w' = inflight waiting w"
    and "(\<forall>cb \<in># calls waiting w'. cb_ok w' cb) = (\<forall>cb \<in># calls waiting w. cb_ok w cb)"
proof -
  have t: "cb_toks w' cb = cb_toks w cb \<and> cb_ok w' cb = cb_ok w cb" if "cb \<in># calls waiting w" for cb
    using that assms(2) by (intro cb_toks_agree) (auto simp: inflight_def)
  show "inflight waiting w' = inflight waiting w"
    unfolding inflight_def assms(1) by (intro arg_cong [where f = sum_mset] image_mset_cong) (simp add: t)
  show "(\<forall>cb \<in># calls waiting w'. cb_ok w' cb) = (\<forall>cb \<in># calls waiting w. cb_ok w cb)"
    unfolding assms(1) using t by auto
qed

text \<open>A step that changes only objects the waiting callbacks do not own.\<close>

lemma acct_step:
  assumes "acct D free waiting U X w"
    and "calls waiting w' = calls waiting w" and "calls_set waiting w'"
    and "db_inv D free waiting (ar_db U) (held Tdb X') w'"
    and "\<And>k. k \<in># inflight waiting w \<Longrightarrow> agree_on w w' k"
    and "pools D free U (inflight waiting w + X') w'"
  shows "acct D free waiting U X' w'"
  using assms inflight_agree [OF assms(2)] by (auto simp: acct_def)

text \<open>The fields the account reads.\<close>

definition same_acct :: "('r, 'p, 'h, 'a) retrans_st_scheme \<Rightarrow> ('r, 'p, 'h, 'a) retrans_st_scheme \<Rightarrow> bool" where
  "same_acct w w' \<longleftrightarrow>
     g_ctx w' = g_ctx w \<and> db_pending_at w' = db_pending_at w \<and> g_db_pool w' = g_db_pool w \<and>
     evalsha_at w' = evalsha_at w \<and> load_at w' = load_at w \<and> sess_pending_at w' = sess_pending_at w \<and>
     retrans_pending_at w' = retrans_pending_at w \<and> txn_at w' = txn_at w \<and> ctx_at w' = ctx_at w \<and>
     pfcp_at w' = pfcp_at w \<and> g_evalsha_pool w' = g_evalsha_pool w \<and> g_load_pool w' = g_load_pool w \<and>
     g_sess_pool w' = g_sess_pool w \<and> g_retrans_pool w' = g_retrans_pool w \<and> g_ctx_pool w' = g_ctx_pool w \<and>
     g_capacity w' = g_capacity w \<and> g_pfcp_pool w' = g_pfcp_pool w \<and> g_txn_pool w' = g_txn_pool w \<and>
     g_slots w' = g_slots w \<and> g_fired w' = g_fired w"

lemma db_inv_cong:
  assumes "g_ctx w' = g_ctx w" and "g_db_pool w' = g_db_pool w"
  shows "db_inv D free waiting A H w' = db_inv D free waiting A H w"
  using assms waits_cong [OF assms(1), of waiting] by (simp add: db_inv_def)

lemma pool_invs_cong:
  "g_ctx_pool w' = g_ctx_pool w \<Longrightarrow> g_capacity w' = g_capacity w \<Longrightarrow> ctx_at w' = ctx_at w \<Longrightarrow>
     ctx_inv D free C H w' = ctx_inv D free C H w"
  "g_pfcp_pool v' = g_pfcp_pool v \<Longrightarrow> pfcp_at v' = pfcp_at v \<Longrightarrow> msg_inv D free C H v' = msg_inv D free C H v"
  "g_txn_pool u' = g_txn_pool u \<Longrightarrow> g_slots u' = g_slots u \<Longrightarrow> g_fired u' = g_fired u \<Longrightarrow>
     txn_inv D free C H u' = txn_inv D free C H u"
  by (simp_all add: ctx_inv_def msg_inv_def txn_inv_def live_def)

lemma acct_same:
  assumes a: "acct D free waiting U X w" and s: "same_acct w w'"
  shows "acct D free waiting U X w'"
proof (rule acct_step [OF a])
  show "calls waiting w' = calls waiting w" "calls_set waiting w'"
    using calls_cong [of w' w waiting] s a by (simp_all add: same_acct_def acct_def)
  show "db_inv D free waiting (ar_db U) (held Tdb X) w'"
    using db_inv_cong [of w' w] s a by (simp add: same_acct_def acct_def)
  show "agree_on w w' k" for k using s by (cases k) (simp_all add: same_acct_def)
  show "pools D free U (inflight waiting w + X) w'"
    using a s pool_invs_cong(1) [of w' w] pool_invs_cong(2) [of w' w] pool_invs_cong(3) [of w' w]
    by (simp add: acct_def pools_def same_acct_def)
qed

end
