(* ===== verification/Ownership_ops.thy ===== *)
theory Ownership_ops
  imports Ownership
begin

section \<open>The account under each operation of the ports and stores\<close>

text \<open>
  One rule per operation: what the running code must hold before it and what it holds after.
  Sending a command hands the tokens of its callback to the connection; a refused command
  leaves them with the caller.
\<close>

lemma no_Tdb [simp]: "Tdb q \<notin># opt_tok Tcx p" "Tdb q \<notin># opt_tok Tms p" "Tdb q \<notin># txn_toks w t"
    "Tdb q \<notin># rec_toks x" "Tdb q \<notin># sess_toks w' u"
  by (auto simp: opt_tok_def txn_toks_def rec_toks_def sess_toks_def split: option.splits)

lemma ucb_toks_no_db [simp]: "Tdb q \<notin># ucb_toks w cb"
  by (cases cb) simp_all

lemma cb_toks_no_db [simp]: "Tdb q \<notin># cb_toks w cb"
  by (cases cb) (simp_all add: ev_toks_def split: option.split)

lemma held_Tdb [simp]: "held Tdb (cb_toks w cb) = {}" "held Tdb (ucb_toks w cb) = {}" "held Tdb (txn_toks w t) = {}"
    "held Tdb (sess_toks w u) = {}" "held Tdb (opt_tok Tcx p) = {}" "held Tdb (opt_tok Tms p) = {}" "held Tdb (rec_toks x) = {}"
  by (simp_all add: held_def)

subsection \<open>Commands\<close>

lemma db_cmd_only:
  "\<exists>c b p. snd (v_port_db_cmd D hi shard cb args w) = w\<lparr>g_ctx := c, db_pending_at := b, g_db_pool := p\<rparr>"
proof -
  let ?w' = "snd (v_port_db_cmd D hi shard cb args w)"
  have "?w' = w\<lparr>g_ctx := g_ctx ?w', db_pending_at := db_pending_at ?w', g_db_pool := g_db_pool ?w'\<rparr>"
    by (simp add: v_port_db_cmd_def db_pending_get_def split: option.split)
  then show ?thesis by blast
qed

lemma acct_cmd:
  assumes l: "hiredis_laws hi waiting" and a: "acct D free waiting U (cb_toks w cb + X) w" and ok: "cb_ok w cb"
    and c: "v_port_db_cmd D hi shard cb args w = (rc, w')"
  shows "acct D free waiting U (if rc = RET_CODE_OK then X else cb_toks w cb + X) w'"
    and "rc = RET_CODE_OK \<or> rc = RET_CODE_ERR"
proof -
  have i: "db_inv D free waiting (ar_db U) (held Tdb X) w" using a by (simp add: acct_def)
  note e = db_cmd_calls [OF l i c]
  show "rc = RET_CODE_OK \<or> rc = RET_CODE_ERR" by (rule e(4))
  obtain g b p where w': "w' = w\<lparr>g_ctx := g, db_pending_at := b, g_db_pool := p\<rparr>"
    using db_cmd_only [of D hi shard cb args w] c by auto
  have ag: "agree_on w w' k" for k by (cases k) (simp_all add: w')
  have t: "cb_toks w' x = cb_toks w x" "cb_ok w' x = cb_ok w x" for x using cb_toks_agree [of w x w'] ag by auto
  have p: "pools D free U K w' = pools D free U K w" for K
    unfolding pools_def
    using pool_invs_cong(1) [of w' w] pool_invs_cong(2) [of w' w] pool_invs_cong(3) [of w' w] by (simp add: w')
  have inf: "inflight waiting w' = (if rc = RET_CODE_OK then cb_toks w cb + inflight waiting w else inflight waiting w)"
    by (simp add: inflight_def e(2) t(1))
  have "pools D free U (inflight waiting w + (cb_toks w cb + X)) w" using a by (simp add: acct_def)
  then show "acct D free waiting U (if rc = RET_CODE_OK then X else cb_toks w cb + X) w'"
    using a e(1,3) ok by (auto simp: acct_def p t inf e(2) ac_simps)
qed

text \<open>A command whose callback owns nothing.\<close>

lemma acct_cmd_free:
  assumes "hiredis_laws hi waiting" and "acct D free waiting U X w" and "cb_toks w cb = {#}" "cb_ok w cb"
  shows "acct D free waiting U X (snd (v_port_db_cmd D hi shard cb args w))"
proof -
  obtain rc w' where c: "v_port_db_cmd D hi shard cb args w = (rc, w')" by fastforce
  have "acct D free waiting U (cb_toks w cb + X) w" using assms(2,3) by simp
  from acct_cmd(1) [OF assms(1) this assms(4) c] show ?thesis using assms(3) c by (simp split: if_splits)
qed

subsection \<open>Pools and the fields they do not read\<close>

lemma ctx_inv_frame [simp]:
  "ctx_inv D free C H (w1\<lparr>g_sess_pool := x1\<rparr>) = ctx_inv D free C H w1"
  "ctx_inv D free C H (w2\<lparr>sess_pending_at := x2\<rparr>) = ctx_inv D free C H w2"
  "ctx_inv D free C H (w3\<lparr>g_retrans_pool := x3\<rparr>) = ctx_inv D free C H w3"
  "ctx_inv D free C H (w4\<lparr>retrans_pending_at := x4\<rparr>) = ctx_inv D free C H w4"
  "ctx_inv D free C H (w5\<lparr>g_evalsha_pool := x5\<rparr>) = ctx_inv D free C H w5"
  "ctx_inv D free C H (w6\<lparr>evalsha_at := x6\<rparr>) = ctx_inv D free C H w6"
  "ctx_inv D free C H (w7\<lparr>g_load_pool := x7\<rparr>) = ctx_inv D free C H w7"
  "ctx_inv D free C H (w8\<lparr>load_at := x8\<rparr>) = ctx_inv D free C H w8"
  "ctx_inv D free C H (w9\<lparr>g_pfcp_pool := x9\<rparr>) = ctx_inv D free C H w9"
  "ctx_inv D free C H (v1\<lparr>pfcp_at := y1\<rparr>) = ctx_inv D free C H v1"
  "ctx_inv D free C H (v2\<lparr>g_txn_pool := y2\<rparr>) = ctx_inv D free C H v2"
  "ctx_inv D free C H (v3\<lparr>txn_at := y3\<rparr>) = ctx_inv D free C H v3"
  "ctx_inv D free C H (v4\<lparr>g_slots := y4\<rparr>) = ctx_inv D free C H v4"
  "ctx_inv D free C H (v5\<lparr>g_fired := y5\<rparr>) = ctx_inv D free C H v5"
  by (simp_all add: ctx_inv_def)

lemma msg_inv_frame [simp]:
  "msg_inv D free C H (w1\<lparr>g_sess_pool := x1\<rparr>) = msg_inv D free C H w1"
  "msg_inv D free C H (w2\<lparr>sess_pending_at := x2\<rparr>) = msg_inv D free C H w2"
  "msg_inv D free C H (w3\<lparr>g_retrans_pool := x3\<rparr>) = msg_inv D free C H w3"
  "msg_inv D free C H (w4\<lparr>retrans_pending_at := x4\<rparr>) = msg_inv D free C H w4"
  "msg_inv D free C H (w5\<lparr>g_evalsha_pool := x5\<rparr>) = msg_inv D free C H w5"
  "msg_inv D free C H (w6\<lparr>evalsha_at := x6\<rparr>) = msg_inv D free C H w6"
  "msg_inv D free C H (w7\<lparr>g_load_pool := x7\<rparr>) = msg_inv D free C H w7"
  "msg_inv D free C H (w8\<lparr>load_at := x8\<rparr>) = msg_inv D free C H w8"
  "msg_inv D free C H (w9\<lparr>g_ctx_pool := x9\<rparr>) = msg_inv D free C H w9"
  "msg_inv D free C H (v1\<lparr>ctx_at := y1\<rparr>) = msg_inv D free C H v1"
  "msg_inv D free C H (v2\<lparr>g_txn_pool := y2\<rparr>) = msg_inv D free C H v2"
  "msg_inv D free C H (v3\<lparr>txn_at := y3\<rparr>) = msg_inv D free C H v3"
  "msg_inv D free C H (v4\<lparr>g_slots := y4\<rparr>) = msg_inv D free C H v4"
  "msg_inv D free C H (v5\<lparr>g_fired := y5\<rparr>) = msg_inv D free C H v5"
  by (simp_all add: msg_inv_def)

lemma txn_inv_frame [simp]:
  "txn_inv D free C H (w1\<lparr>g_sess_pool := x1\<rparr>) = txn_inv D free C H w1"
  "txn_inv D free C H (w2\<lparr>sess_pending_at := x2\<rparr>) = txn_inv D free C H w2"
  "txn_inv D free C H (w3\<lparr>g_retrans_pool := x3\<rparr>) = txn_inv D free C H w3"
  "txn_inv D free C H (w4\<lparr>retrans_pending_at := x4\<rparr>) = txn_inv D free C H w4"
  "txn_inv D free C H (w5\<lparr>g_evalsha_pool := x5\<rparr>) = txn_inv D free C H w5"
  "txn_inv D free C H (w6\<lparr>evalsha_at := x6\<rparr>) = txn_inv D free C H w6"
  "txn_inv D free C H (w7\<lparr>g_load_pool := x7\<rparr>) = txn_inv D free C H w7"
  "txn_inv D free C H (w8\<lparr>load_at := x8\<rparr>) = txn_inv D free C H w8"
  "txn_inv D free C H (w9\<lparr>g_pfcp_pool := x9\<rparr>) = txn_inv D free C H w9"
  "txn_inv D free C H (v1\<lparr>pfcp_at := y1\<rparr>) = txn_inv D free C H v1"
  "txn_inv D free C H (v2\<lparr>g_ctx_pool := y2\<rparr>) = txn_inv D free C H v2"
  "txn_inv D free C H (v3\<lparr>ctx_at := y3\<rparr>) = txn_inv D free C H v3"
  "txn_inv D free C H (v4\<lparr>txn_at := y4\<rparr>) = txn_inv D free C H v4"
  by (simp_all add: txn_inv_def live_def)

lemma acct_pools: "acct D free waiting U X w \<Longrightarrow> pools D free U (inflight waiting w + X) w"
  by (simp add: acct_def)

text \<open>A step that leaves the connections alone.\<close>

lemma acct_local:
  assumes a: "acct D free waiting U X w"
    and w': "g_ctx w' = g_ctx w" "db_pending_at w' = db_pending_at w" "g_db_pool w' = g_db_pool w"
    and "held Tdb X' = held Tdb X"
    and "\<And>k. k \<in># inflight waiting w \<Longrightarrow> agree_on w w' k"
    and "pools D free U (inflight waiting w + X') w'"
  shows "acct D free waiting U X' w'"
  using calls_cong [OF w'(1,2), of waiting] db_inv_cong [OF w'(1,3)] assms
  by (intro acct_step [OF a]) (simp_all add: acct_def)

subsection \<open>Pending objects of the stores\<close>

lemma acct_sess_get:
  assumes a: "acct D free waiting U X w" and g: "sess_get D u w = Some (p, w')"
  shows "acct D free waiting U (add_mset (Tss p) X) w'"
    and "w' = w\<lparr>g_sess_pool := g_sess_pool w', sess_pending_at := (sess_pending_at w)(p := u)\<rparr>"
proof -
  note P = acct_pools [OF a]
  obtain pool where pool: "pool_get D (g_sess_pool w) = Some (p, pool)"
    and w': "w' = w\<lparr>g_sess_pool := Some pool, sess_pending_at := (sess_pending_at w)(p := u)\<rparr>"
    using g by (auto simp: sess_get_def split: option.splits)
  have "owns_lazy D free V_SESS_PENDING_POOL_CAP (ar_ss U) (held Tss (inflight waiting w + X)) (g_sess_pool w)" using P by (simp add: pools_def)
  from owns_lazy_get [OF this pool] have "owns D free (ar_ss U) (held Tss (inflight waiting w + X)) (g_sess_pool w)" .
  note get = owns_get [OF this pool]
  have f: "Tss p \<notin># inflight waiting w" "Tss p \<notin># X" using get(2) by auto
  have "agree_on w w' k" if "k \<in># inflight waiting w" for k using that f(1) by (cases k) (auto simp: w')
  then show "acct D free waiting U (add_mset (Tss p) X) w'"
    using P f get(3) by (intro acct_local [OF a]) (simp_all add: pools_def w')
  show "w' = w\<lparr>g_sess_pool := g_sess_pool w', sess_pending_at := (sess_pending_at w)(p := u)\<rparr>" by (simp add: w')
qed

lemma acct_sess_put:
  assumes a: "acct D free waiting U (add_mset (Tss p) X) w"
  shows "acct D free waiting U X (sess_put D p w)"
proof -
  note P = acct_pools [OF a]
  have f: "Tss p \<notin># inflight waiting w + X"
    and "owns_lazy D free V_SESS_PENDING_POOL_CAP (ar_ss U) (insert p (held Tss (inflight waiting w + X))) (g_sess_pool w)"
    using P by (simp_all add: pools_def)
  from owns_lazy_held [OF this(2), of p] f
  have "owns D free (ar_ss U) (held Tss (inflight waiting w + X)) (pool_put D p (g_sess_pool w))"
    by (intro owns_put) simp_all
  then have "owns_lazy D free V_SESS_PENDING_POOL_CAP (ar_ss U) (held Tss (inflight waiting w + X)) (pool_put D p (g_sess_pool w))"
    by (rule owns_lazy_put)
  moreover have "agree_on w (sess_put D p w) k" for k by (cases k) (simp_all add: sess_put_def)
  ultimately show ?thesis using P by (intro acct_local [OF a]) (simp_all add: pools_def sess_put_def)
qed

lemma acct_retrans_get:
  assumes a: "acct D free waiting U X w" and g: "pool_get D (g_retrans_pool w) = Some (p, pool)"
  shows "acct D free waiting U (add_mset (Trt p) X)
    (w\<lparr>g_retrans_pool := Some pool, retrans_pending_at := (retrans_pending_at w)(p := cb)\<rparr>)"
proof -
  let ?w' = "w\<lparr>g_retrans_pool := Some pool, retrans_pending_at := (retrans_pending_at w)(p := cb)\<rparr>"
  note P = acct_pools [OF a]
  have "owns_lazy D free V_RETRANS_PENDING_POOL_CAP (ar_rt U) (held Trt (inflight waiting w + X)) (g_retrans_pool w)" using P by (simp add: pools_def)
  from owns_lazy_get [OF this g] have "owns D free (ar_rt U) (held Trt (inflight waiting w + X)) (g_retrans_pool w)" .
  note get = owns_get [OF this g]
  have f: "Trt p \<notin># inflight waiting w" "Trt p \<notin># X" using get(2) by auto
  have "agree_on w ?w' k" if "k \<in># inflight waiting w" for k using that f(1) by (cases k) auto
  then show ?thesis using P f get(3) by (intro acct_local [OF a]) (simp_all add: pools_def)
qed

lemma acct_retrans_put:
  assumes a: "acct D free waiting U (add_mset (Trt p) X) w"
  shows "acct D free waiting U X (retrans_put D p w)"
proof -
  note P = acct_pools [OF a]
  have f: "Trt p \<notin># inflight waiting w + X"
    and "owns_lazy D free V_RETRANS_PENDING_POOL_CAP (ar_rt U) (insert p (held Trt (inflight waiting w + X))) (g_retrans_pool w)"
    using P by (simp_all add: pools_def)
  from owns_lazy_held [OF this(2), of p] f
  have "owns D free (ar_rt U) (held Trt (inflight waiting w + X)) (pool_put D p (g_retrans_pool w))"
    by (intro owns_put) simp_all
  then have "owns_lazy D free V_RETRANS_PENDING_POOL_CAP (ar_rt U) (held Trt (inflight waiting w + X)) (pool_put D p (g_retrans_pool w))"
    by (rule owns_lazy_put)
  moreover have "agree_on w (retrans_put D p w) k" for k by (cases k) (simp_all add: retrans_put_def)
  ultimately show ?thesis using P by (intro acct_local [OF a]) (simp_all add: pools_def retrans_put_def)
qed

subsection \<open>Pending objects of the script module\<close>

lemma acct_evalsha_get:
  assumes a: "acct D free waiting U X w" and g: "pool_get D (g_evalsha_pool w) = Some (p, pool)"
  shows "acct D free waiting U (add_mset (Tev p) X) (w\<lparr>g_evalsha_pool := Some pool, evalsha_at := (evalsha_at w)(p := e)\<rparr>)"
proof -
  let ?w' = "w\<lparr>g_evalsha_pool := Some pool, evalsha_at := (evalsha_at w)(p := e)\<rparr>"
  note P = acct_pools [OF a]
  have "owns D free (ar_ev U) (held Tev (inflight waiting w + X)) (g_evalsha_pool w)" using P by (simp add: pools_def)
  note get = owns_get [OF this g]
  have f: "Tev p \<notin># inflight waiting w" "Tev p \<notin># X" using get(2) by auto
  have "agree_on w ?w' k" if "k \<in># inflight waiting w" for k using that f(1) by (cases k) auto
  then show ?thesis using P f get(3) by (intro acct_local [OF a]) (simp_all add: pools_def)
qed

lemma acct_evalsha_upd:
  assumes a: "acct D free waiting U X w" and p: "Tev p \<in># X"
  shows "acct D free waiting U X (w\<lparr>evalsha_at := (evalsha_at w)(p := e)\<rparr>)"
proof -
  have "agree_on w (w\<lparr>evalsha_at := (evalsha_at w)(p := e)\<rparr>) k" if "k \<in># inflight waiting w" for k
    using that acct_uniq [OF a p] by (cases k) auto
  then show ?thesis using acct_pools [OF a] by (intro acct_local [OF a]) (simp_all add: pools_def)
qed

lemma acct_evalsha_put:
  assumes a: "acct D free waiting U (add_mset (Tev p) X) w"
  shows "acct D free waiting U X (evalsha_put D p w)"
proof -
  note P = acct_pools [OF a]
  have "owns D free (ar_ev U) (insert p (held Tev (inflight waiting w + X))) (g_evalsha_pool w)" "Tev p \<notin># inflight waiting w + X"
    using P by (simp_all add: pools_def)
  then have "owns D free (ar_ev U) (held Tev (inflight waiting w + X)) (pool_put D p (g_evalsha_pool w))"
    by (intro owns_put) simp_all
  moreover have "agree_on w (evalsha_put D p w) k" for k by (cases k) (simp_all add: evalsha_put_def)
  ultimately show ?thesis using P by (intro acct_local [OF a]) (simp_all add: pools_def evalsha_put_def)
qed

lemma acct_evalsha_pool:
  assumes a: "acct D free waiting U X w"
    and o: "owns D free (ar_ev U) (held Tev (inflight waiting w + X)) (g_evalsha_pool w) \<longrightarrow>
      owns D free (ar_ev U) (held Tev (inflight waiting w + X)) pool"
  shows "acct D free waiting U X (w\<lparr>g_evalsha_pool := pool\<rparr>)"
proof -
  have "agree_on w (w\<lparr>g_evalsha_pool := pool\<rparr>) k" for k by (cases k) simp_all
  then show ?thesis using acct_pools [OF a] o by (intro acct_local [OF a]) (simp_all add: pools_def)
qed

lemma acct_load_get:
  assumes a: "acct D free waiting U X w" and g: "pool_get D (g_load_pool w) = Some (p, pool)"
  shows "acct D free waiting U (add_mset (Tld p) X) (w\<lparr>g_load_pool := Some pool, load_at := (load_at w)(p := e)\<rparr>)"
proof -
  let ?w' = "w\<lparr>g_load_pool := Some pool, load_at := (load_at w)(p := e)\<rparr>"
  note P = acct_pools [OF a]
  have "owns D free (ar_ld U) (held Tld (inflight waiting w + X)) (g_load_pool w)" using P by (simp add: pools_def)
  note get = owns_get [OF this g]
  have f: "Tld p \<notin># inflight waiting w" "Tld p \<notin># X" using get(2) by auto
  have "agree_on w ?w' k" if "k \<in># inflight waiting w" for k using that f(1) by (cases k) auto
  then show ?thesis using P f get(3) by (intro acct_local [OF a]) (simp_all add: pools_def)
qed

lemma acct_load_put:
  assumes a: "acct D free waiting U (add_mset (Tld p) X) w"
  shows "acct D free waiting U X (load_put D p w)"
proof -
  note P = acct_pools [OF a]
  have "owns D free (ar_ld U) (insert p (held Tld (inflight waiting w + X))) (g_load_pool w)" "Tld p \<notin># inflight waiting w + X"
    using P by (simp_all add: pools_def)
  then have "owns D free (ar_ld U) (held Tld (inflight waiting w + X)) (pool_put D p (g_load_pool w))"
    by (intro owns_put) simp_all
  moreover have "agree_on w (load_put D p w) k" for k by (cases k) (simp_all add: load_put_def)
  ultimately show ?thesis using P by (intro acct_local [OF a]) (simp_all add: pools_def load_put_def)
qed

subsection \<open>Contexts, messages, transactions\<close>

lemma ctx_alloc_only:
  assumes "v_port_ctx_alloc D w = (c, w')"
  shows "w' = w\<lparr>g_ctx_pool := g_ctx_pool w', ctx_at := ctx_at w'\<rparr>"
  using assms by (auto simp: v_port_ctx_alloc_def split: option.splits)

lemma acct_ctx_alloc:
  assumes a: "acct D free waiting U X w" and c: "v_port_ctx_alloc D w = (c, w')"
  shows "acct D free waiting U (opt_tok Tcx c + X) w'"
    and "c \<noteq> 0 \<Longrightarrow> ctx_magic (ctx_at w' c) = V_STUB_CTX_MAGIC"
proof -
  note P = acct_pools [OF a]
  have i: "ctx_inv D free (ar_cx U) (held Tcx (inflight waiting w + X)) w" using P by (simp add: pools_def)
  note e = ctx_alloc_inv [OF i c]
  obtain b at where w': "w' = w\<lparr>g_ctx_pool := b, ctx_at := at\<rparr>" using ctx_alloc_only [OF c] by metis
  have ag: "agree_on w w' k" for k by (cases k) (simp_all add: w')
  have z: "0 \<notin> ar_cx U" using i by (simp add: ctx_inv_def)
  show "acct D free waiting U (opt_tok Tcx c + X) w'"
  proof (cases "c = 0")
    case True
    then have "w' = w" using e z by (simp split: if_splits)
    then show ?thesis using a True by simp
  next
    case False
    then have f: "Tcx c \<notin># inflight waiting w + X"
      and i': "ctx_inv D free (ar_cx U) (insert c (held Tcx (inflight waiting w + X))) w'"
      using e by (auto split: if_splits)
    then have "pools D free U (inflight waiting w + add_mset (Tcx c) X) w'" using P by (simp add: pools_def w')
    then show ?thesis using False ag by (intro acct_local [OF a]) (simp_all add: w')
  qed
  show "ctx_magic (ctx_at w' c) = V_STUB_CTX_MAGIC" if "c \<noteq> 0" using e that by (simp split: if_splits)
qed

lemma acct_ctx_free:
  assumes a: "acct D free waiting U (opt_tok Tcx c + X) w"
  shows "acct D free waiting U X (v_port_ctx_free D c w)"
proof (cases "c = 0")
  case True
  then show ?thesis using a by (simp add: v_port_ctx_free_def)
next
  case False
  note P = acct_pools [OF a]
  let ?K = "inflight waiting w + X"
  have i: "ctx_inv D free (ar_cx U) (insert c (held Tcx ?K)) w" and f: "Tcx c \<notin># ?K"
    using P False by (simp_all add: pools_def)
  then have i': "ctx_inv D free (ar_cx U) (held Tcx ?K) (v_port_ctx_free D c w)"
    using ctx_free_inv(1) [OF i, of c] by (simp add: insert_Diff_if in_held)
  have w': "\<exists>b at. v_port_ctx_free D c w = w\<lparr>ctx_at := at, g_ctx_pool := b\<rparr>"
  proof -
    have "w = w\<lparr>ctx_at := ctx_at w, g_ctx_pool := g_ctx_pool w\<rparr>" by simp
    then show ?thesis unfolding v_port_ctx_free_def by metis
  qed
  then obtain b at where w': "v_port_ctx_free D c w = w\<lparr>ctx_at := at, g_ctx_pool := b\<rparr>" by blast
  have "agree_on w (v_port_ctx_free D c w) k" for k by (cases k) (simp_all add: w')
  moreover have "pools D free U ?K (v_port_ctx_free D c w)"
    using P i' False unfolding w' by (simp add: pools_def)
  ultimately show ?thesis using False by (intro acct_local [OF a]) (simp_all add: w')
qed

text \<open>Writing a context keeps the account as long as the magic number stays.\<close>

lemma acct_ctx_write:
  assumes a: "acct D free waiting U X w" and m: "ctx_magic v = ctx_magic (ctx_at w c)"
  shows "acct D free waiting U X (w\<lparr>ctx_at := (ctx_at w)(c := v)\<rparr>)"
proof -
  have "agree_on w (w\<lparr>ctx_at := (ctx_at w)(c := v)\<rparr>) k" for k by (cases k) simp_all
  moreover have "ctx_inv D free C H (w\<lparr>ctx_at := (ctx_at w)(c := v)\<rparr>) = ctx_inv D free C H w" for C H
    using m by (auto simp: ctx_inv_def)
  ultimately show ?thesis using acct_pools [OF a] by (intro acct_local [OF a]) (simp_all add: pools_def)
qed

lemma acct_ctx_clear:
  assumes a: "acct D free waiting U X w"
  shows "acct D free waiting U X (v_port_ctx_clear c w)"
  using acct_ctx_write [OF a] a by (simp add: v_port_ctx_clear_def)

lemma acct_msg_free:
  assumes a: "acct D free waiting U (opt_tok Tms m + X) w"
  shows "acct D free waiting U X (v_port_pfcp_msg_free D m w)"
proof (cases "m = 0")
  case True
  then show ?thesis using a by (simp add: v_port_pfcp_msg_free_def)
next
  case False
  note P = acct_pools [OF a]
  let ?K = "inflight waiting w + X"
  have i: "msg_inv D free (ar_ms U) (insert m (held Tms ?K)) w" and f: "Tms m \<notin># ?K"
    using P False by (simp_all add: pools_def)
  then have i': "msg_inv D free (ar_ms U) (held Tms ?K) (v_port_pfcp_msg_free D m w)"
    using msg_free_inv(1) [OF i, of m] by (simp add: insert_Diff_if in_held)
  have "\<exists>b at. v_port_pfcp_msg_free D m w = w\<lparr>pfcp_at := at, g_pfcp_pool := b\<rparr>"
  proof -
    have "w = w\<lparr>pfcp_at := pfcp_at w, g_pfcp_pool := g_pfcp_pool w\<rparr>" by simp
    then show ?thesis unfolding v_port_pfcp_msg_free_def by metis
  qed
  then obtain b at where w': "v_port_pfcp_msg_free D m w = w\<lparr>pfcp_at := at, g_pfcp_pool := b\<rparr>" by blast
  have "agree_on w (v_port_pfcp_msg_free D m w) k" for k by (cases k) (simp_all add: w')
  moreover have "pools D free U ?K (v_port_pfcp_msg_free D m w)"
    using P i' False unfolding w' by (simp add: pools_def)
  ultimately show ?thesis using False by (intro acct_local [OF a]) (simp_all add: w')
qed

lemma acct_decode:
  assumes a: "acct D free waiting U X w" and d: "v_port_pfcp_decode D buf w = (r, w')"
  shows "acct D free waiting U (case r of None \<Rightarrow> X | Some m \<Rightarrow> opt_tok Tms m + X) w'"
proof -
  note P = acct_pools [OF a]
  have i: "msg_inv D free (ar_ms U) (held Tms (inflight waiting w + X)) w" using P by (simp add: pools_def)
  note e = decode_inv [OF i d]
  show ?thesis
  proof (cases r)
    case None
    then show ?thesis using a e by simp
  next
    case (Some m)
    have z: "0 \<notin> ar_ms U" using i by (simp add: msg_inv_def)
    from Some have m: "m \<in> ar_ms U" "Tms m \<notin># inflight waiting w + X"
      and i': "msg_inv D free (ar_ms U) (insert m (held Tms (inflight waiting w + X))) w'" using e by auto
    then have m0: "m \<noteq> 0" using z by auto
    have "w' = w\<lparr>g_pfcp_pool := g_pfcp_pool w', pfcp_at := pfcp_at w'\<rparr>"
      using d by (auto simp: v_port_pfcp_decode_def ensure_msg_pool_def Let_def split: if_splits option.splits)
    then obtain b at where w': "w' = w\<lparr>g_pfcp_pool := b, pfcp_at := at\<rparr>" by metis
    have "agree_on w w' k" for k by (cases k) (simp_all add: w')
    moreover have "pools D free U (inflight waiting w + add_mset (Tms m) X) w'"
      using P i' m(2) by (simp add: pools_def w')
    ultimately show ?thesis using m0 Some by (intro acct_local [OF a]) (simp_all add: w')
  qed
qed

lemma acct_txn_upd:
  assumes a: "acct D free waiting U X w" and t: "Ttx t \<in># X"
  shows "acct D free waiting U X (txn_upd t f w)"
proof -
  have "agree_on w (txn_upd t f w) k" if "k \<in># inflight waiting w" for k
    using that acct_uniq [OF a t] by (cases k) (auto simp: txn_upd_def)
  then show ?thesis using acct_pools [OF a] by (intro acct_local [OF a]) (simp_all add: pools_def txn_upd_def)
qed

lemma txn_create_only:
  assumes "v_port_txn_create D w = (t, w')"
  shows "w' = w\<lparr>g_txn_pool := g_txn_pool w', txn_at := txn_at w', g_slots := g_slots w', g_fired := g_fired w'\<rparr>"
  using assms by (auto simp: v_port_txn_create_def split: option.splits)

lemma acct_txn_create:
  assumes a: "acct D free waiting U X w" and c: "v_port_txn_create D w = (t, w')"
  shows "acct D free waiting U (opt_tok Ttx t + X) w'"
    and "t \<noteq> 0 \<Longrightarrow> rec_toks (txn_at w' t) = {#} \<and> t_ctx (txn_at w' t) = 0 \<and> t_impl (txn_at w' t) = 0"
proof -
  note P = acct_pools [OF a]
  have i: "txn_inv D free (ar_tx U) (held Ttx (inflight waiting w + X)) w" using P by (simp add: pools_def)
  note e = txn_create_cases [OF i c]
  obtain b at sl fi where w': "w' = w\<lparr>g_txn_pool := b, txn_at := at, g_slots := sl, g_fired := fi\<rparr>"
    using txn_create_only [OF c] by metis
  have z: "0 \<notin> ar_tx U" using i by (simp add: txn_inv_def)
  show "acct D free waiting U (opt_tok Ttx t + X) w'"
  proof (cases "t = 0")
    case True
    then have "w' = w" using e z by (simp split: if_splits)
    then show ?thesis using a True by simp
  next
    case False
    then have f: "Ttx t \<notin># inflight waiting w + X"
      and i': "txn_inv D free (ar_tx U) (insert t (held Ttx (inflight waiting w + X))) w'"
      and at: "at = (txn_at w)(t := zero_txn\<lparr>t_deadline_ms := g_now_ms w + V_STUB_TXN_HARD_TIMEOUT_MS\<rparr>)"
      using e by (auto simp: w' split: if_splits)
    then have p: "pools D free U (inflight waiting w + add_mset (Ttx t) X) w'" using P by (simp add: pools_def w')
    have "agree_on w w' k" if "k \<in># inflight waiting w" for k
      using that f by (cases k) (auto simp: w' at)
    then show ?thesis using False p by (intro acct_local [OF a]) (simp_all add: w')
  qed
  show "rec_toks (txn_at w' t) = {#} \<and> t_ctx (txn_at w' t) = 0 \<and> t_impl (txn_at w' t) = 0" if "t \<noteq> 0"
    using e that by (simp add: rec_toks_def zero_txn_def split: if_splits)
qed

lemma acct_txn_destroy:
  assumes a: "acct D free waiting U (add_mset (Ttx t) X) w"
  shows "acct D free waiting U X (v_port_txn_destroy D t w)"
proof -
  note P = acct_pools [OF a]
  let ?K = "inflight waiting w + X"
  have i: "txn_inv D free (ar_tx U) (insert t (held Ttx ?K)) w" and f: "Ttx t \<notin># ?K" using P by (simp_all add: pools_def)
  then have i': "txn_inv D free (ar_tx U) (held Ttx ?K) (v_port_txn_destroy D t w)"
    and at: "txn_at (v_port_txn_destroy D t w) = (txn_at w)(t := zero_txn)"
    using txn_destroy_inv [OF i, of t] by (simp_all add: insert_Diff_if in_held)
  have "v_port_txn_destroy D t w = w\<lparr>g_slots := g_slots (v_port_txn_destroy D t w), g_fired := g_fired (v_port_txn_destroy D t w),
      txn_at := txn_at (v_port_txn_destroy D t w), g_txn_pool := g_txn_pool (v_port_txn_destroy D t w)\<rparr>"
    by (simp add: v_port_txn_destroy_def split: option.split)
  then obtain sl fi b where w': "v_port_txn_destroy D t w = w\<lparr>g_slots := sl, g_fired := fi, txn_at := (txn_at w)(t := zero_txn), g_txn_pool := b\<rparr>"
    unfolding at by metis
  have "agree_on w (v_port_txn_destroy D t w) k" if "k \<in># inflight waiting w" for k
    using that f by (cases k) (auto simp: w')
  moreover have "pools D free U ?K (v_port_txn_destroy D t w)" using P i' unfolding w' by (simp add: pools_def)
  ultimately show ?thesis by (intro acct_local [OF a]) (simp_all add: w')
qed

subsection \<open>What the running code keeps\<close>


text \<open>
  What the running code holds nobody else writes: from \<open>w\<close> to \<open>w'\<close> the objects in \<open>X\<close> kept their
  contents.
\<close>

definition keeps :: "tok multiset \<Rightarrow> ('r, 'p, 'h, 'a) retrans_st_scheme \<Rightarrow> ('r, 'p, 'h, 'a) retrans_st_scheme \<Rightarrow> bool" where
  "keeps X w w' \<longleftrightarrow> (\<forall>k \<in># X. agree_on w w' k)"

lemma agree_on_refl [simp]: "agree_on w w k"
  by (cases k) simp_all

lemma agree_on_trans: "agree_on w w1 k \<Longrightarrow> agree_on w1 w2 k \<Longrightarrow> agree_on w w2 k"
  by (cases k) simp_all

lemma keeps_refl [simp]: "keeps X w w"
  by (simp add: keeps_def)

lemma keeps_trans: "keeps X w w1 \<Longrightarrow> keeps X w1 w2 \<Longrightarrow> keeps X w w2"
  unfolding keeps_def using agree_on_trans by blast

lemma keeps_add: "keeps (X + Y) w w' \<longleftrightarrow> keeps X w w' \<and> keeps Y w w'" "keeps (add_mset k X) w w' \<longleftrightarrow> agree_on w w' k \<and> keeps X w w'"
  by (auto simp: keeps_def)

lemma keepsI: "(\<And>k. k \<in># X \<Longrightarrow> agree_on w w' k) \<Longrightarrow> keeps X w w'"
  by (simp add: keeps_def)

lemma keeps_puts [simp]:
  "keeps X w (evalsha_put D p w)" "keeps X w (load_put D p w)" "keeps X w (sess_put D p w)" "keeps X w (retrans_put D p w)"
proof -
  have "agree_on w (evalsha_put D p w) k" "agree_on w (load_put D p w) k" "agree_on w (sess_put D p w) k"
    "agree_on w (retrans_put D p w) k" for k
    by (cases k; simp add: evalsha_put_def load_put_def sess_put_def retrans_put_def)+
  then show "keeps X w (evalsha_put D p w)" "keeps X w (load_put D p w)" "keeps X w (sess_put D p w)"
    "keeps X w (retrans_put D p w)" by (simp_all add: keeps_def)
qed

lemma keeps_cmd [simp]: "keeps X w (snd (v_port_db_cmd D hi shard cb args w))"
proof -
  obtain c b p where w': "snd (v_port_db_cmd D hi shard cb args w) = w\<lparr>g_ctx := c, db_pending_at := b, g_db_pool := p\<rparr>"
    using db_cmd_only by blast
  have "agree_on w (snd (v_port_db_cmd D hi shard cb args w)) k" for k by (cases k) (simp_all add: w')
  then show ?thesis by (simp add: keeps_def)
qed

lemma acct_fresh: "acct D free waiting U (add_mset k X) w \<Longrightarrow> k \<notin># X"
  by (simp add: acct_def pools_def)

text \<open>The account with the running code holding \<open>X\<close>, reached from \<open>w\<close> without touching \<open>X\<close>.\<close>

definition acct_to ::
    "('r, 'p) dpdk \<Rightarrow> ('p \<Rightarrow> ptr set) \<Rightarrow> ('h \<Rightarrow> (string list \<times> ptr) list) \<Rightarrow> arena \<Rightarrow> tok multiset \<Rightarrow>
     ('r, 'p, 'h, 'a) retrans_st_scheme \<Rightarrow> ('r, 'p, 'h, 'a) retrans_st_scheme \<Rightarrow> bool" where
  "acct_to D free waiting U X w w' \<longleftrightarrow> acct D free waiting U X w' \<and> keeps X w w'"

lemma acct_to_trans: "acct_to D free waiting U Y w w1 \<Longrightarrow> X \<subseteq># Y \<Longrightarrow> acct_to D free waiting U X w1 w2 \<Longrightarrow> acct_to D free waiting U X w w2"
  unfolding acct_to_def keeps_def using agree_on_trans by (meson mset_subset_eqD)

lemma keeps_upd:
  assumes "acct D free waiting U (add_mset k X) v" and "\<And>j. j \<noteq> k \<Longrightarrow> agree_on w w' j"
  shows "keeps X w w'"
  using acct_fresh [OF assms(1)] assms(2) by (intro keepsI) metis

lemma acct_to_refl: "acct D free waiting U X w \<Longrightarrow> acct_to D free waiting U X w w"
  by (simp add: acct_to_def)

lemma acct_toI: "acct D free waiting U X w' \<Longrightarrow> keeps X w w' \<Longrightarrow> acct_to D free waiting U X w w'"
  by (simp add: acct_to_def)

lemma acct_to_acct: "acct_to D free waiting U X w w' \<Longrightarrow> acct D free waiting U X w'"
  by (simp add: acct_to_def)

lemma acct_to_sub: "acct_to D free waiting U Y w w1 \<Longrightarrow> X \<subseteq># Y \<Longrightarrow> acct D free waiting U X w2 \<Longrightarrow> keeps X w1 w2 \<Longrightarrow>
    acct_to D free waiting U X w w2"
  by (erule acct_to_trans) (simp_all add: acct_to_def)

subsection \<open>Script calls\<close>

text \<open>
  A function that calls through a callback pointer \<^emph>\<open>consumes\<close> a callback when the call uses up
  exactly what the callback owns.
\<close>

definition consumes ::
    "('r, 'p) dpdk \<Rightarrow> ('p \<Rightarrow> ptr set) \<Rightarrow> ('h \<Rightarrow> (string list \<times> ptr) list) \<Rightarrow> arena \<Rightarrow>
     (('r, 'p, 'h, 'a) retrans_st_scheme \<Rightarrow> ('r, 'p, 'h, 'a) retrans_st_scheme) \<Rightarrow> v_db_cb \<Rightarrow> bool" where
  "consumes D free waiting U f cb \<longleftrightarrow>
     (\<forall>X w. acct D free waiting U (cb_toks w cb + X) w \<longrightarrow> cb_ok w cb \<longrightarrow> acct_to D free waiting U X w (f w))"

lemma consumesD:
  "consumes D free waiting U f cb \<Longrightarrow> acct D free waiting U (cb_toks w cb + X) w \<Longrightarrow> cb_ok w cb \<Longrightarrow>
     acct_to D free waiting U X w (f w)"
  by (simp add: consumes_def)

lemma consumesI:
  "(\<And>X w. acct D free waiting U (cb_toks w cb + X) w \<Longrightarrow> cb_ok w cb \<Longrightarrow> acct_to D free waiting U X w (f w)) \<Longrightarrow>
     consumes D free waiting U f cb"
  by (simp add: consumes_def)

text \<open>The same for a callback handed to a script call.\<close>

definition serves ::
    "('r, 'p) dpdk \<Rightarrow> ('p \<Rightarrow> ptr set) \<Rightarrow> ('h \<Rightarrow> (string list \<times> ptr) list) \<Rightarrow> arena \<Rightarrow>
     (('r, 'p, 'h, 'a) retrans_st_scheme \<Rightarrow> ('r, 'p, 'h, 'a) retrans_st_scheme) \<Rightarrow> v_db_cb \<Rightarrow> bool" where
  "serves D free waiting U f u \<longleftrightarrow>
     (\<forall>X w. acct D free waiting U (ucb_toks w u + X) w \<longrightarrow> script_user u \<longrightarrow> ucb_ok w u \<longrightarrow> acct_to D free waiting U X w (f w))"

lemma consumes_serves: "consumes D free waiting U f u \<Longrightarrow> serves D free waiting U f u"
  using ucb_cb [of _ u] unfolding serves_def consumes_def by metis

text \<open>The call that follows a failed dispatch: the status is an error, there is no reply.\<close>

definition errs ::
    "('r, 'p) dpdk \<Rightarrow> ('p \<Rightarrow> ptr set) \<Rightarrow> ('h \<Rightarrow> (string list \<times> ptr) list) \<Rightarrow> arena \<Rightarrow>
     ('r, 'p, 'h, 'a) retrans_st_scheme db_call \<Rightarrow> bool" where
  "errs D free waiting U cc \<longleftrightarrow> (\<forall>u rep. serves D free waiting U (cc u RET_CODE_ERR rep) u)"

lemma errsD: "errs D free waiting U cc \<Longrightarrow> serves D free waiting U (cc u RET_CODE_ERR rep) u"
  by (simp add: errs_def)

lemma serves_vacuous: "\<not> script_user u \<Longrightarrow> serves D free waiting U f u"
  by (simp add: serves_def)

lemma ucb_toks_no_ev [simp]: "Tev e \<notin># ucb_toks w cb" "Tld e \<notin># ucb_toks w cb"
proof -
  have "Tev e \<notin># rec_toks x" "Tld e \<notin># rec_toks x" for x by (simp_all add: rec_toks_def opt_tok_def)
  then show "Tev e \<notin># ucb_toks w cb" "Tld e \<notin># ucb_toks w cb"
    by (cases cb; simp add: sess_toks_def txn_toks_def split: option.split)+
qed

lemma ev_toks_no_ld [simp]: "Tld l \<notin># ev_toks w e"
  by (simp add: ev_toks_def split: option.split)

text \<open>The end of a script call: its user's callback runs, then the object goes back.\<close>

lemma acct_evalsha_done:
  assumes a: "acct D free waiting U (ev_toks w p + X) w" and ok: "ev_ok w p"
    and cons: "\<And>u. ev_user_cb (evalsha_at w p) = Some u \<Longrightarrow> serves D free waiting U (cc u st rep) u"
  shows "acct_to D free waiting U X w (evalsha_put D p (call_opt cc (ev_user_cb (evalsha_at w p)) st rep w))"
proof (cases "ev_user_cb (evalsha_at w p)")
  case None
  then show ?thesis using a by (simp add: acct_to_def call_opt_def ev_toks_def acct_evalsha_put)
next
  case (Some u)
  have "acct D free waiting U (ucb_toks w u + add_mset (Tev p) X) w" using a Some by (simp add: ev_toks_def)
  with cons [OF Some] ok Some
  have c: "acct_to D free waiting U (add_mset (Tev p) X) w (cc u st rep w)" by (simp add: serves_def ev_ok_def)
  then have "acct_to D free waiting U X (cc u st rep w) (evalsha_put D p (cc u st rep w))" by (simp add: acct_to_def acct_evalsha_put)
  from acct_to_trans [OF c _ this] show ?thesis using Some by (simp add: call_opt_def)
qed

lemma acct_issue:
  assumes l: "hiredis_laws hi waiting" and a: "acct D free waiting U (ev_toks w p + X) w" and ok: "ev_ok w p"
    and cons: "\<And>u. ev_user_cb (evalsha_at w p) = Some u \<Longrightarrow> serves D free waiting U (cc u RET_CODE_ERR None) u"
  shows "acct_to D free waiting U X w (issue_evalsha D hi cc p w)"
proof -
  let ?e = "evalsha_at w p"
  obtain rc w1 where c: "v_port_db_cmd D hi (ev_shard ?e) (Evalsha_reply_cb p) (ev_parts ?e) w = (rc, w1)" by fastforce
  have "acct D free waiting U (cb_toks w (Evalsha_reply_cb p) + X) w" "cb_ok w (Evalsha_reply_cb p)" using a ok by simp_all
  note r = acct_cmd [OF l this c]
  obtain g b pl where w1: "w1 = w\<lparr>g_ctx := g, db_pending_at := b, g_db_pool := pl\<rparr>"
    using db_cmd_only [of D hi "ev_shard ?e" "Evalsha_reply_cb p" "ev_parts ?e" w] c by auto
  have ag: "agree_on w w1 k" for k by (cases k) (simp_all add: w1)
  have e: "ev_toks w1 p = ev_toks w p" "ev_ok w1 p = ev_ok w p" "evalsha_at w1 = evalsha_at w"
    using ev_toks_agree [of w p w1] ag by (auto simp: w1)
  have k: "keeps Y w w1" for Y using ag by (simp add: keeps_def)
  show ?thesis
  proof (cases "rc = RET_CODE_OK")
    case True
    then show ?thesis using r(1) c k by (simp add: acct_to_def issue_evalsha_def v_port_db_cmd_argv_def)
  next
    case False
    then have a1: "acct D free waiting U (ev_toks w1 p + X) w1" using r(1) e by simp
    then have "acct_to D free waiting U (ev_toks w1 p + X) w w1" using k by (simp add: acct_to_def)
    from acct_to_trans [OF this _ acct_evalsha_done [OF a1]] e ok cons False c show ?thesis
      by (simp add: issue_evalsha_def v_port_db_cmd_argv_def)
  qed
qed

lemma acct_evalsha:
  assumes l: "hiredis_laws hi waiting" and a: "acct D free waiting U (ucb_toks w u + X) w" and ok: "ucb_ok w u"
    and c: "v_db_evalsha D hi cc shard i keys argv u w = (rc, w')"
    and su: "script_user u" and cons: "serves D free waiting U (cc u RET_CODE_ERR None) u"
  shows "if rc = RET_CODE_OK then acct_to D free waiting U X w w'
    else acct_to D free waiting U (ucb_toks w u + X) w w'"
proof (cases "evalsha_ok shard i keys argv w \<and> pool_get D (g_evalsha_pool w) \<noteq> None")
  case False
  then have "\<not> evalsha_ok shard i keys argv w \<or> pool_get D (g_evalsha_pool w) = None" by blast
  then obtain pool where r: "v_db_evalsha D hi cc shard i keys argv u w = (RET_CODE_ERR, w\<lparr>g_evalsha_pool := pool\<rparr>)"
    "owns D free (ar_ev U) (held Tev (inflight waiting w + (ucb_toks w u + X))) (g_evalsha_pool w) \<longrightarrow>
     owns D free (ar_ev U) (held Tev (inflight waiting w + (ucb_toks w u + X))) pool"
    by (rule evalsha_refused)
  moreover have "agree_on w (w\<lparr>g_evalsha_pool := pool\<rparr>) k" for k by (cases k) simp_all
  ultimately show ?thesis using c acct_evalsha_pool [OF a r(2)] by (auto simp: acct_to_def keeps_def)
next
  case True
  then obtain p pool where g: "pool_get D (g_evalsha_pool w) = Some (p, pool)" by auto
  let ?w1 = "w\<lparr>g_evalsha_pool := Some pool, evalsha_at := (evalsha_at w)(p := evalsha_pending_of shard i keys argv u w)\<rparr>"
  have r: "rc = RET_CODE_OK" "w' = issue_evalsha D hi cc p ?w1" using c evalsha_taken [OF conjunct1 [OF True] g] by simp_all
  have "agree_on w ?w1 k" if "k \<in># ucb_toks w u" for k using that by (cases k) auto
  then have t: "ucb_toks ?w1 u = ucb_toks w u" "ucb_ok ?w1 u" using ucb_toks_agree [of w u ?w1] ok by auto
  have user: "ev_user_cb (evalsha_at ?w1 p) = Some u" by (simp add: evalsha_pending_of_def)
  note a1 = acct_evalsha_get [OF a g, of "evalsha_pending_of shard i keys argv u w"]
  then have a2: "acct D free waiting U (ev_toks ?w1 p + X) ?w1" using t user by (simp add: ev_toks_def)
  then have i: "acct_to D free waiting U X ?w1 (issue_evalsha D hi cc p ?w1)"
    by (rule acct_issue [OF l]) (use t user cons su in \<open>simp_all add: ev_ok_def\<close>)
  have "Tev p \<notin># X" using acct_fresh [OF a1] by simp
  then have "agree_on w ?w1 k" if "k \<in># X" for k using that by (cases k) auto
  then have "keeps X w ?w1" by (simp add: keeps_def)
  then show ?thesis using r i keeps_trans by (auto simp: acct_to_def)
qed

text \<open>What a SCRIPT LOAD carries: the script call to resume, if any.\<close>

definition resume_toks :: "('r, 'p, 'h, 'a) retrans_st_scheme \<Rightarrow> ptr option \<Rightarrow> tok multiset" where
  "resume_toks w r = (case r of None \<Rightarrow> {#} | Some e \<Rightarrow> ev_toks w e)"

lemma acct_request_load:
  assumes l: "hiredis_laws hi waiting" and a: "acct D free waiting U (resume_toks w res + X) w"
    and ok: "\<And>e. res = Some e \<Longrightarrow> ev_ok w e" and r: "request_script_load D hi shard i res w = (rc, w')"
  shows "acct_to D free waiting U (if rc = RET_CODE_OK then X else resume_toks w res + X) w w'"
proof (cases "pool_get D (g_load_pool w)")
  case None
  then show ?thesis using r a by (auto simp: request_script_load_def acct_to_def)
next
  case (Some x)
  then obtain lc pool where g: "pool_get D (g_load_pool w) = Some (lc, pool)" by (cases x) auto
  let ?args = "[''SCRIPT'', ''LOAD'', g_script_src i]" and ?cb = "Load_reply_cb lc"
  let ?w1 = "w\<lparr>g_load_pool := Some pool, load_at := (load_at w)(lc := \<lparr>lc_shard = shard, lc_script_id = i, lc_resume = res\<rparr>)\<rparr>"
  obtain rc2 w2 where c: "v_port_db_cmd D hi shard ?cb ?args ?w1 = (rc2, w2)" by fastforce
  have ag: "agree_on w ?w1 k" if "k \<noteq> Tld lc" for k using that by (cases k) auto
  then have t: "ev_toks ?w1 e = ev_toks w e \<and> ev_ok ?w1 e = ev_ok w e" for e
    using ev_toks_no_ld [of lc w e] by (intro ev_toks_agree) metis
  have ct: "cb_toks ?w1 ?cb = add_mset (Tld lc) (resume_toks w res)" "cb_ok ?w1 ?cb"
    using t ok by (cases res; simp add: resume_toks_def)+
  note g1 = acct_load_get [OF a g]
  then have "acct D free waiting U (cb_toks ?w1 ?cb + X) ?w1" unfolding ct by simp
  note r2 = acct_cmd [OF l this ct(2) c, unfolded ct]
  have "keeps (resume_toks w res + X) w ?w1" by (rule keeps_upd [OF g1]) (rule ag)
  moreover have "keeps Y ?w1 w2" for Y using keeps_cmd [of Y ?w1 D hi shard ?cb ?args] c by simp
  ultimately have k: "keeps (resume_toks w res + X) w w2" by (rule keeps_trans)
  show ?thesis
  proof (cases "rc2 = RET_CODE_OK")
    case True
    then show ?thesis using r2(1) r g c k by (auto simp: request_script_load_def acct_to_def keeps_add)
  next
    case False
    then have "acct D free waiting U (resume_toks w res + X) (load_put D lc w2)"
      using r2(1) by (intro acct_load_put) simp
    then show ?thesis using False r g c keeps_trans [OF k keeps_puts(2)] by (auto simp: request_script_load_def acct_to_def)
  qed
qed

lemma ev_toks_upd:
  assumes "ev_user_cb e' = ev_user_cb (evalsha_at w p)"
  shows "ev_toks (w\<lparr>evalsha_at := (evalsha_at w)(p := e')\<rparr>) p = ev_toks w p"
    and "ev_ok (w\<lparr>evalsha_at := (evalsha_at w)(p := e')\<rparr>) p = ev_ok w p"
proof -
  let ?w' = "w\<lparr>evalsha_at := (evalsha_at w)(p := e')\<rparr>"
  have "agree_on w ?w' k" if "k \<in># ucb_toks w u" for k u using that by (cases k) auto
  then have "ucb_toks ?w' u = ucb_toks w u \<and> ucb_ok ?w' u = ucb_ok w u" for u by (intro ucb_toks_agree) auto
  then show "ev_toks ?w' p = ev_toks w p" "ev_ok ?w' p = ev_ok w p"
    using assms by (simp_all add: ev_toks_def ev_ok_def split: option.split)
qed

text \<open>An update of a script call that keeps its user's callback.\<close>

lemma acct_ev_upd:
  assumes a: "acct D free waiting U (ev_toks w p + X) w" and u: "ev_user_cb e' = ev_user_cb (evalsha_at w p)"
  defines "w' \<equiv> w\<lparr>evalsha_at := (evalsha_at w)(p := e')\<rparr>"
  shows "acct D free waiting U (ev_toks w' p + X) w'" "keeps X w w'" "ev_ok w' p = ev_ok w p"
proof -
  note e = ev_toks_upd [of e' w p, OF u, folded w'_def]
  show "ev_ok w' p = ev_ok w p" by (rule e(2))
  show "acct D free waiting U (ev_toks w' p + X) w'"
    unfolding e(1) unfolding w'_def by (rule acct_evalsha_upd [OF a]) (simp add: ev_toks_def)
  define Y where "Y = (case ev_user_cb (evalsha_at w p) of None \<Rightarrow> {#} | Some u \<Rightarrow> ucb_toks w u) + X"
  have "acct D free waiting U (add_mset (Tev p) Y) w" using a by (simp add: ev_toks_def Y_def)
  then have "keeps Y w w'"
  proof (rule keeps_upd)
    fix j assume "j \<noteq> Tev p"
    then show "agree_on w w' j" by (cases j) (auto simp: w'_def)
  qed
  then show "keeps X w w'" by (simp add: Y_def keeps_add)
qed

lemma acct_load_reply:
  fixes cc :: "('r, 'p, 'h, 'a) retrans_st_scheme db_call"
  assumes l: "hiredis_laws hi waiting" and cons: "\<And>u rep. serves D free waiting U (cc u RET_CODE_ERR rep) u"
  shows "consumes D free waiting U (load_reply_cb D hi cc st rep lc) (Load_reply_cb lc)"
proof (rule consumesI)
  fix X and w :: "('r, 'p, 'h, 'a) retrans_st_scheme"
  assume a: "acct D free waiting U (cb_toks w (Load_reply_cb lc) + X) w" and ok: "cb_ok w (Load_reply_cb lc)"
  let ?c = "load_at w lc" and ?X = "add_mset (Tld lc) X"
  have a': "acct D free waiting U (resume_toks w (lc_resume ?c) + ?X) w" using a by (simp add: resume_toks_def)
  define sha where "sha = (case rep of Some (Reply_String s) \<Rightarrow> if length s = V_DB_SCRIPT_SHA_LEN then Some s else None | _ \<Rightarrow> None)"
  have put: "acct_to D free waiting U X w (load_put D lc w')" if "acct_to D free waiting U ?X w w'" for w'
    using that by (intro acct_to_sub [OF that] acct_load_put) (simp_all add: acct_to_def)
  show "acct_to D free waiting U X w (load_reply_cb D hi cc st rep lc w)"
  proof (cases "if st \<noteq> RET_CODE_OK then None else sha")
    case None
    have "acct_to D free waiting U ?X w (case lc_resume ?c of None \<Rightarrow> w
        | Some p \<Rightarrow> evalsha_put D p (call_opt cc (ev_user_cb (evalsha_at w p)) RET_CODE_ERR rep w))"
    proof (cases "lc_resume ?c")
      case (Some p)
      then show ?thesis using a' ok cons by (simp add: resume_toks_def acct_evalsha_done)
    qed (use a' in \<open>simp add: resume_toks_def acct_to_refl\<close>)
    then show ?thesis using None by (simp add: load_reply_cb_def Let_def sha_def [symmetric] put)
  next
    case (Some s)
    let ?w1 = "w\<lparr>g_sha := (g_sha w)(unat (lc_shard ?c) := (g_sha w (unat (lc_shard ?c)))(lc_script_id ?c := s))\<rparr>"
    have ag: "agree_on w ?w1 k" for k by (cases k) simp_all
    have a1: "acct D free waiting U (resume_toks w (lc_resume ?c) + ?X) ?w1"
      by (rule acct_same [OF a']) (simp add: same_acct_def)
    have t: "ev_toks ?w1 e = ev_toks w e" "ev_ok ?w1 e = ev_ok w e" for e using ev_toks_agree [of w e ?w1] ag by auto
    have k1: "keeps Y w ?w1" for Y using ag by (simp add: keeps_def)
    have "acct_to D free waiting U ?X w (case lc_resume ?c of None \<Rightarrow> ?w1
        | Some p \<Rightarrow> issue_evalsha D hi cc p (?w1\<lparr>evalsha_at := (evalsha_at ?w1)(p := (evalsha_at ?w1 p)\<lparr>ev_parts := (ev_parts (evalsha_at ?w1 p))[1 := s]\<rparr>)\<rparr>))"
    proof (cases "lc_resume ?c")
      case None
      then show ?thesis using a1 k1 by (simp add: resume_toks_def acct_to_def)
    next
      case (Some p)
      define e' where "e' = (evalsha_at ?w1 p)\<lparr>ev_parts := (ev_parts (evalsha_at ?w1 p))[1 := s]\<rparr>"
      let ?w2 = "?w1\<lparr>evalsha_at := (evalsha_at ?w1)(p := e')\<rparr>"
      have a1': "acct D free waiting U (ev_toks ?w1 p + ?X) ?w1" unfolding t(1) using a1 Some by (simp add: resume_toks_def)
      have u: "ev_user_cb e' = ev_user_cb (evalsha_at ?w1 p)" by (simp add: e'_def)
      note e = acct_ev_upd [OF a1' u]
      have ok2: "ev_ok ?w2 p" unfolding e(3) t(2) using ok Some by simp
      have "acct_to D free waiting U ?X ?w2 (issue_evalsha D hi cc p ?w2)"
        by (rule acct_issue [OF l e(1) ok2]) (rule cons)
      then have "acct_to D free waiting U ?X w (issue_evalsha D hi cc p ?w2)"
        using keeps_trans [OF keeps_trans [OF k1 e(2)]] by (simp add: acct_to_def)
      then show ?thesis using Some by (simp add: e'_def)
    qed
    then show ?thesis using Some by (simp add: load_reply_cb_def Let_def sha_def [symmetric] put)
  qed
qed

lemma acct_evalsha_reply:
  fixes cc :: "('r, 'p, 'h, 'a) retrans_st_scheme db_call"
  assumes l: "hiredis_laws hi waiting" and cons: "\<And>u. serves D free waiting U (cc u st rep) u"
    and err: "\<And>u. serves D free waiting U (cc u RET_CODE_ERR rep) u"
  shows "consumes D free waiting U (evalsha_reply_cb D hi cc st rep p) (Evalsha_reply_cb p)"
proof (rule consumesI)
  fix X and w :: "('r, 'p, 'h, 'a) retrans_st_scheme"
  assume "acct D free waiting U (cb_toks w (Evalsha_reply_cb p) + X) w" and "cb_ok w (Evalsha_reply_cb p)"
  then have a: "acct D free waiting U (ev_toks w p + X) w" and ok: "ev_ok w p" by simp_all
  show "acct_to D free waiting U X w (evalsha_reply_cb D hi cc st rep p w)"
  proof (cases "is_noscript st rep \<and> \<not> ev_retried (evalsha_at w p)")
    case False
    then have "evalsha_reply_cb D hi cc st rep p w = evalsha_put D p (call_opt cc (ev_user_cb (evalsha_at w p)) st rep w)"
      by (auto simp: evalsha_reply_cb_def)
    moreover have "acct_to D free waiting U X w (evalsha_put D p (call_opt cc (ev_user_cb (evalsha_at w p)) st rep w))"
      by (rule acct_evalsha_done [OF a ok]) (rule cons)
    ultimately show ?thesis by simp
  next
    case True
    define e' where "e' = (evalsha_at w p)\<lparr>ev_retried := True\<rparr>"
    let ?w1 = "w\<lparr>evalsha_at := (evalsha_at w)(p := e')\<rparr>"
    have u: "ev_user_cb e' = ev_user_cb (evalsha_at w p)" by (simp add: e'_def)
    note e = acct_ev_upd [OF a u]
    have a1: "acct D free waiting U (resume_toks ?w1 (Some p) + X) ?w1"
      unfolding resume_toks_def option.case by (rule e(1))
    have ok1: "\<And>e. Some p = Some e \<Longrightarrow> ev_ok ?w1 e" using e(3) ok by simp
    obtain rc w2 where r: "request_script_load D hi (ev_shard e') (ev_script_id e') (Some p) ?w1 = (rc, w2)" by fastforce
    note q = acct_request_load [OF l a1 ok1 r]
    show ?thesis
    proof (cases "rc = RET_CODE_OK")
      case True': True
      then have "acct_to D free waiting U X w w2" using q keeps_trans [OF e(2)] by (simp add: acct_to_def)
      then show ?thesis using True True' r by (simp add: evalsha_reply_cb_def Let_def e'_def)
    next
      case False
      then have q': "acct_to D free waiting U (ev_toks ?w1 p + X) ?w1 w2" using q by (simp add: resume_toks_def)
      then have "ev_toks w2 p = ev_toks ?w1 p \<and> ev_ok w2 p = ev_ok ?w1 p"
        by (intro ev_toks_agree) (simp add: acct_to_def keeps_add keeps_def)
      then have "acct D free waiting U (ev_toks w2 p + X) w2" "ev_ok w2 p" using q' e(3) ok by (simp_all add: acct_to_def)
      then have "acct_to D free waiting U X w2 (evalsha_put D p (call_opt cc (ev_user_cb (evalsha_at w2 p)) RET_CODE_ERR rep w2))"
        by (rule acct_evalsha_done) (rule err)
      then have "acct_to D free waiting U X w (evalsha_put D p (call_opt cc (ev_user_cb (evalsha_at w2 p)) RET_CODE_ERR rep w2))"
        using q' keeps_trans [OF keeps_trans [OF e(2), of w2], of "evalsha_put D p _"] by (simp add: acct_to_def keeps_add)
      then show ?thesis using False True r by (simp add: evalsha_reply_cb_def Let_def e'_def)
    qed
  qed
qed

subsection \<open>Requests of the stores\<close>

text \<open>
  Each request takes what its callback will need (\<open>sess_toks\<close> of the union member it stores) and
  keeps it when it is accepted; when it is refused the caller still has it.
\<close>

text \<open>The first request of a store creates its pool, or fails and changes nothing.\<close>

lemma acct_ensure_pool:
  assumes a: "acct D free waiting U X w"
  obtains (refused) "ensure_pool D w = (RET_CODE_ERR, w)"
  | (ready) pool where "ensure_pool D w = (RET_CODE_OK, w\<lparr>g_sess_pool := Some pool\<rparr>)"
      "ensure_pool D (w\<lparr>g_sess_pool := Some pool\<rparr>) = (RET_CODE_OK, w\<lparr>g_sess_pool := Some pool\<rparr>)"
      "acct D free waiting U X (w\<lparr>g_sess_pool := Some pool\<rparr>)"
proof (cases "g_sess_pool w")
  case (Some pool)
  then have e: "w\<lparr>g_sess_pool := Some pool\<rparr> = w" by simp
  show ?thesis by (rule ready [of pool]) (unfold e, use a Some in \<open>simp_all add: ensure_pool_def\<close>)
next
  case None
  show ?thesis
  proof (cases "rte_mempool_create D V_SESS_PENDING_POOL_CAP")
    case None': None
    have "w\<lparr>g_sess_pool := None\<rparr> = w" using None by simp
    then show ?thesis using refused None None' by (simp add: ensure_pool_def Let_def)
  next
    case (Some pool)
    let ?w = "w\<lparr>g_sess_pool := Some pool\<rparr>"
    note P = acct_pools [OF a]
    have "owns D free (ar_ss U) (held Tss (inflight waiting w + X)) (Some pool)"
      using P None Some by (intro owns_lazy_create [OF _ Some]) (simp_all add: pools_def)
    moreover have "agree_on w ?w k" for k by (cases k) simp_all
    ultimately have "acct D free waiting U X ?w" using P by (intro acct_local [OF a]) (simp_all add: pools_def)
    then show ?thesis using ready [of pool] None Some by (simp add: ensure_pool_def Let_def)
  qed
qed

lemma acct_ensure_retrans_pool:
  assumes a: "acct D free waiting U X w"
  obtains (refused) "ensure_retrans_pool D w = (RET_CODE_ERR, w)"
  | (ready) pool where "ensure_retrans_pool D w = (RET_CODE_OK, w\<lparr>g_retrans_pool := Some pool\<rparr>)"
      "ensure_retrans_pool D (w\<lparr>g_retrans_pool := Some pool\<rparr>) = (RET_CODE_OK, w\<lparr>g_retrans_pool := Some pool\<rparr>)"
      "acct D free waiting U X (w\<lparr>g_retrans_pool := Some pool\<rparr>)"
proof (cases "g_retrans_pool w")
  case (Some pool)
  then have e: "w\<lparr>g_retrans_pool := Some pool\<rparr> = w" by simp
  show ?thesis by (rule ready [of pool]) (unfold e, use a Some in \<open>simp_all add: ensure_retrans_pool_def\<close>)
next
  case None
  show ?thesis
  proof (cases "rte_mempool_create D V_RETRANS_PENDING_POOL_CAP")
    case None': None
    have "w\<lparr>g_retrans_pool := None\<rparr> = w" using None by simp
    then show ?thesis using refused None None' by (simp add: ensure_retrans_pool_def Let_def)
  next
    case (Some pool)
    let ?w = "w\<lparr>g_retrans_pool := Some pool\<rparr>"
    note P = acct_pools [OF a]
    have "owns D free (ar_rt U) (held Trt (inflight waiting w + X)) (Some pool)"
      using P None Some by (intro owns_lazy_create [OF _ Some]) (simp_all add: pools_def)
    moreover have "agree_on w ?w k" for k by (cases k) simp_all
    ultimately have "acct D free waiting U X ?w" using P by (intro acct_local [OF a]) (simp_all add: pools_def)
    then show ?thesis using ready [of pool] None Some by (simp add: ensure_retrans_pool_def Let_def)
  qed
qed

lemma acct_to_created:
  "acct_to D free waiting U X (w\<lparr>g_sess_pool := Some pool\<rparr>) w' \<Longrightarrow> acct_to D free waiting U X w w'"
  "acct_to D free waiting U X (v\<lparr>g_retrans_pool := Some pool\<rparr>) v' \<Longrightarrow> acct_to D free waiting U X v v'"
proof -
  have "agree_on w (w\<lparr>g_sess_pool := Some pool\<rparr>) k" "agree_on v (v\<lparr>g_retrans_pool := Some pool\<rparr>) k" for k
    by (cases k; simp)+
  then show "acct_to D free waiting U X (w\<lparr>g_sess_pool := Some pool\<rparr>) w' \<Longrightarrow> acct_to D free waiting U X w w'"
    "acct_to D free waiting U X (v\<lparr>g_retrans_pool := Some pool\<rparr>) v' \<Longrightarrow> acct_to D free waiting U X v v'"
    unfolding acct_to_def keeps_def using agree_on_trans by blast+
qed

lemma txn_toks_cong: "txn_at w' = txn_at w \<Longrightarrow> txn_toks w' t = txn_toks w t"
  by (simp add: txn_toks_def)

lemma sess_toks_cong: "txn_at w' = txn_at w \<Longrightarrow> sess_toks w' u = sess_toks w u"
  by (simp add: sess_toks_def txn_toks_def split: option.split)

lemma sess_get_at:
  assumes "sess_get D u w = Some (p, w1)"
  shows "sess_pending_at w1 p = u" "txn_at w1 = txn_at w"
  using assms by (auto simp: sess_get_def split: option.splits)

lemma acct_cmd_to:
  assumes "hiredis_laws hi waiting" and "acct D free waiting U (cb_toks w cb + X) w" and "cb_ok w cb"
    and "v_port_db_cmd D hi shard cb args w = (rc, w')"
  shows "acct_to D free waiting U (if rc = RET_CODE_OK then X else cb_toks w cb + X) w w'"
  using acct_cmd(1) [OF assms] keeps_cmd [of _ w D hi shard cb args] assms(4) by (simp add: acct_to_def)

lemma acct_sess_request:
  assumes a: "acct D free waiting U (sess_toks w u + X) w" and g: "sess_get D u w = Some (p, w1)"
    and c: "acct D free waiting U (add_mset (Tss p) (sess_toks w1 u) + X) w1 \<Longrightarrow>
      acct_to D free waiting U (if rc = RET_CODE_OK then X else add_mset (Tss p) (sess_toks w1 u) + X) w1 w2"
  shows "acct_to D free waiting U (if rc = RET_CODE_OK then X else sess_toks w u + X) w (if rc = RET_CODE_OK then w2 else sess_put D p w2)"
proof -
  note s = acct_sess_get [OF a g]
  have t: "sess_toks w1 u = sess_toks w u" by (rule sess_toks_cong [OF sess_get_at(2) [OF g]])
  have k: "keeps (sess_toks w u + X) w w1"
  proof (rule keeps_upd [OF s(1)])
    fix j assume "j \<noteq> Tss p"
    then show "agree_on w w1 j" by (subst s(2), cases j) auto
  qed
  have c': "acct_to D free waiting U (if rc = RET_CODE_OK then X else add_mset (Tss p) (sess_toks w u + X)) w1 w2"
    using c s(1) t by (cases "rc = RET_CODE_OK") simp_all
  show ?thesis
  proof (cases "rc = RET_CODE_OK")
    case True then show ?thesis using c' keeps_trans k by (auto simp: acct_to_def keeps_add)
  next
    case False
    then have c'': "acct_to D free waiting U (add_mset (Tss p) (sess_toks w u + X)) w1 w2" using c' by simp
    then have "acct_to D free waiting U (sess_toks w u + X) w1 (sess_put D p w2)"
      by (rule acct_to_sub) (use c'' in \<open>simp_all add: acct_to_def acct_sess_put\<close>)
    then show ?thesis using False keeps_trans [OF k] by (simp add: acct_to_def)
  qed
qed

lemma acct_sess_read_ready:
  assumes l: "hiredis_laws hi waiting" and a: "acct D free waiting U (sess_toks w (Sess_read cb ctx) + X) w"
    and ok: "sess_ok (txn_at w) (Sess_read cb ctx)" and r: "v_sess_read D hi part seid ctx cb w = (rc, w')"
    and e: "ensure_pool D w = (RET_CODE_OK, w)"
  shows "acct_to D free waiting U (if rc = RET_CODE_OK then X else sess_toks w (Sess_read cb ctx) + X) w w'"
proof -
  let ?u = "Sess_read cb ctx" and ?k = "make_key part seid"
  show ?thesis
  proof (cases "sess_get D ?u w")
    case None
    then show ?thesis using r a e by (simp add: v_sess_read_def Let_def acct_to_refl split: prod.splits)
  next
    case (Some x)
    then obtain p w1 where g: "sess_get D ?u w = Some (p, w1)" by (cases x) auto
    note at = sess_get_at [OF g]
    obtain rc2 w2 where c: "v_port_db_cmd D hi (v_port_db_shard_of ?k) (Read_reply_cb p) [''HMGET'', ?k, ''data'', ''ver''] w1 = (rc2, w2)"
      by fastforce
    have "acct_to D free waiting U (if rc2 = RET_CODE_OK then X else sess_toks w ?u + X) w (if rc2 = RET_CODE_OK then w2 else sess_put D p w2)"
      by (rule acct_sess_request [OF a g]) (use acct_cmd_to [OF l _ _ c, of free U X] at ok in \<open>cases "rc2 = RET_CODE_OK"; simp\<close>)
    then show ?thesis using r e g c by (auto simp: v_sess_read_def Let_def split: if_splits)
  qed
qed

lemma acct_sess_read:
  assumes l: "hiredis_laws hi waiting" and a: "acct D free waiting U (sess_toks w (Sess_read cb ctx) + X) w"
    and ok: "sess_ok (txn_at w) (Sess_read cb ctx)" and r: "v_sess_read D hi part seid ctx cb w = (rc, w')"
  shows "acct_to D free waiting U (if rc = RET_CODE_OK then X else sess_toks w (Sess_read cb ctx) + X) w w'"
  using a
proof (cases rule: acct_ensure_pool)
  case refused
  then show ?thesis using r a by (auto simp: v_sess_read_def acct_to_refl)
next
  case (ready pool)
  let ?w = "w\<lparr>g_sess_pool := Some pool\<rparr>"
  have t: "sess_toks ?w (Sess_read cb ctx) = sess_toks w (Sess_read cb ctx)" by (rule sess_toks_cong) simp
  have r': "v_sess_read D hi part seid ctx cb ?w = (rc, w')"
    using r ready(1,2) by (simp add: v_sess_read_def)
  have "acct_to D free waiting U (if rc = RET_CODE_OK then X else sess_toks ?w (Sess_read cb ctx) + X) ?w w'"
    by (rule acct_sess_read_ready [OF l]) (use ready(2,3) ok t r' in simp_all)
  then show ?thesis unfolding t by (rule acct_to_created(1))
qed

lemma acct_sess_confirm_ready:
  assumes l: "hiredis_laws hi waiting" and a: "acct D free waiting U (sess_toks w (Sess_simple cb) + X) w"
    and ok: "sess_ok (txn_at w) (Sess_simple cb)" and r: "v_sess_confirm D hi part seid cb w = (rc, w')"
    and e: "ensure_pool D w = (RET_CODE_OK, w)"
  shows "acct_to D free waiting U (if rc = RET_CODE_OK then X else sess_toks w (Sess_simple cb) + X) w w'"
proof -
  let ?u = "Sess_simple cb" and ?k = "make_key part seid"
  show ?thesis
  proof (cases "sess_get D ?u w")
    case None
    then show ?thesis using r a e by (simp add: v_sess_confirm_def Let_def acct_to_refl split: prod.splits)
  next
    case (Some x)
    then obtain p w1 where g: "sess_get D ?u w = Some (p, w1)" by (cases x) auto
    note at = sess_get_at [OF g]
    obtain rc2 w2 where c: "v_port_db_cmd D hi (v_port_db_shard_of ?k) (Confirm_reply_cb p) [''PERSIST'', ?k] w1 = (rc2, w2)"
      by fastforce
    have "acct_to D free waiting U (if rc2 = RET_CODE_OK then X else sess_toks w ?u + X) w (if rc2 = RET_CODE_OK then w2 else sess_put D p w2)"
      by (rule acct_sess_request [OF a g]) (use acct_cmd_to [OF l _ _ c, of free U X] at ok in \<open>cases "rc2 = RET_CODE_OK"; simp\<close>)
    then show ?thesis using r e g c by (auto simp: v_sess_confirm_def Let_def split: if_splits)
  qed
qed

lemma acct_sess_confirm:
  assumes l: "hiredis_laws hi waiting" and a: "acct D free waiting U (sess_toks w (Sess_simple cb) + X) w"
    and ok: "sess_ok (txn_at w) (Sess_simple cb)" and r: "v_sess_confirm D hi part seid cb w = (rc, w')"
  shows "acct_to D free waiting U (if rc = RET_CODE_OK then X else sess_toks w (Sess_simple cb) + X) w w'"
  using a
proof (cases rule: acct_ensure_pool)
  case refused
  then show ?thesis using r a by (auto simp: v_sess_confirm_def acct_to_refl)
next
  case (ready pool)
  let ?w = "w\<lparr>g_sess_pool := Some pool\<rparr>"
  have t: "sess_toks ?w (Sess_simple cb) = sess_toks w (Sess_simple cb)" by (rule sess_toks_cong) simp
  have r': "v_sess_confirm D hi part seid cb ?w = (rc, w')"
    using r ready(1,2) by (simp add: v_sess_confirm_def)
  have "acct_to D free waiting U (if rc = RET_CODE_OK then X else sess_toks ?w (Sess_simple cb) + X) ?w w'"
    by (rule acct_sess_confirm_ready [OF l]) (use ready(2,3) ok t r' in simp_all)
  then show ?thesis unfolding t by (rule acct_to_created(1))
qed

text \<open>The callers of \<^verbatim>\<open>v_db_evalsha\<close>: \<open>cc\<close> is the call through the callback pointer when the dispatch fails.\<close>

lemma acct_sess_cas_write_ready:
  assumes l: "hiredis_laws hi waiting" and cons: "errs D free waiting U cc"
    and a: "acct D free waiting U (sess_toks w (Sess_cas cb ver) + X) w"
    and ok: "sess_ok (txn_at w) (Sess_cas cb ver)" and r: "v_sess_cas_write D hi cc part seid ver ctx state cb w = (rc, w')"
    and e: "ensure_pool D w = (RET_CODE_OK, w)"
  shows "acct_to D free waiting U (if rc = RET_CODE_OK then X else sess_toks w (Sess_cas cb ver) + X) w w'"
proof -
  let ?u = "Sess_cas cb ver" and ?k = "make_key part seid" and ?s = "v_port_pdu_serialize (ctx_at w ctx) V_SESS_BLOB_MAX_BYTES"
  show ?thesis
  proof (cases "?s = None \<or> sess_get D ?u w = None")
    case True
    then show ?thesis using r a e by (cases ?s) (auto simp: v_sess_cas_write_def Let_def acct_to_refl)
  next
    case False
    then obtain blob p w1 where b: "?s = Some blob" and g: "sess_get D ?u w = Some (p, w1)" by auto
    note at = sess_get_at [OF g]
    obtain rc2 w2 where c: "v_db_evalsha D hi cc (v_port_db_shard_of ?k) V_SCRIPT_SESS_CAS_WRITE [?k]
        [snprintf 24 (dec (unat ver)), chars_of_bytes blob, snprintf 8 (dec (ttl_of state))] (Cas_write_reply_cb p) w1 = (rc2, w2)"
      by fastforce
    have "acct_to D free waiting U (if rc2 = RET_CODE_OK then X else sess_toks w ?u + X) w (if rc2 = RET_CODE_OK then w2 else sess_put D p w2)"
      by (rule acct_sess_request [OF a g])
        (use acct_evalsha [OF l _ _ c _ errsD [OF cons], of X] at ok in \<open>cases "rc2 = RET_CODE_OK"; simp\<close>)
    then show ?thesis using r e b g c by (auto simp: v_sess_cas_write_def Let_def ttl_of_def split: if_splits)
  qed
qed

lemma acct_sess_cas_write:
  assumes l: "hiredis_laws hi waiting" and cons: "errs D free waiting U cc"
    and a: "acct D free waiting U (sess_toks w (Sess_cas cb ver) + X) w"
    and ok: "sess_ok (txn_at w) (Sess_cas cb ver)" and r: "v_sess_cas_write D hi cc part seid ver ctx state cb w = (rc, w')"
  shows "acct_to D free waiting U (if rc = RET_CODE_OK then X else sess_toks w (Sess_cas cb ver) + X) w w'"
  using a
proof (cases rule: acct_ensure_pool)
  case refused
  then show ?thesis using r a by (auto simp: v_sess_cas_write_def acct_to_refl)
next
  case (ready pool)
  let ?w = "w\<lparr>g_sess_pool := Some pool\<rparr>"
  have t: "sess_toks ?w (Sess_cas cb ver) = sess_toks w (Sess_cas cb ver)" by (rule sess_toks_cong) simp
  have r': "v_sess_cas_write D hi cc part seid ver ctx state cb ?w = (rc, w')"
    using r ready(1,2) by (simp add: v_sess_cas_write_def)
  have "acct_to D free waiting U (if rc = RET_CODE_OK then X else sess_toks ?w (Sess_cas cb ver) + X) ?w w'"
    by (rule acct_sess_cas_write_ready [OF l cons]) (use ready(2,3) ok t r' in simp_all)
  then show ?thesis unfolding t by (rule acct_to_created(1))
qed

lemma acct_sess_delete_ready:
  assumes l: "hiredis_laws hi waiting" and cons: "errs D free waiting U cc"
    and a: "acct D free waiting U (sess_toks w (Sess_cas cb ver) + X) w"
    and ok: "sess_ok (txn_at w) (Sess_cas cb ver)" and r: "v_sess_delete D hi cc part seid ver cb w = (rc, w')"
    and e: "ensure_pool D w = (RET_CODE_OK, w)"
  shows "acct_to D free waiting U (if rc = RET_CODE_OK then X else sess_toks w (Sess_cas cb ver) + X) w w'"
proof -
  let ?u = "Sess_cas cb ver" and ?k = "make_key part seid"
  show ?thesis
  proof (cases "sess_get D ?u w")
    case None
    then show ?thesis using r a e by (simp add: v_sess_delete_def Let_def acct_to_refl)
  next
    case (Some x)
    then obtain p w1 where g: "sess_get D ?u w = Some (p, w1)" by (cases x) auto
    note at = sess_get_at [OF g]
    obtain rc2 w2 where c: "v_db_evalsha D hi cc (v_port_db_shard_of ?k) V_SCRIPT_SESS_DELETE [?k]
        [snprintf 24 (dec (unat ver))] (Delete_reply_cb p) w1 = (rc2, w2)" by fastforce
    have "acct_to D free waiting U (if rc2 = RET_CODE_OK then X else sess_toks w ?u + X) w (if rc2 = RET_CODE_OK then w2 else sess_put D p w2)"
      by (rule acct_sess_request [OF a g])
        (use acct_evalsha [OF l _ _ c _ errsD [OF cons], of X] at ok in \<open>cases "rc2 = RET_CODE_OK"; simp\<close>)
    then show ?thesis using r e g c by (auto simp: v_sess_delete_def Let_def split: if_splits)
  qed
qed

lemma acct_sess_delete:
  assumes l: "hiredis_laws hi waiting" and cons: "errs D free waiting U cc"
    and a: "acct D free waiting U (sess_toks w (Sess_cas cb ver) + X) w"
    and ok: "sess_ok (txn_at w) (Sess_cas cb ver)" and r: "v_sess_delete D hi cc part seid ver cb w = (rc, w')"
  shows "acct_to D free waiting U (if rc = RET_CODE_OK then X else sess_toks w (Sess_cas cb ver) + X) w w'"
  using a
proof (cases rule: acct_ensure_pool)
  case refused
  then show ?thesis using r a by (auto simp: v_sess_delete_def acct_to_refl)
next
  case (ready pool)
  let ?w = "w\<lparr>g_sess_pool := Some pool\<rparr>"
  have t: "sess_toks ?w (Sess_cas cb ver) = sess_toks w (Sess_cas cb ver)" by (rule sess_toks_cong) simp
  have r': "v_sess_delete D hi cc part seid ver cb ?w = (rc, w')"
    using r ready(1,2) by (simp add: v_sess_delete_def)
  have "acct_to D free waiting U (if rc = RET_CODE_OK then X else sess_toks ?w (Sess_cas cb ver) + X) ?w w'"
    by (rule acct_sess_delete_ready [OF l cons]) (use ready(2,3) ok t r' in simp_all)
  then show ?thesis unfolding t by (rule acct_to_created(1))
qed

lemma acct_retrans_lookup_ready:
  assumes l: "hiredis_laws hi waiting" and a: "acct D free waiting U (txn_toks w (retrans_txn cb) + X) w"
    and ok: "t_ctx (txn_at w (retrans_txn cb)) = 0" "t_impl (txn_at w (retrans_txn cb)) = 0"
    and r: "v_retrans_lookup D hi part f seq cb w = (rc, w')"
    and e: "ensure_retrans_pool D w = (RET_CODE_OK, w)"
  shows "acct_to D free waiting U (if rc = RET_CODE_OK then X else txn_toks w (retrans_txn cb) + X) w w'"
proof -
  let ?k = "retrans_key part f seq" and ?K = "txn_toks w (retrans_txn cb)"
  show ?thesis
  proof (cases "pool_get D (g_retrans_pool w)")
    case None
    then show ?thesis using r a e by (simp add: v_retrans_lookup_def Let_def acct_to_refl split: prod.splits)
  next
    case (Some x)
    then obtain p pool where g: "pool_get D (g_retrans_pool w) = Some (p, pool)" by (cases x) auto
    let ?w1 = "w\<lparr>g_retrans_pool := Some pool, retrans_pending_at := (retrans_pending_at w)(p := cb)\<rparr>"
    let ?cb = "Lookup_reply_cb p"
    obtain rc2 w2 where c: "v_port_db_cmd D hi (v_port_db_shard_of ?k) ?cb [''GET'', ?k] ?w1 = (rc2, w2)" by fastforce
    note g1 = acct_retrans_get [OF a g, of cb]
    have k: "keeps (?K + X) w ?w1"
    proof (rule keeps_upd [OF g1])
      fix j assume "j \<noteq> Trt p"
      then show "agree_on w ?w1 j" by (cases j) auto
    qed
    have "acct D free waiting U (cb_toks ?w1 ?cb + X) ?w1" using g1 by (simp add: txn_toks_def)
    from acct_cmd_to [OF l this _ c]
    have c2: "acct_to D free waiting U (if rc2 = RET_CODE_OK then X else add_mset (Trt p) (?K + X)) ?w1 w2"
      using ok by (cases "rc2 = RET_CODE_OK") (simp_all add: txn_toks_def)
    show ?thesis
    proof (cases "rc2 = RET_CODE_OK")
      case True
      then have "acct_to D free waiting U X w w2" using c2 k keeps_trans by (auto simp: acct_to_def keeps_add)
      then show ?thesis using True r e g c by (auto simp: v_retrans_lookup_def Let_def)
    next
      case False
      then have c2': "acct_to D free waiting U (add_mset (Trt p) (?K + X)) ?w1 w2" using c2 by simp
      then have "acct_to D free waiting U (?K + X) ?w1 (retrans_put D p w2)"
        by (rule acct_to_sub) (use c2' in \<open>simp_all add: acct_to_def acct_retrans_put\<close>)
      then have "acct_to D free waiting U (?K + X) w (retrans_put D p w2)" using keeps_trans [OF k] by (simp add: acct_to_def)
      then show ?thesis using False r e g c by (auto simp: v_retrans_lookup_def Let_def)
    qed
  qed
qed

lemma acct_retrans_lookup:
  assumes l: "hiredis_laws hi waiting" and a: "acct D free waiting U (txn_toks w (retrans_txn cb) + X) w"
    and ok: "t_ctx (txn_at w (retrans_txn cb)) = 0" "t_impl (txn_at w (retrans_txn cb)) = 0"
    and r: "v_retrans_lookup D hi part f seq cb w = (rc, w')"
  shows "acct_to D free waiting U (if rc = RET_CODE_OK then X else txn_toks w (retrans_txn cb) + X) w w'"
  using a
proof (cases rule: acct_ensure_retrans_pool)
  case refused
  then show ?thesis using r a by (auto simp: v_retrans_lookup_def acct_to_refl)
next
  case (ready pool)
  let ?w = "w\<lparr>g_retrans_pool := Some pool\<rparr>"
  have t: "txn_toks ?w (retrans_txn cb) = txn_toks w (retrans_txn cb)" by (rule txn_toks_cong) simp
  have r': "v_retrans_lookup D hi part f seq cb ?w = (rc, w')"
    using r ready(1,2) by (simp add: v_retrans_lookup_def)
  have "acct_to D free waiting U (if rc = RET_CODE_OK then X else txn_toks ?w (retrans_txn cb) + X) ?w w'"
    by (rule acct_retrans_lookup_ready [OF l]) (use ready(2,3) ok t r' in simp_all)
  then show ?thesis unfolding t by (rule acct_to_created(2))
qed

end
