(* ===== verification/Flow_ownership.thy ===== *)
theory Flow_ownership
  imports Ownership_ops
begin

section \<open>The session flows keep the account\<close>

text \<open>
  Each callback of the flows ends in one of two ways: it hands its transaction to the next
  command, or it answers and gives back everything the transaction held. The theory shows this
  for every branch of \<^verbatim>\<open>v_flow.c\<close>, then for the calls through callback pointers at the nesting
  depth of \<^verbatim>\<open>db_call\<close>, then for whole runs of the worker: replies, requests and ticks of the
  event loop.
\<close>

subsection \<open>Steps that own nothing\<close>

lemma keeps_same: "same_acct w w' \<Longrightarrow> keeps X w w'"
  unfolding keeps_def
proof
  fix k assume "same_acct w w'"
  then show "agree_on w w' k" by (cases k) (simp_all add: same_acct_def)
qed

lemma acct_to_same: "acct D free waiting U X w \<Longrightarrow> same_acct w w' \<Longrightarrow> acct_to D free waiting U X w w'"
  using acct_same keeps_same by (auto simp: acct_to_def)

lemma same_acct_refl [simp]: "same_acct w w"
  by (simp add: same_acct_def)

lemma same_acct_ids [simp]:
  "same_acct w (w\<lparr>g_seid_ring := x1\<rparr>)" "same_acct w (w\<lparr>g_teid_ring := x2\<rparr>)"
  "same_acct w (w\<lparr>g_seid_refill_inflight := x3\<rparr>)" "same_acct w (w\<lparr>g_teid_refill_inflight := x4\<rparr>)"
  "same_acct w (w\<lparr>g_teid_next_seeded := x5\<rparr>)"
  by (simp_all add: same_acct_def)

lemma acct_to_step: "acct_to D free waiting U X w w1 \<Longrightarrow> (acct D free waiting U X w1 \<Longrightarrow> acct_to D free waiting U X w1 w2) \<Longrightarrow>
    acct_to D free waiting U X w w2"
  using acct_to_trans [of D free waiting U X w w1 X w2] by (simp add: acct_to_def)

lemma acct_to_cmd_free:
  assumes "hiredis_laws hi waiting" and "acct D free waiting U X w" and "cb_toks w cb = {#}" "cb_ok w cb"
  shows "acct_to D free waiting U X w (snd (v_port_db_cmd D hi shard cb args w))"
  using acct_cmd_free [OF assms] by (simp add: acct_to_def)

lemma acct_teid_free:
  assumes "hiredis_laws hi waiting" and "acct D free waiting U X w"
  shows "acct_to D free waiting U X w (v_teid_free D hi part teid w)"
  unfolding v_teid_free_def by (rule acct_to_cmd_free [OF assms]) simp_all

lemma acct_retrans_store:
  assumes "hiredis_laws hi waiting" and "acct D free waiting U X w"
  shows "acct_to D free waiting U X w (snd (v_retrans_store D hi part f seq resp w))"
  unfolding v_retrans_store_def Let_def v_port_db_cmd_argv_def by (rule acct_to_cmd_free [OF assms]) simp_all

lemma tx_enqueue_same [simp]: "same_acct w (snd (v_dispatch_tx_enqueue D buf peer w))"
  by (auto simp: v_dispatch_tx_enqueue_def stage_msg_def same_acct_def split: option.split)

lemma acct_seid_refill:
  assumes l: "hiredis_laws hi waiting" and a: "acct D free waiting U X w"
  shows "acct_to D free waiting U X w (seid_maybe_refill D hi part w)"
proof (cases "V_ID_WATERMARK \<le> ring_count D (g_seid_ring w part) \<or> g_seid_refill_inflight w part")
  case True
  then show ?thesis using a by (auto simp: seid_maybe_refill_def acct_to_refl)
next
  case False
  let ?w1 = "w\<lparr>g_seid_refill_inflight := (g_seid_refill_inflight w)(part := True)\<rparr>"
  let ?c = "v_port_db_cmd D hi (shard_for_part part) (Seid_refill_reply_cb part) [''INCRBY'', seid_next_key part, dec V_ID_BLK_SIZE] ?w1"
  have w1: "acct_to D free waiting U X w ?w1" by (rule acct_to_same [OF a]) simp
  have w2: "acct_to D free waiting U X w (snd ?c)"
    by (rule acct_to_step [OF w1]) (rule acct_to_cmd_free [OF l], simp_all)
  have "acct_to D free waiting U X w ((snd ?c)\<lparr>g_seid_refill_inflight := (g_seid_refill_inflight (snd ?c))(part := False)\<rparr>)"
    by (rule acct_to_step [OF w2]) (rule acct_to_same, simp_all)
  then show ?thesis using False w2 by (auto simp: seid_maybe_refill_def Let_def split: prod.split)
qed

lemma acct_seid_alloc:
  assumes l: "hiredis_laws hi waiting" and a: "acct D free waiting U X w" and r: "v_seid_alloc D hi part w = (seid, w')"
  shows "acct_to D free waiting U X w w'"
  by (rule acct_to_step [OF acct_seid_refill [OF l a, of part]]) (use r in \<open>auto simp: v_seid_alloc_def Let_def acct_to_refl intro: acct_to_same split: option.splits\<close>)

lemma acct_teid_refill:
  assumes l: "hiredis_laws hi waiting" and cons: "errs D free waiting U cc" and a: "acct D free waiting U X w"
  shows "acct_to D free waiting U X w (teid_maybe_refill D hi cc part w)"
proof (cases "V_ID_WATERMARK \<le> ring_count D (g_teid_ring w part) \<or> g_teid_refill_inflight w part")
  case True
  then show ?thesis using a by (auto simp: teid_maybe_refill_def acct_to_refl)
next
  case False
  let ?w1 = "w\<lparr>g_teid_refill_inflight := (g_teid_refill_inflight w)(part := True)\<rparr>"
  let ?w2 = "if g_teid_next_seeded ?w1 part then ?w1
    else snd (v_port_db_cmd D hi (shard_for_part part) Seed_reply_cb [''SETNX'', teid_next_key part, ''1'']
      (?w1\<lparr>g_teid_next_seeded := (g_teid_next_seeded ?w1)(part := True)\<rparr>))"
  obtain rc w3 where e: "v_db_evalsha D hi cc (shard_for_part part) V_SCRIPT_TEID_REFILL [teid_free_key part, teid_next_key part]
      [snprintf 8 (dec V_ID_BLK_SIZE), snprintf 8 (dec V_TEID_FREE_FLOOR)] (Teid_refill_reply_cb part) ?w2 = (rc, w3)" by fastforce
  have w1: "acct_to D free waiting U X w ?w1" by (rule acct_to_same [OF a]) simp
  have s: "acct_to D free waiting U X w (?w1\<lparr>g_teid_next_seeded := (g_teid_next_seeded ?w1)(part := True)\<rparr>)"
    by (rule acct_to_step [OF w1]) (rule acct_to_same, simp_all)
  have "acct_to D free waiting U X w (snd (v_port_db_cmd D hi (shard_for_part part) Seed_reply_cb [''SETNX'', teid_next_key part, ''1'']
      (?w1\<lparr>g_teid_next_seeded := (g_teid_next_seeded ?w1)(part := True)\<rparr>)))"
    by (rule acct_to_step [OF s]) (rule acct_to_cmd_free [OF l], simp_all)
  then have w2: "acct_to D free waiting U X w ?w2" using w1 by (auto split: if_split)
  have w3: "acct_to D free waiting U X w w3"
  proof (rule acct_to_step [OF w2])
    assume "acct D free waiting U X ?w2"
    then have "acct D free waiting U (ucb_toks ?w2 (Teid_refill_reply_cb part) + X) ?w2" by simp
    from acct_evalsha [OF l this _ e _ errsD [OF cons]] show "acct_to D free waiting U X ?w2 w3" by (simp split: if_splits)
  qed
  have "acct_to D free waiting U X w (w3\<lparr>g_teid_refill_inflight := (g_teid_refill_inflight w3)(part := False)\<rparr>)"
    by (rule acct_to_step [OF w3]) (rule acct_to_same, simp_all)
  then show ?thesis using False w3 e by (auto simp: teid_maybe_refill_def Let_def)
qed

lemma acct_teid_alloc:
  assumes l: "hiredis_laws hi waiting" and cons: "errs D free waiting U cc"
    and a: "acct D free waiting U X w" and r: "v_teid_alloc D hi cc part w = (teid, w')"
  shows "acct_to D free waiting U X w w'"
  by (rule acct_to_step [OF acct_teid_refill [OF l cons a, of part]]) (use r in \<open>auto simp: v_teid_alloc_def Let_def acct_to_refl intro: acct_to_same split: option.splits\<close>)

subsection \<open>A transaction in the hands of a callback\<close>

text \<open>
  The callback that started in \<open>w0\<close> runs with the transaction \<open>t\<close> and what it holds, besides \<open>Y\<close>,
  whose contents are those of \<open>w0\<close>.
\<close>

definition runs ::
    "('r, 'p) dpdk \<Rightarrow> ('p \<Rightarrow> ptr set) \<Rightarrow> ('h \<Rightarrow> (string list \<times> ptr) list) \<Rightarrow> arena \<Rightarrow> ptr \<Rightarrow> tok multiset \<Rightarrow>
     ('r, 'p, 'h, 'a) retrans_st_scheme \<Rightarrow> ('r, 'p, 'h, 'a) retrans_st_scheme \<Rightarrow> bool" where
  "runs D free waiting U t Y w0 w \<longleftrightarrow> acct D free waiting U (txn_toks w t + Y) w \<and> keeps Y w0 w"

lemma runs_start: "acct D free waiting U (txn_toks w t + Y) w \<Longrightarrow> runs D free waiting U t Y w w"
  by (simp add: runs_def)

lemma runs_acct: "runs D free waiting U t Y w0 w \<Longrightarrow> acct D free waiting U (txn_toks w t + Y) w"
  by (simp add: runs_def)

text \<open>An operation that leaves what the callback holds alone.\<close>

lemma runs_step:
  assumes r: "runs D free waiting U t Y w0 w"
    and a: "acct D free waiting U (txn_toks w t + Y) w \<Longrightarrow> acct_to D free waiting U (txn_toks w t + Y) w w'"
  shows "runs D free waiting U t Y w0 w' \<and> txn_at w' t = txn_at w t"
proof -
  have a: "acct_to D free waiting U (txn_toks w t + Y) w w'" by (rule a [OF runs_acct [OF r]])
  then have t: "txn_at w' t = txn_at w t" by (simp add: acct_to_def keeps_add txn_toks_def)
  then have "txn_toks w' t = txn_toks w t" by (simp add: txn_toks_def)
  then show ?thesis using a r t keeps_trans by (auto simp: runs_def acct_to_def keeps_add)
qed

lemma runs_end:
  assumes "runs D free waiting U t Y w0 w" and "acct D free waiting U (txn_toks w t + Y) w \<Longrightarrow> acct_to D free waiting U Y w w'"
  shows "acct_to D free waiting U Y w0 w'"
  using assms keeps_trans by (auto simp: runs_def acct_to_def)

lemma runs_request:
  assumes "runs D free waiting U t Y w0 w"
    and "acct D free waiting U (txn_toks w t + Y) w \<Longrightarrow>
      acct_to D free waiting U (if rc = RET_CODE_OK then Y else txn_toks w t + Y) w w'"
  shows "if rc = RET_CODE_OK then acct_to D free waiting U Y w0 w'
    else runs D free waiting U t Y w0 w' \<and> txn_at w' t = txn_at w t"
  using runs_end [OF assms(1), of w'] runs_step [OF assms(1), of w'] assms(2) by (cases "rc = RET_CODE_OK") simp_all

lemma agree_rec: "k \<in># rec_toks x \<Longrightarrow> agree_on w w' k"
  by (auto simp: rec_toks_def opt_tok_def split: if_splits)

text \<open>An assignment to members of the transaction; what it drops the callback holds itself.\<close>

lemma runs_upd:
  assumes r: "runs D free waiting U t Y w0 w"
    and e: "rec_toks (f (txn_at w t)) + Y' = rec_toks (txn_at w t) + Y"
  shows "runs D free waiting U t Y' w0 (txn_upd t f w)"
proof -
  let ?w' = "txn_upd t f w"
  have a: "acct D free waiting U (txn_toks w t + Y) w" by (rule runs_acct [OF r])
  have "txn_toks ?w' t + Y' = txn_toks w t + Y" using e by (simp add: txn_toks_def txn_upd_def)
  then have a': "acct D free waiting U (txn_toks ?w' t + Y') ?w'"
    using acct_txn_upd [OF a, of t f] by (simp add: txn_toks_def)
  have nt: "Ttx t \<notin># rec_toks (txn_at w t) + Y" using a by (intro acct_fresh) (simp add: txn_toks_def)
  have "agree_on w0 ?w' k" if "k \<in># Y'" for k
  proof (cases "k \<in># rec_toks (txn_at w t)")
    case False
    have "k \<in># rec_toks (txn_at w t) + Y" unfolding e [symmetric] using that by simp
    then have "k \<in># Y" "k \<noteq> Ttx t" using False nt by auto
    moreover from this(2) have "agree_on w ?w' k" by (cases k) (auto simp: txn_upd_def)
    ultimately show ?thesis using r agree_on_trans [of w0 w k ?w'] by (auto simp: runs_def keeps_def)
  qed (rule agree_rec)
  then show ?thesis using a' by (simp add: runs_def keeps_def)
qed

lemma runs_same:
  "runs D free waiting U t Y w0 w \<Longrightarrow> (\<And>x. rec_toks (f x) = rec_toks x) \<Longrightarrow> runs D free waiting U t Y w0 (txn_upd t f w)"
  by (rule runs_upd) simp_all

lemma txn_upd_at [simp]: "txn_at (txn_upd t f w) = (txn_at w)(t := f (txn_at w t))"
  by (simp add: txn_upd_def)

lemma rec_toks_upd [simp]:
  "rec_toks (x\<lparr>t_state := a\<rparr>) = rec_toks x" "rec_toks (x\<lparr>t_db_ver := b\<rparr>) = rec_toks x"
  "rec_toks (x\<lparr>t_part_id := c\<rparr>) = rec_toks x" "rec_toks (x\<lparr>t_seid := d\<rparr>) = rec_toks x"
  "rec_toks (x\<lparr>t_teid := e\<rparr>) = rec_toks x" "rec_toks (x\<lparr>t_peer := p\<rparr>) = rec_toks x"
  "rec_toks (x\<lparr>t_cas_retry := i\<rparr>) = rec_toks x"
  by (simp_all add: rec_toks_def)

lemma runs_state:
  "runs D free waiting U t Y w0 w \<Longrightarrow> runs D free waiting U t Y w0 (v_port_txn_set_state t st w)"
  unfolding v_port_txn_set_state_def by (rule runs_same) simp_all

lemma set_state_at [simp]: "txn_at (v_port_txn_set_state t st w) = (txn_at w)(t := (txn_at w t)\<lparr>t_state := st\<rparr>)"
  by (simp add: v_port_txn_set_state_def)

subsection \<open>Giving back what the transaction holds\<close>

lemma ctx_ops_txn_at [simp]:
  "txn_at (v_port_ctx_free D c w) = txn_at w" "txn_at (v_port_ctx_clear c v) = txn_at v" "txn_at (v_port_pfcp_msg_free D m u) = txn_at u"
  by (simp_all add: v_port_ctx_free_def v_port_ctx_clear_def v_port_pfcp_msg_free_def)

lemma keeps_ctx_ops [simp]:
  "keeps X w (v_port_ctx_free D c w)" "keeps X w (v_port_ctx_clear c w)" "keeps X w (v_port_pfcp_msg_free D m w)"
  "keeps X w (w\<lparr>ctx_at := at\<rparr>)"
proof -
  have "agree_on w (v_port_ctx_free D c w) k \<and> agree_on w (v_port_ctx_clear c w) k \<and>
      agree_on w (v_port_pfcp_msg_free D m w) k \<and> agree_on w (w\<lparr>ctx_at := at\<rparr>) k" for k
    by (cases k) (simp_all add: v_port_ctx_free_def v_port_ctx_clear_def v_port_pfcp_msg_free_def)
  then show "keeps X w (v_port_ctx_free D c w)" "keeps X w (v_port_ctx_clear c w)" "keeps X w (v_port_pfcp_msg_free D m w)"
    "keeps X w (w\<lparr>ctx_at := at\<rparr>)" by (simp_all add: keeps_def)
qed

lemma runs_ctx_free:
  assumes "runs D free waiting U t (opt_tok Tcx c + Y) w0 w"
  shows "runs D free waiting U t Y w0 (v_port_ctx_free D c w)"
proof -
  have "acct D free waiting U (txn_toks w t + Y) (v_port_ctx_free D c w)"
    using runs_acct [OF assms] by (intro acct_ctx_free) (simp add: ac_simps)
  moreover have "keeps Y w0 w" using assms by (simp add: runs_def keeps_add)
  ultimately show ?thesis using keeps_trans [OF _ keeps_ctx_ops(1)] by (simp add: runs_def txn_toks_def)
qed

lemma runs_msg_free:
  assumes "runs D free waiting U t (opt_tok Tms m + Y) w0 w"
  shows "runs D free waiting U t Y w0 (v_port_pfcp_msg_free D m w)"
proof -
  have "acct D free waiting U (txn_toks w t + Y) (v_port_pfcp_msg_free D m w)"
    using runs_acct [OF assms] by (intro acct_msg_free) (simp add: ac_simps)
  moreover have "keeps Y w0 w" using assms by (simp add: runs_def keeps_add)
  ultimately show ?thesis using keeps_trans [OF _ keeps_ctx_ops(3)] by (simp add: runs_def txn_toks_def)
qed

text \<open>The program frees an object first and clears the member after; the two commute.\<close>

lemma free_then_clear:
  "txn_upd t f (v_port_ctx_free D c w) = v_port_ctx_free D c (txn_upd t f w)"
  "txn_upd t f (v_port_pfcp_msg_free D m v) = v_port_pfcp_msg_free D m (txn_upd t f v)"
  by (simp_all add: v_port_ctx_free_def v_port_pfcp_msg_free_def txn_upd_def)

lemma runs_free_ctx:
  assumes "runs D free waiting U t Y w0 w"
  shows "runs D free waiting U t Y w0 (free_ctx D t w) \<and> txn_at (free_ctx D t w) t = (txn_at w t)\<lparr>t_ctx := 0\<rparr>"
proof (cases "t_ctx (txn_at w t) = 0")
  case False
  have "runs D free waiting U t (opt_tok Tcx (t_ctx (txn_at w t)) + Y) w0 (txn_upd t (\<lambda>x. x\<lparr>t_ctx := 0\<rparr>) w)"
    by (rule runs_upd [OF assms]) (simp add: rec_toks_def ac_simps)
  from runs_ctx_free [OF this] show ?thesis using False by (simp add: free_ctx_def free_then_clear)
qed (use assms in \<open>simp add: free_ctx_def\<close>)

lemma runs_free_impl:
  assumes "runs D free waiting U t Y w0 w"
  shows "runs D free waiting U t Y w0 (free_impl D t w) \<and> txn_at (free_impl D t w) t = (txn_at w t)\<lparr>t_impl := 0\<rparr>"
proof (cases "t_impl (txn_at w t) = 0")
  case False
  have "runs D free waiting U t (opt_tok Tcx (t_impl (txn_at w t)) + Y) w0 (txn_upd t (\<lambda>x. x\<lparr>t_impl := 0\<rparr>) w)"
    by (rule runs_upd [OF assms]) (simp add: rec_toks_def ac_simps)
  from runs_ctx_free [OF this] show ?thesis using False by (simp add: free_impl_def free_then_clear)
qed (use assms in \<open>simp add: free_impl_def\<close>)

lemma runs_free_req:
  assumes "runs D free waiting U t Y w0 w"
  shows "runs D free waiting U t Y w0 (free_req D t w) \<and> txn_at (free_req D t w) t = (txn_at w t)\<lparr>t_req := 0\<rparr>"
proof (cases "t_req (txn_at w t) = 0")
  case False
  have "runs D free waiting U t (opt_tok Tms (t_req (txn_at w t)) + Y) w0 (txn_upd t (\<lambda>x. x\<lparr>t_req := 0\<rparr>) w)"
    by (rule runs_upd [OF assms]) (simp add: rec_toks_def ac_simps)
  from runs_msg_free [OF this] show ?thesis using False by (simp add: free_req_def free_then_clear)
qed (use assms in \<open>simp add: free_req_def\<close>)

text \<open>The transaction may go back to its pool when it holds nothing.\<close>

lemma runs_destroy:
  assumes r: "runs D free waiting U t Y w0 w" and z: "rec_toks (txn_at w t) = {#}"
  shows "acct_to D free waiting U Y w0 (v_port_txn_destroy D t w)"
proof (rule runs_end [OF r])
  assume a: "acct D free waiting U (txn_toks w t + Y) w"
  have a: "acct D free waiting U (add_mset (Ttx t) Y) w" using a z by (simp add: txn_toks_def)
  have "keeps Y w (v_port_txn_destroy D t w)"
  proof (rule keeps_upd [OF a])
    fix j assume "j \<noteq> Ttx t"
    then show "agree_on w (v_port_txn_destroy D t w) j" by (cases j) (auto simp: v_port_txn_destroy_def split: option.split)
  qed
  then show "acct_to D free waiting U Y w (v_port_txn_destroy D t w)" using acct_txn_destroy [OF a] by (simp add: acct_to_def)
qed

subsection \<open>The ends of a flow\<close>

lemma runs_tx:
  "runs D free waiting U t Y w0 w \<Longrightarrow>
     runs D free waiting U t Y w0 (snd (v_dispatch_tx_enqueue D buf peer w)) \<and>
     txn_at (snd (v_dispatch_tx_enqueue D buf peer w)) t = txn_at w t"
  by (erule runs_step) (rule acct_to_same, simp_all)

lemma runs_teid_free:
  "hiredis_laws hi waiting \<Longrightarrow> runs D free waiting U t Y w0 w \<Longrightarrow>
     runs D free waiting U t Y w0 (v_teid_free D hi part teid w) \<and> txn_at (v_teid_free D hi part teid w) t = txn_at w t"
  by (erule runs_step) (rule acct_teid_free)

lemma runs_finish:
  assumes l: "hiredis_laws hi waiting" and r: "runs D free waiting U t Y w0 w" and i: "t_impl (txn_at w t) = 0"
  shows "acct_to D free waiting U Y w0 (finish D hi t cause w)"
proof -
  define rsp where "rsp = v_port_pfcp_encode_rsp (pfcp_at w (t_req (txn_at w t)))
    (if cause = V_PFCP_CAUSE_REQUEST_ACCEPTED \<and> t_ctx (txn_at w t) \<noteq> 0 then Some (ctx_at w (t_ctx (txn_at w t))) else None) cause 512"
  define w1 where "w1 = (case rsp of None \<Rightarrow> w | Some buf \<Rightarrow>
    let f = v_port_pfcp_smf_fseid (pfcp_at w (t_req (txn_at w t))); seq = v_port_pfcp_seq (pfcp_at w (t_req (txn_at w t)));
        w = snd (v_retrans_store D hi (v_retrans_part f) f seq buf w)
    in snd (v_dispatch_tx_enqueue D buf (Some (t_peer (txn_at w t))) w))"
  have "runs D free waiting U t Y w0 w1 \<and> txn_at w1 t = txn_at w t"
  proof (cases rsp)
    case (Some buf)
    let ?req = "pfcp_at w (t_req (txn_at w t))"
    let ?w2 = "snd (v_retrans_store D hi (v_retrans_part (v_port_pfcp_smf_fseid ?req)) (v_port_pfcp_smf_fseid ?req) (v_port_pfcp_seq ?req) buf w)"
    have "runs D free waiting U t Y w0 ?w2 \<and> txn_at ?w2 t = txn_at w t"
      by (rule runs_step [OF r]) (rule acct_retrans_store [OF l])
    then show ?thesis using runs_tx [of D free waiting U t Y w0 ?w2 buf "Some (t_peer (txn_at ?w2 t))"] Some
      by (simp add: w1_def Let_def)
  qed (use r in \<open>simp add: w1_def\<close>)
  then have r2: "runs D free waiting U t Y w0 (v_port_txn_set_state t TXN_ST_REPLIED w1)" and i2: "t_impl (txn_at w1 t) = 0"
    using i by (simp_all add: runs_state)
  note r3 = runs_free_ctx [OF r2]
  note r4 = runs_free_req [OF conjunct1 [OF r3]]
  have "finish D hi t cause w = v_port_txn_destroy D t (free_req D t (free_ctx D t (v_port_txn_set_state t TXN_ST_REPLIED w1)))"
    unfolding finish_def w1_def rsp_def Let_def by (rule refl)
  with runs_destroy [OF conjunct1 [OF r4]] r3 r4 i2 show ?thesis by (simp add: rec_toks_def)
qed

lemma runs_hit:
  assumes r: "runs D free waiting U t Y w0 w" and z: "t_ctx (txn_at w t) = 0" "t_impl (txn_at w t) = 0"
  shows "acct_to D free waiting U Y w0 (retrans_hit D resp t w)"
proof -
  let ?w1 = "snd (v_dispatch_tx_enqueue D resp (Some (t_peer (txn_at w t))) w)"
  note r1 = runs_tx [OF r, of resp "Some (t_peer (txn_at w t))"]
  have "runs D free waiting U t (opt_tok Tms (t_req (txn_at ?w1 t)) + Y) w0 (txn_upd t (\<lambda>x. x\<lparr>t_req := 0\<rparr>) ?w1)"
    by (rule runs_upd [OF conjunct1 [OF r1]]) (simp add: rec_toks_def ac_simps)
  from runs_destroy [OF runs_msg_free [OF this]] r1 z show ?thesis
    by (simp add: retrans_hit_def Let_def free_then_clear rec_toks_def)
qed

subsection \<open>The VDP callbacks\<close>

text \<open>A request to the session store on behalf of the transaction.\<close>

lemma runs_sess:
  assumes "runs D free waiting U t Y w0 w" and "sess_txn u = Some t"
    and "acct D free waiting U (sess_toks w u + Y) w \<Longrightarrow>
      acct_to D free waiting U (if rc = RET_CODE_OK then Y else sess_toks w u + Y) w w'"
  shows "if rc = RET_CODE_OK then acct_to D free waiting U Y w0 w'
    else runs D free waiting U t Y w0 w' \<and> txn_at w' t = txn_at w t"
  by (rule runs_request [OF assms(1)]) (use assms(2,3) in \<open>cases "rc = RET_CODE_OK"; simp add: sess_toks_def\<close>)

lemma runs_pending_delete:
  assumes l: "hiredis_laws hi waiting" and cons: "errs D free waiting U cc"
    and r: "runs D free waiting U t Y w0 w"
  shows "runs D free waiting U t Y w0 (snd (v_sess_delete D hi cc part seid ver Delete_pending_noop_cb w)) \<and>
    txn_at (snd (v_sess_delete D hi cc part seid ver Delete_pending_noop_cb w)) t = txn_at w t"
proof (rule runs_step [OF r])
  assume a: "acct D free waiting U (txn_toks w t + Y) w"
  obtain rc w' where d: "v_sess_delete D hi cc part seid ver Delete_pending_noop_cb w = (rc, w')" by fastforce
  have "acct D free waiting U (sess_toks w (Sess_cas Delete_pending_noop_cb ver) + (txn_toks w t + Y)) w"
    using a by (simp add: sess_toks_def)
  from acct_sess_delete [OF l cons this _ d]
  show "acct_to D free waiting U (txn_toks w t + Y) w (snd (v_sess_delete D hi cc part seid ver Delete_pending_noop_cb w))"
    using d by (cases "rc = RET_CODE_OK") (simp_all add: sess_toks_def)
qed

lemma runs_vdp_create:
  assumes l: "hiredis_laws hi waiting" and cons: "errs D free waiting U cc"
    and r: "runs D free waiting U t Y w0 w" and i: "t_impl (txn_at w t) = 0"
  shows "acct_to D free waiting U Y w0 (vdp_create_cb D hi cc res t w)"
proof (cases "res = V_VDP_ACCEPT")
  case False
  let ?w1 = "snd (v_sess_delete D hi cc (t_part_id (txn_at w t)) (t_seid (txn_at w t)) (t_db_ver (txn_at w t)) Delete_pending_noop_cb w)"
  note r1 = runs_pending_delete [OF l cons r, of "t_part_id (txn_at w t)" "t_seid (txn_at w t)" "t_db_ver (txn_at w t)"]
  note r2 = runs_teid_free [OF l conjunct1 [OF r1], of "t_part_id (txn_at ?w1 t)" "t_teid (txn_at ?w1 t)"]
  from runs_finish [OF l conjunct1 [OF r2]] r1 r2 i show ?thesis using False by (simp add: vdp_create_cb_def Let_def)
next
  case True
  let ?w1 = "v_port_txn_set_state t TXN_ST_DB_CONFIRM_WAIT w"
  obtain rc w2 where c: "v_sess_confirm D hi (t_part_id (txn_at ?w1 t)) (t_seid (txn_at ?w1 t)) (Confirm_cb t) ?w1 = (rc, w2)" by fastforce
  have "if rc = RET_CODE_OK then acct_to D free waiting U Y w0 w2
      else runs D free waiting U t Y w0 w2 \<and> txn_at w2 t = txn_at ?w1 t"
    by (rule runs_sess [OF runs_state [OF r] _ acct_sess_confirm [OF l _ _ c]]) (use i in simp_all)
  then show ?thesis using True c runs_finish [OF l, of D free U t Y w0 w2] i
    by (auto simp: vdp_create_cb_def Let_def split: if_splits)
qed

lemma runs_vdp_mod:
  assumes l: "hiredis_laws hi waiting" and cons: "errs D free waiting U cc"
    and r: "runs D free waiting U t Y w0 w"
  shows "acct_to D free waiting U Y w0 (mod_vdp_cb D hi cc res t w)"
proof -
  define prev where "prev = t_impl (txn_at w t)"
  define w1 where "w1 = txn_upd t (\<lambda>x. x\<lparr>t_impl := 0\<rparr>) w"
  have r1: "runs D free waiting U t (opt_tok Tcx prev + Y) w0 w1"
    unfolding w1_def by (rule runs_upd [OF r]) (simp add: rec_toks_def prev_def ac_simps)
  have i1: "t_impl (txn_at w1 t) = 0" by (simp add: w1_def)
  show ?thesis
  proof (cases "res = V_VDP_ACCEPT")
    case True
    from runs_finish [OF l runs_ctx_free [OF r1]] i1 have
      "acct_to D free waiting U Y w0 (finish D hi t V_PFCP_CAUSE_REQUEST_ACCEPTED (v_port_ctx_free D prev w1))" by simp
    moreover have "v_port_ctx_free D 0 w1 = w1" by (simp add: v_port_ctx_free_def)
    ultimately show ?thesis using True by (auto simp: mod_vdp_cb_def Let_def w1_def [symmetric] prev_def [symmetric])
  next
    case False
    obtain rc w2 where c: "v_sess_cas_write D hi cc (t_part_id (txn_at w1 t)) (t_seid (txn_at w1 t)) (t_db_ver (txn_at w1 t)) prev V_SESS_CONFIRMED
        (Mod_compensate_write_cb t) w1 = (rc, w2)" by fastforce
    have q: "if rc = RET_CODE_OK then acct_to D free waiting U (opt_tok Tcx prev + Y) w0 w2
        else runs D free waiting U t (opt_tok Tcx prev + Y) w0 w2 \<and> txn_at w2 t = txn_at w1 t"
      by (rule runs_sess [OF r1 _ acct_sess_cas_write [OF l cons _ _ c]]) (use i1 in simp_all)
    show ?thesis
    proof (cases "rc = RET_CODE_OK")
      case True
      then have "acct_to D free waiting U (opt_tok Tcx prev + Y) w0 w2" using q by simp
      then have "acct_to D free waiting U Y w0 (v_port_ctx_free D prev w2)"
        using keeps_trans [OF _ keeps_ctx_ops(1), of Y w0 w2 D prev] acct_ctx_free [of D free waiting U prev Y w2]
        by (simp add: acct_to_def keeps_add)
      then show ?thesis using True False c by (simp add: mod_vdp_cb_def Let_def w1_def [symmetric] prev_def [symmetric])
    next
      case rc: False
      then have q: "runs D free waiting U t (opt_tok Tcx prev + Y) w0 w2" "txn_at w2 t = txn_at w1 t" using q by simp_all
      from runs_finish [OF l runs_ctx_free [OF q(1)]] q(2) i1 show ?thesis
        using rc False c by (simp add: mod_vdp_cb_def Let_def w1_def [symmetric] prev_def [symmetric])
    qed
  qed
qed

lemma runs_vdp_del:
  assumes l: "hiredis_laws hi waiting" and cons: "errs D free waiting U cc"
    and r: "runs D free waiting U t Y w0 w" and i: "t_impl (txn_at w t) = 0" "t_ctx (txn_at w t) \<noteq> 0"
  shows "acct_to D free waiting U Y w0 (del_vdp_cb D hi cc res t w)"
proof (cases "res = V_VDP_ACCEPT")
  case False
  then show ?thesis using runs_finish [OF l r i(1)] by (simp add: del_vdp_cb_def)
next
  case True
  let ?w1 = "v_port_txn_set_state t TXN_ST_DB_WRITE_WAIT w"
  obtain rc w2 where c: "v_sess_delete D hi cc (t_part_id (txn_at ?w1 t)) (t_seid (txn_at ?w1 t)) (t_db_ver (txn_at ?w1 t))
      (Del_delete_cb t) ?w1 = (rc, w2)" by fastforce
  have "if rc = RET_CODE_OK then acct_to D free waiting U Y w0 w2
      else runs D free waiting U t Y w0 w2 \<and> txn_at w2 t = txn_at ?w1 t"
    by (rule runs_sess [OF runs_state [OF r] _ acct_sess_delete [OF l cons _ _ c]]) (use i in simp_all)
  then show ?thesis using True c runs_finish [OF l, of D free U t Y w0 w2] i
    by (auto simp: del_vdp_cb_def Let_def split: if_splits)
qed

subsection \<open>Establishment\<close>

lemma runs_cas_write_cb:
  assumes l: "hiredis_laws hi waiting" and cons: "errs D free waiting U cc"
    and r: "runs D free waiting U t Y w0 w" and i: "t_impl (txn_at w t) = 0"
  shows "acct_to D free waiting U Y w0 (cas_write_cb D hi cc status result ver t w)"
proof (cases "status \<noteq> RET_CODE_OK \<or> result \<noteq> V_CAS_OK")
  case True
  note r1 = runs_teid_free [OF l r, of "t_part_id (txn_at w t)" "t_teid (txn_at w t)"]
  from runs_finish [OF l conjunct1 [OF r1]] r1 i True show ?thesis by (auto simp: cas_write_cb_def)
next
  case False
  let ?w1 = "v_port_txn_set_state t TXN_ST_VDP_WAIT (txn_upd t (\<lambda>x. x\<lparr>t_db_ver := ver\<rparr>) w)"
  have "runs D free waiting U t Y w0 ?w1" by (intro runs_state runs_same r) simp
  from runs_vdp_create [OF l cons this] i show ?thesis using False by (simp add: cas_write_cb_def Let_def vdp_port_defs)
qed

text \<open>Errors of the store's callback take no further request; \<open>cc\<close> is not used.\<close>

lemma runs_cas_write_err:
  assumes l: "hiredis_laws hi waiting" and r: "runs D free waiting U t Y w0 w" and i: "t_impl (txn_at w t) = 0"
    and e: "status \<noteq> RET_CODE_OK"
  shows "acct_to D free waiting U Y w0 (cas_write_cb D hi cc status result ver t w)"
proof -
  note r1 = runs_teid_free [OF l r, of "t_part_id (txn_at w t)" "t_teid (txn_at w t)"]
  from runs_finish [OF l conjunct1 [OF r1]] r1 i e show ?thesis by (auto simp: cas_write_cb_def)
qed

lemma runs_ctx_alloc:
  assumes r: "runs D free waiting U t Y w0 w" and c: "v_port_ctx_alloc D w = (c, w')"
  shows "runs D free waiting U t (opt_tok Tcx c + Y) w0 w'" "txn_at w' = txn_at w"
    "c \<noteq> 0 \<Longrightarrow> ctx_magic (ctx_at w' c) = V_STUB_CTX_MAGIC"
proof -
  obtain b at where w': "w' = w\<lparr>g_ctx_pool := b, ctx_at := at\<rparr>" using ctx_alloc_only [OF c] by metis
  note a = acct_ctx_alloc [OF runs_acct [OF r] c]
  show "txn_at w' = txn_at w" by (simp add: w')
  show "c \<noteq> 0 \<Longrightarrow> ctx_magic (ctx_at w' c) = V_STUB_CTX_MAGIC" by (rule a(2))
  have "agree_on w w' k" for k by (cases k) (simp_all add: w')
  then have "keeps Y w w'" by (simp add: keeps_def)
  then have "keeps Y w0 w'" using r keeps_trans by (auto simp: runs_def)
  moreover have "keeps (opt_tok Tcx c) w0 w'" by (simp add: opt_tok_def keeps_def)
  moreover have "acct D free waiting U (txn_toks w' t + (opt_tok Tcx c + Y)) w'"
    using a(1) by (simp add: txn_toks_def w' ac_simps)
  ultimately show "runs D free waiting U t (opt_tok Tcx c + Y) w0 w'" by (simp add: runs_def keeps_add)
qed

lemma runs_ctx_write:
  assumes r: "runs D free waiting U t Y w0 w" and m: "ctx_magic v = ctx_magic (ctx_at w c)"
  shows "runs D free waiting U t Y w0 (w\<lparr>ctx_at := (ctx_at w)(c := v)\<rparr>)"
  using runs_step [OF r, of "w\<lparr>ctx_at := (ctx_at w)(c := v)\<rparr>"] acct_ctx_write [OF runs_acct [OF r] m] by (simp add: acct_to_def)

lemma runs_ctx_clear:
  assumes r: "runs D free waiting U t Y w0 w"
  shows "runs D free waiting U t Y w0 (v_port_ctx_clear c w)"
  using runs_step [OF r, of "v_port_ctx_clear c w"] acct_ctx_clear [OF runs_acct [OF r]] by (simp add: acct_to_def)

lemma fill_pattern_magic [simp]: "ctx_magic (fill_pattern s c) = ctx_magic c"
  by (simp add: fill_pattern_def)

text \<open>The second half of an establishment, with the identifiers at hand.\<close>

definition est_build where
  "est_build D hi cc part seid teid t w =
     (let w = txn_upd t (\<lambda>x. x\<lparr>t_seid := seid, t_teid := teid\<rparr>) w;
          (ctx, w) = v_port_ctx_alloc D w
      in if ctx = 0 then finish D hi t V_PFCP_CAUSE_SYSTEM_FAILURE (v_teid_free D hi part teid w)
         else
           let w = txn_upd t (\<lambda>x. x\<lparr>t_ctx := ctx\<rparr>) w
           in case v_port_pfcp_build_session (pfcp_at w (t_req (txn_at w t))) seid teid (ctx_at w ctx) of
                None \<Rightarrow> finish D hi t V_PFCP_CAUSE_SYSTEM_FAILURE (v_teid_free D hi part teid w)
              | Some c \<Rightarrow>
                  let w = v_port_txn_set_state t TXN_ST_DB_WRITE_WAIT (w\<lparr>ctx_at := (ctx_at w)(ctx := c)\<rparr>);
                      (rc, w) = v_sess_cas_write D hi cc part seid 0 ctx V_SESS_PENDING (Cas_write_cb t) w
                  in if rc \<noteq> RET_CODE_OK
                     then finish D hi t V_PFCP_CAUSE_SYSTEM_FAILURE (v_teid_free D hi part teid w)
                     else w)"

lemma runs_fail_free:
  assumes l: "hiredis_laws hi waiting" and r: "runs D free waiting U t Y w0 w" and i: "t_impl (txn_at w t) = 0"
  shows "acct_to D free waiting U Y w0 (finish D hi t cause (v_teid_free D hi part teid w))"
  using runs_finish [OF l conjunct1 [OF runs_teid_free [OF l r]]] runs_teid_free [OF l r] i by simp

lemma runs_est_build:
  assumes l: "hiredis_laws hi waiting" and cons: "errs D free waiting U cc"
    and r: "runs D free waiting U t Y w0 w" and i: "t_impl (txn_at w t) = 0" "t_ctx (txn_at w t) = 0"
  shows "acct_to D free waiting U Y w0 (est_build D hi cc part seid teid t w)"
proof -
  define w1 where "w1 = txn_upd t (\<lambda>x. x\<lparr>t_seid := seid, t_teid := teid\<rparr>) w"
  have r1: "runs D free waiting U t Y w0 w1" unfolding w1_def by (rule runs_same [OF r]) simp
  obtain ctx w2 where c: "v_port_ctx_alloc D w1 = (ctx, w2)" by fastforce
  note r2 = runs_ctx_alloc [OF r1 c]
  have i2: "t_impl (txn_at w2 t) = 0" "t_ctx (txn_at w2 t) = 0" using i by (simp_all add: r2(2) w1_def)
  show ?thesis
  proof (cases "ctx = 0")
    case True
    then show ?thesis using runs_fail_free [OF l _ i2(1)] r2(1) c by (simp add: est_build_def Let_def w1_def)
  next
    case False
    define w3 where "w3 = txn_upd t (\<lambda>x. x\<lparr>t_ctx := ctx\<rparr>) w2"
    have r3: "runs D free waiting U t Y w0 w3" unfolding w3_def
      by (rule runs_upd [OF r2(1)]) (use i2 in \<open>simp add: rec_toks_def ac_simps\<close>)
    obtain s where b: "v_port_pfcp_build_session (pfcp_at w3 (t_req (txn_at w3 t))) seid teid (ctx_at w3 ctx) = Some s"
      and m: "ctx_magic s = ctx_magic (ctx_at w3 ctx)" by (simp add: v_port_pfcp_build_session_def)
    define w4 where "w4 = v_port_txn_set_state t TXN_ST_DB_WRITE_WAIT (w3\<lparr>ctx_at := (ctx_at w3)(ctx := s)\<rparr>)"
    have r4: "runs D free waiting U t Y w0 w4" unfolding w4_def by (intro runs_state runs_ctx_write r3 m)
    have i4: "t_impl (txn_at w4 t) = 0" using i2 by (simp add: w4_def w3_def)
    obtain rc w5 where w: "v_sess_cas_write D hi cc part seid 0 ctx V_SESS_PENDING (Cas_write_cb t) w4 = (rc, w5)" by fastforce
    have "if rc = RET_CODE_OK then acct_to D free waiting U Y w0 w5
        else runs D free waiting U t Y w0 w5 \<and> txn_at w5 t = txn_at w4 t"
      by (rule runs_sess [OF r4 _ acct_sess_cas_write [OF l cons _ _ w]]) (use i4 in simp_all)
    moreover have "est_build D hi cc part seid teid t w =
        (if rc \<noteq> RET_CODE_OK then finish D hi t V_PFCP_CAUSE_SYSTEM_FAILURE (v_teid_free D hi part teid w5) else w5)"
      using False c w b unfolding est_build_def w4_def w3_def w1_def by simp
    ultimately show ?thesis using runs_fail_free [OF l, of D free U t Y w0 w5] i4 by (simp split: if_splits)
  qed
qed

lemma part_rr_same: "part_rr w = (p, w') \<Longrightarrow> same_acct w w' \<and> txn_at w' = txn_at w"
  by (auto simp: part_rr_def same_acct_def)

lemma runs_retrans_lookup_cb:
  assumes l: "hiredis_laws hi waiting" and cons: "errs D free waiting U cc"
    and r: "runs D free waiting U t Y w0 w" and i: "t_impl (txn_at w t) = 0" "t_ctx (txn_at w t) = 0"
  shows "acct_to D free waiting U Y w0 (retrans_lookup_cb D hi cc status hit resp t w)"
proof (cases "status = RET_CODE_OK \<and> hit")
  case True
  then show ?thesis using runs_hit [OF r i(2,1)] by (simp add: retrans_lookup_cb_def)
next
  case False
  define c where "c = (case v_port_pfcp_ue_ip (pfcp_at w (t_req (txn_at w t))) of Some (v4, v6) \<Rightarrow> (hash_ue_ip v4 v6, w) | None \<Rightarrow> part_rr w)"
  obtain part w1 where p: "c = (part, w1)" by fastforce
  have "same_acct w w1" using p part_rr_same [of w part w1] by (auto simp: c_def split: option.splits)
  then have r1: "runs D free waiting U t Y w0 w1 \<and> txn_at w1 t = txn_at w t" by (intro runs_step [OF r] acct_to_same)
  define w2 where "w2 = txn_upd t (\<lambda>x. x\<lparr>t_part_id := part\<rparr>) w1"
  have r2: "runs D free waiting U t Y w0 w2" unfolding w2_def by (rule runs_same) (use r1 in simp_all)
  obtain seid w3 where s: "v_seid_alloc D hi part w2 = (seid, w3)" by fastforce
  have r3: "runs D free waiting U t Y w0 w3 \<and> txn_at w3 t = txn_at w2 t" by (rule runs_step [OF r2]) (rule acct_seid_alloc [OF l _ s])
  obtain teid w4 where t: "v_teid_alloc D hi cc part w3 = (teid, w4)" by fastforce
  have r4: "runs D free waiting U t Y w0 w4 \<and> txn_at w4 t = txn_at w3 t"
    by (rule runs_step [OF conjunct1 [OF r3]]) (rule acct_teid_alloc [OF l cons _ t])
  then have r4': "runs D free waiting U t Y w0 w4" and i4: "t_impl (txn_at w4 t) = 0" "t_ctx (txn_at w4 t) = 0"
    using r3 r1 i by (simp_all add: w2_def)
  have "retrans_lookup_cb D hi cc status hit resp t w =
      (if seid = 0 \<or> teid = 0 then finish D hi t V_PFCP_CAUSE_NO_RESOURCES_AVAILABLE (if teid \<noteq> 0 then v_teid_free D hi part teid w4 else w4)
       else est_build D hi cc part seid teid t w4)"
    using s t p unfolding retrans_lookup_cb_def if_not_P [OF False] est_build_def c_def [symmetric] w2_def by simp
  then show ?thesis
    using runs_est_build [OF l cons r4' i4] runs_fail_free [OF l r4' i4(1)] runs_finish [OF l r4' i4(1)] by auto
qed

subsection \<open>Modification and deletion\<close>

lemma runs_mod_read:
  assumes l: "hiredis_laws hi waiting" and r: "runs D free waiting U t Y w0 w"
    and i: "t_impl (txn_at w t) = 0" "t_ctx (txn_at w t) \<noteq> 0"
  shows "acct_to D free waiting U Y w0 (mod_start_read D hi t w)"
proof -
  let ?w1 = "v_port_txn_set_state t TXN_ST_DB_READ_WAIT w" and ?x = "(txn_at w t)\<lparr>t_state := TXN_ST_DB_READ_WAIT\<rparr>"
  obtain rc w2 where c: "v_sess_read D hi (t_part_id ?x) (t_seid ?x) (t_ctx ?x) (Mod_read_cb t) ?w1 = (rc, w2)" by fastforce
  have "if rc = RET_CODE_OK then acct_to D free waiting U Y w0 w2
      else runs D free waiting U t Y w0 w2 \<and> txn_at w2 t = txn_at ?w1 t"
    by (rule runs_sess [OF runs_state [OF r] _ acct_sess_read [OF l _ _ c]]) (use i in simp_all)
  then show ?thesis using c runs_finish [OF l, of D free U t Y w0 w2] i
    by (auto simp: mod_start_read_def Let_def split: if_splits)
qed

lemma runs_del_read:
  assumes l: "hiredis_laws hi waiting" and r: "runs D free waiting U t Y w0 w"
    and i: "t_impl (txn_at w t) = 0" "t_ctx (txn_at w t) \<noteq> 0"
  shows "acct_to D free waiting U Y w0 (del_start_read D hi t w)"
proof -
  let ?w1 = "v_port_txn_set_state t TXN_ST_DB_READ_WAIT w" and ?x = "(txn_at w t)\<lparr>t_state := TXN_ST_DB_READ_WAIT\<rparr>"
  obtain rc w2 where c: "v_sess_read D hi (t_part_id ?x) (t_seid ?x) (t_ctx ?x) (Del_read_cb t) ?w1 = (rc, w2)" by fastforce
  have "if rc = RET_CODE_OK then acct_to D free waiting U Y w0 w2
      else runs D free waiting U t Y w0 w2 \<and> txn_at w2 t = txn_at ?w1 t"
    by (rule runs_sess [OF runs_state [OF r] _ acct_sess_read [OF l _ _ c]]) (use i in simp_all)
  then show ?thesis using c runs_finish [OF l, of D free U t Y w0 w2] i
    by (auto simp: del_start_read_def Let_def split: if_splits)
qed

lemma runs_mod_err:
  assumes l: "hiredis_laws hi waiting" and r: "runs D free waiting U t Y w0 w"
  shows "acct_to D free waiting U Y w0 (finish D hi t cause (free_impl D t w))"
  using runs_finish [OF l conjunct1 [OF runs_free_impl [OF r]]] runs_free_impl [OF r] by simp

lemma runs_mod_cas_cb:
  assumes l: "hiredis_laws hi waiting" and cons: "status = RET_CODE_OK \<Longrightarrow> errs D free waiting U cc"
    and r: "runs D free waiting U t Y w0 w" and i: "t_ctx (txn_at w t) \<noteq> 0"
  shows "acct_to D free waiting U Y w0 (mod_cas_cb D hi cc status result ver t w)"
proof (cases "status = RET_CODE_OK")
  case False
  then show ?thesis using runs_mod_err [OF l r] by (simp add: mod_cas_cb_def)
next
  case True
  note cons = cons [OF True]
  show ?thesis
  proof (cases result)
    case V_CAS_OK
    let ?w1 = "v_port_txn_set_state t TXN_ST_VDP_WAIT (txn_upd t (\<lambda>x. x\<lparr>t_db_ver := ver\<rparr>) w)"
    have "runs D free waiting U t Y w0 ?w1" by (intro runs_state runs_same r) simp
    from runs_vdp_mod [OF l cons this] show ?thesis using True V_CAS_OK by (simp add: mod_cas_cb_def Let_def vdp_port_defs)
  next
    case V_CAS_CONFLICT
    define w1 where "w1 = txn_upd t (\<lambda>x. x\<lparr>t_cas_retry := t_cas_retry x + 1\<rparr>) (free_impl D t w)"
    have r1: "runs D free waiting U t Y w0 w1" unfolding w1_def by (rule runs_same) (use runs_free_impl [OF r] in simp_all)
    have i1: "t_impl (txn_at w1 t) = 0" "t_ctx (txn_at w1 t) \<noteq> 0" using runs_free_impl [OF r] i by (simp_all add: w1_def)
    have "acct_to D free waiting U Y w0 (mod_start_read D hi t (v_port_ctx_clear (t_ctx (txn_at w1 t)) w1))"
      by (rule runs_mod_read [OF l runs_ctx_clear [OF r1]]) (use i1 in simp_all)
    then show ?thesis using runs_finish [OF l r1 i1(1)] True V_CAS_CONFLICT
      by (simp add: mod_cas_cb_def w1_def Let_def)
  next
    case V_CAS_GONE
    then show ?thesis using runs_mod_err [OF l r] True by (simp add: mod_cas_cb_def)
  qed
qed

text \<open>The magic number is the first member of the context: a copy through the serializer keeps it.\<close>

lemma snapshot_magic:
  assumes "Option.bind (v_port_pdu_serialize c n) v_port_pdu_deserialize = Some s"
  shows "ctx_magic s = ctx_magic c"
proof -
  have "s = ctx_of_bytes (take sizeof_ctx (ctx_bytes c))"
    using assms by (auto simp: v_port_pdu_serialize_def v_port_pdu_deserialize_def split: if_splits)
  moreover have "field_at 0 4 (take sizeof_ctx (ctx_bytes c)) = le_bytes 4 (ctx_magic c)"
    by (simp add: field_at_def ctx_bytes_def sizeof_ctx_def)
  ultimately show ?thesis by (simp add: ctx_of_bytes_def)
qed

lemma acct_ctx_magic:
  assumes "acct D free waiting U (add_mset (Tcx c) X) w"
  shows "ctx_magic (ctx_at w c) = V_STUB_CTX_MAGIC"
proof -
  have i: "ctx_inv D free (ar_cx U) (held Tcx (inflight waiting w + add_mset (Tcx c) X)) w"
    using acct_pools [OF assms] by (simp add: pools_def)
  then have "c \<in> ar_cx U" by (auto simp: ctx_inv_def owns_def)
  with i show ?thesis by (auto simp: ctx_inv_def)
qed

lemma runs_ctx_magic:
  assumes r: "runs D free waiting U t Y w0 w" and c: "t_ctx (txn_at w t) \<noteq> 0"
  shows "ctx_magic (ctx_at w (t_ctx (txn_at w t))) = V_STUB_CTX_MAGIC"
proof (rule acct_ctx_magic)
  have "txn_toks w t + Y = add_mset (Tcx (t_ctx (txn_at w t))) (add_mset (Ttx t)
      (opt_tok Tms (t_req (txn_at w t)) + opt_tok Tcx (t_impl (txn_at w t)) + Y))"
    using c by (simp add: txn_toks_def rec_toks_def ac_simps)
  then show "acct D free waiting U (add_mset (Tcx (t_ctx (txn_at w t))) (add_mset (Ttx t)
      (opt_tok Tms (t_req (txn_at w t)) + opt_tok Tcx (t_impl (txn_at w t)) + Y))) w"
    using runs_acct [OF r] by (simp only:)
qed

text \<open>The end of the read of a modification, with the snapshot in the transaction.\<close>

lemma runs_mod_write:
  assumes l: "hiredis_laws hi waiting" and cons: "errs D free waiting U cc"
    and r: "runs D free waiting U t Y w0 w" and i: "t_ctx (txn_at w t) \<noteq> 0"
  shows "acct_to D free waiting U Y w0
    (let ctx = t_ctx (txn_at w t); prev = t_impl (txn_at w t) in
     case v_port_pfcp_modify_session (pfcp_at w (t_req (txn_at w t))) (ctx_at w ctx) of
       None \<Rightarrow> finish D hi t V_PFCP_CAUSE_SYSTEM_FAILURE (txn_upd t (\<lambda>x. x\<lparr>t_impl := 0\<rparr>) (v_port_ctx_free D prev w))
     | Some c \<Rightarrow>
         let w = v_port_txn_set_state t TXN_ST_DB_WRITE_WAIT (w\<lparr>ctx_at := (ctx_at w)(ctx := c)\<rparr>);
             x = txn_at w t;
             (rc, w) = v_sess_cas_write D hi cc (t_part_id x) (t_seid x) (t_db_ver x) ctx V_SESS_CONFIRMED (Mod_cas_cb t) w
         in if rc \<noteq> RET_CODE_OK
            then finish D hi t V_PFCP_CAUSE_SYSTEM_FAILURE (txn_upd t (\<lambda>x. x\<lparr>t_impl := 0\<rparr>) (v_port_ctx_free D prev w))
            else w)"
proof -
  let ?x = "txn_at w t"
  obtain c where c: "v_port_pfcp_modify_session (pfcp_at w (t_req ?x)) (ctx_at w (t_ctx ?x)) = Some c"
    and m: "ctx_magic c = ctx_magic (ctx_at w (t_ctx ?x))" by (simp add: v_port_pfcp_modify_session_def)
  define w1 where "w1 = v_port_txn_set_state t TXN_ST_DB_WRITE_WAIT (w\<lparr>ctx_at := (ctx_at w)(t_ctx ?x := c)\<rparr>)"
  have r1: "runs D free waiting U t Y w0 w1" unfolding w1_def by (intro runs_state runs_ctx_write r m)
  have x1: "t_ctx (txn_at w1 t) \<noteq> 0" "t_impl (txn_at w1 t) = t_impl ?x" using i by (simp_all add: w1_def)
  obtain rc w2 where s: "v_sess_cas_write D hi cc (t_part_id (txn_at w1 t)) (t_seid (txn_at w1 t)) (t_db_ver (txn_at w1 t)) (t_ctx ?x)
      V_SESS_CONFIRMED (Mod_cas_cb t) w1 = (rc, w2)" by fastforce
  have q: "if rc = RET_CODE_OK then acct_to D free waiting U Y w0 w2
      else runs D free waiting U t Y w0 w2 \<and> txn_at w2 t = txn_at w1 t"
    by (rule runs_sess [OF r1 _ acct_sess_cas_write [OF l cons _ _ s]]) (use x1 in simp_all)
  have "acct_to D free waiting U Y w0 (finish D hi t V_PFCP_CAUSE_SYSTEM_FAILURE
      (txn_upd t (\<lambda>x. x\<lparr>t_impl := 0\<rparr>) (v_port_ctx_free D (t_impl ?x) w2)))" if rc: "rc \<noteq> RET_CODE_OK"
  proof -
    have r2: "runs D free waiting U t Y w0 w2" and x2: "t_impl (txn_at w2 t) = t_impl ?x" using q rc x1 by simp_all
    have "runs D free waiting U t (opt_tok Tcx (t_impl (txn_at w2 t)) + Y) w0 (txn_upd t (\<lambda>x. x\<lparr>t_impl := 0\<rparr>) w2)"
      by (rule runs_upd [OF r2]) (simp add: rec_toks_def ac_simps)
    from runs_finish [OF l runs_ctx_free [OF this]] x2 show ?thesis by (simp add: free_then_clear)
  qed
  then show ?thesis using q s c unfolding w1_def Let_def by (auto split: prod.split)
qed

lemma runs_mod_read_cb:
  assumes l: "hiredis_laws hi waiting" and cons: "errs D free waiting U cc"
    and r: "runs D free waiting U t Y w0 w" and i: "t_impl (txn_at w t) = 0" "t_ctx (txn_at w t) = ctx" "ctx \<noteq> 0"
  shows "acct_to D free waiting U Y w0 (mod_read_cb D hi cc status found ctx ver t w)"
proof (cases "status \<noteq> RET_CODE_OK \<or> found \<noteq> V_CAS_OK")
  case True
  then show ?thesis using runs_finish [OF l r i(1)] by (auto simp: mod_read_cb_def)
next
  case False
  define w1 where "w1 = txn_upd t (\<lambda>x. x\<lparr>t_db_ver := ver\<rparr>) w"
  have r1: "runs D free waiting U t Y w0 w1" unfolding w1_def by (rule runs_same [OF r]) simp
  have x1: "t_impl (txn_at w1 t) = 0" "t_ctx (txn_at w1 t) = ctx" using i by (simp_all add: w1_def)
  obtain prev w2 where p: "v_port_ctx_alloc D w1 = (prev, w2)" by fastforce
  note r2 = runs_ctx_alloc [OF r1 p]
  note x2 = x1 [folded r2(2)]
  let ?snap = "Option.bind (v_port_pdu_serialize (ctx_at w2 ctx) 2048) v_port_pdu_deserialize"
  show ?thesis
  proof (cases "prev = 0 \<or> ?snap = None")
    case True
    then show ?thesis
      using runs_finish [OF l runs_ctx_free [OF r2(1)]] runs_finish [OF l, of D free U t Y w0 w2] r2(1) x2 False p
      by (cases "prev = 0") (auto simp: mod_read_cb_def Let_def w1_def)
  next
    case s: False
    then obtain sn where sn: "?snap = Some sn" and z: "prev \<noteq> 0" by auto
    have "ctx_magic (ctx_at w2 ctx) = V_STUB_CTX_MAGIC" using runs_ctx_magic [OF r2(1)] x2 i(3) by simp
    then have m: "ctx_magic sn = ctx_magic (ctx_at w2 prev)" using snapshot_magic [OF sn] r2(3) [OF z] by simp
    define w3 where "w3 = txn_upd t (\<lambda>x. x\<lparr>t_impl := prev\<rparr>) (w2\<lparr>ctx_at := (ctx_at w2)(prev := sn)\<rparr>)"
    have r3: "runs D free waiting U t Y w0 w3" unfolding w3_def
      by (rule runs_upd [OF runs_ctx_write [OF r2(1) m]]) (use x2 in \<open>simp add: rec_toks_def ac_simps\<close>)
    have "t_ctx (txn_at w3 t) \<noteq> 0" using x2 i(3) by (simp add: w3_def)
    from runs_mod_write [OF l cons r3 this] show ?thesis
      using False z p sn x2 unfolding mod_read_cb_def w1_def w3_def by (simp add: Let_def cong: option.case_cong)
  qed
qed

lemma runs_del_read_cb:
  assumes l: "hiredis_laws hi waiting" and cons: "errs D free waiting U cc"
    and r: "runs D free waiting U t Y w0 w" and i: "t_impl (txn_at w t) = 0" "t_ctx (txn_at w t) \<noteq> 0"
  shows "acct_to D free waiting U Y w0 (del_read_cb D hi cc status found ctx ver t w)"
proof (cases "status \<noteq> RET_CODE_OK \<or> found \<noteq> V_CAS_OK")
  case True
  then show ?thesis using runs_finish [OF l r i(1)] by (auto simp: del_read_cb_def)
next
  case False
  let ?w1 = "v_port_txn_set_state t TXN_ST_VDP_WAIT (txn_upd t (\<lambda>x. x\<lparr>t_db_ver := ver\<rparr>) w)"
  have "runs D free waiting U t Y w0 ?w1" by (intro runs_state runs_same r) simp
  from runs_vdp_del [OF l cons this] i show ?thesis using False by (simp add: del_read_cb_def Let_def vdp_port_defs)
qed

lemma runs_del_delete_cb:
  assumes l: "hiredis_laws hi waiting" and r: "runs D free waiting U t Y w0 w"
    and i: "t_impl (txn_at w t) = 0" "t_ctx (txn_at w t) \<noteq> 0"
  shows "acct_to D free waiting U Y w0 (del_delete_cb D hi status result ver t w)"
proof (cases "status = RET_CODE_OK \<and> result = V_CAS_CONFLICT")
  case True
  define w1 where "w1 = txn_upd t (\<lambda>x. x\<lparr>t_cas_retry := t_cas_retry x + 1\<rparr>) w"
  have r1: "runs D free waiting U t Y w0 w1" unfolding w1_def by (rule runs_same [OF r]) simp
  have i1: "t_impl (txn_at w1 t) = 0" "t_ctx (txn_at w1 t) \<noteq> 0" using i by (simp_all add: w1_def)
  have "acct_to D free waiting U Y w0 (del_start_read D hi t (v_port_ctx_clear (t_ctx (txn_at w1 t)) w1))"
    by (rule runs_del_read [OF l runs_ctx_clear [OF r1]]) (use i1 in simp_all)
  then show ?thesis using runs_finish [OF l r1 i1(1)] True by (simp add: del_delete_cb_def w1_def Let_def)
next
  case False
  then show ?thesis using runs_finish [OF l r i(1)] runs_fail_free [OF l r i(1)]
    by (cases result) (auto simp: del_delete_cb_def Let_def)
qed

lemma runs_new_ctx:
  assumes r: "runs D free waiting U t Y w0 w" and i: "t_ctx (txn_at w t) = 0"
    and c: "v_port_ctx_alloc D w = (ctx, w')"
  shows "runs D free waiting U t Y w0 (txn_upd t (\<lambda>x. x\<lparr>t_ctx := ctx\<rparr>) w')"
  by (rule runs_upd [OF runs_ctx_alloc(1) [OF r c]]) (use i in \<open>simp add: rec_toks_def runs_ctx_alloc(2) [OF r c] ac_simps\<close>)

lemma runs_mod_retrans_cb:
  assumes l: "hiredis_laws hi waiting" and r: "runs D free waiting U t Y w0 w"
    and i: "t_impl (txn_at w t) = 0" "t_ctx (txn_at w t) = 0"
  shows "acct_to D free waiting U Y w0 (mod_retrans_lookup_cb D hi status hit resp t w)"
    and "acct_to D free waiting U Y w0 (del_retrans_lookup_cb D hi status hit resp t w)"
proof -
  obtain ctx w1 where c: "v_port_ctx_alloc D w = (ctx, w1)" by fastforce
  note r1 = runs_new_ctx [OF r i(2) c] and at = runs_ctx_alloc(2) [OF r c]
  note f = runs_finish [OF l r1] and m = runs_mod_read [OF l r1] and d = runs_del_read [OF l r1]
  show "acct_to D free waiting U Y w0 (mod_retrans_lookup_cb D hi status hit resp t w)"
    using f m at i c runs_hit [OF r i(2,1), of resp] by (cases "ctx = 0") (auto simp: mod_retrans_lookup_cb_def)
  show "acct_to D free waiting U Y w0 (del_retrans_lookup_cb D hi status hit resp t w)"
    using f d at i c runs_hit [OF r i(2,1), of resp] by (cases "ctx = 0") (auto simp: del_retrans_lookup_cb_def)
qed

subsection \<open>The entry points\<close>

lemma acct_start_txn:
  assumes l: "hiredis_laws hi waiting" and a: "acct D free waiting U (opt_tok Tms req + X) w"
    and mk: "\<And>t. retrans_txn (mk t) = t"
    and init: "\<And>x. t_req (init x) = t_req x \<and> t_ctx (init x) = t_ctx x \<and> t_impl (init x) = t_impl x"
  shows "acct D free waiting U X (start_txn D hi mk init req peer w)"
proof -
  obtain t w1 where c: "v_port_txn_create D w = (t, w1)" by fastforce
  note n = acct_txn_create [OF a c]
  show ?thesis
  proof (cases "t = 0")
    case True
    then have "acct D free waiting U X (v_port_pfcp_msg_free D req w1)" using n(1) by (intro acct_msg_free) simp
    then show ?thesis using True c by (simp add: start_txn_def Let_def)
  next
    case False
    note z = n(2) [OF False]
    have r1: "runs D free waiting U t (opt_tok Tms req + X) w1 w1"
      by (rule runs_start) (use n(1) z False in \<open>simp add: txn_toks_def ac_simps\<close>)
    define w2 where "w2 = txn_upd t (\<lambda>x. x\<lparr>t_req := req\<rparr>) w1"
    have r2: "runs D free waiting U t X w1 w2" unfolding w2_def
      by (rule runs_upd [OF r1]) (use z in \<open>auto simp: rec_toks_def ac_simps opt_tok_def split: if_splits\<close>)
    define w3 where "w3 = (case peer of None \<Rightarrow> w2 | Some p \<Rightarrow> txn_upd t (\<lambda>x. x\<lparr>t_peer := p\<rparr>) w2)"
    have r3: "runs D free waiting U t X w1 w3" unfolding w3_def
      using r2 runs_same [OF r2, of "t_peer_update (\<lambda>_. the peer)"] by (cases peer) simp_all
    define w4 where "w4 = v_port_txn_set_state t TXN_ST_RECV (txn_upd t init w3)"
    have r4: "runs D free waiting U t X w1 w4" unfolding w4_def
      by (intro runs_state runs_same r3) (simp add: rec_toks_def init)
    have x4: "t_req (txn_at w4 t) = req" "t_ctx (txn_at w4 t) = 0" "t_impl (txn_at w4 t) = 0"
      using z by (cases peer; simp add: w4_def w3_def w2_def init)+
    define f where "f = v_port_pfcp_smf_fseid (pfcp_at w req)"
    define seq where "seq = v_port_pfcp_seq (pfcp_at w req)"
    obtain rc w5 where s: "v_retrans_lookup D hi (v_retrans_part f) f seq (mk t) w4 = (rc, w5)" by fastforce
    have q: "if rc = RET_CODE_OK then acct_to D free waiting U X w1 w5
        else runs D free waiting U t X w1 w5 \<and> txn_at w5 t = txn_at w4 t"
      by (rule runs_request [OF r4]) (use acct_retrans_lookup [OF l _ _ _ s, of free U X] x4 mk in \<open>cases "rc = RET_CODE_OK"; simp\<close>)
    have e: "start_txn D hi mk init req peer w = (if rc \<noteq> RET_CODE_OK then
        v_port_txn_destroy D t (txn_upd t (\<lambda>x. x\<lparr>t_req := 0\<rparr>) (v_port_pfcp_msg_free D (t_req (txn_at w5 t)) w5)) else w5)"
      using False c s unfolding start_txn_def Let_def f_def seq_def w4_def w3_def w2_def by simp
    show ?thesis
    proof (cases "rc = RET_CODE_OK")
      case True
      then show ?thesis using q e by (simp add: acct_to_def)
    next
      case rc: False
      then have r5: "runs D free waiting U t X w1 w5" and x5: "txn_at w5 t = txn_at w4 t" using q by simp_all
      have "runs D free waiting U t (opt_tok Tms (t_req (txn_at w5 t)) + X) w1 (txn_upd t (\<lambda>x. x\<lparr>t_req := 0\<rparr>) w5)"
        by (rule runs_upd [OF r5]) (simp add: rec_toks_def ac_simps)
      from runs_destroy [OF runs_msg_free [OF this]] x5 x4 show ?thesis
        using rc e by (simp add: acct_to_def free_then_clear rec_toks_def)
    qed
  qed
qed

lemma acct_handle_msg:
  assumes l: "hiredis_laws hi waiting" and a: "acct D free waiting U X w"
  shows "acct D free waiting U X (v_flow_handle_msg D hi msg w)"
proof -
  obtain r w1 where d: "v_port_pfcp_decode D (take (msg_len msg) (msg_buf msg)) w = (r, w1)" by fastforce
  note a1 = acct_decode [OF a d]
  show ?thesis
  proof (cases r)
    case None
    then show ?thesis using a1 d by (simp add: v_flow_handle_msg_def)
  next
    case (Some req)
    then have a1: "acct D free waiting U (opt_tok Tms req + X) w1" using a1 by simp
    have "acct D free waiting U X (start_txn D hi mk init req peer w1)"
      if "\<And>t. retrans_txn (mk t) = t" "\<And>x. t_req (init x) = t_req x \<and> t_ctx (init x) = t_ctx x \<and> t_impl (init x) = t_impl x"
      for mk init peer by (rule acct_start_txn [OF l a1 that])
    moreover have "acct D free waiting U X (reply_ctx_not_found D req peer w1)" for peer
    proof -
      have "acct D free waiting U (opt_tok Tms req + X) (snd (v_dispatch_tx_enqueue D buf peer w1))" for buf
        by (rule acct_same [OF a1]) simp
      then show ?thesis using a1 by (auto simp: reply_ctx_not_found_def Let_def intro: acct_msg_free split: option.split)
    qed
    moreover have "acct D free waiting U X (v_port_pfcp_msg_free D req w1)" by (rule acct_msg_free [OF a1])
    ultimately show ?thesis using Some d
      by (auto simp: v_flow_handle_msg_def handle_establishment_def handle_modification_def handle_deletion_def Let_def
          split: option.split)
  qed
qed

subsection \<open>Replies\<close>

text \<open>What the program relies on when it copies a stored blob over a context.\<close>

fun reply_ok :: "v_db_reply option \<Rightarrow> bool" where
  "reply_ok (Some (Reply_Array [data, ver])) \<longleftrightarrow>
     (case v_port_pdu_deserialize (bytes_of_chars (reply_str data)) of None \<Rightarrow> True | Some c \<Rightarrow> ctx_magic c = V_STUB_CTX_MAGIC)"
| "reply_ok _ \<longleftrightarrow> True"

lemma acct_to_put:
  assumes "acct_to D free waiting U (add_mset (Tss p) X) w w'"
  shows "acct_to D free waiting U X w (sess_put D p w')"
  using assms by (rule acct_to_sub) (use assms in \<open>simp_all add: acct_to_def acct_sess_put\<close>)

text \<open>The callbacks of the compare-and-swap requests.\<close>

lemma runs_cas_call:
  assumes l: "hiredis_laws hi waiting" and cons: "status = RET_CODE_OK \<Longrightarrow> errs D free waiting U cc"
    and a: "acct D free waiting U (sess_toks w (Sess_cas cb v) + Y) w" and ok: "sess_ok (txn_at w) (Sess_cas cb v)"
  shows "acct_to D free waiting U Y w (cas_call D hi cc cb status res ver w)"
proof (cases cb)
  case (Cas_write_cb t)
  then have r: "runs D free waiting U t Y w w" and i: "t_impl (txn_at w t) = 0"
    using a ok by (simp_all add: sess_toks_def runs_start)
  show ?thesis using runs_cas_write_cb [OF l cons r i] runs_cas_write_err [OF l r i] Cas_write_cb
    by (cases "status = RET_CODE_OK") simp_all
next
  case (Mod_cas_cb t)
  then have r: "runs D free waiting U t Y w w" and i: "t_ctx (txn_at w t) \<noteq> 0"
    using a ok by (simp_all add: sess_toks_def runs_start)
  show ?thesis using runs_mod_cas_cb [OF l cons r i] Mod_cas_cb by simp
next
  case (Mod_compensate_write_cb t)
  then have r: "runs D free waiting U t Y w w" and i: "t_impl (txn_at w t) = 0"
    using a ok by (simp_all add: sess_toks_def runs_start)
  show ?thesis using runs_finish [OF l r i] Mod_compensate_write_cb by (simp add: mod_compensate_write_cb_def)
next
  case (Del_delete_cb t)
  then have r: "runs D free waiting U t Y w w" and i: "t_impl (txn_at w t) = 0" "t_ctx (txn_at w t) \<noteq> 0"
    using a ok by (simp_all add: sess_toks_def runs_start)
  show ?thesis using runs_del_delete_cb [OF l r i] Del_delete_cb by simp
qed (use a in \<open>simp_all add: sess_toks_def delete_pending_noop_cb_def delete_pending_cb_def acct_to_refl\<close>)

lemma acct_cas_reply:
  assumes l: "hiredis_laws hi waiting" and cons: "status = RET_CODE_OK \<Longrightarrow> errs D free waiting U cc"
    and a: "acct D free waiting U (add_mset (Tss p) (sess_toks w (sess_pending_at w p)) + X) w"
    and u: "sess_pending_at w p = Sess_cas cb v" and ok: "sess_ok (txn_at w) (Sess_cas cb v)"
  shows "acct_to D free waiting U X w (cas_write_reply_cb D (cas_call D hi cc) status reply p w)"
    and "acct_to D free waiting U X w (delete_reply_cb D (cas_call D hi cc) status reply p w)"
proof -
  have a: "acct D free waiting U (sess_toks w (Sess_cas cb v) + add_mset (Tss p) X) w" using a u by simp
  have c: "acct_to D free waiting U (add_mset (Tss p) X) w (cas_call D hi cc cb st res ver w)"
    if "st = RET_CODE_OK \<Longrightarrow> status = RET_CODE_OK" for st res ver
    by (rule runs_cas_call [OF l _ a ok]) (rule cons [OF that])
  have e: "acct_to D free waiting U (add_mset (Tss p) X) w (cas_call D hi cc cb RET_CODE_ERR res ver w)" for res ver
    by (rule c) (simp add: RET_CODE_OK_def RET_CODE_ERR_def)
  show "acct_to D free waiting U X w (cas_write_reply_cb D (cas_call D hi cc) status reply p w)"
    using c e u by (auto simp: cas_write_reply_cb_def intro!: acct_to_put split: option.split v_db_reply.split)
  show "acct_to D free waiting U X w (delete_reply_cb D (cas_call D hi cc) status reply p w)"
    using c e u by (auto simp: delete_reply_cb_def intro!: acct_to_put split: option.split v_db_reply.split)
qed

lemma acct_read_reply:
  assumes l: "hiredis_laws hi waiting" and cons: "errs D free waiting U cc"
    and a: "acct D free waiting U (add_mset (Tss p) (sess_toks w (sess_pending_at w p)) + X) w"
    and u: "sess_pending_at w p = Sess_read cb ctx" and ok: "sess_ok (txn_at w) (Sess_read cb ctx)" and rep: "reply_ok reply"
  shows "acct_to D free waiting U X w (read_reply_cb D (read_call D hi cc) status reply p w)"
proof -
  let ?X = "add_mset (Tss p) X"
  obtain t where t: "cb = Mod_read_cb t \<or> cb = Del_read_cb t" by (cases cb) auto
  have r: "runs D free waiting U t ?X w w" using a u t by (auto simp: sess_toks_def runs_start)
  have i: "t_impl (txn_at w t) = 0" "t_ctx (txn_at w t) = ctx" "ctx \<noteq> 0" using ok t by auto
  have c: "acct_to D free waiting U ?X w (read_call D hi cc cb st found ctx ver w')"
    if "runs D free waiting U t ?X w w'" "txn_at w' = txn_at w" for st found ver w'
    using runs_mod_read_cb [OF l cons that(1)] runs_del_read_cb [OF l cons that(1)] i t that(2) by auto
  have put: "acct_to D free waiting U X w (sess_put D p (read_call D hi cc cb st found ctx ver w))" for st found ver
    by (rule acct_to_put) (rule c [OF r], simp)
  have put2: "acct_to D free waiting U X w (sess_put D p (read_call D hi cc cb st found ctx ver (w\<lparr>ctx_at := (ctx_at w)(ctx := v)\<rparr>)))"
    if "ctx_magic v = V_STUB_CTX_MAGIC" for v st found ver
  proof (rule acct_to_put, rule c)
    show "runs D free waiting U t ?X w (w\<lparr>ctx_at := (ctx_at w)(ctx := v)\<rparr>)"
      by (rule runs_ctx_write [OF r]) (use runs_ctx_magic [OF r] i that in simp)
  qed simp
  show ?thesis
  proof (cases "\<exists>data ver. status = RET_CODE_OK \<and> reply = Some (Reply_Array [data, ver])")
    case False
    then have "read_reply_cb D (read_call D hi cc) status reply p w = sess_put D p (read_call D hi cc cb RET_CODE_ERR V_CAS_GONE ctx 0 w)"
      using u by (auto simp: read_reply_cb_def split: option.split v_db_reply.split list.split)
    then show ?thesis using put by simp
  next
    case True
    then obtain data ver where s: "status = RET_CODE_OK" "reply = Some (Reply_Array [data, ver])" by blast
    then show ?thesis using u put put2 rep by (auto simp: read_reply_cb_def split: option.split)
  qed
qed

lemma acct_lookup_reply:
  assumes l: "hiredis_laws hi waiting" and cons: "errs D free waiting U cc"
    and a: "acct D free waiting U (add_mset (Trt p) (txn_toks w (retrans_txn (retrans_pending_at w p))) + X) w"
    and ok: "t_ctx (txn_at w (retrans_txn (retrans_pending_at w p))) = 0" "t_impl (txn_at w (retrans_txn (retrans_pending_at w p))) = 0"
  shows "acct_to D free waiting U X w (lookup_reply_cb D (retrans_call D hi cc) status reply p w)"
proof -
  let ?X = "add_mset (Trt p) X" and ?cb = "retrans_pending_at w p"
  have r: "runs D free waiting U (retrans_txn ?cb) ?X w w" using a by (simp add: runs_start)
  have c: "acct_to D free waiting U ?X w (retrans_call D hi cc ?cb st hit resp w)" for st hit resp
  proof (cases ?cb)
    case (Retrans_lookup_cb t)
    with r ok show ?thesis using runs_retrans_lookup_cb [OF l cons, of t ?X w w] by simp
  next
    case (Mod_retrans_lookup_cb t)
    with r ok show ?thesis using runs_mod_retrans_cb(1) [OF l, of D free U t ?X w w] by simp
  next
    case (Del_retrans_lookup_cb t)
    with r ok show ?thesis using runs_mod_retrans_cb(2) [OF l, of D free U t ?X w w] by simp
  qed
  have "acct_to D free waiting U X w (retrans_put D p (retrans_call D hi cc ?cb st hit resp w))" for st hit resp
    by (rule acct_to_sub [OF c [of st hit resp]]) (use c [of st hit resp] in \<open>simp_all add: acct_to_def acct_retrans_put\<close>)
  then show ?thesis by (simp add: lookup_reply_cb_def Let_def split: option.split v_db_reply.split)
qed

lemma acct_confirm_reply:
  assumes l: "hiredis_laws hi waiting"
    and a: "acct D free waiting U (add_mset (Tss p) (sess_toks w (sess_pending_at w p)) + X) w"
    and u: "sess_pending_at w p = Sess_simple cb" and ok: "sess_ok (txn_at w) (Sess_simple cb)"
  shows "acct_to D free waiting U X w (confirm_reply_cb D (simple_call D hi) status reply p w)"
proof -
  let ?X = "add_mset (Tss p) X"
  have a: "acct D free waiting U (sess_toks w (Sess_simple cb) + ?X) w" using a u by simp
  have "acct_to D free waiting U ?X w (simple_call D hi cb status w)"
  proof (cases cb)
    case (Confirm_cb t)
    then have r: "runs D free waiting U t ?X w w" and i: "t_impl (txn_at w t) = 0"
      using a ok by (simp_all add: sess_toks_def runs_start)
    show ?thesis using runs_finish [OF l r i] Confirm_cb by (simp add: confirm_cb_def)
  qed (use a in \<open>simp add: sess_toks_def confirm_retry_cb_def acct_to_refl\<close>)
  then show ?thesis using u acct_to_put by (simp add: confirm_reply_cb_def)
qed

subsection \<open>Calls through callback pointers, by depth\<close>

lemma id_replies_same:
  fixes w :: "('r, 'p, 'h, 'a) retrans_st_scheme"
  shows "same_acct w (seid_refill_reply_cb D status reply part w)" "same_acct w (teid_refill_reply_cb D status reply part w)"
proof -
  have e: "same_acct w0 w' \<Longrightarrow> same_acct w0 (enqueue_teid D part x w')" for x w0 and w' :: "('r, 'p, 'h, 'a) retrans_st_scheme"
    by (auto simp: enqueue_teid_def same_acct_def split: option.split)
  have f: "same_acct w0 w' \<Longrightarrow> same_acct w0 (fold (\<lambda>i. enqueue_teid D part (base + of_nat i)) xs w')"
    for xs w0 base and w' :: "('r, 'p, 'h, 'a) retrans_st_scheme"
    by (induction xs arbitrary: w') (simp_all add: e)
  have g: "same_acct w0 w' \<Longrightarrow> same_acct w0 (fold (\<lambda>x w. case parse_u64 x of None \<Rightarrow> w | Some local \<Rightarrow> enqueue_teid D part local w) ys w')"
    for ys w0 and w' :: "('r, 'p, 'h, 'a) retrans_st_scheme"
    by (induction ys arbitrary: w') (simp_all add: e split: option.split)
  show "same_acct w (seid_refill_reply_cb D status reply part w)"
    by (auto simp: seid_refill_reply_cb_def Let_def same_acct_def split: option.split v_db_reply.split)
  show "same_acct w (teid_refill_reply_cb D status reply part w)"
    unfolding teid_refill_reply_cb_def Let_def by (auto intro!: e f g split: option.split v_db_reply.split list.split)
qed

lemma serves_callback:
  fixes cc :: "('r, 'p, 'h, 'a) flow_st_scheme db_call"
  assumes l: "hiredis_laws hi waiting" and cons: "st = RET_CODE_OK \<Longrightarrow> errs D free waiting U cc"
  shows "serves D free waiting U (db_callback D hi now cc u st rep) u"
  unfolding serves_def
proof (intro allI impI)
  fix X and w :: "('r, 'p, 'h, 'a) flow_st_scheme"
  assume a: "acct D free waiting U (ucb_toks w u + X) w" and s: "script_user u" and ok: "ucb_ok w u"
  show "acct_to D free waiting U X w (db_callback D hi now cc u st rep w)"
  proof (cases u)
    case (Cas_write_reply_cb p)
    moreover from this ok obtain cb v where "sess_pending_at w p = Sess_cas cb v" "sess_ok (txn_at w) (Sess_cas cb v)"
      by (cases "sess_pending_at w p") auto
    ultimately show ?thesis using a acct_cas_reply(1) [OF l cons, where p = p and w = w and X = X and cb = cb and v = v] by simp
  next
    case (Delete_reply_cb p)
    moreover from this ok obtain cb v where "sess_pending_at w p = Sess_cas cb v" "sess_ok (txn_at w) (Sess_cas cb v)"
      by (cases "sess_pending_at w p") auto
    ultimately show ?thesis using a acct_cas_reply(2) [OF l cons, where p = p and w = w and X = X and cb = cb and v = v] by simp
  next
    case (Teid_refill_reply_cb part)
    then show ?thesis using a by (simp add: acct_to_same id_replies_same(2))
  qed (use s in simp_all)
qed

lemma errs_callback: "hiredis_laws hi waiting \<Longrightarrow> errs D free waiting U (db_callback D hi now cc)"
  unfolding errs_def by (intro allI serves_callback) (simp_all add: RET_CODE_OK_def RET_CODE_ERR_def)

end
