(* ===== verification/V_main.thy ===== *)
theory V_main
  imports V_txn
begin

section \<open>Startup and the two loops\<close>

text \<open>
  \<^verbatim>\<open>main.c\<close>: the order of the initialisations, the two waits that gate the start, and one
  iteration of the worker loop and of the I/O loop. \<open>event_loop\<close> is one non-blocking pass of
  libevent's \<^verbatim>\<open>event_base_loop\<close>, which runs whatever callbacks are due; the results of the
  allocations outside DPDK's mempools and rings, of the start of DPDK's environment and of the
  launch of each worker core, the environment variables, the address and process number that
  seed the round robin, and the wall clock are the record \<open>env\<close>.
\<close>

definition VPE_CTX_POOL_CAP :: u32 where "VPE_CTX_POOL_CAP = 65536"
definition g_node_id :: "u8 list" where "g_node_id = [0, 1, 2, 3]"

record 'w env =
  event_loop :: "'w \<Rightarrow> 'w"
  script_zmalloc_ok :: bool
  id_zmalloc_ok :: bool
  getenv :: "string \<Rightarrow> string option"
  event_base_ok :: bool
  rr_addr :: u64
  rr_pid :: u64
  wall_clock :: u64
  eal_init_ok :: bool
  worker_lcores :: "nat list"
  launch_ok :: "nat \<Rightarrow> bool"

definition v_port_db_poll ::
    "('r, 'p, 'h, 'a) flow_st_scheme env \<Rightarrow> ('r, 'p, 'h, 'a) flow_st_scheme \<Rightarrow> ('r, 'p, 'h, 'a) flow_st_scheme" where
  "v_port_db_poll E w = (if g_base w then event_loop E w else w)"

fun wait_until ::
    "('r, 'p, 'h, 'a) flow_st_scheme env \<Rightarrow> (('r, 'p, 'h, 'a) flow_st_scheme \<Rightarrow> bool) \<Rightarrow> nat \<Rightarrow>
     ('r, 'p, 'h, 'a) flow_st_scheme \<Rightarrow> bool \<times> ('r, 'p, 'h, 'a) flow_st_scheme" where
  "wait_until E pred 0 w = (pred w, w)"
| "wait_until E pred (Suc n) w = (if pred w then (True, w) else wait_until E pred n (v_port_db_poll E w))"

text \<open>The chain of \<^verbatim>\<open>if (init() != RET_CODE_OK) goto fail;\<close>.\<close>

fun run_inits :: "('w \<Rightarrow> int \<times> 'w) list \<Rightarrow> 'w \<Rightarrow> bool \<times> 'w" where
  "run_inits [] w = (True, w)"
| "run_inits (f # fs) w = (let (rc, w) = f w in if rc \<noteq> RET_CODE_OK then (False, w) else run_inits fs w)"

definition init_all ::
    "('r, 'p) dpdk \<Rightarrow> 'h hiredis \<Rightarrow> ('r, 'p, 'h, 'a) flow_st_scheme env \<Rightarrow>
     ('r, 'p, 'h, 'a) flow_st_scheme \<Rightarrow> bool \<times> ('r, 'p, 'h, 'a) flow_st_scheme" where
  "init_all D hi E w =
     run_inits
       [v_port_mem_init D VPE_CTX_POOL_CAP,
        v_port_txn_init D,
        v_txn_sm_init,
        v_db_script_init D (script_zmalloc_ok E),
        v_port_db_init D hi (getenv E) (event_base_ok E),
        v_port_vdp_io_init,
        v_dispatch_init D,
        v_flow_init (rr_addr E) (rr_pid E),
        v_port_pfcp_io_init D,
        v_node_state_init D g_node_id] w"

definition startup ::
    "('r, 'p) dpdk \<Rightarrow> 'h hiredis \<Rightarrow> ('r, 'p, 'h, 'a) flow_st_scheme env \<Rightarrow>
     ('r, 'p, 'h, 'a) flow_st_scheme \<Rightarrow> bool \<times> ('r, 'p, 'h, 'a) flow_st_scheme" where
  "startup D hi E w =
     (let cc = db_call D hi (wall_clock E);
          (ok, w) = init_all D hi E w
      in if \<not> ok then (False, w)
         else let (ok, w) = wait_until E v_db_script_ready 30000 w in
              if \<not> ok then (False, w)
              else let (rc, w) = v_id_alloc_init D hi cc (id_zmalloc_ok E) w in
                   if rc \<noteq> RET_CODE_OK then (False, w)
                   else let (ok, w) = wait_until E (v_id_alloc_ready D) 60000 w in
                        if \<not> ok then (False, w)
                        else let w = snd (v_node_state_load_recovery_ts D hi (wall_clock E) 0 w);
                                 (ready, w) = wait_until E v_node_state_recovery_ts_ready 5000 w
                             in (True, w))"

text \<open>
  \<^verbatim>\<open>main\<close> up to its endless loop: \<open>Inl\<close> is the exit code, \<open>Inr\<close> the worker cores that were launched
  and the state in which they and the I/O loop start.
\<close>

definition main ::
    "('r, 'p) dpdk \<Rightarrow> 'h hiredis \<Rightarrow> ('r, 'p, 'h, 'a) flow_st_scheme env \<Rightarrow>
     ('r, 'p, 'h, 'a) flow_st_scheme \<Rightarrow> int + nat list \<times> ('r, 'p, 'h, 'a) flow_st_scheme" where
  "main D hi E w =
     (if \<not> eal_init_ok E then Inl 1
      else let (ok, w) = startup D hi E w in
           if \<not> ok then Inl 1
           else Inr (filter (launch_ok E) (worker_lcores E), w))"

text \<open>One iteration of \<^verbatim>\<open>worker_main\<close>'s loop and one of the I/O loop.\<close>

definition worker_main_iter ::
    "('r, 'p) dpdk \<Rightarrow> 'h hiredis \<Rightarrow> ('r, 'p, 'h, 'a) flow_st_scheme \<Rightarrow> nat \<times> ('r, 'p, 'h, 'a) flow_st_scheme" where
  "worker_main_iter D hi w = v_dispatch_worker_poll D 32 (v_flow_handle_msg D hi) w"

definition io_loop_iter ::
    "('r, 'p) dpdk \<Rightarrow> ('r, 'p, 'h, 'a) flow_st_scheme env \<Rightarrow>
     ('r, 'p, 'h, 'a) flow_st_scheme \<Rightarrow> nat \<times> ('r, 'p, 'h, 'a) flow_st_scheme" where
  "io_loop_iter D E w = v_dispatch_io_drain_tx D v_port_pfcp_io_send 64 (v_port_db_poll E w)"

end
