(* ===== verification/Worker.thy ===== *)
theory Worker
  imports Flow_ownership V_main
begin

section \<open>Runs of the worker\<close>

text \<open>
  The worker as a step relation: a request from the dispatcher, a reply read from a connection
  (any reply, or none because the connection died), a connection that comes up or goes away.
  The account of \<open>Ownership\<close> is an invariant of every run. The hard timeout is not a step here:
  it destroys a transaction whose command still waits, and the account does not survive it
  (theory \<open>Timeout\<close>).
\<close>

subsection \<open>Every callback uses up what it owns\<close>

lemma node_replies_same:
  fixes w :: "('r, 'p, 'h, 'a) node_st_scheme"
  shows "same_acct w (recovery_reply_cb D (\<lambda>_ _ _ w. w) now st rep p w)"
    "same_acct w (simple_ack_cb D (\<lambda>_ _ w. w) st rep p w)"
    "same_acct w (assoc_query_reply_cb D (\<lambda>_ _ _ _ w. w) st rep p w)"
  by (auto simp: recovery_reply_cb_def simple_ack_cb_def assoc_query_reply_cb_def node_put_def same_acct_def Let_def
      split: option.split v_db_reply.split list.split)

lemma consumes_callback:
  fixes cc :: "('r, 'p, 'h, 'a) flow_st_scheme db_call"
  assumes l: "hiredis_laws hi waiting" and e: "errs D free waiting U cc"
    and s: "\<And>u. serves D free waiting U (cc u st rep) u" and rep: "reply_ok rep"
  shows "consumes D free waiting U (db_callback D hi now cc cb st rep) cb"
proof (rule consumesI)
  have load: "consumes D free waiting U (load_reply_cb D hi cc st rep lc) (Load_reply_cb lc)" for lc
    by (rule acct_load_reply [OF l]) (rule errsD [OF e])
  have ev: "consumes D free waiting U (evalsha_reply_cb D hi cc st rep p) (Evalsha_reply_cb p)" for p
    by (rule acct_evalsha_reply [OF l]) (rule s, rule errsD [OF e])
  fix X and w :: "('r, 'p, 'h, 'a) flow_st_scheme"
  assume a: "acct D free waiting U (cb_toks w cb + X) w" and ok: "cb_ok w cb"
  show "acct_to D free waiting U X w (db_callback D hi now cc cb st rep w)"
  proof (cases cb)
    case (Load_reply_cb lc)
    then show ?thesis using consumesD [OF load] a ok by simp
  next
    case (Evalsha_reply_cb p)
    then show ?thesis using consumesD [OF ev] a ok by simp
  next
    case (Read_reply_cb p)
    moreover from this ok obtain c x where "sess_pending_at w p = Sess_read c x" "sess_ok (txn_at w) (Sess_read c x)"
      by (cases "sess_pending_at w p") auto
    ultimately show ?thesis using acct_read_reply [OF l e, where p = p and w = w and X = X and cb = c and ctx = x] a rep by simp
  next
    case (Confirm_reply_cb p)
    moreover from this ok obtain c where "sess_pending_at w p = Sess_simple c" "sess_ok (txn_at w) (Sess_simple c)"
      by (cases "sess_pending_at w p") auto
    ultimately show ?thesis using acct_confirm_reply [OF l, where p = p and w = w and X = X and cb = c] a by simp
  next
    case (Lookup_reply_cb p)
    then show ?thesis using acct_lookup_reply [OF l e, where p = p and w = w and X = X] a ok by (simp add: Let_def)
  next
    case (Cas_write_reply_cb p)
    then show ?thesis using serves_callback [OF l e, where u = cb] a ok by (simp add: serves_def)
  next
    case (Delete_reply_cb p)
    then show ?thesis using serves_callback [OF l e, where u = cb] a ok by (simp add: serves_def)
  qed (use a in \<open>simp_all add: acct_to_same acct_to_refl id_replies_same node_replies_same seed_reply_cb_def teid_free_reply_cb_def store_ack_cb_def\<close>)
qed

text \<open>
  Depth 3 is enough: a reply (depth 3) may call the user of a script call (depth 2), which may
  issue a script call whose dispatch fails and calls its user with an error (depth 1), and that
  one makes no script call.
\<close>

lemma db_call_at_Suc: "db_call_at D hi now (Suc n) cb st rep = db_callback D hi now (db_call_at D hi now n) cb st rep"
  by (rule ext) simp

lemma consumes_db_call:
  fixes D :: "('r, 'p) dpdk"
  assumes l: "hiredis_laws hi waiting" and rep: "reply_ok rep"
  shows "consumes D free waiting U (db_call D hi now cb st rep :: ('r, 'p, 'h, 'a) flow_st_scheme \<Rightarrow> _) cb"
proof -
  let ?c1 = "db_call_at D hi now 1 :: ('r, 'p, 'h, 'a) flow_st_scheme db_call"
  let ?c2 = "db_call_at D hi now 2 :: ('r, 'p, 'h, 'a) flow_st_scheme db_call"
  have c: "?c1 = db_callback D hi now (db_call_at D hi now 0)" "?c2 = db_callback D hi now ?c1"
    "db_call D hi now = (db_callback D hi now ?c2 :: ('r, 'p, 'h, 'a) flow_st_scheme db_call)"
    by (simp_all add: db_call_def numeral_3_eq_3 numeral_2_eq_2)
  have e1: "errs D free waiting U ?c1" unfolding c(1) by (rule errs_callback [OF l])
  have e2: "errs D free waiting U ?c2" unfolding c(2) by (rule errs_callback [OF l])
  have s2: "serves D free waiting U (?c2 u st rep) u" for u unfolding c(2) by (rule serves_callback [OF l e1])
  show ?thesis unfolding c(3) by (rule consumes_callback [OF l e2 s2 rep])
qed

subsection \<open>One reply\<close>

lemma acct_pop:
  assumes a: "acct D free waiting U {#} w" and s: "shard < V_STUB_DB_SHARDS" and c: "g_ctx w shard = Some h"
    and h: "waiting h = (args, q) # rest" "waiting h' = rest"
  defines "w1 \<equiv> w\<lparr>g_ctx := (g_ctx w)(shard := Some h')\<rparr>"
  shows "acct D free waiting U (cb_toks w1 (cb_of w q) + {#Tdb q#}) w1" "cb_ok w1 (cb_of w q)"
    "pend_cb (db_pending_at w q) = Some (cb_of w q)"
proof -
  have i: "db_inv D free waiting (ar_db U) {} w" and cs: "calls_set waiting w" using a by (simp_all add: acct_def)
  note p = pop_calls [OF c s h cs, folded w1_def] and d = db_inv_pop(2) [OF i c s h, folded w1_def]
  have "agree_on w w1 k" for k by (cases k) (simp_all add: w1_def)
  then have t: "cb_toks w1 x = cb_toks w x" "cb_ok w1 x = cb_ok w x" for x using cb_toks_agree [of w x w1] by auto
  have f: "inflight waiting w = cb_toks w (cb_of w q) + inflight waiting w1" by (simp add: inflight_def p(1) t(1))
  have n: "Tdb q \<notin># inflight waiting v" for v :: "('a, 'b, 'c, 'd) retrans_st_scheme" by (auto simp: inflight_def)
  have "pools D free U (inflight waiting w1 + (cb_toks w (cb_of w q) + {#Tdb q#})) w"
  proof -
    have e: "inflight waiting w1 + (cb_toks w (cb_of w q) + {#Tdb q#}) = add_mset (Tdb q) (inflight waiting w)" by (simp add: f ac_simps)
    have "pools D free U (inflight waiting w) w" using a by (simp add: acct_def)
    then show ?thesis unfolding e using n by (simp add: pools_def)
  qed
  then have "pools D free U (inflight waiting w1 + (cb_toks w1 (cb_of w q) + {#Tdb q#})) w1"
    unfolding t pools_def
    using pool_invs_cong(1) [of w1 w] pool_invs_cong(2) [of w1 w] pool_invs_cong(3) [of w1 w] by (simp add: w1_def)
  moreover have "\<forall>cb \<in># calls waiting w. cb_ok w cb" using a by (simp add: acct_def)
  ultimately show "acct D free waiting U (cb_toks w1 (cb_of w q) + {#Tdb q#}) w1" "cb_ok w1 (cb_of w q)"
    using d p(1,2) by (simp_all add: acct_def t)
  show "pend_cb (db_pending_at w q) = Some (cb_of w q)" by (rule p(3))
qed

lemma acct_db_put:
  assumes a: "acct D free waiting U {#Tdb q#} w"
  shows "acct D free waiting U {#} (w\<lparr>g_db_pool := pool_put D q (g_db_pool w)\<rparr>)"
proof (rule acct_step [OF a])
  let ?w' = "w\<lparr>g_db_pool := pool_put D q (g_db_pool w)\<rparr>"
  show "calls waiting ?w' = calls waiting w" "calls_set waiting ?w'"
    using calls_cong [of ?w' w waiting] a by (simp_all add: acct_def)
  show "db_inv D free waiting (ar_db U) (held Tdb {#}) ?w'" using a by (simp add: acct_def db_inv_release)
  show "agree_on w ?w' k" for k by (cases k) simp_all
  have "pools D free U (inflight waiting w + {#Tdb q#}) w" using a by (simp add: acct_def)
  then show "pools D free U (inflight waiting w + {#}) ?w'"
    unfolding pools_def using pool_invs_cong(1) [of ?w' w] pool_invs_cong(2) [of ?w' w] pool_invs_cong(3) [of ?w' w] by simp
qed

lemma acct_reply:
  fixes w :: "('r, 'p, 'h, 'a) flow_st_scheme"
  assumes l: "hiredis_laws hi waiting" and a: "acct D free waiting U {#} w" and s: "shard < V_STUB_DB_SHARDS" "g_ctx w shard = Some h"
    and h: "waiting h = (args, q) # rest" "waiting h' = rest" and r: "reply_ok (delivered r w)"
  shows "acct D free waiting U {#} (on_reply D (db_call D hi now) r q (w\<lparr>g_ctx := (g_ctx w)(shard := Some h')\<rparr>))"
proof -
  let ?w1 = "w\<lparr>g_ctx := (g_ctx w)(shard := Some h')\<rparr>" and ?cb = "cb_of w q"
  note p = acct_pop [OF a s h]
  have d: "delivered r ?w1 = delivered r w" by (simp add: delivered_def)
  have "pend_cb (db_pending_at ?w1 q) = Some ?cb" using p(3) by simp
  from on_reply_runs [OF this, of D "db_call D hi now" r] obtain g used st where e: "on_reply D (db_call D hi now) r q ?w1 =
      (let w2 = db_call D hi now ?cb st (delivered r w) (?w1\<lparr>g_scratch := g, g_scratch_used := used\<rparr>)
       in w2\<lparr>g_db_pool := pool_put D q (g_db_pool w2)\<rparr>)" unfolding d by blast
  let ?w2 = "?w1\<lparr>g_scratch := g, g_scratch_used := used\<rparr>"
  have "agree_on ?w1 ?w2 k" for k by (cases k) simp_all
  then have t: "cb_toks ?w2 ?cb = cb_toks ?w1 ?cb" "cb_ok ?w2 ?cb" using cb_toks_agree [of ?w1 ?cb ?w2] p(2) by auto
  have "acct D free waiting U (cb_toks ?w2 ?cb + {#Tdb q#}) ?w2"
    unfolding t(1) by (rule acct_same [OF p(1)]) (simp add: same_acct_def)
  from consumesD [OF consumes_db_call [OF l r, of D free U now ?cb st] this t(2)]
  have "acct D free waiting U {#Tdb q#} (db_call D hi now ?cb st (delivered r w) ?w2)" by (simp add: acct_to_def)
  from acct_db_put [OF this] show ?thesis unfolding e Let_def .
qed

subsection \<open>The step relation\<close>

text \<open>
  The steps of one pod: a datagram arrives, the worker polls its ring, hiredis delivers a reply
  (or, with \<open>H_null\<close>, the news that there will be none), a connection is established, a
  connection whose commands have all been answered is gone, the I/O loop sends what is queued.
\<close>

inductive worker_step ::
    "('r, 'p) dpdk \<Rightarrow> 'h hiredis \<Rightarrow> 'h reader \<Rightarrow> ('h \<Rightarrow> (string list \<times> ptr) list) \<Rightarrow>
     ('r, 'p, 'h, 'a) flow_st_scheme \<Rightarrow> ('r, 'p, 'h, 'a) flow_st_scheme \<Rightarrow> bool"
  for D hi nr waiting where
  receive: "worker_step D hi nr waiting w (v_dispatch_rx D buf peer w)"
| poll: "worker_step D hi nr waiting w (snd (worker_main_iter D hi w))"
| reply: "shard < V_STUB_DB_SHARDS \<Longrightarrow> g_ctx w shard = Some h \<Longrightarrow> nr h = Some ((args, q), h') \<Longrightarrow> reply_ok (delivered r w) \<Longrightarrow>
    worker_step D hi nr waiting w (on_reply D (db_call D hi now) r q (w\<lparr>g_ctx := (g_ctx w)(shard := Some h')\<rparr>))"
| connected: "worker_step D hi nr waiting w (connect_cb (\<lambda>s. script_reconnect_cb D hi (of_nat s)) shard ok w)"
| disconnected: "g_ctx w shard = Some h \<Longrightarrow> waiting h = [] \<Longrightarrow> worker_step D hi nr waiting w (disconnect_cb shard w)"
| transmit: "worker_step D hi nr waiting w (snd (v_dispatch_io_drain_tx D v_port_pfcp_io_send n w))"

lemma same_acct_trans: "same_acct w w1 \<Longrightarrow> same_acct w1 w2 \<Longrightarrow> same_acct w w2"
  by (simp add: same_acct_def)

lemma drain_same: "same_acct w (snd (v_dispatch_io_drain_tx D v_port_pfcp_io_send n w))"
proof (induction n arbitrary: w)
  case (Suc n)
  show ?case
  proof (cases "ring_take D (g_tx_ring w)")
    case (Some x)
    obtain m r where x: "x = (m, r)" by fastforce
    define v where "v = snd (v_port_pfcp_io_send (msg_peer (msg_at w m)) (take (msg_len (msg_at w m)) (msg_buf (msg_at w m))) (w\<lparr>g_tx_ring := Some r\<rparr>))"
    have "same_acct w (v\<lparr>g_msg_pool := pool_put D m (g_msg_pool v)\<rparr>)"
      by (simp add: v_def v_port_pfcp_io_send_def same_acct_def)
    from same_acct_trans [OF this Suc.IH] show ?thesis
      using Some x by (simp add: Let_def v_def split_beta)
  qed simp
qed simp

lemma acct_poll:
  assumes l: "hiredis_laws hi waiting"
  shows "acct D free waiting U X w \<Longrightarrow> acct D free waiting U X (snd (v_dispatch_worker_poll D n (v_flow_handle_msg D hi) w))"
proof (induction n arbitrary: w)
  case (Suc n)
  show ?case
  proof (cases "ring_take D (g_rx_ring w)")
    case (Some x)
    obtain m r where x: "x = (m, r)" by fastforce
    define v where "v = v_flow_handle_msg D hi (msg_at w m) (w\<lparr>g_rx_ring := Some r\<rparr>)"
    have "acct D free waiting U X (w\<lparr>g_rx_ring := Some r\<rparr>)" by (rule acct_same [OF Suc.prems]) (simp add: same_acct_def)
    then have "acct D free waiting U X v" unfolding v_def by (rule acct_handle_msg [OF l])
    then have "acct D free waiting U X (v\<lparr>g_msg_pool := pool_put D m (g_msg_pool v)\<rparr>)" by (rule acct_same) (simp add: same_acct_def)
    from Suc.IH [OF this] show ?thesis using Some x by (simp add: Let_def v_def split_beta)
  qed (use Suc.prems in simp)
qed simp

lemma acct_reconnect:
  assumes l: "hiredis_laws hi waiting" and a: "acct D free waiting U X w"
  shows "acct D free waiting U X (script_reconnect_cb D hi shard w)"
proof -
  have "acct D free waiting U X (fold (\<lambda>i w. snd (request_script_load D hi shard i None w)) is w)" for "is"
    using a
  proof (induction "is" arbitrary: w)
    case (Cons i "is")
    obtain rc w1 where r: "request_script_load D hi shard i None w = (rc, w1)" by fastforce
    have "acct D free waiting U (resume_toks w None + X) w" using Cons.prems by (simp add: resume_toks_def)
    from acct_request_load [OF l this _ r] have "acct D free waiting U X w1"
      by (simp add: resume_toks_def acct_to_def split: if_splits)
    from Cons.IH [OF this] show ?case using r by simp
  qed simp
  then show ?thesis unfolding script_reconnect_cb_def by blast
qed

text \<open>Exchanging connections without changing what waits on them.\<close>

lemma acct_g_ctx:
  assumes a: "acct D free waiting U X w" and ws: "waits waiting (w\<lparr>g_ctx := c\<rparr>) = waits waiting w"
  shows "acct D free waiting U X (w\<lparr>g_ctx := c\<rparr>)"
proof -
  let ?w' = "w\<lparr>g_ctx := c\<rparr>"
  have c: "calls waiting ?w' = calls waiting w" "calls_set waiting ?w' = calls_set waiting w"
    by (rule calls_agree [OF ws]; simp)+
  show ?thesis
  proof (rule acct_step [OF a c(1)])
    show "calls_set waiting ?w'" using a c(2) by (simp add: acct_def)
    show "db_inv D free waiting (ar_db U) (held Tdb X) ?w'"
      using a by (simp add: acct_def db_inv_def ws)
    show "agree_on w ?w' k" for k by (cases k) simp_all
    show "pools D free U (inflight waiting w + X) ?w'"
      using acct_pools [OF a] pool_invs_cong(1) [of ?w' w] pool_invs_cong(2) [of ?w' w] pool_invs_cong(3) [of ?w' w]
      by (simp add: pools_def)
  qed
qed

lemma acct_disconnect:
  assumes "acct D free waiting U X w" and "g_ctx w shard = Some h" "waiting h = []"
  shows "acct D free waiting U X (disconnect_cb shard w)"
  unfolding disconnect_cb_def
  by (rule acct_g_ctx [OF assms(1)], rule ext) (use assms(2,3) in \<open>simp add: waits_def\<close>)

lemma acct_worker_step:
  assumes l: "hiredis_laws hi waiting" and n: "next_reply_laws nr waiting"
    and s: "worker_step D hi nr waiting w w'" and a: "acct D free waiting U {#} w"
  shows "acct D free waiting U {#} w'"
  using s
proof cases
  case (receive buf peer)
  then show ?thesis
    by (auto simp: v_dispatch_rx_def stage_msg_def same_acct_def split: option.split intro!: acct_same [OF a])
next
  case poll
  then show ?thesis using acct_poll [OF l a, of 32] by (simp add: worker_main_iter_def)
next
  case (reply shard h args q h' r now)
  have "waiting h = (args, q) # waiting h'"
    using n [unfolded next_reply_laws_def, rule_format, of h] reply(4) by simp
  then show ?thesis using acct_reply [OF l a reply(2,3) _ refl reply(5)] reply(1) by simp
next
  case (connected shard ok)
  then show ?thesis using a acct_reconnect [OF l a] by (simp add: connect_cb_def)
next
  case (disconnected shard h)
  then show ?thesis using acct_disconnect [OF a] by simp
next
  case (transmit n)
  then show ?thesis using acct_same [OF a drain_same] by simp
qed

lemma acct_run:
  assumes "hiredis_laws hi waiting" and "next_reply_laws nr waiting"
    and "(worker_step D hi nr waiting)\<^sup>*\<^sup>* w w'" and "acct D free waiting U {#} w"
  shows "acct D free waiting U {#} w'"
  using assms(3,4) by (induction rule: rtranclp_induct) (auto intro: acct_worker_step [OF assms(1,2)])

subsection \<open>What the account says of the transactions\<close>

lemma count_one: "count K k \<le> 1 \<Longrightarrow> count K k = (if k \<in># K then 1 else 0)"
proof -
  assume "count K k \<le> 1"
  moreover have "k \<in># K \<longleftrightarrow> 0 < count K k" by simp
  ultimately show "count K k = (if k \<in># K then 1 else 0)" by (metis less_one not_gr_zero order_le_less)
qed

lemma size_filter_count:
  assumes "\<forall>x \<in># M. count (f x) k \<le> 1"
  shows "size (filter_mset (\<lambda>x. k \<in># f x) M) = count (\<Sum>x \<in># M. f x) k"
  using assms
proof (induction M)
  case (add x M)
  have "count (f x) k = (if k \<in># f x then 1 else 0)" using add.prems by (intro count_one) simp
  then show ?case using add by simp
qed simp

lemma count_inflight_le:
  assumes "acct D free waiting U X w" and "cb \<in># calls waiting w"
  shows "cb_toks w cb \<subseteq># inflight waiting w" "count (cb_toks w cb) k \<le> 1"
proof -
  obtain M where M: "calls waiting w = add_mset cb M" using assms(2) by (metis multi_member_split)
  then show s: "cb_toks w cb \<subseteq># inflight waiting w" by (simp add: inflight_def)
  have "count (inflight waiting w + X) k \<le> 1" using assms(1) by (simp add: acct_def pools_def uniq_def)
  moreover have "count (cb_toks w cb) k \<le> count (inflight waiting w) k" using s by (rule mset_subset_eq_count)
  ultimately show "count (cb_toks w cb) k \<le> 1" unfolding count_union by linarith
qed

lemma calls_of_txn:
  assumes a: "acct D free waiting U {#} w"
  shows "size (filter_mset (\<lambda>cb. Ttx t \<in># cb_toks w cb) (calls waiting w)) = (if t \<in> live w then 1 else 0)"
proof -
  have "size (filter_mset (\<lambda>cb. Ttx t \<in># cb_toks w cb) (calls waiting w)) = count (inflight waiting w) (Ttx t)"
    unfolding inflight_def by (rule size_filter_count) (use count_inflight_le(2) [OF a] in blast)
  also have "\<dots> = (if Ttx t \<in># inflight waiting w then 1 else 0)"
    by (rule count_one) (use a in \<open>simp add: acct_def pools_def uniq_def\<close>)
  finally show ?thesis using a by (simp add: acct_def pools_def txn_inv_def in_held)
qed

text \<open>A callback that leads to a transaction owns all the transaction holds.\<close>

lemma toks_txn_sess: "Ttx t \<in># sess_toks w u \<Longrightarrow> sess_toks w u = txn_toks w t"
  by (auto simp: sess_toks_def txn_toks_def rec_toks_def opt_tok_def split: option.splits if_splits)

lemma toks_txn_only: "Ttx t \<in># txn_toks w t' \<Longrightarrow> t = t'"
  by (auto simp: txn_toks_def rec_toks_def opt_tok_def split: if_splits)

lemma ucb_toks_txn: "Ttx t \<in># ucb_toks w cb \<Longrightarrow> \<exists>k. ucb_toks w cb = add_mset k (txn_toks w t) \<and> (\<forall>t'. k \<noteq> Ttx t')"
  by (cases cb) (auto dest: toks_txn_sess toks_txn_only)

lemma ev_toks_txn: "Ttx t \<in># ev_toks w e \<Longrightarrow> \<exists>K. ev_toks w e = K + txn_toks w t \<and> (\<forall>t'. Ttx t' \<notin># K)"
proof -
  assume "Ttx t \<in># ev_toks w e"
  then obtain u where u: "ev_user_cb (evalsha_at w e) = Some u" "Ttx t \<in># ucb_toks w u"
    by (auto simp: ev_toks_def split: option.splits)
  from ucb_toks_txn [OF u(2)] obtain k where "ucb_toks w u = add_mset k (txn_toks w t)" "\<forall>t'. k \<noteq> Ttx t'" by blast
  then show ?thesis using u by (intro exI [of _ "{#Tev e, k#}"]) (auto simp: ev_toks_def)
qed

lemma cb_toks_txn: "Ttx t \<in># cb_toks w cb \<Longrightarrow> \<exists>K. cb_toks w cb = K + txn_toks w t \<and> (\<forall>t'. Ttx t' \<notin># K)"
proof -
  assume t: "Ttx t \<in># cb_toks w cb"
  have u: ?thesis if "cb_toks w cb = ucb_toks w cb"
    using ucb_toks_txn [of t w cb] t that by (metis add_mset_add_single add.commute multi_member_last insert_iff set_mset_single singletonD)
  show ?thesis
  proof (cases cb)
    case (Evalsha_reply_cb e)
    then show ?thesis using ev_toks_txn [of t w e] t by simp
  next
    case (Load_reply_cb lc)
    then obtain e where e: "lc_resume (load_at w lc) = Some e" "Ttx t \<in># ev_toks w e" using t by (auto split: option.splits)
    from ev_toks_txn [OF e(2)] obtain K where "ev_toks w e = K + txn_toks w t" "\<forall>t'. Ttx t' \<notin># K" by blast
    then show ?thesis using e Load_reply_cb by (intro exI [of _ "add_mset (Tld lc) K"]) simp
  qed (rule u, simp)+
qed

lemma in_rec_toks:
  "Tms m \<in># rec_toks x \<longleftrightarrow> m \<noteq> 0 \<and> m = t_req x" "Tcx c \<in># rec_toks x \<longleftrightarrow> c \<noteq> 0 \<and> (c = t_ctx x \<or> c = t_impl x)"
  by (auto simp: rec_toks_def opt_tok_def)

lemma txns_disjoint:
  assumes a: "acct D free waiting U {#} w" and t: "t \<in> live w" "t' \<in> live w" "t \<noteq> t'"
  shows "rec_toks (txn_at w t) \<inter># rec_toks (txn_at w t') = {#}"
proof -
  have lv: "live w = held Ttx (inflight waiting w)" using a by (simp add: acct_def pools_def txn_inv_def)
  have ex: "\<exists>cb \<in># calls waiting w. Ttx x \<in># cb_toks w cb" if "x \<in> live w" for x
    using that lv by (auto simp: in_held inflight_def)
  obtain c where c: "c \<in># calls waiting w" "Ttx t \<in># cb_toks w c" using ex [OF t(1)] by blast
  obtain c' where c': "c' \<in># calls waiting w" "Ttx t' \<in># cb_toks w c'" using ex [OF t(2)] by blast
  obtain K where K: "cb_toks w c = K + txn_toks w t" "\<forall>x. Ttx x \<notin># K" using cb_toks_txn [OF c(2)] by blast
  obtain K' where K': "cb_toks w c' = K' + txn_toks w t'" using cb_toks_txn [OF c'(2)] by blast
  have "c \<noteq> c'" using c'(2) K toks_txn_only t(3) by fastforce
  then obtain M where M: "calls waiting w = add_mset c (add_mset c' M)" using c(1) c'(1) by (metis insert_noteq_member multi_member_split)
  have u: "count (inflight waiting w) k \<le> 1" for k using a by (simp add: acct_def pools_def uniq_def)
  have "count (rec_toks (txn_at w t)) k + count (rec_toks (txn_at w t')) k \<le> 1" for k
    using u [of k] by (simp add: inflight_def M K(1) K' txn_toks_def split: if_splits)
  then have "count (rec_toks (txn_at w t) \<inter># rec_toks (txn_at w t')) k = 0" for k by (simp add: min_def) (metis add_leD1 le_Suc_eq le_zero_eq not_less_eq_eq add_is_0 add_is_1)
  then show ?thesis by (simp add: multiset_eq_iff)
qed

text \<open>An account with nothing waiting: every object is free.\<close>

lemma acct_quiet:
  assumes a: "acct D free waiting U {#} w'" and q: "\<forall>s < V_STUB_DB_SHARDS. waits waiting w' s = []"
  shows "live w' = {} \<and> v_port_ctx_pool_in_use D w' = 0 \<and>
    pool_set free (g_txn_pool w') = ar_tx U \<and> pool_set free (g_ctx_pool w') = ar_cx U \<and>
    pool_set free (g_pfcp_pool w') = ar_ms U \<and> pool_set free (g_evalsha_pool w') = ar_ev U \<and>
    (g_sess_pool w' = None \<or> pool_set free (g_sess_pool w') = ar_ss U) \<and>
    (g_retrans_pool w' = None \<or> pool_set free (g_retrans_pool w') = ar_rt U) \<and>
    pool_set free (g_load_pool w') = ar_ld U \<and> pool_set free (g_db_pool w') = ar_db U"
proof -
  have "inflight waiting w' = {#}" using q by (simp add: inflight_def calls_def)
  then have p: "pools D free U {#} w'" using acct_pools [OF a] by simp
  then have "v_port_ctx_pool_in_use D w' = 0" using ctx_pool_in_use [of D free "ar_cx U" "{}" w'] by (simp add: pools_def)
  moreover have "pool_set free (g_db_pool w') = ar_db U"
    using a q by (simp add: acct_def db_inv_def owns_def)
  ultimately show ?thesis using p
    by (auto simp: pools_def txn_inv_def ctx_inv_def msg_inv_def owns_def owns_lazy_def split: option.splits)
qed

subsection \<open>Properties\<close>

text \<open>
  C2: a request is never lost and never answered twice by the flows. Along every run, the
  transactions in the table are exactly those for which a command waits, exactly one command
  each, whose callback leads to the transaction; two transactions never share a request or a
  context.
\<close>

theorem one_continuation_per_txn:
  assumes "hiredis_laws hi waiting" and "next_reply_laws nr waiting"
    and "(worker_step D hi nr waiting)\<^sup>*\<^sup>* w w'" and "acct D free waiting U {#} w"
  shows "size (filter_mset (\<lambda>cb. Ttx t \<in># cb_toks w' cb) (calls waiting w')) = (if t \<in> live w' then 1 else 0) \<and>
    (t \<in> live w' \<and> t' \<in> live w' \<and> t \<noteq> t' \<longrightarrow>
       (t_req (txn_at w' t) = t_req (txn_at w' t') \<longrightarrow> t_req (txn_at w' t) = 0) \<and>
       (t_ctx (txn_at w' t) = t_ctx (txn_at w' t') \<longrightarrow> t_ctx (txn_at w' t) = 0) \<and>
       (t_ctx (txn_at w' t) = t_impl (txn_at w' t') \<longrightarrow> t_ctx (txn_at w' t) = 0))"
proof -
  note a = acct_run [OF assms]
  have d: "\<not> (k \<in># rec_toks (txn_at w' t) \<and> k \<in># rec_toks (txn_at w' t'))" if "t \<in> live w'" "t' \<in> live w'" "t \<noteq> t'" for k
    using arg_cong [OF txns_disjoint [OF a that], of set_mset] by auto
  have "t_req (txn_at w' t) = t_req (txn_at w' t') \<longrightarrow> t_req (txn_at w' t) = 0"
    "t_ctx (txn_at w' t) = t_ctx (txn_at w' t') \<longrightarrow> t_ctx (txn_at w' t) = 0"
    "t_ctx (txn_at w' t) = t_impl (txn_at w' t') \<longrightarrow> t_ctx (txn_at w' t) = 0"
    if "t \<in> live w'" "t' \<in> live w'" "t \<noteq> t'"
    using d [OF that, of "Tms (t_req (txn_at w' t))"] d [OF that, of "Tcx (t_ctx (txn_at w' t))"]
    by (auto simp: in_rec_toks)
  then show ?thesis using calls_of_txn [OF a, of t] by blast
qed


subsection \<open>A worker that waits for one lookup\<close>

definition demo_worker :: "(nat \<times> ptr list, ptr list, (string list \<times> ptr) list) flow_st" where
  "demo_worker = (demo_flow ())
     \<lparr>g_ctx := (\<lambda>s. if s = 2 then Some [([''GET'', ''txn_2:5:7''], 10)] else if s < V_STUB_DB_SHARDS then Some [] else None),
      g_db_pool := Some [11, 12, 13], db_pending_at := (\<lambda>_. \<lparr>pend_cb = Some (Lookup_reply_cb 80)\<rparr>),
      g_ctx_pool := Some [40, 41, 42], ctx_at := (\<lambda>_. zero_ctx),
      txn_at := (\<lambda>t. if t = 60 then zero_txn\<lparr>t_req := 50, t_deadline_ms := 2000\<rparr> else zero_txn)\<rparr>"

definition demo_arena :: arena where
  "demo_arena = \<lparr>ar_db = {10, 11, 12, 13}, ar_ev = {20, 21}, ar_ld = {30, 31}, ar_ss = {71, 72}, ar_rt = {80, 81, 82},
     ar_cx = {40, 41, 42}, ar_ms = {50, 51, 52}, ar_tx = {60, 61, 62}\<rparr>"

lemmas demo_worker_defs = demo_worker_def demo_flow_defs

lemma demo_waits: "waits (\<lambda>h. h) demo_worker s = (if s = 2 then [10] else [])"
  by (simp add: waits_def demo_worker_defs)

lemma demo_calls: "calls (\<lambda>h. h) demo_worker = {#Lookup_reply_cb 80#}"
proof -
  have "cb_of demo_worker q = Lookup_reply_cb 80" for q by (simp add: cb_of_def demo_worker_def)
  then show ?thesis
    by (simp add: calls_def demo_waits V_STUB_DB_SHARDS_def lessThan_nat_numeral lessThan_Suc)
qed

lemma demo_inflight: "inflight (\<lambda>h. h) demo_worker = {#Trt 80, Ttx 60, Tms 50#}"
  unfolding inflight_def demo_calls by (simp add: txn_toks_def rec_toks_def demo_worker_defs zero_txn_def)

lemma demo_acct: "acct list_dpdk set (\<lambda>h. h) demo_arena {#} demo_worker"
proof -
  have "pools list_dpdk set demo_arena {#Trt 80, Ttx 60, Tms 50#} demo_worker"
    by (auto simp: pools_def owns_def list_pool_laws ctx_inv_def msg_inv_def txn_inv_def live_def slots_distinct_def
        demo_arena_def demo_worker_defs nth_Cons split: nat.splits)
  moreover have "db_inv list_dpdk set (\<lambda>h. h) {10, 11, 12, 13} {} demo_worker"
    unfolding db_inv_def demo_waits
    by (auto simp: owns_def list_pool_laws V_STUB_DB_SHARDS_def demo_worker_defs split: if_splits)
  moreover have "calls_set (\<lambda>h. h) demo_worker" by (simp add: calls_set_def demo_worker_def)
  moreover have "cb_ok demo_worker (Lookup_reply_cb 80)" by (simp add: demo_worker_defs zero_txn_def)
  ultimately show ?thesis by (simp add: acct_def demo_calls demo_inflight) (simp add: demo_arena_def)
qed

text \<open>The cached response arrives.\<close>

definition demo_answered :: "(nat \<times> ptr list, ptr list, (string list \<times> ptr) list) flow_st" where
  "demo_answered = on_reply list_dpdk (db_call list_dpdk list_hiredis 0) (H_string ''ok'') 10
     (demo_worker\<lparr>g_ctx := (g_ctx demo_worker)(2 := Some [])\<rparr>)"

lemma demo_delivered: "delivered (H_string ''ok'') demo_worker = Some (Reply_String ''ok'')"
  by (simp add: delivered_def convert_reply.simps reply_at_def node_at_def V_STUB_DB_REPLY_SCRATCH_CAP_def demo_worker_defs)

lemma demo_run: "(worker_step list_dpdk list_hiredis list_reader (\<lambda>h. h))\<^sup>*\<^sup>* demo_worker demo_answered"
proof (rule r_into_rtranclp)
  have "g_ctx demo_worker 2 = Some [([''GET'', ''txn_2:5:7''], 10)]" by (simp add: demo_worker_def)
  then show "worker_step list_dpdk list_hiredis list_reader (\<lambda>h. h) demo_worker demo_answered"
    unfolding demo_answered_def
    by (rule worker_step.reply [rotated]) (simp_all add: list_reader_def demo_delivered V_STUB_DB_SHARDS_def)
qed

lemma g_ctx_frame [simp]:
  "g_ctx (v_port_txn_destroy D t w1) = g_ctx w1" "g_ctx (txn_upd t f w2) = g_ctx w2"
  "g_ctx (v_port_pfcp_msg_free D m w3) = g_ctx w3" "g_ctx (snd (v_dispatch_tx_enqueue D buf peer w4)) = g_ctx w4"
  by (simp_all add: v_port_txn_destroy_def txn_upd_def v_port_pfcp_msg_free_def v_dispatch_tx_enqueue_def stage_msg_def
      split: option.split)

lemma retrans_hit_g_ctx [simp]: "g_ctx (retrans_hit D resp t w) = g_ctx w"
  by (simp add: retrans_hit_def Let_def)

lemma demo_quiet: "waits (\<lambda>h. h) demo_answered s = []"
proof -
  let ?w = "demo_worker\<lparr>g_ctx := (g_ctx demo_worker)(2 := Some [])\<rparr>"
  have cb: "pend_cb (db_pending_at ?w 10) = Some (Lookup_reply_cb 80)" by (simp add: demo_worker_def)
  have d: "delivered (H_string ''ok'') ?w = Some (Reply_String ''ok'')" using demo_delivered by (simp add: delivered_def)
  have r: "g_ctx (db_call list_dpdk list_hiredis 0 (Lookup_reply_cb 80) RET_CODE_OK (Some (Reply_String ''ok'')) v) = g_ctx v"
    if "retrans_pending_at v 80 = Retrans_lookup_cb 60" for v :: "(nat \<times> ptr list, ptr list, (string list \<times> ptr) list) flow_st"
    using that by (simp add: db_call_def numeral_3_eq_3 lookup_reply_cb_def Let_def retrans_put_def retrans_lookup_cb_def)
  have p: "retrans_pending_at demo_worker 80 = Retrans_lookup_cb 60" by (simp add: demo_worker_defs)
  have "g_ctx demo_answered = (g_ctx demo_worker)(2 := Some [])"
    using on_reply_runs [OF cb, of list_dpdk "db_call list_dpdk list_hiredis 0" "H_string ''ok''"]
    by (auto simp: demo_answered_def d r p Let_def)
  then show ?thesis by (simp add: waits_def demo_worker_def)
qed

theorem one_continuation_per_txn_witness:
  "size (filter_mset (\<lambda>cb. Ttx 60 \<in># cb_toks demo_worker cb) (calls (\<lambda>h. h) demo_worker)) = 1"
  using one_continuation_per_txn [OF list_hiredis_laws list_reader_laws rtranclp.rtrancl_refl demo_acct, of 60 61]
  by (simp add: live_def demo_worker_defs)


end
