(* ===== verification/Startup.thy ===== *)
theory Startup
  imports Worker
begin

section \<open>From power-on to the first request\<close>

text \<open>
  The initialisations of \<^verbatim>\<open>main.c\<close> establish the account of \<open>Ownership\<close>: every pool is full,
  nothing waits. The two gates, the initial leases of identifiers and the recovery time stamp
  keep it, so that every run of a pod that started from zeroed memory satisfies the theorems of
  \<open>Worker\<close>.
\<close>

subsection \<open>What each initialisation leaves\<close>

lemma mem_init_ok:
  assumes "v_port_mem_init D cap w = (RET_CODE_OK, w')"
  obtains p where "rte_mempool_create D (unat cap) = Some p" "w' = w\<lparr>g_ctx_pool := Some p, g_capacity := cap\<rparr>"
  using assms by (auto simp: v_port_mem_init_def Let_def split: if_splits)

lemma txn_init_ok:
  assumes "v_port_txn_init D w = (RET_CODE_OK, w')"
  obtains p where "rte_mempool_create D V_STUB_TXN_CAP = Some p"
    "w' = w\<lparr>g_txn_pool := Some p, g_slots := replicate V_STUB_TXN_CAP 0, g_fired := replicate V_STUB_TXN_CAP False, g_now_ms := 0\<rparr>"
  using assms by (auto simp: v_port_txn_init_def Let_def split: if_splits)

lemma script_init_ok:
  assumes "v_db_script_init D z w = (RET_CODE_OK, w')"
  obtains p q where "rte_mempool_create D V_DB_EVALSHA_POOL_CAP = Some p" "rte_mempool_create D V_DB_SCRIPT_LOAD_POOL_CAP = Some q"
    "w' = w\<lparr>g_shard_count := v_port_db_shard_count, g_sha := (\<lambda>_ _. []), g_evalsha_pool := Some p, g_load_pool := Some q,
       g_reconnect_cb := True\<rparr>"
  using assms by (auto simp: v_db_script_init_def v_port_db_on_reconnect_def Let_def split: if_splits)

lemma connect_shards_ok:
  assumes "hiredis_laws hi waiting" and "connect_shards hi ge is w = (RET_CODE_OK, w')"
  shows "\<exists>c. w' = w\<lparr>g_ctx := c\<rparr> \<and> (\<forall>s. s \<notin> set is \<longrightarrow> c s = g_ctx w s) \<and> (\<forall>s \<in> set is. \<exists>h. c s = Some h \<and> waiting h = [])"
  using assms(2)
proof (induction "is" arbitrary: w)
  case Nil
  then show ?case by (intro exI [of _ "g_ctx w"]) simp
next
  case (Cons i "is")
  from Cons.prems obtain h where h: "redisAsyncConnect hi (db_host ge) (db_port ge) i = Some h"
    and r: "connect_shards hi ge is (w\<lparr>g_ctx := (g_ctx w)(i := Some h)\<rparr>) = (RET_CODE_OK, w')"
    by (auto simp: shard_connect_def Let_def split: option.splits if_splits)
  have "waiting h = []" using assms(1) h by (auto simp: hiredis_laws_def)
  from Cons.IH [OF r] obtain c where c: "w' = w\<lparr>g_ctx := c\<rparr>" "\<forall>s. s \<notin> set is \<longrightarrow> c s = (if s = i then Some h else g_ctx w s)"
    "\<forall>s \<in> set is. \<exists>h. c s = Some h \<and> waiting h = []" by auto
  have "\<exists>h. c i = Some h \<and> waiting h = []" using c(2,3) \<open>waiting h = []\<close> by (cases "i \<in> set is") auto
  with c show ?case by (intro exI [of _ c]) auto
qed

lemma db_init_ok:
  assumes "hiredis_laws hi waiting" and "v_port_db_init D hi ge ok w = (RET_CODE_OK, w')"
  obtains p c where "rte_mempool_create D V_STUB_DB_PENDING_CAP = Some p"
    "w' = w\<lparr>g_base := True, g_db_pool := Some p, g_ctx := c\<rparr>" "\<forall>s < V_STUB_DB_SHARDS. \<exists>h. c s = Some h \<and> waiting h = []"
proof -
  obtain p where p: "rte_mempool_create D V_STUB_DB_PENDING_CAP = Some p"
    and r: "connect_shards hi ge [0 ..< V_STUB_DB_SHARDS] (w\<lparr>g_base := True, g_db_pool := Some p\<rparr>) = (RET_CODE_OK, w')"
    using assms(2) by (auto simp: v_port_db_init_def Let_def split: if_splits)
  from connect_shards_ok [OF assms(1) r] p that show ?thesis by auto
qed

lemma pfcp_io_init_ok:
  assumes "v_port_pfcp_io_init D w = (RET_CODE_OK, w')" and "g_pfcp_pool w = None"
  obtains p where "rte_mempool_create D V_STUB_PFCP_MSG_POOL_CAP = Some p" "w' = w\<lparr>g_pfcp_pool := Some p, g_rx_cb := True\<rparr>"
  using assms by (auto simp: v_port_pfcp_io_init_def ensure_msg_pool_def Let_def split: if_splits)

lemma plain_inits_same:
  "same_acct w (snd (v_txn_sm_init w))" "same_acct w (snd (v_port_vdp_io_init w))" "same_acct w (snd (v_dispatch_init D w))"
  "same_acct w (snd (v_flow_init a pid w))" "same_acct w (snd (v_node_state_init D node w))"
  by (auto simp: v_txn_sm_init_def v_port_txn_on_timeout_def v_port_vdp_io_init_def v_dispatch_init_def v_flow_init_def
      v_node_state_init_def ensure_node_pool_def same_acct_def Let_def)

subsection \<open>The account at the end of the initialisations\<close>

text \<open>Zeroed memory: no pool exists, no connection, no object carries a magic number.\<close>

definition powered_on :: "('r, 'p, 'h, 'a) flow_st_scheme \<Rightarrow> bool" where
  "powered_on w \<longleftrightarrow>
     g_pfcp_pool w = None \<and> g_sess_pool w = None \<and> g_retrans_pool w = None \<and>
     (\<forall>c. ctx_magic (ctx_at w c) = 0) \<and> (\<forall>m. pm_magic (pfcp_at w m) = 0)"

lemma run_inits_Cons:
  "run_inits (f # fs) w = (True, w') \<longleftrightarrow> (\<exists>w1. f w = (RET_CODE_OK, w1) \<and> run_inits fs w1 = (True, w'))"
  by (auto simp: Let_def split: prod.splits)

definition pod_arena :: "('r, 'p) dpdk \<Rightarrow> ('p \<Rightarrow> ptr set) \<Rightarrow> arena" where
  "pod_arena D free =
     \<lparr>ar_db = pool_set free (rte_mempool_create D V_STUB_DB_PENDING_CAP),
      ar_ev = pool_set free (rte_mempool_create D V_DB_EVALSHA_POOL_CAP),
      ar_ld = pool_set free (rte_mempool_create D V_DB_SCRIPT_LOAD_POOL_CAP),
      ar_ss = pool_set free (rte_mempool_create D V_SESS_PENDING_POOL_CAP),
      ar_rt = pool_set free (rte_mempool_create D V_RETRANS_PENDING_POOL_CAP),
      ar_cx = pool_set free (rte_mempool_create D (unat VPE_CTX_POOL_CAP)),
      ar_ms = pool_set free (rte_mempool_create D V_STUB_PFCP_MSG_POOL_CAP),
      ar_tx = pool_set free (rte_mempool_create D V_STUB_TXN_CAP)\<rparr>"

text \<open>The fields of the state the initialisations leave.\<close>

lemma init_all_fields:
  assumes l: "hiredis_laws hi waiting" and p: "powered_on w" and r: "init_all D hi E w = (True, w')"
  shows "g_ctx_pool w' = rte_mempool_create D (unat VPE_CTX_POOL_CAP) \<and> rte_mempool_create D (unat VPE_CTX_POOL_CAP) \<noteq> None \<and> g_capacity w' = VPE_CTX_POOL_CAP \<and>
    g_txn_pool w' = rte_mempool_create D V_STUB_TXN_CAP \<and> rte_mempool_create D V_STUB_TXN_CAP \<noteq> None \<and>
    g_slots w' = replicate V_STUB_TXN_CAP 0 \<and> g_fired w' = replicate V_STUB_TXN_CAP False \<and>
    g_evalsha_pool w' = rte_mempool_create D V_DB_EVALSHA_POOL_CAP \<and> rte_mempool_create D V_DB_EVALSHA_POOL_CAP \<noteq> None \<and>
    g_load_pool w' = rte_mempool_create D V_DB_SCRIPT_LOAD_POOL_CAP \<and> rte_mempool_create D V_DB_SCRIPT_LOAD_POOL_CAP \<noteq> None \<and>
    g_db_pool w' = rte_mempool_create D V_STUB_DB_PENDING_CAP \<and> rte_mempool_create D V_STUB_DB_PENDING_CAP \<noteq> None \<and>
    g_pfcp_pool w' = rte_mempool_create D V_STUB_PFCP_MSG_POOL_CAP \<and> rte_mempool_create D V_STUB_PFCP_MSG_POOL_CAP \<noteq> None \<and>
    g_sess_pool w' = None \<and> g_retrans_pool w' = None \<and> ctx_at w' = ctx_at w \<and> pfcp_at w' = pfcp_at w \<and>
    (\<forall>s < V_STUB_DB_SHARDS. \<exists>h. g_ctx w' s = Some h \<and> waiting h = [])"
proof -
  obtain w1 w2 w3 w4 w5 w6 w7 w8 w9 where s: "v_port_mem_init D VPE_CTX_POOL_CAP w = (RET_CODE_OK, w1)"
    "v_port_txn_init D w1 = (RET_CODE_OK, w2)" "v_txn_sm_init w2 = (RET_CODE_OK, w3)"
    "v_db_script_init D (script_zmalloc_ok E) w3 = (RET_CODE_OK, w4)"
    "v_port_db_init D hi (getenv E) (event_base_ok E) w4 = (RET_CODE_OK, w5)" "v_port_vdp_io_init w5 = (RET_CODE_OK, w6)"
    "v_dispatch_init D w6 = (RET_CODE_OK, w7)" "v_flow_init (rr_addr E) (rr_pid E) w7 = (RET_CODE_OK, w8)"
    "v_port_pfcp_io_init D w8 = (RET_CODE_OK, w9)" "v_node_state_init D g_node_id w9 = (RET_CODE_OK, w')"
    using r unfolding init_all_def run_inits_Cons by auto
  note same = plain_inits_same(1) [of w2, unfolded s(3) snd_conv] plain_inits_same(2) [of w5, unfolded s(6) snd_conv]
    plain_inits_same(3) [where w = w6 and D = D, unfolded s(7) snd_conv]
    plain_inits_same(4) [where w = w7 and a = "rr_addr E" and pid = "rr_pid E", unfolded s(8) snd_conv]
    plain_inits_same(5) [where w = w9 and D = D and node = g_node_id, unfolded s(10) snd_conv]
  obtain p1 where 1: "rte_mempool_create D (unat VPE_CTX_POOL_CAP) = Some p1" "w1 = w\<lparr>g_ctx_pool := Some p1, g_capacity := VPE_CTX_POOL_CAP\<rparr>"
    by (rule mem_init_ok [OF s(1)])
  obtain p2 where 2: "rte_mempool_create D V_STUB_TXN_CAP = Some p2"
    "w2 = w1\<lparr>g_txn_pool := Some p2, g_slots := replicate V_STUB_TXN_CAP 0, g_fired := replicate V_STUB_TXN_CAP False, g_now_ms := 0\<rparr>"
    by (rule txn_init_ok [OF s(2)])
  obtain p4 q4 where 4: "rte_mempool_create D V_DB_EVALSHA_POOL_CAP = Some p4" "rte_mempool_create D V_DB_SCRIPT_LOAD_POOL_CAP = Some q4"
    "w4 = w3\<lparr>g_shard_count := v_port_db_shard_count, g_sha := (\<lambda>_ _. []), g_evalsha_pool := Some p4, g_load_pool := Some q4,
       g_reconnect_cb := True\<rparr>"
    by (rule script_init_ok [OF s(4)])
  obtain p5 c where 5: "rte_mempool_create D V_STUB_DB_PENDING_CAP = Some p5"
    "w5 = w4\<lparr>g_base := True, g_db_pool := Some p5, g_ctx := c\<rparr>" "\<forall>s < V_STUB_DB_SHARDS. \<exists>h. c s = Some h \<and> waiting h = []"
    by (rule db_init_ok [OF l s(5)])
  have "g_pfcp_pool w8 = None" using p same by (simp add: same_acct_def powered_on_def 1(2) 2(2) 4(3) 5(2))
  then obtain p9 where 9: "rte_mempool_create D V_STUB_PFCP_MSG_POOL_CAP = Some p9" "w9 = w8\<lparr>g_pfcp_pool := Some p9, g_rx_cb := True\<rparr>"
    using pfcp_io_init_ok [OF s(9)] by blast
  show ?thesis using p same 1(1) 2(1) 4(1,2) 5(1,3) 9(1) by (simp add: same_acct_def powered_on_def 1(2) 2(2) 4(3) 5(2) 9(2))
qed

lemma owns_created:
  "pool_laws D free \<Longrightarrow> rte_mempool_create D n \<noteq> None \<Longrightarrow> owns D free (pool_set free (rte_mempool_create D n)) {} (rte_mempool_create D n)"
  by (auto simp: owns_def)

lemma created_objects:
  assumes "pool_laws D free" and "rte_mempool_create D n \<noteq> None"
  shows "0 \<notin> pool_set free (rte_mempool_create D n)" "finite (pool_set free (rte_mempool_create D n))"
    "card (pool_set free (rte_mempool_create D n)) = n"
  using assms by (auto simp: pool_laws_def)

lemma acct_init_all:
  assumes l: "hiredis_laws hi waiting" and d: "pool_laws D free" and p: "powered_on w" and r: "init_all D hi E w = (True, w')"
  shows "acct D free waiting (pod_arena D free) {#} w'"
proof -
  note f = init_all_fields [OF l p r]
  have ws: "waits waiting w' s = []" if "s < V_STUB_DB_SHARDS" for s using f that by (auto simp: waits_def)
  then have c: "calls waiting w' = {#}" "inflight waiting w' = {#}" "calls_set waiting w'"
    by (simp_all add: calls_def calls_set_def inflight_def)
  have "db_inv D free waiting (ar_db (pod_arena D free)) {} w'"
    using ws f owns_created [OF d, of V_STUB_DB_PENDING_CAP] by (simp add: db_inv_def pod_arena_def)
  moreover have "ctx_inv D free (ar_cx (pod_arena D free)) {} w'"
    using f p owns_created [OF d, of "unat VPE_CTX_POOL_CAP"] created_objects [OF d, of "unat VPE_CTX_POOL_CAP"]
    by (simp add: ctx_inv_def pod_arena_def powered_on_def)
  moreover have "msg_inv D free (ar_ms (pod_arena D free)) {} w'"
    using f p owns_created [OF d, of V_STUB_PFCP_MSG_POOL_CAP] created_objects [OF d, of V_STUB_PFCP_MSG_POOL_CAP]
    by (simp add: msg_inv_def pod_arena_def powered_on_def)
  moreover have "txn_inv D free (ar_tx (pod_arena D free)) {} w'"
    using f owns_created [OF d, of V_STUB_TXN_CAP] created_objects [OF d, of V_STUB_TXN_CAP]
    by (auto simp: txn_inv_def pod_arena_def live_def slots_distinct_def)
  moreover have "owns_lazy D free V_SESS_PENDING_POOL_CAP (ar_ss (pod_arena D free)) {} (g_sess_pool w')"
    "owns_lazy D free V_RETRANS_PENDING_POOL_CAP (ar_rt (pod_arena D free)) {} (g_retrans_pool w')"
    using f d by (auto simp: owns_lazy_def pod_arena_def)
  moreover have "owns D free (ar_ev (pod_arena D free)) {} (g_evalsha_pool w')" "owns D free (ar_ld (pod_arena D free)) {} (g_load_pool w')"
    using f owns_created [OF d, of V_DB_EVALSHA_POOL_CAP] owns_created [OF d, of V_DB_SCRIPT_LOAD_POOL_CAP] by (simp_all add: pod_arena_def)
  ultimately show ?thesis by (simp add: acct_def pools_def c uniq_def)
qed

subsection \<open>The gates and what is started behind them\<close>


lemma acct_wait:
  assumes e: "\<And>w. acct D free waiting U {#} w \<Longrightarrow> acct D free waiting U {#} (event_loop E w)"
    and a: "acct D free waiting U {#} w"
  shows "acct D free waiting U {#} (snd (wait_until E pred n w))"
  using a
proof (induction n arbitrary: w)
  case (Suc n)
  have "acct D free waiting U {#} (v_port_db_poll E w)" using e Suc.prems by (simp add: v_port_db_poll_def)
  then show ?case using Suc by simp
qed simp

lemma create_rings_same: "same_acct w (snd (create_rings D ps w))"
proof (induction ps arbitrary: w)
  case (Cons part ps)
  let ?w = "w\<lparr>g_seid_ring := (g_seid_ring w)(part := rte_ring_create D V_ID_RING_SIZE),
    g_teid_ring := (g_teid_ring w)(part := rte_ring_create D V_ID_RING_SIZE)\<rparr>"
  have "same_acct w ?w" by (simp add: same_acct_def)
  then show ?case using same_acct_trans [OF _ Cons.IH [of ?w], of w] by (simp add: Let_def) (simp add: same_acct_def)
qed simp

lemma acct_leases:
  assumes "hiredis_laws hi waiting" and "errs D free waiting U cc" and "acct D free waiting U X w"
  shows "acct D free waiting U X (fold (\<lambda>part w. teid_maybe_refill D hi cc part (seid_maybe_refill D hi part w)) ps w)"
  using assms(3)
proof (induction ps arbitrary: w)
  case (Cons part ps)
  from acct_to_acct [OF acct_teid_refill [OF assms(1,2) acct_to_acct [OF acct_seid_refill [OF assms(1) Cons.prems]]]]
  show ?case using Cons.IH by simp
qed simp

lemma acct_id_alloc_init:
  assumes l: "hiredis_laws hi waiting" and e: "errs D free waiting U cc" and a: "acct D free waiting U X w"
  shows "acct D free waiting U X (snd (v_id_alloc_init D hi cc ok w))"
proof -
  let ?w = "w\<lparr>g_seid_ring := (\<lambda>_. None), g_teid_ring := (\<lambda>_. None), g_seid_refill_inflight := (\<lambda>_. False),
    g_teid_refill_inflight := (\<lambda>_. False), g_teid_next_seeded := (\<lambda>_. False)\<rparr>"
  obtain rc w1 where c: "create_rings D all_parts ?w = (rc, w1)" by fastforce
  have "same_acct w ?w" by (simp add: same_acct_def)
  from same_acct_trans [OF this create_rings_same] have s: "same_acct w w1" using c by (metis snd_conv)
  moreover have "same_acct w1 (w1\<lparr>g_initialized := True\<rparr>)" by (simp add: same_acct_def)
  ultimately have "acct D free waiting U X (w1\<lparr>g_initialized := True\<rparr>)" using acct_same [OF a] same_acct_trans by blast
  from acct_leases [OF l e this] show ?thesis
    using a acct_same [OF a s] c by (simp add: v_id_alloc_init_def Let_def)
qed

lemma acct_load_recovery:
  fixes w :: "('r, 'p, 'h, 'a) node_st_scheme"
  assumes l: "hiredis_laws hi waiting" and a: "acct D free waiting U X w"
  shows "acct D free waiting U X (snd (v_node_state_load_recovery_ts D hi now cb w))"
proof (cases "pending_get D cb w")
  case None
  then show ?thesis using a by (simp add: v_node_state_load_recovery_ts_def node_request_def)
next
  case (Some x)
  obtain p w1 where x: "pending_get D cb w = Some (p, w1)" using Some by (cases x) auto
  obtain rc w2 where c: "v_port_db_cmd D hi (v_port_db_shard_of (g_recovery_key w)) (Recovery_reply_cb p)
      [''SET'', g_recovery_key w, dec (unat (ucast now :: u32)), ''NX'', ''GET''] w1 = (rc, w2)" by fastforce
  have "same_acct w w1" using x by (auto simp: pending_get_def same_acct_def split: option.splits)
  note a1 = acct_cmd_free [OF l acct_same [OF a this], of "Recovery_reply_cb p" "v_port_db_shard_of (g_recovery_key w)"
      "[''SET'', g_recovery_key w, dec (unat (ucast now :: u32)), ''NX'', ''GET'']"]
  have w2: "acct D free waiting U X w2" using a1 by (simp add: c)
  have "same_acct w2 (node_put D p w2)" by (simp add: node_put_def same_acct_def)
  then show ?thesis using x c w2 acct_same [OF w2] by (simp add: v_node_state_load_recovery_ts_def node_request_def)
qed

lemma errs_db_call: "hiredis_laws hi waiting \<Longrightarrow> errs D free waiting U (db_call D hi now)"
  unfolding db_call_def numeral_3_eq_3 db_call_at.simps by (rule errs_callback)

lemma acct_startup:
  assumes l: "hiredis_laws hi waiting" and n: "next_reply_laws nr waiting" and d: "pool_laws D free" and p: "powered_on w"
    and i: "init_all D hi E w = (True, w1)" and ev: "\<forall>w. (worker_step D hi nr waiting)\<^sup>*\<^sup>* w (event_loop E w)"
  shows "acct D free waiting (pod_arena D free) {#} (snd (startup D hi E w))"
proof -
  let ?U = "pod_arena D free"
  have w: "acct D free waiting ?U {#} (snd (wait_until E pred k v))" if "acct D free waiting ?U {#} v" for pred k v
    by (rule acct_wait [OF _ that]) (use ev in \<open>blast intro: acct_run [OF l n]\<close>)
  have 1: "acct D free waiting ?U {#} w1" by (rule acct_init_all [OF l d p i])
  obtain ok2 w2 where 2: "wait_until E v_db_script_ready 30000 w1 = (ok2, w2)" by fastforce
  obtain rc3 w3 where 3: "v_id_alloc_init D hi (db_call D hi (wall_clock E)) (id_zmalloc_ok E) w2 = (rc3, w3)" by fastforce
  obtain ok4 w4 where 4: "wait_until E (v_id_alloc_ready D) 60000 w3 = (ok4, w4)" by fastforce
  let ?w5 = "snd (v_node_state_load_recovery_ts D hi (wall_clock E) 0 w4)"
  obtain ok6 w6 where 6: "wait_until E v_node_state_recovery_ts_ready 5000 ?w5 = (ok6, w6)" by fastforce
  have a2: "acct D free waiting ?U {#} w2" using w [OF 1, of v_db_script_ready 30000] by (simp only: 2 snd_conv)
  have a3: "acct D free waiting ?U {#} w3" using acct_id_alloc_init [OF l errs_db_call [OF l] a2, of "wall_clock E" "id_zmalloc_ok E"]
    by (simp only: 3 snd_conv)
  have a4: "acct D free waiting ?U {#} w4" using w [OF a3, of "v_id_alloc_ready D" 60000] by (simp only: 4 snd_conv)
  have a6: "acct D free waiting ?U {#} w6"
    using w [OF acct_load_recovery [OF l a4], of v_node_state_recovery_ts_ready 5000 "wall_clock E" 0] by (simp only: 6 snd_conv)
  have "startup D hi E w =
      (if \<not> ok2 then (False, w2) else if rc3 \<noteq> RET_CODE_OK then (False, w3) else if \<not> ok4 then (False, w4) else (True, w6))"
    unfolding startup_def Let_def i split_conv 2 3 4 6 by simp
  then show ?thesis using a2 a3 a4 a6 by simp
qed

subsection \<open>Properties\<close>


definition demo_off :: "(nat \<times> ptr list, ptr list, (string list \<times> ptr) list) flow_st" where
  "demo_off = (demo_flow ())
     \<lparr>g_ctx_pool := None, g_txn_pool := None, g_pfcp_pool := None, g_sess_pool := None, g_retrans_pool := None,
      g_base := False, g_ctx := (\<lambda>_. None), ctx_at := (\<lambda>_. zero_ctx), pfcp_at := (\<lambda>_. zero_pfcp_msg)\<rparr>"

text \<open>An event loop that reports the first connection as established, then loses what waits on it.\<close>

definition demo_loop ::
    "(nat \<times> ptr list, ptr list, (string list \<times> ptr) list) flow_st \<Rightarrow>
     (nat \<times> ptr list, ptr list, (string list \<times> ptr) list) flow_st" where
  "demo_loop w =
     (case g_ctx w 0 of
        Some ((args, q) # h) \<Rightarrow> on_reply list_dpdk (db_call list_dpdk list_hiredis 0) H_null q (w\<lparr>g_ctx := (g_ctx w)(0 := Some h)\<rparr>)
      | _ \<Rightarrow> connect_cb (\<lambda>s. script_reconnect_cb list_dpdk list_hiredis (of_nat s)) 0 True w)"

definition demo_env :: "(nat \<times> ptr list, ptr list, (string list \<times> ptr) list) flow_st env" where
  "demo_env =
     \<lparr>event_loop = demo_loop, script_zmalloc_ok = True, id_zmalloc_ok = True, getenv = (\<lambda>_. None), event_base_ok = True,
      rr_addr = 0, rr_pid = 1, wall_clock = 0, eal_init_ok = True, worker_lcores = [1, 2], launch_ok = (\<lambda>_. True)\<rparr>"

lemma demo_loop_steps: "(worker_step list_dpdk list_hiredis list_reader (\<lambda>h. h))\<^sup>*\<^sup>* w (event_loop demo_env w)"
proof (rule r_into_rtranclp)
  have c: "worker_step list_dpdk list_hiredis list_reader (\<lambda>h. h) w
      (connect_cb (\<lambda>s. script_reconnect_cb list_dpdk list_hiredis (of_nat s)) 0 True w)"
    by (rule worker_step.connected)
  show "worker_step list_dpdk list_hiredis list_reader (\<lambda>h. h) w (event_loop demo_env w)"
  proof (cases "\<exists>args q h. g_ctx w 0 = Some ((args, q) # h)")
    case True
    then obtain args q h where h: "g_ctx w 0 = Some ((args, q) # h)" by blast
    have "worker_step list_dpdk list_hiredis list_reader (\<lambda>h. h) w
        (on_reply list_dpdk (db_call list_dpdk list_hiredis 0) H_null q (w\<lparr>g_ctx := (g_ctx w)(0 := Some h)\<rparr>))"
      by (rule worker_step.reply [OF _ h]) (simp_all add: list_reader_def delivered_def V_STUB_DB_SHARDS_def)
    then show ?thesis using h by (simp add: demo_env_def demo_loop_def)
  next
    case False
    then show ?thesis using c by (auto simp: demo_env_def demo_loop_def split: option.split list.split)
  qed
qed

lemma list_create: "n < 2 ^ 32 \<Longrightarrow> rte_mempool_create list_dpdk n \<noteq> None"
  by (simp add: list_dpdk_def)


lemma demo_pools:
  obtains p1 p2 p3 p4 p5 p6 p7 where "rte_mempool_create list_dpdk (unat VPE_CTX_POOL_CAP) = Some p1"
    "rte_mempool_create list_dpdk V_STUB_TXN_CAP = Some p2" "rte_mempool_create list_dpdk V_DB_EVALSHA_POOL_CAP = Some p3"
    "rte_mempool_create list_dpdk V_DB_SCRIPT_LOAD_POOL_CAP = Some p4" "rte_mempool_create list_dpdk V_STUB_DB_PENDING_CAP = Some p5"
    "rte_mempool_create list_dpdk V_DISPATCH_POOL_CAP = Some p6" "rte_mempool_create list_dpdk V_STUB_PFCP_MSG_POOL_CAP = Some p7"
  using list_create [of "unat VPE_CTX_POOL_CAP"] list_create [of V_STUB_TXN_CAP] list_create [of V_DB_EVALSHA_POOL_CAP]
    list_create [of V_DB_SCRIPT_LOAD_POOL_CAP] list_create [of V_STUB_DB_PENDING_CAP] list_create [of V_DISPATCH_POOL_CAP]
    list_create [of V_STUB_PFCP_MSG_POOL_CAP]
  by (auto simp: VPE_CTX_POOL_CAP_def V_STUB_TXN_CAP_def V_DB_EVALSHA_POOL_CAP_def V_DB_SCRIPT_LOAD_POOL_CAP_def
      V_STUB_DB_PENDING_CAP_def V_DISPATCH_POOL_CAP_def V_DISPATCH_RING_SIZE_def V_STUB_PFCP_MSG_POOL_CAP_def)

lemma demo_connects: "\<exists>w'. connect_shards list_hiredis ge is w = (RET_CODE_OK, w')"
  by (induction "is" arbitrary: w) (simp_all add: shard_connect_def list_hiredis_def)

lemma demo_init_all: "\<exists>w1. init_all list_dpdk list_hiredis demo_env demo_off = (True, w1)"
proof -
  obtain p1 p2 p3 p4 p5 p6 p7 where p: "rte_mempool_create list_dpdk (unat VPE_CTX_POOL_CAP) = Some p1"
    "rte_mempool_create list_dpdk V_STUB_TXN_CAP = Some p2" "rte_mempool_create list_dpdk V_DB_EVALSHA_POOL_CAP = Some p3"
    "rte_mempool_create list_dpdk V_DB_SCRIPT_LOAD_POOL_CAP = Some p4" "rte_mempool_create list_dpdk V_STUB_DB_PENDING_CAP = Some p5"
    "rte_mempool_create list_dpdk V_DISPATCH_POOL_CAP = Some p6" "rte_mempool_create list_dpdk V_STUB_PFCP_MSG_POOL_CAP = Some p7"
    by (rule demo_pools)
  have r: "rte_ring_create list_dpdk n \<noteq> None" for n by (simp add: list_dpdk_def)
  have off: "g_ctx_pool demo_off = None" "g_txn_pool demo_off = None" "g_base demo_off = False"
    by (simp_all add: demo_off_def)
  let ?w1 = "demo_off\<lparr>g_ctx_pool := Some p1, g_capacity := VPE_CTX_POOL_CAP\<rparr>"
  let ?w2 = "?w1\<lparr>g_txn_pool := Some p2, g_slots := replicate V_STUB_TXN_CAP 0, g_fired := replicate V_STUB_TXN_CAP False, g_now_ms := 0\<rparr>"
  let ?w3 = "?w2\<lparr>g_timeout_cb := True\<rparr>"
  let ?w4 = "?w3\<lparr>g_shard_count := v_port_db_shard_count, g_sha := (\<lambda>_ _. []), g_evalsha_pool := Some p3, g_load_pool := Some p4,
       g_reconnect_cb := True\<rparr>"
  let ?v4 = "?w4\<lparr>g_base := True, g_db_pool := Some p5\<rparr>"
  obtain w5 where 5: "connect_shards list_hiredis (\<lambda>_. None) [0 ..< V_STUB_DB_SHARDS] ?v4 = (RET_CODE_OK, w5)"
    using demo_connects by blast
  have "v_port_mem_init list_dpdk VPE_CTX_POOL_CAP demo_off = (RET_CODE_OK, ?w1)" "v_port_txn_init list_dpdk ?w1 = (RET_CODE_OK, ?w2)"
    "v_txn_sm_init ?w2 = (RET_CODE_OK, ?w3)" "v_db_script_init list_dpdk True ?w3 = (RET_CODE_OK, ?w4)"
    "v_port_db_init list_dpdk list_hiredis (\<lambda>_. None) True ?w4 = (RET_CODE_OK, w5)"
    using off p 5 by (simp_all add: v_port_mem_init_def v_port_txn_init_def v_txn_sm_init_def v_port_txn_on_timeout_def
        v_db_script_init_def v_port_db_on_reconnect_def v_port_db_init_def v_port_db_shard_count_def V_STUB_DB_SHARDS_def Let_def)
  moreover have "\<exists>w'. v_port_vdp_io_init v = (RET_CODE_OK, w')" "\<exists>w'. v_flow_init a b v = (RET_CODE_OK, w')"
    "\<exists>w'. v_dispatch_init list_dpdk v = (RET_CODE_OK, w')" "\<exists>w'. v_port_pfcp_io_init list_dpdk v = (RET_CODE_OK, w')"
    for v :: "(nat \<times> ptr list, ptr list, (string list \<times> ptr) list) flow_st" and a b
    using p r by (auto simp: v_port_vdp_io_init_def v_flow_init_def v_dispatch_init_def v_port_pfcp_io_init_def ensure_msg_pool_def Let_def)
  moreover have "\<exists>w'. v_node_state_init list_dpdk g_node_id v = (RET_CODE_OK, w')"
    for v :: "(nat \<times> ptr list, ptr list, (string list \<times> ptr) list) flow_st"
    using list_create [of V_NODE_STATE_PENDING_POOL_CAP]
    by (auto simp: v_node_state_init_def ensure_node_pool_def g_node_id_def V_NODE_ID_MAX_BYTES_def V_NODE_STATE_PENDING_POOL_CAP_def Let_def)
  ultimately show ?thesis unfolding init_all_def run_inits_Cons by (simp add: demo_env_def) (metis run_inits.simps(1))
qed

lemma demo_powered_on: "powered_on demo_off"
  by (simp add: powered_on_def demo_off_def)


end
