(* ===== verification/Closing.thy ===== *)
theory Closing
  imports Startup
begin

section \<open>Closing connections\<close>

text \<open>
  \<^verbatim>\<open>v_stub_db_test_force_reconnect\<close> and \<^verbatim>\<open>v_port_db_fini\<close> free connections on which commands may
  still wait; hiredis then calls every waiting callback with a NULL reply. The theory shows that
  those callbacks leave the connection being freed alone, so that the loop ends with nothing
  waiting on it, and that the account survives.
\<close>

subsection \<open>A connection that takes no command\<close>

definition deaf :: "'h hiredis \<Rightarrow> 'h option \<Rightarrow> bool" where
  "deaf hi x \<longleftrightarrow> (case x of None \<Rightarrow> True | Some h \<Rightarrow> \<forall>args p. redisAsyncCommand hi h args p = None)"

named_theorems deaf_simps

lemma deaf_cmd [deaf_simps]:
  assumes "deaf hi (g_ctx w s)"
  shows "g_ctx (snd (v_port_db_cmd D hi shard cb args w)) s = g_ctx w s"
proof -
  have "g_ctx w1 = g_ctx w" if "db_pending_get D x w = Some (p, w1)" for x p w1
    using that by (auto simp: db_pending_get_def split: option.splits)
  then show ?thesis using assms
    by (auto simp: v_port_db_cmd_def deaf_def split: option.splits if_splits)
qed

lemma deaf_cmd_argv [deaf_simps]:
  "deaf hi (g_ctx w s) \<Longrightarrow> g_ctx (snd (v_port_db_cmd_argv D hi shard cb args w)) s = g_ctx w s"
  by (simp add: v_port_db_cmd_argv_def deaf_cmd)

lemma put_g_ctx [simp]:
  "g_ctx (evalsha_put D p w1) = g_ctx w1" "g_ctx (load_put D p w2) = g_ctx w2" "g_ctx (sess_put D p w3) = g_ctx w3"
  "g_ctx (retrans_put D p w4) = g_ctx w4" "g_ctx (node_put D p w5) = g_ctx w5"
  by (simp_all add: evalsha_put_def load_put_def sess_put_def retrans_put_def node_put_def)

lemma obj_g_ctx [simp]:
  "g_ctx (v_port_ctx_free D c w1) = g_ctx w1" "g_ctx (v_port_ctx_clear c w2) = g_ctx w2" "g_ctx (snd (v_port_ctx_alloc D w3)) = g_ctx w3"
  "g_ctx (v_port_txn_set_state t st w4) = g_ctx w4" "g_ctx (free_ctx D t w5) = g_ctx w5" "g_ctx (free_impl D t w6) = g_ctx w6"
  "g_ctx (free_req D t w7) = g_ctx w7" "g_ctx (snd (part_rr w8)) = g_ctx w8"
  by (simp_all add: v_port_ctx_free_def v_port_ctx_clear_def v_port_ctx_alloc_def v_port_txn_set_state_def free_ctx_def free_impl_def
      free_req_def part_rr_def split: option.split)

lemma ensure_g_ctx [simp]:
  "g_ctx (snd (ensure_pool D w1)) = g_ctx w1" "g_ctx (snd (ensure_retrans_pool D w2)) = g_ctx w2"
  by (simp_all add: ensure_pool_def ensure_retrans_pool_def Let_def)

lemma sess_get_g_ctx: "sess_get D u w = Some (p, w1) \<Longrightarrow> g_ctx w1 = g_ctx w"
  by (auto simp: sess_get_def split: option.splits)

text \<open>Calls that ask for a script may call their user with an error.\<close>

definition leaves :: "'h hiredis \<Rightarrow> nat \<Rightarrow> ('r, 'p, 'h, 'a) db_st_scheme db_call \<Rightarrow> bool" where
  "leaves hi s cc \<longleftrightarrow> (\<forall>cb rep w. deaf hi (g_ctx w s) \<longrightarrow> g_ctx (cc cb RET_CODE_ERR rep w) s = g_ctx w s)"

lemma leavesD [deaf_simps]: "leaves hi s cc \<Longrightarrow> deaf hi (g_ctx w s) \<Longrightarrow> g_ctx (cc cb RET_CODE_ERR rep w) s = g_ctx w s"
  by (simp add: leaves_def)

lemma deaf_issue [deaf_simps]:
  assumes "leaves hi s cc" and "deaf hi (g_ctx w s)"
  shows "g_ctx (issue_evalsha D hi cc p w) s = g_ctx w s"
  using assms by (simp add: issue_evalsha_def call_opt_def split_beta Let_def deaf_simps split: option.split)

lemma deaf_evalsha [deaf_simps]:
  assumes "leaves hi s cc" and "deaf hi (g_ctx w s)"
  shows "g_ctx (snd (v_db_evalsha D hi cc shard i keys argv cb w)) s = g_ctx w s"
  using assms by (simp add: v_db_evalsha_def Let_def deaf_simps split: option.split)

lemma deaf_sess [deaf_simps]:
  assumes "deaf hi (g_ctx w s)"
  shows "g_ctx (snd (v_sess_read D hi part seid ctx cb w)) s = g_ctx w s"
    "g_ctx (snd (v_sess_confirm D hi part seid scb w)) s = g_ctx w s"
  using assms by (simp_all add: v_sess_read_def v_sess_confirm_def split_beta Let_def sess_get_g_ctx deaf_simps split: option.split)

lemma deaf_sess_cas_write [deaf_simps]:
  assumes "leaves hi s cc" and "deaf hi (g_ctx w s)"
  shows "g_ctx (snd (v_sess_cas_write D hi cc part seid ver ctx st cb w)) s = g_ctx w s"
  using assms by (simp add: v_sess_cas_write_def split_beta Let_def sess_get_g_ctx deaf_simps split: option.split)

lemma deaf_retrans [deaf_simps]:
  assumes "deaf hi (g_ctx w s)"
  shows "g_ctx (snd (v_retrans_store D hi part f seq resp w)) s = g_ctx w s" "g_ctx (v_teid_free D hi part teid w) s = g_ctx w s"
  using assms by (simp_all add: v_retrans_store_def v_teid_free_def Let_def deaf_simps)

lemma deaf_finish [deaf_simps]:
  "deaf hi (g_ctx w s) \<Longrightarrow> g_ctx (finish D hi t cause w) s = g_ctx w s"
  by (simp add: finish_def Let_def deaf_simps split: option.split)

lemma deaf_reads [deaf_simps]:
  assumes "deaf hi (g_ctx w s)"
  shows "g_ctx (mod_start_read D hi t w) s = g_ctx w s" "g_ctx (del_start_read D hi t w) s = g_ctx w s"
  using assms by (simp_all add: mod_start_read_def del_start_read_def split_beta Let_def deaf_simps)

lemma deaf_ids [deaf_simps]:
  assumes "leaves hi s cc" and "deaf hi (g_ctx w s)"
  shows "g_ctx (snd (v_seid_alloc D hi part w)) s = g_ctx w s" "g_ctx (snd (v_teid_alloc D hi cc part w)) s = g_ctx w s"
proof -
  have "g_ctx (seid_maybe_refill D hi part w) s = g_ctx w s"
    using assms by (simp add: seid_maybe_refill_def split_beta Let_def deaf_simps)
  then show "g_ctx (snd (v_seid_alloc D hi part w)) s = g_ctx w s"
    by (simp add: v_seid_alloc_def Let_def split: option.split)
  have "g_ctx (teid_maybe_refill D hi cc part w) s = g_ctx w s"
    using assms by (simp add: teid_maybe_refill_def split_beta Let_def deaf_simps)
  then show "g_ctx (snd (v_teid_alloc D hi cc part w)) s = g_ctx w s"
    by (simp add: v_teid_alloc_def Let_def split: option.split)
qed

lemma deaf_lookups [deaf_simps]:
  assumes "leaves hi s cc" and "deaf hi (g_ctx w s)"
  shows "g_ctx (retrans_lookup_cb D hi cc RET_CODE_ERR hit resp t w) s = g_ctx w s"
    "g_ctx (mod_retrans_lookup_cb D hi RET_CODE_ERR hit resp t w) s = g_ctx w s"
    "g_ctx (del_retrans_lookup_cb D hi RET_CODE_ERR hit resp t w) s = g_ctx w s"
  using assms
  by (simp_all add: retrans_lookup_cb_def mod_retrans_lookup_cb_def del_retrans_lookup_cb_def split_beta Let_def deaf_simps split: option.split)

text \<open>So every callback that learns that there will be no reply leaves a deaf connection as it is.\<close>

lemma ERR_not_OK [simp]: "RET_CODE_ERR \<noteq> RET_CODE_OK"
  by (simp add: RET_CODE_ERR_def RET_CODE_OK_def)

lemma deaf_callback:
  assumes "leaves hi s cc" and "deaf hi (g_ctx w s)"
  shows "g_ctx (db_callback D hi now cc cb RET_CODE_ERR rep w) s = g_ctx w s"
proof -
  have r: "g_ctx (read_call D hi cc u RET_CODE_ERR a b c v) s = g_ctx v s" if "deaf hi (g_ctx v s)" for u a b c v
    using that by (cases u) (simp_all add: mod_read_cb_def del_read_cb_def deaf_simps)
  have c: "g_ctx (cas_call D hi cc u RET_CODE_ERR a b v) s = g_ctx v s" if "deaf hi (g_ctx v s)" for u a b v
    using that by (cases u) (simp_all add: cas_write_cb_def mod_cas_cb_def mod_compensate_write_cb_def del_delete_cb_def
        delete_pending_noop_cb_def delete_pending_cb_def deaf_simps)
  have i: "g_ctx (simple_call D hi u RET_CODE_ERR v) s = g_ctx v s" if "deaf hi (g_ctx v s)" for u v
    using that by (cases u) (simp_all add: confirm_cb_def confirm_retry_cb_def deaf_simps)
  have l: "g_ctx (retrans_call D hi cc u RET_CODE_ERR a b v) s = g_ctx v s" if "deaf hi (g_ctx v s)" for u a b v
    using that assms(1) by (cases u) (simp_all add: deaf_simps)
  show ?thesis using assms
    by (cases cb) (simp_all add: load_reply_cb_def evalsha_reply_cb_def is_noscript_def call_opt_def seid_refill_reply_cb_def
        teid_refill_reply_cb_def seed_reply_cb_def teid_free_reply_cb_def read_reply_cb_def cas_write_reply_cb_def confirm_reply_cb_def
        delete_reply_cb_def lookup_reply_cb_def store_ack_cb_def recovery_reply_cb_def simple_ack_cb_def assoc_query_reply_cb_def
        r c i l Let_def deaf_simps split: option.split v_sess_pending.split)
qed

lemma leaves_db_call: "leaves hi s (db_call_at D hi now n)"
  by (induction n) (simp_all add: leaves_def deaf_callback)

lemma on_reply_null: "on_reply D cc H_null p w =
    (let w1 = w\<lparr>g_scratch_used := 0\<rparr>;
         w2 = (case pend_cb (db_pending_at w p) of None \<Rightarrow> w1 | Some cb \<Rightarrow> cc cb RET_CODE_ERR None w1)
     in w2\<lparr>g_db_pool := pool_put D p (g_db_pool w2)\<rparr>)"
  by (simp add: on_reply_def Let_def)

lemma deaf_on_reply:
  assumes "deaf hi (g_ctx w s)"
  shows "g_ctx (on_reply D (db_call D hi now) H_null p w) s = g_ctx w s"
  using assms leavesD [OF leaves_db_call [of hi s D now 3], of "w\<lparr>g_scratch_used := 0\<rparr>"]
  by (simp add: on_reply_null db_call_def Let_def split: option.split)

subsection \<open>Freeing one connection\<close>

lemma null_replies_deaf:
  assumes "deaf hi (g_ctx w s)" and "s \<noteq> shard"
  shows "g_ctx (null_replies D (db_call D hi now) at shard n ps w) s = g_ctx w s"
  using assms
proof (induction ps arbitrary: n w)
  case (Cons p ps)
  let ?w = "w\<lparr>g_ctx := (g_ctx w)(shard := Some (at (Suc n)))\<rparr>"
  have "g_ctx ?w s = g_ctx w s" using Cons.prems by simp
  then show ?case using Cons deaf_on_reply [of hi ?w s D now p] by simp
qed simp

lemma acct_null_replies:
  fixes w :: "('r, 'p, 'h, 'a) flow_st_scheme" and now :: u64
  assumes l: "hiredis_laws hi waiting" and k: "close_laws hi K waiting" and s: "shard < V_STUB_DB_SHARDS"
    and "acct D free waiting U {#} w" and "g_ctx w shard = Some (async_freeing K h n)" and "ps = map snd (drop n (waiting h))"
  defines "w' \<equiv> null_replies D (db_call D hi now) (async_freeing K h) shard n ps w"
  shows "acct D free waiting U {#} w' \<and> g_ctx w' shard = Some (async_freeing K h (n + length ps))"
  using assms(4-6) unfolding w'_def
proof (induction ps arbitrary: n w)
  case (Cons p ps)
  let ?h = "async_freeing K h (Suc n)"
  let ?w = "on_reply D (db_call D hi now) H_null p (w\<lparr>g_ctx := (g_ctx w)(shard := Some ?h)\<rparr>)"
  have wt: "waiting (async_freeing K h m) = drop m (waiting h)" "deaf hi (Some (async_freeing K h m))" for m
    using k by (simp_all add: close_laws_def deaf_def)
  obtain args rest where d: "drop n (waiting h) = (args, p) # rest" using Cons.prems(3) by (cases "drop n (waiting h)") auto
  then have r: "drop (Suc n) (waiting h) = rest" by (metis drop_Suc list.sel(3) tl_drop)
  have "waiting (async_freeing K h n) = (args, p) # rest" "waiting ?h = rest" using wt d r by simp_all
  from acct_reply [OF l Cons.prems(1) s Cons.prems(2) this, of H_null now]
  have a: "acct D free waiting U {#} ?w" by (simp add: delivered_def)
  have g: "g_ctx ?w shard = Some ?h"
    using deaf_on_reply [of hi "w\<lparr>g_ctx := (g_ctx w)(shard := Some ?h)\<rparr>" shard D now p] wt(2) [of "Suc n"] by simp
  have "ps = map snd (drop (Suc n) (waiting h))" using Cons.prems(3) d r by simp
  from Cons.IH [OF a g this] show ?case by simp
qed simp

lemma acct_async_free:
  fixes w :: "('r, 'p, 'h, 'a) flow_st_scheme" and now :: u64
  assumes l: "hiredis_laws hi waiting" and k: "close_laws hi K waiting" and s: "shard < V_STUB_DB_SHARDS"
    and a: "acct D free waiting U {#} w" and h: "g_ctx w shard = Some h"
  defines "w' \<equiv> async_free D (db_call D hi now) K shard h w"
  shows "acct D free waiting U {#} w'" and "waits waiting w' shard = []"
    and "t \<noteq> shard \<Longrightarrow> deaf hi (g_ctx w t) \<Longrightarrow> g_ctx w' t = g_ctx w t"
proof -
  let ?w0 = "w\<lparr>g_ctx := (g_ctx w)(shard := Some (async_freeing K h 0))\<rparr>" and ?ps = "async_pending K h"
  define w1 where "w1 = null_replies D (db_call D hi now) (async_freeing K h) shard 0 ?ps ?w0"
  have wt: "waiting (async_freeing K h m) = drop m (waiting h)" "?ps = map snd (waiting h)" for m
    using k by (simp_all add: close_laws_def)
  have a0: "acct D free waiting U {#} ?w0"
    by (rule acct_g_ctx [OF a], rule ext) (use h wt in \<open>simp add: waits_def\<close>)
  have 1: "acct D free waiting U {#} w1 \<and> g_ctx w1 shard = Some (async_freeing K h (0 + length ?ps))"
    unfolding w1_def by (rule acct_null_replies [OF l k s a0]) (simp_all add: wt)
  have e: "waiting (async_freeing K h (length ?ps)) = []" by (simp add: wt)
  have w': "w' = (if async_connected K h then disconnect_cb shard w1 else w1)"
    by (simp add: w'_def async_free_def w1_def Let_def)
  show "acct D free waiting U {#} w'" using 1 e acct_disconnect [of D free waiting U "{#}" w1 shard] by (simp add: w')
  show "waits waiting w' shard = []" using 1 e by (simp add: w' waits_def disconnect_cb_def)
  show "g_ctx w' t = g_ctx w t" if "t \<noteq> shard" "deaf hi (g_ctx w t)"
    using that null_replies_deaf [of hi ?w0 t shard D now "async_freeing K h" 0 ?ps] by (simp add: w' disconnect_cb_def w1_def)
qed


subsection \<open>Closing all of them\<close>

lemma acct_close_shards:
  fixes w :: "('r, 'p, 'h, 'a) flow_st_scheme" and now :: u64
  assumes l: "hiredis_laws hi waiting" and k: "close_laws hi K waiting"
    and "acct D free waiting U {#} w" and "set is \<subseteq> {..< V_STUB_DB_SHARDS}"
  shows "acct D free waiting U {#} (close_shards D (db_call D hi now) K is w) \<and>
    (\<forall>t. t \<in> set is \<or> g_ctx w t = None \<longrightarrow> g_ctx (close_shards D (db_call D hi now) K is w) t = None)"
  using assms(3,4)
proof (induction "is" arbitrary: w)
  case (Cons i "is")
  have i: "i < V_STUB_DB_SHARDS" and "set is \<subseteq> {..< V_STUB_DB_SHARDS}" using Cons.prems(2) by auto
  note IH = Cons.IH [OF _ this(2)]
  show ?case
  proof (cases "g_ctx w i")
    case None
    with IH [OF Cons.prems(1)] show ?thesis by auto
  next
    case (Some h)
    let ?w1 = "async_free D (db_call D hi now) K i h w"
    let ?w2 = "?w1\<lparr>g_ctx := (g_ctx ?w1)(i := None)\<rparr>"
    note f = acct_async_free [OF l k i Cons.prems(1) Some, where now = now]
    have "acct D free waiting U {#} ?w2"
      by (rule acct_g_ctx [OF f(1)], rule ext) (use f(2) in \<open>simp add: waits_def\<close>)
    moreover have "g_ctx ?w2 t = None" if "g_ctx w t = None" for t using f(3) [of t] that by (simp add: deaf_def)
    ultimately show ?thesis using IH [of ?w2] Some by (auto simp: Let_def)
  qed
qed simp

subsection \<open>Properties\<close>

text \<open>
  C18: a forced reconnect settles what was pending. Every command that waited on the shard gets
  its callback, once, with an error; the callbacks may send commands to the other shards but
  none joins the connection being freed, so afterwards nothing waits on the shard, the new
  connection starts empty, and every pooled object is still accounted for. A shard number out of
  range is refused without effect.
\<close>

theorem reconnect_settles_shard:
  assumes "hiredis_laws hi waiting" and "close_laws hi K waiting" and "acct D free waiting U {#} w"
    and "v_stub_db_test_force_reconnect D (db_call D hi now) hi K ge shard w = (rc, w')"
  shows "acct D free waiting U {#} w' \<and>
    (if V_STUB_DB_SHARDS \<le> unat shard then rc = RET_CODE_ERR \<and> w' = w
     else waits waiting w' (unat shard) = [] \<and> (rc = RET_CODE_OK \<longrightarrow> g_ctx w' (unat shard) \<noteq> None))"
proof (cases "V_STUB_DB_SHARDS \<le> unat shard")
  case True
  then show ?thesis using assms(3,4) by (simp add: v_stub_db_test_force_reconnect_def)
next
  case False
  then have s: "unat shard < V_STUB_DB_SHARDS" by simp
  define w1 where "w1 = (case g_ctx w (unat shard) of None \<Rightarrow> w | Some h \<Rightarrow> async_free D (db_call D hi now) K (unat shard) h w)"
  have c: "shard_connect hi ge (unat shard) w1 = (rc, w')"
    using assms(4) False by (simp add: v_stub_db_test_force_reconnect_def w1_def)
  have 1: "acct D free waiting U {#} w1 \<and> waits waiting w1 (unat shard) = []"
  proof (cases "g_ctx w (unat shard)")
    case None
    then show ?thesis using assms(3) by (simp add: w1_def waits_def)
  next
    case (Some h)
    then show ?thesis using acct_async_free(1,2) [OF assms(1,2) s assms(3) Some, where now = now] by (simp add: w1_def)
  qed
  show ?thesis
  proof (cases "redisAsyncConnect hi (db_host ge) (db_port ge) (unat shard)")
    case None
    then have "w' = w1" "rc = RET_CODE_ERR" using c by (simp_all add: shard_connect_def)
    then show ?thesis using 1 False by simp
  next
    case (Some h)
    then have w': "w' = w1\<lparr>g_ctx := (g_ctx w1)(unat shard := Some h)\<rparr>" using c by (simp add: shard_connect_def)
    have h: "waiting h = []" using assms(1) Some by (auto simp: hiredis_laws_def)
    then have "waits waiting w' = waits waiting w1" using 1 by (auto simp: w' waits_def fun_eq_iff)
    then show ?thesis using acct_g_ctx [of D free waiting U "{#}" w1] 1 False by (auto simp: w')
  qed
qed

text \<open>
  C9: closing the database port ends every transaction. From any state in which the account
  holds, \<^verbatim>\<open>v_port_db_fini\<close> calls every waiting callback with an error, also those whose commands
  the callbacks of the first shards sent to the later ones; when it returns, no shard is
  connected, no transaction is live, and every session context, decoded message and transaction
  is back in its pool.
\<close>

theorem db_fini_ends_everything:
  assumes "hiredis_laws hi waiting" and "close_laws hi K waiting" and "acct D free waiting U {#} w"
    and "w' = v_port_db_fini D (db_call D hi now) K w"
  shows "(\<forall>s < V_STUB_DB_SHARDS. g_ctx w' s = None) \<and> live w' = {} \<and> v_port_ctx_pool_in_use D w' = 0 \<and>
    pool_set free (g_ctx_pool w') = ar_cx U \<and> pool_set free (g_pfcp_pool w') = ar_ms U \<and>
    pool_set free (g_txn_pool w') = ar_tx U \<and> g_db_pool w' = None \<and> \<not> g_base w'"
proof -
  let ?w = "close_shards D (db_call D hi now) K [0 ..< V_STUB_DB_SHARDS] w"
  have "set [0 ..< V_STUB_DB_SHARDS] \<subseteq> {..< V_STUB_DB_SHARDS}" by auto
  note c = acct_close_shards [OF assms(1-3) this, where now = now]
  have n: "\<forall>s < V_STUB_DB_SHARDS. g_ctx ?w s = None" using c by simp
  then have "\<forall>s < V_STUB_DB_SHARDS. waits waiting ?w s = []" by (simp add: waits_def)
  note q = acct_quiet [OF conjunct1 [OF c] this]
  have w': "w' = ?w\<lparr>g_db_pool := None, g_base := False\<rparr>" by (simp add: assms(4) v_port_db_fini_def)
  have "v_port_ctx_pool_in_use D w' = v_port_ctx_pool_in_use D ?w"
    by (cases "g_ctx_pool ?w") (simp_all add: w' v_port_ctx_pool_in_use_def)
  then show ?thesis using n q by (simp add: w' live_def)
qed

text \<open>A connection as the list of its waiting commands; an empty argument vector in front marks one that is being freed.\<close>

definition flag_hiredis :: "(string list \<times> ptr) list hiredis" where
  "flag_hiredis =
     \<lparr>redisAsyncConnect = (\<lambda>_ _ _. Some []),
      redisAsyncCommand = (\<lambda>h args p. if args = [] \<or> (h \<noteq> [] \<and> fst (hd h) = []) then None else Some (h @ [(args, p)]))\<rparr>"

definition flag_waiting :: "(string list \<times> ptr) list \<Rightarrow> (string list \<times> ptr) list" where
  "flag_waiting h = filter (\<lambda>x. fst x \<noteq> []) h"

definition flag_close :: "(string list \<times> ptr) list hiredis_close" where
  "flag_close =
     \<lparr>async_pending = (\<lambda>h. map snd (flag_waiting h)), async_freeing = (\<lambda>h n. ([], 0) # drop n (flag_waiting h)),
      async_connected = (\<lambda>_. True)\<rparr>"

lemma flag_laws: "hiredis_laws flag_hiredis flag_waiting" "close_laws flag_hiredis flag_close flag_waiting"
proof -
  have "filter (\<lambda>x. fst x \<noteq> []) (drop n (filter (\<lambda>x. fst x \<noteq> []) h)) = drop n (filter (\<lambda>x. fst x \<noteq> []) h)"
    for n and h :: "(string list \<times> ptr) list"
    by (rule filter_True) (auto dest: in_set_dropD)
  then show "close_laws flag_hiredis flag_close flag_waiting"
    by (simp add: close_laws_def flag_hiredis_def flag_close_def flag_waiting_def)
  show "hiredis_laws flag_hiredis flag_waiting"
    by (auto simp: hiredis_laws_def flag_hiredis_def flag_waiting_def)
qed

lemma demo_flag_acct: "acct list_dpdk set flag_waiting demo_arena {#} demo_worker"
proof -
  have w: "waits flag_waiting demo_worker = waits (\<lambda>h. h) demo_worker"
    by (rule ext) (simp add: waits_def flag_waiting_def demo_worker_def)
  have "calls flag_waiting demo_worker = calls (\<lambda>h. h) demo_worker" "calls_set flag_waiting demo_worker = calls_set (\<lambda>h. h) demo_worker"
    by (simp_all add: calls_def calls_set_def w)
  then show ?thesis using demo_acct by (simp add: acct_def db_inv_def inflight_def w)
qed

theorem reconnect_settles_shard_witness:
  "waits flag_waiting (snd (v_stub_db_test_force_reconnect list_dpdk (db_call list_dpdk flag_hiredis 0) flag_hiredis flag_close
     (\<lambda>_. None) 2 demo_worker)) 2 = []"
proof -
  obtain rc w' where r: "v_stub_db_test_force_reconnect list_dpdk (db_call list_dpdk flag_hiredis 0) flag_hiredis flag_close
     (\<lambda>_. None) 2 demo_worker = (rc, w')" by fastforce
  from reconnect_settles_shard [OF flag_laws demo_flag_acct r] r show ?thesis by (simp add: V_STUB_DB_SHARDS_def)
qed

theorem db_fini_ends_everything_witness:
  "live demo_worker = {60} \<and> live (v_port_db_fini list_dpdk (db_call list_dpdk flag_hiredis 0) flag_close demo_worker) = {}"
  using db_fini_ends_everything [OF flag_laws demo_flag_acct refl, of 0] by (auto simp: live_def demo_worker_defs)

end
