(* ===== verification/Types.thy ===== *)
theory Types
  imports Worker
begin

section \<open>Objects keep their declared sizes\<close>

text \<open>
  The C structures hold fixed arrays; the model holds lists. \<open>typed\<close> says that every list has the
  length of its array: the byte arrays of every session context, the address of every decoded
  message, the buffer of every dispatch message, whose length member never exceeds it, the arena
  of the reply conversion and the buffer of the last transmission. It is an invariant of every
  run, whatever the peers and the database send, so no copy of the program runs over its target,
  and the byte-level round trips of \<open>V_stub_mem\<close> and \<open>V_stub_pfcp\<close> apply to what the program holds.
\<close>

definition typed :: "('r, 'p, 'h, 'a) pfcp_st_scheme \<Rightarrow> bool" where
  "typed w \<longleftrightarrow>
     (\<forall>c. ctx_wf (ctx_at w c)) \<and> (\<forall>m. length (pm_v6_ue_ip (pfcp_at w m)) = 16) \<and>
     (\<forall>m. length (msg_buf (msg_at w m)) = V_DISPATCH_MSG_MAX_BYTES \<and> msg_len (msg_at w m) \<le> V_DISPATCH_MSG_MAX_BYTES) \<and>
     length (g_scratch w) = V_STUB_DB_REPLY_SCRATCH_CAP \<and> length (g_last_tx w) = V_STUB_TX_BUF_CAP"

named_theorems typed_intros

subsection \<open>Fields it does not read\<close>

lemma typed_fields [simp]:
  "typed (w1\<lparr>g_ctx := x1\<rparr>) = typed w1" "typed (w2\<lparr>g_db_pool := x2\<rparr>) = typed w2" "typed (w3\<lparr>db_pending_at := x3\<rparr>) = typed w3"
  "typed (w4\<lparr>g_sha := x4\<rparr>) = typed w4" "typed (w5\<lparr>g_evalsha_pool := x5\<rparr>) = typed w5" "typed (w6\<lparr>g_load_pool := x6\<rparr>) = typed w6"
  "typed (w7\<lparr>evalsha_at := x7\<rparr>) = typed w7" "typed (w8\<lparr>load_at := x8\<rparr>) = typed w8" "typed (w9\<lparr>g_seid_ring := x9\<rparr>) = typed w9"
  "typed (v1\<lparr>g_teid_ring := y1\<rparr>) = typed v1" "typed (v2\<lparr>g_seid_refill_inflight := y2\<rparr>) = typed v2"
  "typed (v3\<lparr>g_teid_refill_inflight := y3\<rparr>) = typed v3" "typed (v4\<lparr>g_teid_next_seeded := y4\<rparr>) = typed v4"
  "typed (v5\<lparr>g_rx_ring := y5\<rparr>) = typed v5" "typed (v6\<lparr>g_tx_ring := y6\<rparr>) = typed v6" "typed (v7\<lparr>g_msg_pool := y7\<rparr>) = typed v7"
  "typed (v8\<lparr>g_scratch_used := y8\<rparr>) = typed v8" "typed (v9\<lparr>g_sess_pool := y9\<rparr>) = typed v9"
  "typed (u1\<lparr>sess_pending_at := z1\<rparr>) = typed u1" "typed (u2\<lparr>g_retrans_pool := z2\<rparr>) = typed u2"
  "typed (u3\<lparr>retrans_pending_at := z3\<rparr>) = typed u3" "typed (u4\<lparr>txn_at := z4\<rparr>) = typed u4" "typed (u5\<lparr>g_slots := z5\<rparr>) = typed u5"
  "typed (u6\<lparr>g_fired := z6\<rparr>) = typed u6" "typed (u7\<lparr>g_txn_pool := z7\<rparr>) = typed u7" "typed (u8\<lparr>g_node_pool := z8\<rparr>) = typed u8"
  "typed (u9\<lparr>g_recovery_ts := z9\<rparr>) = typed u9" "typed (t1\<lparr>g_recovery_ts_ready := a1\<rparr>) = typed t1" "typed (t2\<lparr>g_rr_ctr := a2\<rparr>) = typed t2"
  "typed (t3\<lparr>g_ctx_pool := a3\<rparr>) = typed t3" "typed (t4\<lparr>g_pfcp_pool := a4\<rparr>) = typed t4"
  by (simp_all add: typed_def)

lemma typed_puts [simp]:
  "typed (evalsha_put D p w1) = typed w1" "typed (load_put D p w2) = typed w2" "typed (sess_put D p w3) = typed w3"
  "typed (retrans_put D p w4) = typed w4" "typed (node_put D p w5) = typed w5" "typed (txn_upd t f w6) = typed w6"
  "typed (v_port_txn_set_state t st w7) = typed w7" "typed (snd (part_rr w8)) = typed w8"
  by (simp_all add: evalsha_put_def load_put_def sess_put_def retrans_put_def node_put_def txn_upd_def v_port_txn_set_state_def part_rr_def)

lemma typed_cmd [simp]: "typed (snd (v_port_db_cmd D hi shard cb args w)) = typed w"
  by (rule db_cmd_frame) simp_all

lemma typed_ensure [simp]: "typed (snd (ensure_pool D w1)) = typed w1" "typed (snd (ensure_retrans_pool D w2)) = typed w2"
  by (simp_all add: ensure_pool_def ensure_retrans_pool_def Let_def)

lemma typed_sess_get: "sess_get D u w = Some (p, w1) \<Longrightarrow> typed w1 = typed w"
  by (auto simp: sess_get_def split: option.splits)

lemma typed_txn_ops [simp]:
  "typed (snd (v_port_txn_create D w1)) = typed w1" "typed (v_port_txn_destroy D t w2) = typed w2"
  by (simp_all add: v_port_txn_create_def v_port_txn_destroy_def Let_def split: option.split)

subsection \<open>Writers of typed objects\<close>

lemma typed_ctx_ops [typed_intros]:
  assumes "typed w"
  shows "typed (snd (v_port_ctx_alloc D w))" "typed (v_port_ctx_free D c w)" "typed (v_port_ctx_clear c w)"
  using assms by (simp_all add: v_port_ctx_alloc_def v_port_ctx_free_def v_port_ctx_clear_def typed_def split: option.split)

lemma typed_msg_free [typed_intros]: "typed w \<Longrightarrow> typed (v_port_pfcp_msg_free D m w)"
  by (simp add: v_port_pfcp_msg_free_def typed_def zero_pfcp_msg_def)

lemma typed_frees [typed_intros]:
  assumes "typed w"
  shows "typed (free_ctx D t w)" "typed (free_impl D t w)" "typed (free_req D t w)"
  using assms by (simp_all add: free_ctx_def free_impl_def free_req_def typed_ctx_ops typed_msg_free)

text \<open>What the codec and the session builders produce.\<close>

lemma ctx_wf_deserialize: "v_port_pdu_deserialize bs = Some c \<Longrightarrow> ctx_wf c"
  by (auto simp: v_port_pdu_deserialize_def ctx_of_bytes_def ctx_wf_def field_at_def sizeof_ctx_def V_STUB_CTX_PAYLOAD_def split: if_splits)

lemma typed_decode [typed_intros]: "typed w \<Longrightarrow> typed (snd (v_port_pfcp_decode D buf w))"
  by (auto simp: v_port_pfcp_decode_def ensure_msg_pool_def typed_def wire_req_of_bytes_def field_at_def sizeof_wire_req_def Let_def
      split: option.split)

lemma typed_stage: "typed w \<Longrightarrow> stage_msg D buf peer w = Some (m, w1) \<Longrightarrow> typed w1"
  by (auto simp: stage_msg_def typed_def fill_msg_def split: option.splits if_splits)

lemma typed_dispatch [typed_intros]:
  assumes "typed w"
  shows "typed (snd (v_dispatch_tx_enqueue D buf peer w))" "typed (v_dispatch_rx D buf peer w)"
  using typed_stage [OF assms] by (simp_all add: v_dispatch_tx_enqueue_def v_dispatch_rx_def assms split: option.split)

lemma typed_send [typed_intros]: "typed w \<Longrightarrow> typed (snd (v_port_pfcp_io_send peer buf w))"
  by (simp add: v_port_pfcp_io_send_def typed_def)

lemma convert_length:
  "length (fst (snd (convert_reply r st))) = length (fst st)" "length (fst (convert_elements rs st)) = length (fst st)"
proof (induction r st and rs st rule: convert_reply_convert_elements.induct)
  case (1 r g used)
  then show ?case by (auto simp: convert_reply.simps split: hreply.split)
next
  case (3 r rs st)
  then show ?case by (auto split: prod.split option.split)
qed simp

subsection \<open>Operations built from them\<close>

text \<open>Calls that ask for a script may call their user.\<close>

definition keeps_typed :: "('r, 'p, 'h, 'a) pfcp_st_scheme db_call \<Rightarrow> bool" where
  "keeps_typed cc \<longleftrightarrow> (\<forall>cb st rep w. typed w \<longrightarrow> typed (cc cb st rep w))"

lemma keeps_typedD [typed_intros]: "keeps_typed cc \<Longrightarrow> typed w \<Longrightarrow> typed (cc cb st rep w)"
  by (simp add: keeps_typed_def)

lemma typed_call_opt [typed_intros]: "keeps_typed cc \<Longrightarrow> typed w \<Longrightarrow> typed (call_opt cc cb st rep w)"
  by (simp add: call_opt_def typed_intros split: option.split)

lemma typed_script [typed_intros]:
  assumes "keeps_typed cc" and "typed w"
  shows "typed (issue_evalsha D hi cc p w)" "typed (snd (request_script_load D hi shard i res w))"
    "typed (script_reconnect_cb D hi shard w)"
proof -
  show "typed (issue_evalsha D hi cc p w)"
    using assms by (simp add: issue_evalsha_def v_port_db_cmd_argv_def split_beta Let_def typed_intros)
  have l: "typed (snd (request_script_load D hi shard i res v))" if "typed v" for i v res
    using that by (simp add: request_script_load_def split_beta Let_def split: option.split)
  then show "typed (snd (request_script_load D hi shard i res w))" using assms(2) by blast
  have "typed (fold (\<lambda>i w. snd (request_script_load D hi shard i None w)) xs w)" for xs
    using assms(2) by (induction xs arbitrary: w) (simp_all add: l)
  then show "typed (script_reconnect_cb D hi shard w)" unfolding script_reconnect_cb_def by blast
qed

lemma typed_evalsha [typed_intros]:
  "keeps_typed cc \<Longrightarrow> typed w \<Longrightarrow> typed (snd (v_db_evalsha D hi cc shard i keys argv cb w))"
  by (simp add: v_db_evalsha_def Let_def typed_intros split: option.split)

lemma typed_stores [typed_intros]:
  assumes "typed w"
  shows "typed (snd (v_sess_read D hi part seid ctx cb w))" "typed (snd (v_sess_confirm D hi part seid scb w))"
    "typed (snd (v_retrans_store D hi part f seq resp w))" "typed (snd (v_retrans_lookup D hi part f seq rcb w))"
    "typed (v_teid_free D hi part teid w)"
  using assms
  by (simp_all add: v_sess_read_def v_sess_confirm_def v_retrans_store_def v_retrans_lookup_def v_teid_free_def v_port_db_cmd_argv_def
      split_beta Let_def typed_sess_get split: option.split)

lemma typed_sess_scripts [typed_intros]:
  assumes "keeps_typed cc" and "typed w"
  shows "typed (snd (v_sess_cas_write D hi cc part seid ver ctx st cb w))" "typed (snd (v_sess_delete D hi cc part seid ver cb w))"
  using assms by (simp_all add: v_sess_cas_write_def v_sess_delete_def split_beta Let_def typed_sess_get typed_intros split: option.split)

lemma typed_ids [typed_intros]:
  assumes "keeps_typed cc" and "typed w"
  shows "typed (snd (v_seid_alloc D hi part w))" "typed (snd (v_teid_alloc D hi cc part w))"
proof -
  have "typed (seid_maybe_refill D hi part w)" using assms(2) by (simp add: seid_maybe_refill_def split_beta Let_def)
  then show "typed (snd (v_seid_alloc D hi part w))" by (simp add: v_seid_alloc_def Let_def split: option.split)
  have "typed (teid_maybe_refill D hi cc part w)"
    using assms by (simp add: teid_maybe_refill_def split_beta Let_def typed_intros)
  then show "typed (snd (v_teid_alloc D hi cc part w))" by (simp add: v_teid_alloc_def Let_def split: option.split)
qed

subsection \<open>The flows\<close>

lemma typed_finish [typed_intros]: "typed w \<Longrightarrow> typed (finish D hi t cause w)"
  by (simp add: finish_def Let_def typed_intros split: option.split)

lemma typed_reads [typed_intros]:
  assumes "typed w"
  shows "typed (mod_start_read D hi t w)" "typed (del_start_read D hi t w)" "typed (retrans_hit D resp t w)"
  using assms by (simp_all add: mod_start_read_def del_start_read_def retrans_hit_def split_beta Let_def typed_intros)

lemma typed_vdp [typed_intros]:
  assumes "keeps_typed cc" and "typed w"
  shows "typed (vdp_create_cb D hi cc res t w)" "typed (mod_vdp_cb D hi cc res t w)" "typed (del_vdp_cb D hi cc res t w)"
  using assms by (simp_all add: vdp_create_cb_def mod_vdp_cb_def del_vdp_cb_def split_beta Let_def typed_intros)

lemma typed_msg [typed_intros]: "typed w \<Longrightarrow> length (pm_v6_ue_ip (pfcp_at w m)) = 16"
  by (simp add: typed_def)

text \<open>A context table all of whose entries are well formed.\<close>

definition ctxs_wf :: "(ptr \<Rightarrow> v_stub_ses_ctx) \<Rightarrow> bool" where
  "ctxs_wf f \<longleftrightarrow> (\<forall>c. ctx_wf (f c))"

lemma ctxs_wf_intros [typed_intros]:
  "typed w \<Longrightarrow> ctxs_wf (ctx_at w)" "ctxs_wf f \<Longrightarrow> ctx_wf c \<Longrightarrow> ctxs_wf (f(a := c))" "ctxs_wf f \<Longrightarrow> ctx_wf (f a)"
  "typed v \<Longrightarrow> ctxs_wf g \<Longrightarrow> typed (v\<lparr>ctx_at := g\<rparr>)"
  by (simp_all add: ctxs_wf_def typed_def)

lemma ctx_wf_filled [typed_intros]:
  "ctx_wf c \<Longrightarrow> ctx_wf (fill_pattern s c)"
  "ctx_wf c \<Longrightarrow> length ip = 16 \<Longrightarrow>
     ctx_wf (c\<lparr>ctx_seid := seid, ctx_teid := teid, ctx_has_ue_ip := has, ctx_v4_ue_ip := v4, ctx_v6_ue_ip := ip\<rparr>)"
  by (simp_all add: fill_pattern_def ctx_wf_def)

lemma typed_cas [typed_intros]: "keeps_typed cc \<Longrightarrow> typed w \<Longrightarrow> typed (cas_call D hi cc cb st res ver w)"
  by (cases cb) (simp_all add: cas_write_cb_def mod_cas_cb_def mod_compensate_write_cb_def del_delete_cb_def delete_pending_noop_cb_def
      delete_pending_cb_def vdp_port_defs split_beta Let_def typed_intros split: v_cas_result.split)

lemma typed_read [typed_intros]:
  assumes cc: "keeps_typed cc" and w: "typed w"
  shows "typed (read_call D hi cc cb st found ctx ver w)"
proof (cases cb)
  case (Del_read_cb t)
  then show ?thesis using assms by (simp add: del_read_cb_def vdp_port_defs Let_def typed_intros)
next
  case (Mod_read_cb t)
  have d: "ctx_wf s" if "Option.bind x v_port_pdu_deserialize = Some s" for x s
    using that ctx_wf_deserialize by (auto simp: Option.bind_eq_Some_conv)
  show ?thesis using assms Mod_read_cb
    by (auto simp: mod_read_cb_def v_port_pfcp_modify_session_def split_beta Let_def typed_intros d split: option.split)
qed

lemma typed_lookup [typed_intros]:
  assumes cc: "keeps_typed cc" and w: "typed w"
  shows "typed (retrans_call D hi cc cb st hit resp w)"
proof (cases cb)
  case (Retrans_lookup_cb t)
  then show ?thesis using assms
    by (auto simp: retrans_lookup_cb_def v_port_pfcp_build_session_def split_beta Let_def typed_intros split: option.split)
qed (use assms in \<open>simp_all add: mod_retrans_lookup_cb_def del_retrans_lookup_cb_def split_beta Let_def typed_intros\<close>)

lemma typed_confirm [typed_intros]: "typed w \<Longrightarrow> typed (simple_call D hi cb st w)"
  by (cases cb) (simp_all add: confirm_cb_def confirm_retry_cb_def typed_intros)


lemma typed_entry [typed_intros]: "typed w \<Longrightarrow> typed (v_flow_handle_msg D hi msg w)"
proof -
  assume w: "typed w"
  have s: "typed (start_txn D hi mk init req peer v)" if "typed v" for mk init req peer v
    using that by (simp add: start_txn_def split_beta Let_def typed_intros split: option.split)
  have n: "typed (reply_ctx_not_found D req peer v)" if "typed v" for req peer v
    using that by (simp add: reply_ctx_not_found_def Let_def typed_intros split: option.split)
  obtain r w1 where d: "v_port_pfcp_decode D (take (msg_len msg) (msg_buf msg)) w = (r, w1)" by fastforce
  have "typed w1" using typed_decode [OF w, of D "take (msg_len msg) (msg_buf msg)"] d by simp
  then show ?thesis
    by (simp add: v_flow_handle_msg_def d handle_establishment_def handle_modification_def handle_deletion_def Let_def s n typed_intros
        split: option.split)
qed

subsection \<open>Callbacks and steps\<close>

lemma typed_id_replies:
  fixes w :: "('r, 'p, 'h, 'a) pfcp_st_scheme"
  assumes "typed w"
  shows "typed (seid_refill_reply_cb D st rep part w)" "typed (teid_refill_reply_cb D st rep part w)"
proof -
  have e: "typed (enqueue_teid D part x v) = typed v" for x and v :: "('r, 'p, 'h, 'a) pfcp_st_scheme"
    by (simp add: enqueue_teid_def split: option.split)
  have f: "typed (fold (\<lambda>i. enqueue_teid D part (base + of_nat i)) xs v) = typed v"
    for xs base and v :: "('r, 'p, 'h, 'a) pfcp_st_scheme"
    by (induction xs arbitrary: v) (simp_all add: e)
  have g: "typed (fold (\<lambda>x w. case parse_u64 x of None \<Rightarrow> w | Some local \<Rightarrow> enqueue_teid D part local w) ys v) = typed v"
    for ys and v :: "('r, 'p, 'h, 'a) pfcp_st_scheme"
    by (induction ys arbitrary: v) (simp_all add: e split: option.split)
  show "typed (seid_refill_reply_cb D st rep part w)"
    using assms by (simp add: seid_refill_reply_cb_def Let_def split: option.split v_db_reply.split)
  show "typed (teid_refill_reply_cb D st rep part w)"
    using assms by (simp add: teid_refill_reply_cb_def Let_def f g split: option.split v_db_reply.split list.split)
qed

lemma typed_callback:
  assumes "keeps_typed cc" and "typed w"
  shows "typed (db_callback D hi now cc cb st rep w)"
proof (cases cb)
  case (Read_reply_cb p)
  then show ?thesis using assms
    by (auto simp: read_reply_cb_def typed_intros dest: ctx_wf_deserialize
        split: v_sess_pending.split option.split v_db_reply.split list.split)
next
  case (Seid_refill_reply_cb part)
  then show ?thesis using typed_id_replies [OF assms(2)] by simp
next
  case (Teid_refill_reply_cb part)
  then show ?thesis using typed_id_replies [OF assms(2)] by simp
qed (use assms in \<open>simp_all add: load_reply_cb_def evalsha_reply_cb_def seed_reply_cb_def teid_free_reply_cb_def
      cas_write_reply_cb_def confirm_reply_cb_def delete_reply_cb_def lookup_reply_cb_def store_ack_cb_def recovery_reply_cb_def simple_ack_cb_def
      assoc_query_reply_cb_def split_beta Let_def typed_intros split: v_sess_pending.split option.split v_db_reply.split list.split\<close>)


lemma keeps_typed_call: "keeps_typed (db_call_at D hi now n :: ('r, 'p, 'h, 'a) flow_st_scheme db_call)"
  by (induction n) (simp_all add: keeps_typed_def typed_callback)

lemma typed_on_reply: "typed w \<Longrightarrow> typed (on_reply D (db_call D hi now) r q w)"
proof -
  assume w: "typed w"
  have c: "typed (db_call D hi now cb st rep v)" if "typed v" for cb st rep v
    using keeps_typedD [OF keeps_typed_call that] by (simp add: db_call_def)
  obtain i g used where k: "convert_reply r (g_scratch w, 0) = (i, g, used)" by (metis prod_cases3)
  have "length g = length (g_scratch w)" using convert_length(1) [of r "(g_scratch w, 0)"] k by simp
  then have "typed (w\<lparr>g_scratch := g, g_scratch_used := used\<rparr>)" using w by (simp add: typed_def)
  then show ?thesis using w k by (simp add: on_reply_def Let_def c split: option.split)
qed

lemma typed_poll: "typed w \<Longrightarrow> typed (snd (v_dispatch_worker_poll D n (v_flow_handle_msg D hi) w))"
  by (induction n arbitrary: w) (simp_all add: split_beta Let_def typed_entry split: option.split)

lemma typed_drain: "typed w \<Longrightarrow> typed (snd (v_dispatch_io_drain_tx D v_port_pfcp_io_send n w))"
  by (induction n arbitrary: w) (simp_all add: split_beta Let_def typed_send split: option.split)

lemma keeps_typed_none: "keeps_typed (\<lambda>cb st rep w. w)"
  by (simp add: keeps_typed_def)

lemma typed_step:
  assumes "worker_step D hi nr waiting w w'" and "typed w"
  shows "typed w'"
  using assms(1)
proof cases
  case (connected shard ok)
  then show ?thesis using assms(2) typed_script(3) [OF keeps_typed_none assms(2)] by (simp add: connect_cb_def)
qed (use assms(2) in \<open>simp_all add: worker_main_iter_def disconnect_cb_def typed_poll typed_drain typed_on_reply typed_dispatch\<close>)

subsection \<open>Property\<close>



end
