(* ===== verification/Timeout.thy ===== *)
theory Timeout
  imports Worker
begin

section \<open>The hard timeout\<close>

text \<open>
  \<^verbatim>\<open>timeout_handler\<close> releases a transaction and what it holds, but cannot recall the command the
  transaction waits for: hiredis has no such call and the code keeps no mark. The theory states
  both halves: what the sweep gives back, and that the callback of the waiting command still
  leads to the destroyed transaction.
\<close>

subsection \<open>To which transaction a callback leads\<close>

text \<open>The chain of pending objects decides, not the contents of the transactions.\<close>

lemma Ttx_sess: "Ttx t \<in># sess_toks w u \<longleftrightarrow> sess_txn u = Some t"
  by (auto simp: sess_toks_def txn_toks_def rec_toks_def opt_tok_def split: option.splits if_splits)

lemma Ttx_txn: "Ttx t \<in># txn_toks w t' \<longleftrightarrow> t = t'"
  by (auto simp: txn_toks_def rec_toks_def opt_tok_def split: if_splits)

lemma Ttx_ucb:
  assumes "sess_pending_at w' = sess_pending_at w" and "retrans_pending_at w' = retrans_pending_at w"
  shows "Ttx t \<in># ucb_toks w' cb \<longleftrightarrow> Ttx t \<in># ucb_toks w cb"
  using assms by (cases cb) (simp_all add: Ttx_sess Ttx_txn)

lemma Ttx_cb:
  assumes "sess_pending_at w' = sess_pending_at w" and "retrans_pending_at w' = retrans_pending_at w"
    and "evalsha_at w' = evalsha_at w" and "load_at w' = load_at w"
  shows "Ttx t \<in># cb_toks w' cb \<longleftrightarrow> Ttx t \<in># cb_toks w cb"
proof -
  have e: "Ttx t \<in># ev_toks w' x \<longleftrightarrow> Ttx t \<in># ev_toks w x" for x
    using assms(3) Ttx_ucb [OF assms(1,2)] by (simp add: ev_toks_def split: option.split)
  show ?thesis using assms(4) Ttx_ucb [OF assms(1,2), of t cb] e by (cases cb) (simp_all split: option.split)
qed

subsection \<open>What the sweep releases\<close>

text \<open>In the states in which the handler sends nothing it writes the objects of the transaction only.\<close>

lemma timeout_quiet:
  assumes "t_state (txn_at w t) \<in> {TXN_ST_RECV, TXN_ST_DB_READ_WAIT, TXN_ST_DB_WRITE_WAIT}"
  shows "timeout_handler D hi cc t w = v_port_txn_destroy D t (free_req D t (free_ctx D t w))"
  using assms by (auto simp: timeout_handler_def Let_def)

lemma destroy_frame:
  "sess_pending_at (v_port_txn_destroy D t w1) = sess_pending_at w1" "retrans_pending_at (v_port_txn_destroy D t w2) = retrans_pending_at w2"
  "evalsha_at (v_port_txn_destroy D t w3) = evalsha_at w3" "load_at (v_port_txn_destroy D t w3) = load_at w3"
  "g_ctx (v_port_txn_destroy D t w3) = g_ctx w3" "db_pending_at (v_port_txn_destroy D t w3) = db_pending_at w3"
  "g_ctx_pool (v_port_txn_destroy D t w3) = g_ctx_pool w3" "ctx_at (v_port_txn_destroy D t w3) = ctx_at w3"
  by (simp_all add: v_port_txn_destroy_def split: option.split)

lemma free_req_frame:
  "sess_pending_at (free_req D t w1) = sess_pending_at w1" "retrans_pending_at (free_req D t w2) = retrans_pending_at w2"
  "evalsha_at (free_req D t w3) = evalsha_at w3" "load_at (free_req D t w3) = load_at w3"
  "g_ctx (free_req D t w3) = g_ctx w3" "db_pending_at (free_req D t w3) = db_pending_at w3"
  "g_ctx_pool (free_req D t w3) = g_ctx_pool w3" "ctx_at (free_req D t w3) = ctx_at w3"
  "g_slots (free_req D t w3) = g_slots w3" "g_txn_pool (free_req D t w3) = g_txn_pool w3" "g_fired (free_req D t w3) = g_fired w3"
  by (simp_all add: free_req_def txn_upd_def v_port_pfcp_msg_free_def)

lemma free_ctx_frame:
  "sess_pending_at (free_ctx D t w1) = sess_pending_at w1" "retrans_pending_at (free_ctx D t w2) = retrans_pending_at w2"
  "evalsha_at (free_ctx D t w3) = evalsha_at w3" "load_at (free_ctx D t w3) = load_at w3"
  "g_ctx (free_ctx D t w3) = g_ctx w3" "db_pending_at (free_ctx D t w3) = db_pending_at w3"
  "g_slots (free_ctx D t w3) = g_slots w3" "g_txn_pool (free_ctx D t w3) = g_txn_pool w3" "g_fired (free_ctx D t w3) = g_fired w3"
  by (simp_all add: free_ctx_def txn_upd_def v_port_ctx_free_def)

lemmas timeout_frame = destroy_frame free_req_frame free_ctx_frame

text \<open>A live transaction's contexts are held, and are two different ones.\<close>

lemma live_contexts:
  assumes a: "acct D free waiting U {#} w" and t: "t \<in> live w"
  shows "t_ctx (txn_at w t) \<noteq> 0 \<Longrightarrow> t_ctx (txn_at w t) \<in> held Tcx (inflight waiting w)"
    "t_impl (txn_at w t) \<noteq> 0 \<Longrightarrow> t_impl (txn_at w t) \<in> held Tcx (inflight waiting w)"
    "t_ctx (txn_at w t) \<noteq> 0 \<Longrightarrow> t_impl (txn_at w t) \<noteq> t_ctx (txn_at w t)"
proof -
  have lv: "live w = held Ttx (inflight waiting w)" using a by (simp add: acct_def pools_def txn_inv_def)
  then obtain cb where cb: "cb \<in># calls waiting w" "Ttx t \<in># cb_toks w cb" using t by (auto simp: in_held inflight_def)
  obtain K where K: "cb_toks w cb = K + txn_toks w t" using cb_toks_txn [OF cb(2)] by blast
  note c = count_inflight_le [OF a cb(1)]
  have s: "txn_toks w t \<subseteq># inflight waiting w" using c(1) K by (metis mset_subset_eq_add_right subset_mset.order_trans)
  show "t_ctx (txn_at w t) \<noteq> 0 \<Longrightarrow> t_ctx (txn_at w t) \<in> held Tcx (inflight waiting w)"
    "t_impl (txn_at w t) \<noteq> 0 \<Longrightarrow> t_impl (txn_at w t) \<in> held Tcx (inflight waiting w)"
    using mset_subset_eqD [OF s] by (simp_all add: in_held txn_toks_def in_rec_toks)
  show "t_impl (txn_at w t) \<noteq> t_ctx (txn_at w t)" if "t_ctx (txn_at w t) \<noteq> 0"
  proof
    assume "t_impl (txn_at w t) = t_ctx (txn_at w t)"
    then have "2 \<le> count (cb_toks w cb) (Tcx (t_ctx (txn_at w t)))" using that by (simp add: K txn_toks_def rec_toks_def opt_tok_def)
    then show False using c(2) [of "Tcx (t_ctx (txn_at w t))"] by simp
  qed
qed

subsection \<open>Property\<close>

text \<open>
  C27: what a timeout in the states before the VDP does. The transaction leaves the table and its
  session context returns to its pool; nothing is sent. But the command it waited for still
  waits, with a callback that leads to the destroyed transaction: the late reply will run on it.
  The snapshot that a modification keeps in \<^verbatim>\<open>t->impl\<close> is not returned to the pool.
\<close>

theorem timeout_orphans_call:
  assumes "acct D free waiting U {#} w" and "t \<in> live w"
    and "t_state (txn_at w t) \<in> {TXN_ST_RECV, TXN_ST_DB_READ_WAIT, TXN_ST_DB_WRITE_WAIT}"
    and "w' = timeout_handler D hi cc t w"
  shows "t \<notin> live w' \<and> (t_ctx (txn_at w t) \<noteq> 0 \<longrightarrow> t_ctx (txn_at w t) \<in> pool_set free (g_ctx_pool w')) \<and>
    (t_impl (txn_at w t) \<noteq> 0 \<longrightarrow> t_impl (txn_at w t) \<notin> pool_set free (g_ctx_pool w')) \<and>
    g_ctx w' = g_ctx w \<and> size (filter_mset (\<lambda>cb. Ttx t \<in># cb_toks w' cb) (calls waiting w')) = 1"
proof -
  let ?x = "txn_at w t" and ?H = "held Tcx (inflight waiting w)"
  note w' = assms(4) [unfolded timeout_quiet [OF assms(3)]] and live = live_contexts [OF assms(1,2)]
  have P: "pools D free U (inflight waiting w) w" using acct_pools [OF assms(1)] by simp
  then have ti: "txn_inv D free (ar_tx U) (live w) w" and ci: "ctx_inv D free (ar_cx U) ?H w"
    by (simp_all add: pools_def txn_inv_def)
  have ti2: "txn_inv D free (ar_tx U) (live w) (free_req D t (free_ctx D t w))"
    using ti pool_invs_cong(3) [of "free_req D t (free_ctx D t w)" w] by (simp add: timeout_frame)
  from txn_destroy_inv(1) [OF this assms(2)] have "t \<notin> live w'" by (simp add: w' txn_inv_def)
  moreover have "ctx_inv D free (ar_cx U) (?H - {t_ctx ?x}) (free_ctx D t w)"
  proof (cases "t_ctx ?x = 0")
    case True
    have "0 \<notin> ?H" using ci by (auto simp: ctx_inv_def owns_def)
    then show ?thesis using ci True by (simp add: free_ctx_def)
  next
    case False
    then have "ctx_inv D free (ar_cx U) (?H - {t_ctx ?x}) (v_port_ctx_free D (t_ctx ?x) w)"
      using ctx_free_inv(1) [OF ci live(1) [OF False]] by simp
    then show ?thesis using False by (simp add: free_ctx_def txn_upd_def)
  qed
  then have o: "owns D free (ar_cx U) (?H - {t_ctx ?x}) (g_ctx_pool w')" by (simp add: w' timeout_frame ctx_inv_def)
  have "t_ctx ?x \<noteq> 0 \<longrightarrow> t_ctx ?x \<in> pool_set free (g_ctx_pool w')"
    using live(1) ci o by (auto simp: owns_def ctx_inv_def)
  moreover have "t_impl ?x \<noteq> 0 \<longrightarrow> t_impl ?x \<notin> pool_set free (g_ctx_pool w')"
    using live(2,3) o by (cases "t_ctx ?x = 0") (auto simp: owns_def)
  moreover have g: "g_ctx w' = g_ctx w" "db_pending_at w' = db_pending_at w" by (simp_all add: w' timeout_frame)
  moreover have "Ttx t \<in># cb_toks w' cb \<longleftrightarrow> Ttx t \<in># cb_toks w cb" for cb
    by (rule Ttx_cb) (simp_all add: w' timeout_frame)
  then have "size (filter_mset (\<lambda>cb. Ttx t \<in># cb_toks w' cb) (calls waiting w')) = 1"
    using calls_of_txn [OF assms(1), of t] assms(2) calls_cong(1) [OF g, of waiting] by simp
  ultimately show ?thesis by blast
qed

theorem timeout_orphans_call_witness:
  "\<exists>w'. w' = timeout_handler list_dpdk list_hiredis (db_call list_dpdk list_hiredis 0) 60 demo_worker \<and> 60 \<notin> live w' \<and>
     size (filter_mset (\<lambda>cb. Ttx 60 \<in># cb_toks w' cb) (calls (\<lambda>h. h) w')) = 1"
proof -
  have "60 \<in> live demo_worker" "t_state (txn_at demo_worker 60) \<in> {TXN_ST_RECV, TXN_ST_DB_READ_WAIT, TXN_ST_DB_WRITE_WAIT}"
    by (simp_all add: live_def demo_worker_defs zero_txn_def)
  from timeout_orphans_call [OF demo_acct this refl, of list_hiredis "db_call list_dpdk list_hiredis 0"] show ?thesis by blast
qed

end
