(* ===== verification/Id_cluster.thy ===== *)
theory Id_cluster
  imports V_id_alloc "HOL-Library.Multiset"
begin

section \<open>SEIDs across pods\<close>

text \<open>
  Several pods lease blocks from the same Redis counters. The step relation below runs the
  model's own allocator in every pod: a lease is the INCRBY that \<^verbatim>\<open>seid_maybe_refill\<close> sends,
  executed by the server at some moment; its reply travels and is handed to
  \<^verbatim>\<open>seid_refill_reply_cb\<close> of the pod that asked, or gets lost; pods allocate, crash and restart
  with empty rings, and do anything else that leaves their SEID rings alone, and the server
  executes any other command that leaves the SEID counters alone.
\<close>

record ('db, 'w) cluster =
  cl_db :: 'db
  cl_pod :: "nat \<Rightarrow> 'w"
  cl_transit :: "(nat \<times> u16 \<times> v_db_reply) list"
  cl_issued :: "u64 list"

inductive cluster_step ::
    "('r, 'p) dpdk \<Rightarrow> 'h hiredis \<Rightarrow> 'db redis \<Rightarrow> ('db \<Rightarrow> keyspace) \<Rightarrow> nat \<Rightarrow>
     ('db, ('r, 'p, 'h, 'a) id_st_scheme) cluster \<Rightarrow> ('db, ('r, 'p, 'h, 'a) id_st_scheme) cluster \<Rightarrow> bool"
  for D hi call view N where
  Lease: "p < N \<Longrightarrow> call (cl_db s) [''INCRBY'', seid_next_key part, dec V_ID_BLK_SIZE] = (r, db') \<Longrightarrow>
    cluster_step D hi call view N s (s\<lparr>cl_db := db', cl_transit := cl_transit s @ [(p, part, r)]\<rparr>)"
| Deliver: "p < N \<Longrightarrow> cl_transit s = xs @ (p, part, r) # ys \<Longrightarrow>
    cluster_step D hi call view N s
      (s\<lparr>cl_pod := (cl_pod s)(p := seid_refill_reply_cb D RET_CODE_OK (Some r) part (cl_pod s p)),
         cl_transit := xs @ ys\<rparr>)"
| Lose: "p < N \<Longrightarrow> cl_transit s = xs @ (p, part, r) # ys \<Longrightarrow>
    cluster_step D hi call view N s
      (s\<lparr>cl_pod := (cl_pod s)(p := seid_refill_reply_cb D RET_CODE_ERR None part (cl_pod s p)),
         cl_transit := xs @ ys\<rparr>)"
| Alloc: "p < N \<Longrightarrow> v_seid_alloc D hi part (cl_pod s p) = (seid, w') \<Longrightarrow>
    cluster_step D hi call view N s
      (s\<lparr>cl_pod := (cl_pod s)(p := w'), cl_issued := (if seid = 0 then [] else [seid]) @ cl_issued s\<rparr>)"
| Restart: "p < N \<Longrightarrow> g_seid_ring w' = (\<lambda>_. None) \<Longrightarrow>
    cluster_step D hi call view N s (s\<lparr>cl_pod := (cl_pod s)(p := w')\<rparr>)"
| Other_pod: "p < N \<Longrightarrow> g_seid_ring w' = g_seid_ring (cl_pod s p) \<Longrightarrow>
    cluster_step D hi call view N s (s\<lparr>cl_pod := (cl_pod s)(p := w')\<rparr>)"
| Other_db: "(\<forall>part. view db' (seid_next_key part) = view (cl_db s) (seid_next_key part)) \<Longrightarrow>
    cluster_step D hi call view N s (s\<lparr>cl_db := db'\<rparr>)"

text \<open>The value of a partition's counter; a missing key counts from 0.\<close>

definition seid_ctr :: "keyspace \<Rightarrow> u16 \<Rightarrow> int" where
  "seid_ctr ks part = (case ks (seid_next_key part) of
     Some (RStr s, _) \<Rightarrow> (case parse_int s of Some m \<Rightarrow> m | None \<Rightarrow> 0)
   | _ \<Rightarrow> 0)"

text \<open>Where a SEID can be: handed out, ready in some pod's ring, or in a reply under way.\<close>

fun transit_seids :: "nat \<times> u16 \<times> v_db_reply \<Rightarrow> u64 list" where
  "transit_seids (p, part, Reply_Integer n) = seid_block part n"
| "transit_seids _ = []"

definition pod_seids :: "('r \<Rightarrow> ptr list) \<Rightarrow> ('r, 'p, 'h, 'a) id_st_scheme \<Rightarrow> u16 \<Rightarrow> u64 list" where
  "pod_seids elems w part = ring_list elems (g_seid_ring w part)"

definition ring_seids ::
    "('r \<Rightarrow> ptr list) \<Rightarrow> nat \<Rightarrow> ('db, ('r, 'p, 'h, 'a) id_st_scheme) cluster \<Rightarrow> u64 multiset" where
  "ring_seids elems N s = (\<Sum>k \<in> {..< N} \<times> UNIV. mset (pod_seids elems (cl_pod s (fst k)) (snd k)))"

definition all_seids ::
    "('r \<Rightarrow> ptr list) \<Rightarrow> nat \<Rightarrow> ('db, ('r, 'p, 'h, 'a) id_st_scheme) cluster \<Rightarrow> u64 multiset" where
  "all_seids elems N s =
     mset (cl_issued s) + ring_seids elems N s + mset (concat (map transit_seids (cl_transit s)))"

text \<open>No SEID is in two places, and every one lies below its partition's counter.\<close>

definition cluster_inv ::
    "('r \<Rightarrow> ptr list) \<Rightarrow> ('db \<Rightarrow> keyspace) \<Rightarrow> nat \<Rightarrow> ('db, ('r, 'p, 'h, 'a) id_st_scheme) cluster \<Rightarrow> bool" where
  "cluster_inv elems view N s \<longleftrightarrow>
     (\<forall>x. count (all_seids elems N s) x \<le> 1) \<and>
     (\<forall>x \<in># all_seids elems N s.
        int (unat (v_seid_local x)) < seid_ctr (view (cl_db s)) (v_seid_part x))"

subsection \<open>Blocks\<close>

lemma less_int: "m < 2 ^ 46 \<Longrightarrow> int m < 2 ^ 46"
  by simp

lemma unat_block_index:
  assumes "- (2 ^ 63) \<le> n" "n < 2 ^ 63" "i < 256" and "unat (word_of_int n - 256 + of_nat i :: u64) < 2 ^ 46"
  shows "int (unat (word_of_int n - 256 + of_nat i :: u64)) = n - 256 + int i"
proof -
  have e: "word_of_int n - 256 + of_nat i = (word_of_int (n - 256 + int i) :: u64)"
    by simp
  have u: "int (unat (word_of_int k :: u64)) = k mod 2 ^ 64" for k
    by (simp add: unsigned_of_int take_bit_eq_mod)
  define k where "k = n - 256 + int i"
  have "k mod 2 ^ 64 = (if k < 0 then k + 2 ^ 64 else k)"
  proof (cases "k < 0")
    case True
    have "k mod 2 ^ 64 = (k + 2 ^ 64) mod 2 ^ 64" by simp
    also have "\<dots> = k + 2 ^ 64" using assms(1-3) True by (intro mod_pos_pos_trivial) (simp_all add: k_def)
    finally show ?thesis using True by simp
  next
    case False
    then show ?thesis using assms(1-3) by (simp add: k_def mod_pos_pos_trivial)
  qed
  then have "int (unat (word_of_int n - 256 + of_nat i :: u64)) = (if k < 0 then k + 2 ^ 64 else k)"
    unfolding e using u [of k] by (simp only: k_def)
  moreover have "int (unat (word_of_int n - 256 + of_nat i :: u64)) < 2 ^ 46"
    by (rule less_int [OF assms(4)])
  moreover have "- (2 ^ 63) - 256 \<le> k" using assms(1) by (simp add: k_def)
  ultimately have "int (unat (word_of_int n - 256 + of_nat i :: u64)) = k"
    by (cases "k < 0") simp_all
  then show ?thesis by (simp only: k_def)
qed

lemma seid_block_mem:
  assumes x: "x \<in> set (seid_block part n)" and n: "- (2 ^ 63) \<le> n" "n < 2 ^ 63"
  shows "v_seid_part x = part" "n - 256 \<le> int (unat (v_seid_local x))" "int (unat (v_seid_local x)) < n"
proof -
  from x obtain i where i: "i < 256" and e: "v_seid_encode part (word_of_int n - 256 + of_nat i) = Some x"
    by (auto simp: seid_block_def List.map_filter_def V_ID_BLK_SIZE_def)
  show "v_seid_part x = part" by (rule seid_part_encode [OF e])
  have "unat (word_of_int n - 256 + of_nat i :: u64) < 2 ^ 46" using seid_encode_Some e by blast
  from unat_block_index [OF n i this] seid_local_encode [OF e] i
  show "n - 256 \<le> int (unat (v_seid_local x))" "int (unat (v_seid_local x)) < n" by simp_all
qed

lemma distinct_map_filter:
  assumes "distinct xs" and "\<And>x y z. x \<in> set xs \<Longrightarrow> y \<in> set xs \<Longrightarrow> f x = Some z \<Longrightarrow> f y = Some z \<Longrightarrow> x = y"
  shows "distinct (List.map_filter f xs)"
  using assms
proof (induction xs)
  case Nil
  then show ?case by simp
next
  case (Cons x xs)
  have "distinct (List.map_filter f xs)" using Cons by auto
  moreover have "z \<notin> set (List.map_filter f xs)" if "f x = Some z" for z
    using Cons.prems that by (auto simp: List.map_filter_def) (metis option.sel)
  ultimately show ?case by (auto split: option.split)
qed

lemma seid_block_distinct: "distinct (seid_block part n)"
  unfolding seid_block_def
proof (rule distinct_map_filter)
  have "inj_on (\<lambda>i. word_of_int n - of_nat V_ID_BLK_SIZE + of_nat i :: u64) {0 ..< V_ID_BLK_SIZE}"
    by (rule inj_onI) (simp add: V_ID_BLK_SIZE_def word_of_nat_eq_iff take_bit_nat_eq_self)
  then show "distinct (map (\<lambda>i. word_of_int n - of_nat V_ID_BLK_SIZE + of_nat i :: u64) [0 ..< V_ID_BLK_SIZE])"
    by (simp add: distinct_map)
qed (metis seid_local_encode)

subsection \<open>The counter\<close>

lemma hd_dec_digit: "dec n = c # s \<Longrightarrow> c_isdigit c"
  using dec_isdigit [of c n] by simp

lemma parse_int_str: "- (2 ^ 63) \<le> i \<Longrightarrow> i < 2 ^ 63 \<Longrightarrow> parse_int (int_str i) = Some i"
  by (auto simp: parse_int_def int_str_def list_all_iff dec_isdigit Let_def)

lemma dec_block [simp]: "parse_int (dec V_ID_BLK_SIZE) = Some 256"
  by (simp add: V_ID_BLK_SIZE_def)

text \<open>A lease moves the counter by 256 and its reply names the new value; an error moves nothing.\<close>

lemma seid_next_key_inj: "seid_next_key p = seid_next_key q \<Longrightarrow> p = q"
proof -
  have s: "seid_next_key x = ''vpe:seid:'' @ dec (unat x) @ '':next''" for x :: u16
  proof -
    have "unat x < 2 ^ LENGTH(16)" by (rule unsigned_less)
    then have "unat x < 10 ^ 5" by simp
    from length_dec [OF this] show ?thesis by (simp add: seid_next_key_def)
  qed
  show "seid_next_key p = seid_next_key q \<Longrightarrow> p = q"
    unfolding s by (simp add: unsigned_word_eqI)
qed

lemma lease_effect:
  assumes c: "redis_conforms call view"
    and l: "call db [''INCRBY'', seid_next_key part, dec V_ID_BLK_SIZE] = (r, db')"
  shows "q \<noteq> part \<Longrightarrow> seid_ctr (view db') q = seid_ctr (view db) q"
    and "(\<exists>n. r = Reply_Integer n \<and> - (2 ^ 63) \<le> n \<and> n < 2 ^ 63 \<and> seid_ctr (view db) part = n - 256 \<and>
           seid_ctr (view db') part = n) \<or>
         (\<forall>p. transit_seids (p, part, r) = []) \<and> seid_ctr (view db') part = seid_ctr (view db) part"
proof -
  let ?args = "[''INCRBY'', seid_next_key part, dec V_ID_BLK_SIZE]"
  have s: "redis_spec (view db) ?args \<noteq> None"
    by (simp add: redis_INCRBY_def)
  note r = conforms_simps [OF c s, unfolded l, simplified]
  show "q \<noteq> part \<Longrightarrow> seid_ctr (view db') q = seid_ctr (view db) q"
    using r(2) seid_next_key_inj [of q part]
    by (auto simp: redis_INCRBY_def seid_ctr_def split: option.splits rval.splits if_splits)
  show "(\<exists>n. r = Reply_Integer n \<and> - (2 ^ 63) \<le> n \<and> n < 2 ^ 63 \<and> seid_ctr (view db) part = n - 256 \<and>
           seid_ctr (view db') part = n) \<or>
         (\<forall>p. transit_seids (p, part, r) = []) \<and> seid_ctr (view db') part = seid_ctr (view db) part"
    using r
    by (auto simp: redis_INCRBY_def seid_ctr_def wrongtype_def not_integer_def parse_int_str
        split: option.splits rval.splits if_splits)
qed

subsection \<open>Every step keeps the SEIDs apart\<close>

lemma sum_upd:
  fixes f f' :: "'k \<Rightarrow> 'm :: cancel_comm_monoid_add"
  assumes "finite K" "k \<in> K" "\<And>j. j \<in> K \<Longrightarrow> j \<noteq> k \<Longrightarrow> f' j = f j"
  shows "sum f' K + f k = sum f K + f' k"
proof -
  have "sum f' (K - {k}) = sum f (K - {k})" using assms(3) by (intro sum.cong) auto
  then show ?thesis
    using sum.remove [OF assms(1,2), of f] sum.remove [OF assms(1,2), of f'] by (simp add: ac_simps)
qed

lemma ring_seids_upd:
  assumes "p < N" and "\<And>q. q \<noteq> part \<Longrightarrow> pod_seids elems w' q = pod_seids elems (cl_pod s p) q"
    and "cl_pod s' = (cl_pod s)(p := w')"
  shows "ring_seids elems N s' + mset (pod_seids elems (cl_pod s p) part) =
    ring_seids elems N s + mset (pod_seids elems w' part)"
proof -
  have "ring_seids elems N s' + mset (pod_seids elems (cl_pod s (fst (p, part))) (snd (p, part))) =
    ring_seids elems N s + mset (pod_seids elems (cl_pod s' (fst (p, part))) (snd (p, part)))"
    unfolding ring_seids_def
    by (rule sum_upd) (use assms in \<open>auto split: if_splits, metis\<close>)
  with assms(3) show ?thesis by simp
qed

text \<open>Steps that create no SEID: the invariant is inherited from a larger collection.\<close>

lemma cluster_inv_sub:
  assumes "cluster_inv elems view N s" and "all_seids elems N s' \<subseteq># all_seids elems N s"
    and "\<And>part. seid_ctr (view (cl_db s')) part = seid_ctr (view (cl_db s)) part"
  shows "cluster_inv elems view N s'"
  using assms unfolding cluster_inv_def by (metis mset_subset_eqD mset_subset_eq_count order_trans)

lemma refill_reply_other:
  "q \<noteq> part \<Longrightarrow> pod_seids elems (seid_refill_reply_cb D status r part w) q = pod_seids elems w q"
  by (auto simp: seid_refill_reply_cb_def pod_seids_def Let_def split: option.split v_db_reply.split)

lemma refill_reply_sub:
  assumes "ring_laws D elems usable"
  shows "mset (pod_seids elems (seid_refill_reply_cb D RET_CODE_OK (Some r) part w) part) \<subseteq>#
    mset (pod_seids elems w part) + mset (transit_seids (p, part, r))"
proof (cases r)
  case (Reply_Integer n)
  let ?ls = "map (\<lambda>i. (word_of_int n - of_nat V_ID_BLK_SIZE :: u64) + of_nat i) [0 ..< V_ID_BLK_SIZE]"
  obtain k where "ring_list elems (seid_refill_loop D part ?ls (g_seid_ring w part)) =
      ring_list elems (g_seid_ring w part) @ take k (seid_block part n)"
    using seid_refill_loop_prefix [OF assms, of part ?ls] unfolding seid_block_def by blast
  moreover have "mset (take k (seid_block part n)) \<subseteq># mset (seid_block part n)"
    by (metis append_take_drop_id mset_append mset_subset_eq_add_left)
  ultimately show ?thesis
    using Reply_Integer by (simp add: seid_refill_reply_cb_def pod_seids_def Let_def)
qed (simp_all add: seid_refill_reply_cb_def pod_seids_def Let_def)

lemma refill_failed: "pod_seids elems (seid_refill_reply_cb D RET_CODE_ERR r part w) q = pod_seids elems w q"
  by (simp add: seid_refill_reply_cb_def pod_seids_def)

lemma alloc_seids:
  assumes l: "ring_laws D elems usable" and a: "v_seid_alloc D hi part w = (seid, w')"
  shows "q \<noteq> part \<Longrightarrow> pod_seids elems w' q = pod_seids elems w q"
    and "mset (pod_seids elems w' part) + mset (if seid = 0 then [] else [seid]) \<subseteq># mset (pod_seids elems w part)"
  using a ring_take_Some [OF l]
  by (auto simp: v_seid_alloc_def Let_def pod_seids_def frame_simps split: option.splits)

lemma lease_inv:
  assumes c: "redis_conforms call view" and i: "cluster_inv elems view N s"
    and l: "call (cl_db s) [''INCRBY'', seid_next_key part, dec V_ID_BLK_SIZE] = (r, db')"
  shows "cluster_inv elems view N (s\<lparr>cl_db := db', cl_transit := cl_transit s @ [(p, part, r)]\<rparr>)"
proof -
  let ?s' = "s\<lparr>cl_db := db', cl_transit := cl_transit s @ [(p, part, r)]\<rparr>"
  have all: "all_seids elems N ?s' = all_seids elems N s + mset (transit_seids (p, part, r))"
    by (simp add: all_seids_def ring_seids_def)
  from lease_effect(2) [OF c l] show ?thesis
  proof
    assume "\<exists>n. r = Reply_Integer n \<and> - (2 ^ 63) \<le> n \<and> n < 2 ^ 63 \<and>
      seid_ctr (view (cl_db s)) part = n - 256 \<and> seid_ctr (view db') part = n"
    then obtain n where n: "r = Reply_Integer n" "- (2 ^ 63) \<le> n" "n < 2 ^ 63"
      "seid_ctr (view (cl_db s)) part = n - 256" "seid_ctr (view db') part = n" by blast
    note b = seid_block_mem [OF _ n(2,3), of _ part]
    have new: "x \<notin># all_seids elems N s" if "x \<in> set (seid_block part n)" for x
    proof
      assume "x \<in># all_seids elems N s"
      then have "int (unat (v_seid_local x)) < seid_ctr (view (cl_db s)) (v_seid_part x)"
        using i by (simp add: cluster_inv_def)
      with b [OF that] n(4) show False by simp
    qed
    have "count (all_seids elems N ?s') x \<le> 1" for x
    proof (cases "x \<in> set (seid_block part n)")
      case True
      with new have "count (all_seids elems N s) x = 0" by (simp add: not_in_iff)
      with all n(1) seid_block_distinct [of part n] show ?thesis
        by (simp add: distinct_count_atmost_1)
    next
      case False
      then have "count (all_seids elems N ?s') x = count (all_seids elems N s) x"
        using all n(1) by (simp add: count_mset_0_iff)
      with i show ?thesis by (simp add: cluster_inv_def)
    qed
    moreover have "int (unat (v_seid_local x)) < seid_ctr (view db') (v_seid_part x)"
      if "x \<in># all_seids elems N ?s'" for x
    proof (cases "x \<in> set (seid_block part n)")
      case True
      with b n(5) show ?thesis by simp
    next
      case False
      then have "x \<in># all_seids elems N s" using that all n(1) by simp
      then have "int (unat (v_seid_local x)) < seid_ctr (view (cl_db s)) (v_seid_part x)"
        using i by (simp add: cluster_inv_def)
      with lease_effect(1) [OF c l] n(4,5) show ?thesis by (cases "v_seid_part x = part") auto
    qed
    ultimately show ?thesis by (simp add: cluster_inv_def)
  next
    assume a: "(\<forall>p. transit_seids (p, part, r) = []) \<and> seid_ctr (view db') part = seid_ctr (view (cl_db s)) part"
    then have "seid_ctr (view db') q = seid_ctr (view (cl_db s)) q" for q
      using lease_effect(1) [OF c l] by (cases "q = part") auto
    with i all a show ?thesis by (simp add: cluster_inv_def)
  qed
qed

text \<open>
  A step at partition \<open>part\<close> of pod \<open>p\<close> that hands out \<open>xs\<close> and consumes the replies' SEIDs \<open>ys\<close>.
\<close>

lemma pod_step_sub:
  assumes pod: "p < N" "\<And>q. q \<noteq> part \<Longrightarrow> pod_seids elems w' q = pod_seids elems (cl_pod s p) q"
      "cl_pod s' = (cl_pod s)(p := w')"
    and iss: "mset (cl_issued s') = mset xs + mset (cl_issued s)"
    and tr: "mset (concat (map transit_seids (cl_transit s))) =
      mset ys + mset (concat (map transit_seids (cl_transit s')))"
    and sub: "mset (pod_seids elems w' part) + mset xs \<subseteq># mset (pod_seids elems (cl_pod s p) part) + mset ys"
  shows "all_seids elems N s' \<subseteq># all_seids elems N s"
proof -
  let ?a = "mset (pod_seids elems (cl_pod s p) part)" and ?b = "mset (pod_seids elems w' part)"
  let ?R = "ring_seids elems N s" and ?R' = "ring_seids elems N s'"
  have "(mset xs + ?R') + ?a = ?R + (?b + mset xs)"
    using ring_seids_upd [OF pod] by (simp add: ac_simps)
  also have "\<dots> \<subseteq># ?R + (?a + mset ys)" by (rule subset_mset.add_left_mono [OF sub])
  finally have "mset xs + ?R' \<subseteq># ?R + mset ys" by (simp add: ac_simps)
  then show ?thesis
    unfolding all_seids_def iss tr by (simp add: ac_simps)
qed

lemma cluster_step_inv:
  assumes st: "cluster_step D hi call view N s s'" and l: "ring_laws D elems usable"
    and c: "redis_conforms call view" and i: "cluster_inv elems view N s"
  shows "cluster_inv elems view N s'"
  using st
proof (cases rule: cluster_step.cases)
  case (Lease p part r db')
  with lease_inv [OF c i] show ?thesis by simp
next
  case (Deliver p xs part r ys)
  have "all_seids elems N s' \<subseteq># all_seids elems N s"
    by (rule pod_step_sub [where p = p and part = part and xs = "[]" and ys = "transit_seids (p, part, r)"
          and w' = "seid_refill_reply_cb D RET_CODE_OK (Some r) part (cl_pod s p)"])
      (use Deliver refill_reply_sub [OF l, of r part "cl_pod s p" p] in \<open>simp_all add: refill_reply_other\<close>)
  with i show ?thesis by (rule cluster_inv_sub) (simp add: Deliver)
next
  case (Lose p xs part r ys)
  have "all_seids elems N s' \<subseteq># all_seids elems N s"
    by (rule pod_step_sub [where p = p and part = part and xs = "[]" and ys = "transit_seids (p, part, r)"
          and w' = "seid_refill_reply_cb D RET_CODE_ERR None part (cl_pod s p)"])
      (use Lose in \<open>simp_all add: refill_failed\<close>)
  with i show ?thesis by (rule cluster_inv_sub) (simp add: Lose)
next
  case (Alloc p part seid w')
  have "all_seids elems N s' \<subseteq># all_seids elems N s"
    by (rule pod_step_sub [where p = p and part = part and xs = "if seid = 0 then [] else [seid]" and ys = "[]"
          and w' = w'])
      (use Alloc alloc_seids [OF l Alloc(3)] in simp_all)
  with i show ?thesis by (rule cluster_inv_sub) (simp add: Alloc)
next
  case (Restart p w')
  have "count (ring_seids elems N s') x \<le> count (ring_seids elems N s) x" for x
    unfolding ring_seids_def count_sum using Restart
    by (intro sum_mono) (auto simp: pod_seids_def)
  then have "all_seids elems N s' \<subseteq># all_seids elems N s"
    using Restart by (auto simp: all_seids_def subseteq_mset_def)
  with i show ?thesis by (rule cluster_inv_sub) (simp add: Restart)
next
  case (Other_pod p w')
  then have "ring_seids elems N s' = ring_seids elems N s"
    unfolding ring_seids_def by (intro sum.cong) (auto simp: pod_seids_def)
  with Other_pod have "all_seids elems N s' = all_seids elems N s" by (simp add: all_seids_def)
  with i show ?thesis using Other_pod by (simp add: cluster_inv_def)
next
  case (Other_db db')
  then have "all_seids elems N s' = all_seids elems N s" by (simp add: all_seids_def ring_seids_def)
  with i show ?thesis by (rule_tac cluster_inv_sub) (simp_all add: Other_db seid_ctr_def)
qed


definition demo_cluster :: "(keyspace, (nat \<times> ptr list, ptr list, (string list \<times> ptr) list) id_st) cluster" where
  "demo_cluster = \<lparr>cl_db = Map.empty, cl_pod = (\<lambda>_. (demo_id ())\<lparr>g_seid_ring := (\<lambda>_. None)\<rparr>),
     cl_transit = [], cl_issued = []\<rparr>"


end
