(* ===== verification/Key_space.thy ===== *)
theory Key_space
  imports V_main Id_cluster
begin

section \<open>The keys of the shared database\<close>

text \<open>
  Six modules write to the same Redis servers, each under keys it formats itself into a buffer of
  fixed size. The theory collects them in one datatype.
\<close>

datatype db_key =
    Session_key u16 u64
  | Response_key u16 u64 u32
  | Seid_counter u16
  | Teid_counter u16
  | Teid_free_list u16
  | Recovery_key "u8 list"
  | Association_key "u8 list"

fun key_text :: "db_key \<Rightarrow> string" where
  "key_text (Session_key part seid) = make_key part seid"
| "key_text (Response_key part fseid seq) = retrans_key part fseid seq"
| "key_text (Seid_counter part) = seid_next_key part"
| "key_text (Teid_counter part) = teid_next_key part"
| "key_text (Teid_free_list part) = teid_free_key part"
| "key_text (Recovery_key node) = recovery_key node"
| "key_text (Association_key node) = assoc_key node"

lemma id_keys_exact:
  "seid_next_key part = ''vpe:seid:'' @ dec (unat part) @ '':next''"
  "teid_next_key part = ''vpe:teid:'' @ dec (unat part) @ '':next''"
  "teid_free_key part = ''vpe:teid:'' @ dec (unat part) @ '':free''"
  using dec_u16_length [of part] by (simp_all add: seid_next_key_def teid_next_key_def teid_free_key_def)

lemma make_key_inj: "make_key part seid = make_key part' seid' \<Longrightarrow> part = part' \<and> seid = seid'"
  using dec_sep_inj [of "unat part" "dec (unat seid)" "unat part'" "dec (unat seid')"]
  by (simp add: make_key_exact word_unat_eq_iff)

lemma teid_keys_differ: "teid_next_key part \<noteq> teid_free_key part'"
  using dec_sep_inj [of "unat part" "''next''" "unat part'" "''free''"] by (auto simp: id_keys_exact)

lemmas key_prefixes = make_key_exact retrans_key_exact id_keys_exact recovery_key_def assoc_key_def

lemma key_text_inj: "key_text k = key_text k' \<Longrightarrow> k = k'"
proof (cases k; cases k')
  fix p s p' s' assume "key_text k = key_text k'" "k = Session_key p s" "k' = Session_key p' s'"
  then show ?thesis using make_key_inj by simp
next
  fix p f s p' f' s' assume "key_text k = key_text k'" "k = Response_key p f s" "k' = Response_key p' f' s'"
  then show ?thesis using retrans_key_inj by simp
next
  fix p p' assume "key_text k = key_text k'" "k = Teid_counter p" "k' = Teid_free_list p'"
  then show ?thesis using teid_keys_differ by simp
next
  fix p p' assume "key_text k = key_text k'" "k = Teid_free_list p" "k' = Teid_counter p'"
  then show ?thesis using teid_keys_differ by (metis key_text.simps(4,5))
next
  fix a b assume "key_text k = key_text k'" "k = Recovery_key a" "k' = Recovery_key b"
  then show ?thesis by (simp add: node_keys_inj)
next
  fix a b assume "key_text k = key_text k'" "k = Association_key a" "k' = Association_key b"
  then show ?thesis by (simp add: node_keys_inj)
next
  fix a b assume "key_text k = key_text k'" "k = Recovery_key a" "k' = Association_key b"
  then show ?thesis by (simp add: node_keys_inj)
next
  fix a b assume "key_text k = key_text k'" "k = Association_key a" "k' = Recovery_key b"
  then show ?thesis using node_keys_inj(3) by (metis key_text.simps(6,7))
qed (simp_all add: key_prefixes word_unat_eq_iff)

text \<open>
  C21: no two modules and no two objects share a key. The keys of the stored sessions, of the
  cached responses, of the SEID and TEID counters and free lists of the partitions, and of the
  nodes' recovery time stamps and associations are all different for different arguments: no
  buffer truncates one, no separator is ambiguous. The keys \<^verbatim>\<open>v_node_state_init\<close> stores are those of
  its node identifier.
\<close>

theorem keys_never_collide:
  "(key_text k = key_text k' \<longleftrightarrow> k = k') \<and>
   (v_node_state_init D node w = (RET_CODE_OK, w') \<longrightarrow>
      g_recovery_key w' = key_text (Recovery_key node) \<and> g_assoc_key w' = key_text (Association_key node))"
  using key_text_inj [of k k'] node_init_ok(3,4) [of D node w w'] by auto

theorem keys_never_collide_witness:
  "g_assoc_key (snd (v_node_state_init list_dpdk g_node_id (demo_node ()))) = key_text (Association_key g_node_id) \<and>
   key_text (Session_key 1 2) \<noteq> key_text (Response_key 1 2 3)"
proof -
  obtain w' where i: "v_node_state_init list_dpdk g_node_id (demo_node ()) = (RET_CODE_OK, w')"
    by (cases "v_node_state_init list_dpdk g_node_id (demo_node ())")
      (auto simp: v_node_state_init_def ensure_node_pool_def demo_node_defs V_NODE_ID_MAX_BYTES_def g_node_id_def Let_def)
  show ?thesis using keys_never_collide [of "Session_key 1 2" "Response_key 1 2 3" list_dpdk g_node_id "demo_node ()" w'] i
    by (simp del: key_text.simps)
qed

end
