(* ===== verification/Teid_refill.thy ===== *)
theory Teid_refill
  imports V_id_alloc
begin

section \<open>TEIDs: from the script's reply to the ring\<close>

text \<open>
  The TEID refill runs in two places: the Lua script picks the identifiers on the server, the
  reply handler turns them into ring entries. The lemmas here put the two halves together.
\<close>

definition teid_entry :: "u16 \<Rightarrow> u64 \<Rightarrow> ptr option" where
  "teid_entry part local = map_option ucast (v_teid_encode part (ucast local))"

definition teid_ring_inv ::
    "('r \<Rightarrow> ptr list) \<Rightarrow> ('r \<Rightarrow> nat) \<Rightarrow> u16 \<Rightarrow> ('r, 'p, 'h, 'a) id_st_scheme \<Rightarrow> bool" where
  "teid_ring_inv elems usable part w \<longleftrightarrow>
     (\<exists>r. g_teid_ring w part = Some r \<and> usable r = V_ID_RING_SIZE - 1 \<and>
        length (elems r) < V_ID_WATERMARK + V_ID_BLK_SIZE \<and>
        (g_teid_refill_inflight w part \<longrightarrow> length (elems r) < V_ID_WATERMARK))"

lemma enqueue_teid_inflight [simp]:
  "g_teid_refill_inflight (enqueue_teid D part l w) = g_teid_refill_inflight w"
  by (simp add: enqueue_teid_def split: option.split)

lemma enqueue_teids_inflight [simp]:
  "g_teid_refill_inflight (fold (enqueue_teid D part) ls w) = g_teid_refill_inflight w"
  by (induction ls arbitrary: w) simp_all

lemma enqueue_teids:
  assumes l: "ring_laws D elems usable" and "g_teid_ring w part = Some r"
    and "length (elems r) + length ls \<le> usable r"
  shows "\<exists>r'. g_teid_ring (fold (enqueue_teid D part) ls w) part = Some r' \<and> usable r' = usable r \<and>
    elems r' = elems r @ List.map_filter (teid_entry part) ls"
  using assms(2,3)
proof (induction ls arbitrary: w r)
  case Nil
  then show ?case by simp
next
  case (Cons x ls)
  show ?case
  proof (cases "v_teid_encode part (ucast x)")
    case None
    then have "enqueue_teid D part x w = w" "teid_entry part x = None"
      by (simp_all add: enqueue_teid_def teid_entry_def)
    with Cons.IH [OF Cons.prems(1)] Cons.prems(2) show ?thesis by simp
  next
    case (Some teid)
    from Cons.prems(2) have "has_room elems usable (Some r)" by (simp add: has_room_def)
    then obtain r1 where put: "ring_put D (Some r) (ucast teid) = Some r1"
      using ring_put_None [OF l] by blast
    note put1 = ring_put_Some [OF l put] ring_put_Some_usable [OF l put]
    have w1: "g_teid_ring (enqueue_teid D part x w) part = Some r1" "teid_entry part x = Some (ucast teid)"
      using Some put Cons.prems(1) by (simp_all add: enqueue_teid_def teid_entry_def)
    from Cons.prems(2) put1 have "length (elems r1) + length ls \<le> usable r1" by simp
    from Cons.IH [OF w1(1) this] w1 put1 show ?thesis by auto
  qed
qed

text \<open>A reply that names at most 256 local indices, whichever way, is enqueued completely.\<close>

lemma refill_enqueues:
  assumes l: "ring_laws D elems usable" and i: "teid_ring_inv elems usable part w"
    and f: "g_teid_refill_inflight w part" and ls: "length ls \<le> V_ID_BLK_SIZE"
    and w': "w' = fold (enqueue_teid D part) ls
      (w\<lparr>g_teid_refill_inflight := (g_teid_refill_inflight w)(part := False)\<rparr>)"
  shows "ring_list elems (g_teid_ring w' part) =
      ring_list elems (g_teid_ring w part) @ List.map_filter (teid_entry part) ls"
    and "teid_ring_inv elems usable part w'"
proof -
  let ?w = "w\<lparr>g_teid_refill_inflight := (g_teid_refill_inflight w)(part := False)\<rparr>"
  from i f obtain r where r: "g_teid_ring ?w part = Some r" "usable r = V_ID_RING_SIZE - 1"
    "length (elems r) < V_ID_WATERMARK" by (auto simp: teid_ring_inv_def)
  then have "length (elems r) + length ls \<le> usable r" using ls by (simp add: id_alloc_consts)
  from enqueue_teids [OF l r(1) this] obtain r' where r': "g_teid_ring w' part = Some r'" "usable r' = usable r"
    "elems r' = elems r @ List.map_filter (teid_entry part) ls"
    unfolding w' by blast
  then show "ring_list elems (g_teid_ring w' part) =
      ring_list elems (g_teid_ring w part) @ List.map_filter (teid_entry part) ls"
    using r by simp
  have "\<not> g_teid_refill_inflight w' part" by (simp add: w')
  moreover have "length (List.map_filter (teid_entry part) ls) \<le> V_ID_BLK_SIZE"
    using length_map_filter [of "teid_entry part" ls] ls by simp
  ultimately show "teid_ring_inv elems usable part w'"
    using r r' by (simp add: teid_ring_inv_def)
qed

lemma refill_reply_list:
  fixes w :: "('r, 'p, 'h, 'a) id_st_scheme"
  assumes "\<And>e. e \<in> set els \<Longrightarrow> parse_u64 e \<noteq> None"
  shows "teid_refill_reply_cb D RET_CODE_OK (Some (Reply_Array (Reply_String ''list'' # els))) part w =
    fold (enqueue_teid D part) (map (\<lambda>e. the (parse_u64 e)) els)
      (w\<lparr>g_teid_refill_inflight := (g_teid_refill_inflight w)(part := False)\<rparr>)"
proof -
  have "fold (\<lambda>e w. case parse_u64 e of None \<Rightarrow> w | Some local \<Rightarrow> enqueue_teid D part local w) els w0 =
      fold (enqueue_teid D part) (map (\<lambda>e. the (parse_u64 e)) els) w0" for w0 :: "('r, 'p, 'h, 'a) id_st_scheme"
    using assms by (induction els arbitrary: w0) (auto split: option.split, metis option.distinct(1))
  then show ?thesis by (simp add: teid_refill_reply_cb_def)
qed

lemma refill_reply_range:
  assumes "parse_u64 e1 = Some base" "parse_u64 e2 = Some count"
  shows "teid_refill_reply_cb D RET_CODE_OK (Some (Reply_Array [Reply_String ''range'', e1, e2])) part w =
    fold (enqueue_teid D part) (map (\<lambda>i. base + of_nat i) [0 ..< unat count])
      (w\<lparr>g_teid_refill_inflight := (g_teid_refill_inflight w)(part := False)\<rparr>)"
  using assms by (simp add: teid_refill_reply_cb_def fold_map comp_def)

lemma parse_u64_dec:
  assumes "n < 10 ^ 18"
  shows "parse_u64 (Reply_String (dec n)) = Some (of_nat n)"
proof -
  have "length (dec n) \<le> 18" by (rule length_dec [OF assms]) simp
  moreover have "n < 2 ^ 64" using assms by simp
  ultimately show ?thesis by (simp add: parse_u64_def strtoull_dec)
qed

subsection \<open>The script on the two paths\<close>

lemma lpop_loop:
  assumes c: "redis_conforms call view" and "view db k = Some (RList (xs @ ys), t)" and "ys \<noteq> []"
  shows "\<exists>db'. lua_lpop_loop call k (length xs) out cont db = cont (out @ xs) db' \<and>
    view db' = (view db)(k \<mapsto> (RList ys, t))"
  using assms(2)
proof (induction xs arbitrary: db out)
  case Nil
  then show ?case by (intro exI [of _ db]) (simp add: fun_upd_idem)
next
  case (Cons x xs)
  from Cons.prems assms(3) obtain y l where yl: "xs @ ys = y # l" by (cases "xs @ ys") auto
  let ?db = "snd (call db [''LPOP'', k])"
  have s: "redis_spec (view db) [''LPOP'', k] = Some (Reply_String x, (view db)(k \<mapsto> (RList (xs @ ys), t)))"
    using Cons.prems yl by (simp add: redis_LPOP_def)
  have r: "fst (call db [''LPOP'', k]) = Reply_String x" "view ?db = (view db)(k \<mapsto> (RList (xs @ ys), t))"
    using conforms_simps [OF c, where db = db and args = "[''LPOP'', k]"] s by simp_all
  then have "view ?db k = Some (RList (xs @ ys), t)" by simp
  from Cons.IH [OF this, of "out @ [x]"] obtain db' where
    "lua_lpop_loop call k (length xs) (out @ [x]) cont ?db = cont ((out @ [x]) @ xs) db'"
    "view db' = (view ?db)(k \<mapsto> (RList ys, t))"
    by blast
  with r show ?case
    by (intro exI [of _ db']) (simp add: redis_call_alt)
qed

lemma llen_list:
  assumes c: "redis_conforms call view" and "view db k = Some (RList xs, t)"
  shows "fst (call db [''LLEN'', k]) = Reply_Integer (int (length xs))" "view (snd (call db [''LLEN'', k])) = view db"
  using conforms_simps [OF c, where db = db and args = "[''LLEN'', k]"] assms(2) by (simp_all add: redis_LLEN_def)

lemma tonumber_consts:
  "lua_tonumber (dec V_ID_BLK_SIZE) = Some V_ID_BLK_SIZE"
  "lua_tonumber (dec V_TEID_FREE_FLOOR) = Some V_TEID_FREE_FLOOR"
  by (simp_all add: id_alloc_consts)

lemma script_from_free_list:
  assumes c: "redis_conforms call view" and k: "view db fk = Some (RList (xs @ ys), t)"
    and n: "length xs = V_ID_BLK_SIZE" "V_TEID_FREE_FLOOR < length (xs @ ys)"
  obtains db' where "V_LUA_TEID_REFILL call [fk, nk] [dec V_ID_BLK_SIZE, dec V_TEID_FREE_FLOOR] db =
      (Reply_Array (Reply_String ''list'' # map Reply_String xs), db')"
    "view db' = (view db)(fk \<mapsto> (RList ys, t))"
proof -
  let ?db = "snd (call db [''LLEN'', fk])"
  note len = llen_list [OF c k]
  from n have "V_TEID_FREE_FLOOR < V_ID_BLK_SIZE + length ys" "length xs = V_ID_BLK_SIZE" by simp_all
  then have "length ys \<noteq> 0" "length xs \<noteq> 0" by (simp_all add: id_alloc_consts del: length_0_conv)
  then have "ys \<noteq> []" "xs \<noteq> []" by simp_all
  have kd: "view ?db fk = Some (RList (xs @ ys), t)" using len(2) k by simp
  note tn = tonumber_consts
  let ?fin = "lua_teid_finish call nk (dec V_ID_BLK_SIZE)"
  obtain db2 where db2: "lua_lpop_loop call fk (length xs) [] ?fin ?db = ?fin ([] @ xs) db2"
    "view db2 = (view ?db)(fk \<mapsto> (RList ys, t))"
    using lpop_loop [OF c, of ?db fk xs ys t "[]" ?fin, OF kd \<open>ys \<noteq> []\<close>] by (elim exE conjE)
  show ?thesis
  proof (rule that [of db2])
    have "V_LUA_TEID_REFILL call [fk, nk] [dec V_ID_BLK_SIZE, dec V_TEID_FREE_FLOOR] db = ?fin xs db2"
      using db2(1) len(1) tn n by (simp add: V_LUA_TEID_REFILL_def redis_call_alt)
    then show "V_LUA_TEID_REFILL call [fk, nk] [dec V_ID_BLK_SIZE, dec V_TEID_FREE_FLOOR] db =
        (Reply_Array (Reply_String ''list'' # map Reply_String xs), db2)"
      using \<open>xs \<noteq> []\<close> by (simp add: lua_teid_finish_def)
  qed (use db2(2) len(2) in simp)
qed

text \<open>Below the floor, or with no free list at all, the identifiers come from the counter.\<close>

definition short_free_list :: "keyspace \<Rightarrow> string \<Rightarrow> bool" where
  "short_free_list ks k = (case ks k of
     None \<Rightarrow> True | Some (RList l, _) \<Rightarrow> length l \<le> V_TEID_FREE_FLOOR | _ \<Rightarrow> False)"

lemma script_from_counter:
  assumes c: "redis_conforms call view" and f: "short_free_list (view db) fk"
    and k: "view db nk = Some (RStr (dec n), t)" "n + V_ID_BLK_SIZE < 2 ^ 46"
  obtains db' where "V_LUA_TEID_REFILL call [fk, nk] [dec V_ID_BLK_SIZE, dec V_TEID_FREE_FLOOR] db =
      (Reply_Array [Reply_String ''range'', Reply_String (dec n), Reply_String (dec V_ID_BLK_SIZE)], db')"
    "view db' = (view db)(nk \<mapsto> (RStr (dec (n + V_ID_BLK_SIZE)), t))"
proof -
  let ?db = "snd (call db [''LLEN'', fk])"
  let ?inc = "[''INCRBY'', nk, dec V_ID_BLK_SIZE]"
  obtain l where len: "fst (call db [''LLEN'', fk]) = Reply_Integer l" "l \<le> int V_TEID_FREE_FLOOR" "view ?db = view db"
    using conforms_simps [OF c, where db = db and args = "[''LLEN'', fk]"] f
    by (auto simp: redis_LLEN_def short_free_list_def split: option.splits rval.splits)
  note tn = tonumber_consts
  have b: "n < 2 ^ 63" "n + V_ID_BLK_SIZE < 2 ^ 63" "n + V_ID_BLK_SIZE < 2 ^ 53" "n < 10 ^ 14"
    using k(2) by simp_all
  have "redis_spec (view ?db) ?inc =
      Some (Reply_Integer (int (n + V_ID_BLK_SIZE)), (view db)(nk \<mapsto> (RStr (dec (n + V_ID_BLK_SIZE)), t)))"
    using k(1) b(1,2) len(3)
    by (simp add: redis_INCRBY_def) (simp add: V_ID_BLK_SIZE_def flip: int_str_nat)
  then have inc: "fst (call ?db ?inc) = Reply_Integer (int (n + V_ID_BLK_SIZE))"
    "view (snd (call ?db ?inc)) = (view db)(nk \<mapsto> (RStr (dec (n + V_ID_BLK_SIZE)), t))"
    using conforms_simps [OF c, where db = ?db and args = ?inc] by simp_all
  have "dbl_int (int (n + V_ID_BLK_SIZE)) = int n + int V_ID_BLK_SIZE" "dbl_int (int n) = int n"
    using b by simp_all
  then have "lua_teid_finish call nk (dec V_ID_BLK_SIZE) [] ?db =
      (Reply_Array [Reply_String ''range'', Reply_String (dec n), Reply_String (dec V_ID_BLK_SIZE)], snd (call ?db ?inc))"
    using inc(1) tn(1) b(4) by (simp add: lua_teid_finish_def redis_call_alt lua_tostring_small)
  then have "V_LUA_TEID_REFILL call [fk, nk] [dec V_ID_BLK_SIZE, dec V_TEID_FREE_FLOOR] db =
      (Reply_Array [Reply_String ''range'', Reply_String (dec n), Reply_String (dec V_ID_BLK_SIZE)], snd (call ?db ?inc))"
    using len(1,2) tn by (simp add: V_LUA_TEID_REFILL_def redis_call_alt)
  then show ?thesis using inc(2) by (rule that)
qed

subsection \<open>Properties\<close>

lemma ucast_of_nat: "ucast (of_nat n :: u64) = (of_nat n :: u32)"
  by transfer simp

lemma ucast_ucast_u32: "ucast (ucast l :: u64) = l" for l :: u32
  by (rule bit_word_eqI) (auto simp: bit_ucast_iff)

lemma map_filter_all: "(\<And>x. x \<in> set xs \<Longrightarrow> f x = Some (g x)) \<Longrightarrow> List.map_filter f xs = map g xs"
  by (induction xs) auto

lemma floor_blk_str:
  "snprintf 8 (dec V_ID_BLK_SIZE) = dec V_ID_BLK_SIZE" "snprintf 8 (dec V_TEID_FREE_FLOOR) = dec V_TEID_FREE_FLOOR"
  using length_dec [of V_ID_BLK_SIZE 3] length_dec [of V_TEID_FREE_FLOOR 4] by (simp_all add: id_alloc_consts)

text \<open>The string \<^verbatim>\<open>v_teid_free\<close> pushes onto the free list.\<close>

definition freed_id :: "u32 \<Rightarrow> string" where
  "freed_id teid = dec (unat (v_teid_local teid))"

lemma parse_freed_id: "parse_u64 (Reply_String (freed_id t)) = Some (ucast (v_teid_local t))"
proof -
  have "unat (v_teid_local t) < 10 ^ 18" using teid_local_lt [of t] by simp
  then show ?thesis by (simp add: freed_id_def parse_u64_dec)
qed

lemma teid_entries:
  "(\<And>t. t \<in> set us \<Longrightarrow> v_teid_encode part (v_teid_local t) = Some t) \<Longrightarrow>
     List.map_filter (teid_entry part) (map (\<lambda>t. ucast (v_teid_local t)) us) = map ucast us"
  by (induction us) (auto simp: teid_entry_def ucast_ucast_u32)

text \<open>
  C33: a freed TEID comes back as itself, after a quarantine. While more than 1024 freed
  identifiers are waiting, a refill takes the 256 that were freed first and puts exactly those TEIDs,
  in that order, into the ring; the other freed identifiers keep their places, the counter and
  every other key keep their values, and no entry is lost to a full ring.
\<close>

theorem teid_refill_reuses_freed:
  assumes "ring_laws D elems usable" and "redis_conforms call view"
    and "teid_ring_inv elems usable part w" "g_teid_refill_inflight w part"
    and "view db (teid_free_key part) = Some (RList (map freed_id ts), ttl)"
    and "V_TEID_FREE_FLOOR < length ts"
    and "\<forall>t \<in> set ts. v_teid_encode part (v_teid_local t) = Some t"
  shows "\<exists>r db'.
    V_LUA_TEID_REFILL call [teid_free_key part, teid_next_key part]
      [snprintf 8 (dec V_ID_BLK_SIZE), snprintf 8 (dec V_TEID_FREE_FLOOR)] db = (r, db') \<and>
    view db' = (view db)(teid_free_key part \<mapsto> (RList (map freed_id (drop V_ID_BLK_SIZE ts)), ttl)) \<and>
    (let w' = teid_refill_reply_cb D RET_CODE_OK (Some r) part w
     in ring_list elems (g_teid_ring w' part) =
          ring_list elems (g_teid_ring w part) @ map ucast (take V_ID_BLK_SIZE ts) \<and>
        teid_ring_inv elems usable part w')"
proof -
  let ?xs = "map freed_id (take V_ID_BLK_SIZE ts)" and ?ys = "map freed_id (drop V_ID_BLK_SIZE ts)"
  let ?els = "map Reply_String ?xs"
  let ?ls = "map (\<lambda>e. the (parse_u64 e)) ?els"
  have k: "view db (teid_free_key part) = Some (RList (?xs @ ?ys), ttl)"
    using assms(5) by (simp flip: map_append)
  have n: "length ?xs = V_ID_BLK_SIZE" "V_TEID_FREE_FLOOR < length (?xs @ ?ys)"
    using assms(6) by (simp_all add: id_alloc_consts)
  obtain db' where db': "V_LUA_TEID_REFILL call [teid_free_key part, teid_next_key part]
      [dec V_ID_BLK_SIZE, dec V_TEID_FREE_FLOOR] db = (Reply_Array (Reply_String ''list'' # ?els), db')"
    "view db' = (view db)(teid_free_key part \<mapsto> (RList ?ys, ttl))"
    using assms(2) k n by (rule script_from_free_list)
  let ?w' = "teid_refill_reply_cb D RET_CODE_OK (Some (Reply_Array (Reply_String ''list'' # ?els))) part w"
  have ls: "?ls = map (\<lambda>t. ucast (v_teid_local t)) (take V_ID_BLK_SIZE ts)"
    by (simp add: comp_def parse_freed_id)
  have "List.map_filter (teid_entry part) ?ls = map ucast (take V_ID_BLK_SIZE ts)"
    unfolding ls using assms(7) by (intro teid_entries) (auto dest: in_set_takeD)
  moreover have "?w' = fold (enqueue_teid D part) ?ls
      (w\<lparr>g_teid_refill_inflight := (g_teid_refill_inflight w)(part := False)\<rparr>)"
    by (rule refill_reply_list) (auto simp: parse_freed_id)
  ultimately have "ring_list elems (g_teid_ring ?w' part) =
      ring_list elems (g_teid_ring w part) @ map ucast (take V_ID_BLK_SIZE ts)" "teid_ring_inv elems usable part ?w'"
    using refill_enqueues [OF assms(1,3,4), of ?ls ?w'] by simp_all
  with db' show ?thesis by (simp add: floor_blk_str)
qed

definition demo_teids :: "u32 list" where
  "demo_teids = map (\<lambda>i. teid_pack 3 (of_nat i)) [1 ..< 1030]"

lemma demo_teids_valid: "t \<in> set demo_teids \<Longrightarrow> v_teid_encode 3 (v_teid_local t) = Some t"
proof -
  assume "t \<in> set demo_teids"
  then obtain i where i: "1 \<le> i" "i < 1030" "t = teid_pack 3 (of_nat i)" by (auto simp: demo_teids_def)
  then have u: "unat (of_nat i :: u32) = i" by (simp add: unat_of_nat)
  then have "v_teid_local t = of_nat i" "of_nat i \<noteq> (0 :: u32)" using i by (auto simp: teid_local_pack)
  then show ?thesis using i u by (simp add: teid_encode_eq)
qed

theorem teid_refill_reuses_freed_witness:
  "\<exists>r db'. V_LUA_TEID_REFILL spec_redis [teid_free_key 3, teid_next_key 3]
      [snprintf 8 (dec V_ID_BLK_SIZE), snprintf 8 (dec V_TEID_FREE_FLOOR)]
      (Map.empty(teid_free_key 3 \<mapsto> (RList (map freed_id demo_teids), None))) = (r, db') \<and>
    ring_list snd (g_teid_ring (teid_refill_reply_cb list_dpdk RET_CODE_OK (Some r) 3 (demo_id ())) 3) =
      map ucast (take V_ID_BLK_SIZE demo_teids)"
proof -
  have i: "teid_ring_inv snd fst 3 (demo_id ())" "g_teid_refill_inflight (demo_id ()) 3"
    by (simp_all add: teid_ring_inv_def demo_id_def demo_script_def id_alloc_consts)
  have "V_TEID_FREE_FLOOR < length demo_teids" by (simp add: demo_teids_def id_alloc_consts)
  from teid_refill_reuses_freed [OF list_ring_laws spec_redis_conforms i _ this,
      of "Map.empty(teid_free_key 3 \<mapsto> (RList (map freed_id demo_teids), None))" None] demo_teids_valid
  show ?thesis by (auto simp: Let_def demo_id_def demo_script_def)
qed

text \<open>
  C34: fresh TEIDs. When at most 1024 freed identifiers are waiting, a refill advances the
  partition's counter by a block and the ring receives the TEIDs of exactly the local indices the
  counter ran over. The counter starts at 1, so local index 0 is never among them.
\<close>

theorem teid_refill_fresh_block:
  assumes "ring_laws D elems usable" and "redis_conforms call view"
    and "teid_ring_inv elems usable part w" "g_teid_refill_inflight w part" "unat part < V_NUM_PARTS"
    and "short_free_list (view db) (teid_free_key part)"
    and "view db (teid_next_key part) = Some (RStr (dec n), ttl)" "0 < n" "n + V_ID_BLK_SIZE \<le> 2 ^ 21"
  shows "\<exists>r db'.
    V_LUA_TEID_REFILL call [teid_free_key part, teid_next_key part]
      [snprintf 8 (dec V_ID_BLK_SIZE), snprintf 8 (dec V_TEID_FREE_FLOOR)] db = (r, db') \<and>
    view db' = (view db)(teid_next_key part \<mapsto> (RStr (dec (n + V_ID_BLK_SIZE)), ttl)) \<and>
    (let w' = teid_refill_reply_cb D RET_CODE_OK (Some r) part w
     in ring_list elems (g_teid_ring w' part) =
          ring_list elems (g_teid_ring w part) @
            map (\<lambda>i. ucast (the (v_teid_encode part (of_nat i)))) [n ..< n + V_ID_BLK_SIZE] \<and>
        teid_ring_inv elems usable part w')"
proof -
  have n: "n + V_ID_BLK_SIZE < 2 ^ 46" "n < 10 ^ 18" using assms(9) by (simp_all add: V_ID_BLK_SIZE_def)
  obtain db' where db': "V_LUA_TEID_REFILL call [teid_free_key part, teid_next_key part]
      [dec V_ID_BLK_SIZE, dec V_TEID_FREE_FLOOR] db =
      (Reply_Array [Reply_String ''range'', Reply_String (dec n), Reply_String (dec V_ID_BLK_SIZE)], db')"
    "view db' = (view db)(teid_next_key part \<mapsto> (RStr (dec (n + V_ID_BLK_SIZE)), ttl))"
    using assms(2,6,7) n(1) by (rule script_from_counter)
  let ?r = "Reply_Array [Reply_String ''range'', Reply_String (dec n), Reply_String (dec V_ID_BLK_SIZE)]"
  let ?w' = "teid_refill_reply_cb D RET_CODE_OK (Some ?r) part w"
  let ?ls = "map (\<lambda>i. of_nat n + of_nat i :: u64) [0 ..< V_ID_BLK_SIZE]"
  have blk: "parse_u64 (Reply_String (dec V_ID_BLK_SIZE)) = Some 256"
    by (subst parse_u64_dec) (simp_all add: V_ID_BLK_SIZE_def)
  have w': "?w' = fold (enqueue_teid D part) ?ls
      (w\<lparr>g_teid_refill_inflight := (g_teid_refill_inflight w)(part := False)\<rparr>)"
    using refill_reply_range [OF parse_u64_dec [OF n(2)] blk, of D part w] by (simp add: V_ID_BLK_SIZE_def)
  have ls: "?ls = map of_nat [n ..< n + V_ID_BLK_SIZE]"
    by (simp add: add.commute map_add_upt [symmetric, of n] comp_def)
  have "teid_entry part (of_nat i) = Some (ucast (the (v_teid_encode part (of_nat i))))"
    if "i \<in> set [n ..< n + V_ID_BLK_SIZE]" for i
  proof -
    have i: "0 < i" "i < 2 ^ 21" using that assms(8,9) by auto
    then have "unat (of_nat i :: u32) = i" by (simp add: unat_of_nat)
    moreover from this i have "of_nat i \<noteq> (0 :: u32)" by (metis unat_0 less_not_refl)
    ultimately have "\<exists>t. v_teid_encode part (of_nat i) = Some t"
      using i assms(5) by (simp add: teid_encode_eq V_NUM_PARTS_def)
    then show ?thesis by (auto simp: teid_entry_def ucast_of_nat)
  qed
  then have "List.map_filter (teid_entry part) ?ls =
      map (\<lambda>i. ucast (the (v_teid_encode part (of_nat i)))) [n ..< n + V_ID_BLK_SIZE]"
    unfolding ls by (subst map_filter_all [where g = "\<lambda>l. the (teid_entry part l)"]) auto
  with refill_enqueues [OF assms(1,3,4) _ w'] have
    "ring_list elems (g_teid_ring ?w' part) = ring_list elems (g_teid_ring w part) @
        map (\<lambda>i. ucast (the (v_teid_encode part (of_nat i)))) [n ..< n + V_ID_BLK_SIZE]"
    "teid_ring_inv elems usable part ?w'" by simp_all
  with db' show ?thesis by (simp add: floor_blk_str)
qed

theorem teid_refill_fresh_block_witness:
  "\<exists>r db'. V_LUA_TEID_REFILL spec_redis [teid_free_key 3, teid_next_key 3]
      [snprintf 8 (dec V_ID_BLK_SIZE), snprintf 8 (dec V_TEID_FREE_FLOOR)]
      (Map.empty(teid_next_key 3 \<mapsto> (RStr (dec 1), None))) = (r, db') \<and>
    length (ring_list snd (g_teid_ring (teid_refill_reply_cb list_dpdk RET_CODE_OK (Some r) 3 (demo_id ())) 3)) = 256"
proof -
  have i: "teid_ring_inv snd fst 3 (demo_id ())" "g_teid_refill_inflight (demo_id ()) 3"
    by (simp_all add: teid_ring_inv_def demo_id_def demo_script_def id_alloc_consts)
  have "teid_free_key 3 \<noteq> teid_next_key 3"
    by (simp add: teid_free_key_def teid_next_key_def snprintf_def dec_small)
  with teid_refill_fresh_block [OF list_ring_laws spec_redis_conforms i,
      of "Map.empty(teid_next_key 3 \<mapsto> (RStr (dec 1), None))" 1 None]
  show ?thesis
    by (auto simp: Let_def demo_id_def demo_script_def id_alloc_consts short_free_list_def V_NUM_PARTS_def)
qed

end
