(* ===== verification/Call_depth.thy ===== *)
theory Call_depth
  imports Ownership
begin

section \<open>How deep callbacks nest\<close>

text \<open>
  \<^verbatim>\<open>db_call_at\<close> bounds the nesting of calls through callback pointers. The bound of \<open>db_call\<close> is no
  restriction: with any greater one a callback does the same. The reason is in the code: the
  only callbacks called synchronously are those passed to \<^verbatim>\<open>v_db_evalsha\<close>, when its dispatch
  fails, and on an error none of them makes another script call.
\<close>

definition agree_err :: "('r, 'p, 'h, 'a) flow_st_scheme db_call \<Rightarrow> ('r, 'p, 'h, 'a) flow_st_scheme db_call \<Rightarrow> bool" where
  "agree_err cc cc' \<longleftrightarrow> (\<forall>u rep w. script_user u \<longrightarrow> cc u RET_CODE_ERR rep w = cc' u RET_CODE_ERR rep w)"

subsection \<open>Script calls\<close>

lemma issue_evalsha_cong:
  assumes "agree_err cc cc'" and "\<And>u. ev_user_cb (evalsha_at w p) = Some u \<Longrightarrow> script_user u"
  shows "issue_evalsha D hi cc p w = issue_evalsha D hi cc' p w"
proof -
  have e: "evalsha_at (snd (v_port_db_cmd D hi s cb args w)) = evalsha_at w" for s cb args
    by (rule db_cmd_frame) simp_all
  have "call_opt cc (ev_user_cb (evalsha_at w p)) RET_CODE_ERR None v = call_opt cc' (ev_user_cb (evalsha_at w p)) RET_CODE_ERR None v" for v
    using assms by (auto simp: call_opt_def agree_err_def split: option.split)
  then show ?thesis
    using e [of "ev_shard (evalsha_at w p)" "Evalsha_reply_cb p" "ev_parts (evalsha_at w p)"]
    by (simp add: issue_evalsha_def v_port_db_cmd_argv_def split_beta Let_def)
qed

lemma evalsha_cong:
  assumes a: "agree_err cc cc'" and u: "script_user u"
  shows "v_db_evalsha D hi cc shard i keys argv u w = v_db_evalsha D hi cc' shard i keys argv u w"
  unfolding v_db_evalsha_def by (auto simp: Let_def u intro!: issue_evalsha_cong [OF a] split: option.split)

lemma store_cong:
  assumes "agree_err cc cc'"
  shows "v_sess_cas_write D hi cc = v_sess_cas_write D hi cc'" "v_sess_delete D hi cc = v_sess_delete D hi cc'"
    "v_teid_alloc D hi cc = v_teid_alloc D hi cc'"
proof -
  have e: "v_db_evalsha D hi cc s i ks as (Cas_write_reply_cb p) w = v_db_evalsha D hi cc' s i ks as (Cas_write_reply_cb p) w"
    "v_db_evalsha D hi cc s i ks as (Delete_reply_cb p) w = v_db_evalsha D hi cc' s i ks as (Delete_reply_cb p) w"
    "v_db_evalsha D hi cc s i ks as (Teid_refill_reply_cb part) w = v_db_evalsha D hi cc' s i ks as (Teid_refill_reply_cb part) w"
    for s i ks as p part w by (simp_all add: evalsha_cong [OF assms])
  show "v_sess_cas_write D hi cc = v_sess_cas_write D hi cc'" by (intro ext) (unfold v_sess_cas_write_def e, rule refl)
  show "v_sess_delete D hi cc = v_sess_delete D hi cc'" by (intro ext) (unfold v_sess_delete_def e, rule refl)
  show "v_teid_alloc D hi cc = v_teid_alloc D hi cc'"
    by (intro ext) (unfold v_teid_alloc_def teid_maybe_refill_def e, rule refl)
qed

subsection \<open>Callbacks\<close>

lemma flow_cong:
  assumes "agree_err cc cc'"
  shows "vdp_call D hi cc = vdp_call D hi cc'" "read_call D hi cc = read_call D hi cc'"
    "cas_call D hi cc = cas_call D hi cc'" "retrans_call D hi cc = retrans_call D hi cc'"
proof -
  note s = store_cong [OF assms]
  show v: "vdp_call D hi cc = vdp_call D hi cc'"
  proof (intro ext)
    fix cb res w show "vdp_call D hi cc cb res w = vdp_call D hi cc' cb res w"
      by (cases cb; simp only: vdp_call.simps; unfold vdp_create_cb_def mod_vdp_cb_def del_vdp_cb_def s; rule refl)
  qed
  show "read_call D hi cc = read_call D hi cc'"
  proof (intro ext)
    fix cb st f c ver w show "read_call D hi cc cb st f c ver w = read_call D hi cc' cb st f c ver w"
      by (cases cb; simp only: read_call.simps; unfold mod_read_cb_def del_read_cb_def s v; rule refl)
  qed
  show "cas_call D hi cc = cas_call D hi cc'"
  proof (intro ext)
    fix cb st r ver w show "cas_call D hi cc cb st r ver w = cas_call D hi cc' cb st r ver w"
      by (cases cb; simp only: cas_call.simps; unfold cas_write_cb_def mod_cas_cb_def s v; rule refl)
  qed
  show "retrans_call D hi cc = retrans_call D hi cc'"
  proof (intro ext)
    fix cb st h r w show "retrans_call D hi cc cb st h r w = retrans_call D hi cc' cb st h r w"
      by (cases cb; simp only: retrans_call.simps; unfold retrans_lookup_cb_def s; rule refl)
  qed
qed

text \<open>On an error the users of script calls do not call back at all.\<close>

lemma cas_call_err: "st \<noteq> RET_CODE_OK \<Longrightarrow> cas_call D hi cc cb st r ver w = cas_call D hi cc' cb st r ver w"
  by (cases cb) (simp_all add: cas_write_cb_def mod_cas_cb_def)

lemma err_agree: "agree_err (db_callback D hi now cc) (db_callback D hi now cc')"
  unfolding agree_err_def
proof (intro allI impI)
  fix u rep w assume u: "script_user u"
  have e: "RET_CODE_ERR \<noteq> RET_CODE_OK" by (simp add: RET_CODE_OK_def RET_CODE_ERR_def)
  have c: "cas_call D hi cc cb RET_CODE_ERR r ver v = cas_call D hi cc' cb RET_CODE_ERR r ver v" for cb r ver v
    by (rule cas_call_err [OF e])
  show "db_callback D hi now cc u RET_CODE_ERR rep w = db_callback D hi now cc' u RET_CODE_ERR rep w"
    using u by (cases u) (simp_all add: cas_write_reply_cb_def delete_reply_cb_def e c split: v_sess_pending.split)
qed

text \<open>A callback agrees with itself one level deeper.\<close>

lemma user_cong:
  assumes "agree_err cc cc'" and "script_user u"
  shows "db_callback D hi now cc u st rep w = db_callback D hi now cc' u st rep w"
  using assms(2) flow_cong(3) [OF assms(1), of D hi] by (cases u) simp_all

lemma callback_cong:
  assumes a: "agree_err cc cc'" and s: "\<And>u v. script_user u \<Longrightarrow> cc u st rep v = cc' u st rep v" and ok: "cb_ok w cb"
  shows "db_callback D hi now cc cb st rep w = db_callback D hi now cc' cb st rep w"
proof (cases cb)
  case (Evalsha_reply_cb p)
  have u: "script_user u" if "ev_user_cb (evalsha_at w p) = Some u" for u
    using ok that Evalsha_reply_cb by (simp add: ev_ok_def)
  have e: "evalsha_at (snd (request_script_load D hi s i r v)) = evalsha_at v" for s i r v
    by (simp add: request_script_load_def load_put_def Let_def frame_simps split_beta split: option.split)
  show ?thesis using Evalsha_reply_cb a s u
    by (auto simp: e evalsha_reply_cb_def call_opt_def agree_err_def Let_def split_beta split: option.split)
next
  case (Load_reply_cb lc)
  have u: "script_user u" if "lc_resume (load_at w lc) = Some p" "ev_user_cb (evalsha_at w p) = Some u" for p u
    using ok that Load_reply_cb by (simp add: ev_ok_def)
  show ?thesis using Load_reply_cb a u
    by (auto simp: load_reply_cb_def call_opt_def agree_err_def Let_def intro!: issue_evalsha_cong [OF a] arg_cong [where f = "load_put D lc"]
        split: option.split v_db_reply.split)
qed (simp_all add: flow_cong [OF a])

subsection \<open>Properties\<close>

text \<open>
  C20: three levels of nesting are all there are. For a callback that waits in a state as the
  flows leave it, calling it with a nesting bound of three or of any greater number does the
  same, whatever the status and reply.
\<close>

theorem call_depth_three_suffices:
  assumes "cb_ok w cb"
  shows "db_call_at D hi now (3 + n) cb st rep w = db_call D hi now cb st rep w"
proof -
  have one: "db_call_at D hi now (Suc k) = db_callback D hi now (db_call_at D hi now k)" for k by (rule db_call_at.simps(2))
  have a: "agree_err (db_call_at D hi now (Suc k)) (db_call_at D hi now (Suc j))" for k j unfolding one by (rule err_agree)
  have u: "db_call_at D hi now (Suc (Suc k)) u s r v = db_call_at D hi now (Suc (Suc j)) u s r v" if "script_user u" for k j u s r v
    unfolding one [of "Suc k"] one [of "Suc j"] by (rule user_cong [OF a that])
  have "db_call_at D hi now (Suc (Suc (Suc n))) cb st rep w = db_call_at D hi now (Suc (Suc (Suc 0))) cb st rep w"
    unfolding one [of "Suc (Suc n)"] one [of "Suc (Suc 0)"] by (rule callback_cong [OF a u assms])
  then show ?thesis by (simp add: db_call_def numeral_3_eq_3)
qed

theorem call_depth_three_suffices_witness:
  "db_call_at list_dpdk list_hiredis 0 (3 + 4) (Cas_write_reply_cb 70) RET_CODE_OK (Some (Reply_Integer 1)) (demo_flow ()) =
   db_call list_dpdk list_hiredis 0 (Cas_write_reply_cb 70) RET_CODE_OK (Some (Reply_Integer 1)) (demo_flow ())"
proof -
  have "cb_ok (demo_flow ()) (Cas_write_reply_cb 70)" by (simp add: demo_flow_defs zero_txn_def)
  then show ?thesis by (rule call_depth_three_suffices)
qed

end
