(* ===== verification/Exchange.thy ===== *)
theory Exchange
  imports Worker
begin

section \<open>One request, one exchange at a time\<close>

text \<open>
  A pod with a single command on the way: the command goes out when nothing waits, the server
  executes it, its reply runs the callback, which may send the next one. The lemmas give the state
  after each of these steps exactly, so that a flow can be followed from its first command to its
  answer. \<open>server_laws\<close> is the server: it executes the documented commands as \<open>redis_conforms\<close> says
  and runs the script whose SHA an EVALSHA names.
\<close>

subsection \<open>The server\<close>

definition answers :: "'s server \<Rightarrow> 's \<Rightarrow> string list \<Rightarrow> v_db_reply \<times> 's \<Rightarrow> bool" where
  "answers serve s args x \<longleftrightarrow>
     flat_reply (fst (serve s args)) \<and> fst (serve s args) \<noteq> H_null \<and>
     spec_reply (fst (serve s args)) = fst x \<and> snd (serve s args) = snd x"

definition server_laws ::
    "'s server \<Rightarrow> 's redis \<Rightarrow> ('s \<Rightarrow> keyspace) \<Rightarrow> (nat \<Rightarrow> string) \<Rightarrow> bool" where
  "server_laws serve call view sha \<longleftrightarrow>
     redis_conforms call view \<and>
     (\<forall>s args. redis_spec (view s) args \<noteq> None \<longrightarrow> answers serve s args (call s args)) \<and>
     (\<forall>s k as. answers serve s (''EVALSHA'' # sha V_SCRIPT_SESS_CAS_WRITE # dec 1 # k # as) (V_LUA_SESS_CAS_WRITE call [k] as s)) \<and>
     (\<forall>s k as. answers serve s (''EVALSHA'' # sha V_SCRIPT_SESS_DELETE # dec 1 # k # as) (V_LUA_SESS_DELETE call [k] as s))"

lemma server_lawsD:
  assumes "server_laws serve call view sha"
  shows "redis_conforms call view"
    "redis_spec (view s) args \<noteq> None \<Longrightarrow> answers serve s args (call s args)"
    "answers serve s (''EVALSHA'' # sha V_SCRIPT_SESS_CAS_WRITE # dec 1 # k # as) (V_LUA_SESS_CAS_WRITE call [k] as s)"
    "answers serve s (''EVALSHA'' # sha V_SCRIPT_SESS_DELETE # dec 1 # k # as) (V_LUA_SESS_DELETE call [k] as s)"
  using assms unfolding server_laws_def by blast+

subsection \<open>Commands and replies\<close>

definition quiet :: "('h \<Rightarrow> (string list \<times> ptr) list) \<Rightarrow> ('r, 'p, 'h, 'a) db_st_scheme \<Rightarrow> bool" where
  "quiet waiting w \<longleftrightarrow> (\<forall>s < V_STUB_DB_SHARDS. \<exists>h. g_ctx w s = Some h \<and> waiting h = [])"

definition one_waits ::
    "('h \<Rightarrow> (string list \<times> ptr) list) \<Rightarrow> ('r, 'p, 'h, 'a) db_st_scheme \<Rightarrow> nat \<Rightarrow> string list \<Rightarrow> ptr \<Rightarrow> v_db_cb \<Rightarrow> bool" where
  "one_waits waiting w s args q cb \<longleftrightarrow>
     s < V_STUB_DB_SHARDS \<and> (\<exists>h. g_ctx w s = Some h \<and> waiting h = [(args, q)]) \<and>
     pend_cb (db_pending_at w q) = Some cb \<and>
     (\<forall>s' < V_STUB_DB_SHARDS. s' \<noteq> s \<longrightarrow> (\<exists>h. g_ctx w s' = Some h \<and> waiting h = []))"

lemma quiet_cong: "g_ctx w' = g_ctx w \<Longrightarrow> quiet waiting w' = quiet waiting w"
  by (simp add: quiet_def)

lemma one_waits_cong:
  "g_ctx w' = g_ctx w \<Longrightarrow> db_pending_at w' = db_pending_at w \<Longrightarrow> one_waits waiting w' s args q cb = one_waits waiting w s args q cb"
  by (simp add: one_waits_def)

lemma queued_alone:
  assumes "quiet waiting w" and "queued waiting s args cb w v" and "s < V_STUB_DB_SHARDS"
  shows "\<exists>q. one_waits waiting v s args q cb"
  using assms by (auto simp: queued_def one_waits_def quiet_def) (metis append_Nil option.inject)

lemma pool_take:
  assumes "pool_laws D free" and "pool_set free p \<noteq> {}"
  obtains x p' where "pool_get D p = Some (x, p')" "x \<in> pool_set free p" "free p' = pool_set free p - {x}"
proof -
  obtain x p' where g: "pool_get D p = Some (x, p')"
    using assms pool_get_opt_None [OF assms(1), of p] by (cases "pool_get D p") auto
  with assms(1) have "x \<in> pool_set free p \<and> free p' = pool_set free p - {x}"
    by (auto simp: pool_get_def dest: pool_get_Some split: option.splits)
  with g that show ?thesis by blast
qed

lemma pool_put_set: "pool_laws D free \<Longrightarrow> p \<noteq> None \<Longrightarrow> pool_set free (pool_put D x p) = insert x (pool_set free p)"
  by (auto simp: pool_put_def)

text \<open>A command sent when nothing waits is accepted and waits alone.\<close>

lemma command_sent:
  fixes w :: "('r, 'p, 'h, 'a) db_st_scheme"
  assumes l: "hiredis_laws hi waiting" "hiredis_accepts hi" and q: "quiet waiting w" and s: "unat shard < V_STUB_DB_SHARDS"
    and p: "pool_laws D free" "pool_set free (g_db_pool w) \<noteq> {}"
  obtains x pool c where
    "v_port_db_cmd D hi shard cb args w =
       (RET_CODE_OK, w\<lparr>g_db_pool := Some pool, db_pending_at := (db_pending_at w)(x := \<lparr>pend_cb = Some cb\<rparr>), g_ctx := c\<rparr>)"
    "\<And>v :: ('r, 'p, 'h, 'a) db_st_scheme. g_ctx v = c \<Longrightarrow> db_pending_at v x = \<lparr>pend_cb = Some cb\<rparr> \<Longrightarrow> one_waits waiting v (unat shard) args x cb"
    "free pool = pool_set free (g_db_pool w) - {x}"
proof -
  obtain x pool where x: "pool_get D (g_db_pool w) = Some (x, pool)" "free pool = pool_set free (g_db_pool w) - {x}"
    using p by (rule pool_take)
  obtain h where h: "g_ctx w (unat shard) = Some h" "waiting h = []" using q s by (auto simp: quiet_def)
  obtain h' where h': "redisAsyncCommand hi h args x = Some h'"
    using l(2) unfolding hiredis_accepts_def by (metis option.exhaust)
  then have "waiting h' = [(args, x)]" using l(1) h(2) by (simp add: hiredis_laws_def)
  with h h' s x q show ?thesis
    by (intro that [where x = x and pool = pool and c = "(g_ctx w)(unat shard := Some h')"])
      (auto simp: v_port_db_cmd_def db_pending_get_def one_waits_def quiet_def)
qed

text \<open>The server executes the waiting command; its callback runs when nothing waits any more.\<close>

lemma reply_runs:
  fixes w :: "('r, 'p, 'h, 'a) db_st_scheme"
  assumes nr: "next_reply_laws nr waiting" and o: "one_waits waiting w s args q cb"
    and l: "length (g_scratch w) = V_STUB_DB_REPLY_SCRATCH_CAP" and a: "answers serve srv args (r, srv')"
  obtains c g used where "\<And>v. g_ctx v = c \<Longrightarrow> quiet waiting (v :: ('r, 'p, 'h, 'a) db_st_scheme)"
    "length g = V_STUB_DB_REPLY_SCRATCH_CAP"
    "pump D nr serve cc s (srv, w) =
       (srv', let w2 = cc cb RET_CODE_OK (Some r) (w\<lparr>g_ctx := c, g_scratch := g, g_scratch_used := used\<rparr>)
              in w2\<lparr>g_db_pool := pool_put D q (g_db_pool w2)\<rparr>)"
proof -
  obtain h where h: "g_ctx w s = Some h" "waiting h = [(args, q)]" "pend_cb (db_pending_at w q) = Some cb"
    "s < V_STUB_DB_SHARDS" using o by (auto simp: one_waits_def)
  obtain h' where h': "nr h = Some ((args, q), h')" "waiting h' = []" using nr h(2) by (rule next_replyE)
  obtain hr where hr: "serve srv args = (hr, srv')" "flat_reply hr" "hr \<noteq> H_null" "spec_reply hr = r"
    using a by (cases "serve srv args") (auto simp: answers_def)
  let ?w = "w\<lparr>g_ctx := (g_ctx w)(s := Some h')\<rparr>"
  have "length (g_scratch ?w) = V_STUB_DB_REPLY_SCRATCH_CAP" "pend_cb (db_pending_at ?w q) = Some cb"
    using l h(3) by simp_all
  from this(1) hr(2) this(2) obtain g used where g: "length g = V_STUB_DB_REPLY_SCRATCH_CAP"
    "on_reply D cc hr q ?w =
      (let w1 = ?w\<lparr>g_scratch := g, g_scratch_used := used\<rparr>;
           w2 = (if hr = H_null then cc cb RET_CODE_ERR None w1 else cc cb RET_CODE_OK (Some (spec_reply hr)) w1)
       in w2\<lparr>g_db_pool := pool_put D q (g_db_pool w2)\<rparr>)"
    by (rule on_reply_flat)
  show ?thesis
  proof (rule that [where c = "(g_ctx w)(s := Some h')" and g = g and used = used])
    show "quiet waiting v" if "g_ctx v = (g_ctx w)(s := Some h')" for v :: "('r, 'p, 'h, 'a) db_st_scheme"
      using o h'(2) that by (auto simp: quiet_def one_waits_def)
    show "pump D nr serve cc s (srv, w) =
       (srv', let w2 = cc cb RET_CODE_OK (Some r) (w\<lparr>g_ctx := (g_ctx w)(s := Some h'), g_scratch := g, g_scratch_used := used\<rparr>)
              in w2\<lparr>g_db_pool := pool_put D q (g_db_pool w2)\<rparr>)"
      using g(2) h h'(1) hr by (simp add: pump_def Let_def)
  qed (rule g(1))
qed

lemma evalsha_sent:
  fixes w :: "('r, 'p, 'h, 'a) script_st_scheme"
  assumes l: "hiredis_laws hi waiting" "hiredis_accepts hi" and q: "quiet waiting w" and s: "unat shard < V_STUB_DB_SHARDS"
    and p: "pool_laws D free" "pool_set free (g_db_pool w) \<noteq> {}" "pool_set free (g_evalsha_pool w) \<noteq> {}"
    and ok: "evalsha_ok shard i keys argv w"
  obtains e epool x pool c where
    "v_db_evalsha D hi cc shard i keys argv cb w =
       (RET_CODE_OK, w\<lparr>g_evalsha_pool := Some epool, evalsha_at := (evalsha_at w)(e := evalsha_pending_of shard i keys argv cb w),
          g_db_pool := Some pool, db_pending_at := (db_pending_at w)(x := \<lparr>pend_cb = Some (Evalsha_reply_cb e)\<rparr>), g_ctx := c\<rparr>)"
    "\<And>v :: ('r, 'p, 'h, 'a) script_st_scheme. g_ctx v = c \<Longrightarrow> db_pending_at v x = \<lparr>pend_cb = Some (Evalsha_reply_cb e)\<rparr> \<Longrightarrow>
       one_waits waiting v (unat shard) (ev_parts (evalsha_pending_of shard i keys argv cb w)) x (Evalsha_reply_cb e)"
    "free pool = pool_set free (g_db_pool w) - {x}"
proof -
  obtain e epool where e: "pool_get D (g_evalsha_pool w) = Some (e, epool)" using p(1,3) by (rule pool_take)
  define E where "E = evalsha_pending_of shard i keys argv cb w"
  define w1 where "w1 = w\<lparr>g_evalsha_pool := Some epool, evalsha_at := (evalsha_at w)(e := E)\<rparr>"
  have w1: "quiet waiting w1" "pool_set free (g_db_pool w1) \<noteq> {}" using q p(2) by (simp_all add: w1_def quiet_def)
  obtain x pool c where x: "v_port_db_cmd D hi shard (Evalsha_reply_cb e) (ev_parts E) w1 =
       (RET_CODE_OK, w1\<lparr>g_db_pool := Some pool, db_pending_at := (db_pending_at w1)(x := \<lparr>pend_cb = Some (Evalsha_reply_cb e)\<rparr>), g_ctx := c\<rparr>)"
    "\<And>v :: ('r, 'p, 'h, 'a) script_st_scheme. g_ctx v = c \<Longrightarrow> db_pending_at v x = \<lparr>pend_cb = Some (Evalsha_reply_cb e)\<rparr> \<Longrightarrow>
       one_waits waiting v (unat shard) (ev_parts E) x (Evalsha_reply_cb e)"
    "free pool = pool_set free (g_db_pool w1) - {x}"
    using l w1(1) s p(1) w1(2) by (rule command_sent [where cb = "Evalsha_reply_cb e" and args = "ev_parts E"]) blast
  have "v_db_evalsha D hi cc shard i keys argv cb w = (RET_CODE_OK, issue_evalsha D hi cc e w1)"
    unfolding w1_def E_def by (rule evalsha_taken [OF ok e])
  also have "issue_evalsha D hi cc e w1 =
      w1\<lparr>g_db_pool := Some pool, db_pending_at := (db_pending_at w1)(x := \<lparr>pend_cb = Some (Evalsha_reply_cb e)\<rparr>), g_ctx := c\<rparr>"
    using x(1) by (simp add: issue_evalsha_def v_port_db_cmd_argv_def w1_def E_def evalsha_pending_of_def)
  finally show ?thesis using x(2,3) by (intro that [where e = e and epool = epool and x = x and pool = pool and c = c]) (simp_all add: w1_def E_def)
qed

subsection \<open>Requests of the stores\<close>

text \<open>The objects a pool that is created on first use has for its next client.\<close>

definition stock :: "('r, 'p) dpdk \<Rightarrow> ('p \<Rightarrow> ptr set) \<Rightarrow> nat \<Rightarrow> 'p option \<Rightarrow> ptr set" where
  "stock D free cap p = pool_set free (case p of None \<Rightarrow> rte_mempool_create D cap | Some _ \<Rightarrow> p)"

lemma stock_Some [simp]: "stock D free cap (Some p) = free p"
  by (simp add: stock_def)

lemma sess_object:
  assumes "pool_laws D free" and "stock D free V_SESS_PENDING_POOL_CAP (g_sess_pool w) \<noteq> {}"
  obtains p pool0 pool where "ensure_pool D w = (RET_CODE_OK, w\<lparr>g_sess_pool := Some pool0\<rparr>)"
    "sess_get D u (w\<lparr>g_sess_pool := Some pool0\<rparr>) =
       Some (p, w\<lparr>g_sess_pool := Some pool, sess_pending_at := (sess_pending_at w)(p := u)\<rparr>)"
    "free pool = stock D free V_SESS_PENDING_POOL_CAP (g_sess_pool w) - {p}"
    "p \<in> stock D free V_SESS_PENDING_POOL_CAP (g_sess_pool w)"
proof -
  obtain pool0 where e: "ensure_pool D w = (RET_CODE_OK, w\<lparr>g_sess_pool := Some pool0\<rparr>)"
    "stock D free V_SESS_PENDING_POOL_CAP (g_sess_pool w) = free pool0"
  proof (cases "g_sess_pool w")
    case None
    then obtain sp where "rte_mempool_create D V_SESS_PENDING_POOL_CAP = Some sp"
      using assms(2) by (cases "rte_mempool_create D V_SESS_PENDING_POOL_CAP") (auto simp: stock_def)
    then show ?thesis using None by (intro that [of sp]) (simp_all add: ensure_pool_def stock_def)
  next
    case (Some sp)
    then have "w\<lparr>g_sess_pool := Some sp\<rparr> = w" by (metis sess_st.surjective sess_st.update_convs(1))
    then show ?thesis using Some by (intro that [of sp]) (simp_all add: ensure_pool_def)
  qed
  then have "pool_set free (Some pool0) \<noteq> {}" using assms(2) by simp
  with assms(1) obtain p pool where "pool_get D (Some pool0) = Some (p, pool)" "p \<in> pool_set free (Some pool0)" "free pool = pool_set free (Some pool0) - {p}"
    by (rule pool_take)
  then show ?thesis using e by (intro that [of pool0 p pool]) (simp_all add: sess_get_def)
qed

lemma lookup_sent:
  fixes w :: "('r, 'p, 'h, 'a) retrans_st_scheme"
  assumes l: "hiredis_laws hi waiting" "hiredis_accepts hi" and q: "quiet waiting w"
    and p: "pool_laws D free" "pool_set free (g_db_pool w) \<noteq> {}"
      "stock D free V_RETRANS_PENDING_POOL_CAP (g_retrans_pool w) \<noteq> {}"
    and key: "key = retrans_key part f seq"
  obtains r rpool x pool c where
    "v_retrans_lookup D hi part f seq cb w =
       (RET_CODE_OK, w\<lparr>g_retrans_pool := Some rpool, retrans_pending_at := (retrans_pending_at w)(r := cb),
          g_db_pool := Some pool, db_pending_at := (db_pending_at w)(x := \<lparr>pend_cb = Some (Lookup_reply_cb r)\<rparr>), g_ctx := c\<rparr>)"
    "\<And>v :: ('r, 'p, 'h, 'a) retrans_st_scheme. g_ctx v = c \<Longrightarrow> db_pending_at v x = \<lparr>pend_cb = Some (Lookup_reply_cb r)\<rparr> \<Longrightarrow>
       one_waits waiting v (unat (v_port_db_shard_of key)) [''GET'', key] x (Lookup_reply_cb r)"
    "free pool = pool_set free (g_db_pool w) - {x}"
proof -
  obtain pool0 where e: "ensure_retrans_pool D w = (RET_CODE_OK, w\<lparr>g_retrans_pool := Some pool0\<rparr>)"
    "stock D free V_RETRANS_PENDING_POOL_CAP (g_retrans_pool w) = free pool0"
  proof (cases "g_retrans_pool w")
    case None
    then obtain sp where "rte_mempool_create D V_RETRANS_PENDING_POOL_CAP = Some sp"
      using p(3) by (cases "rte_mempool_create D V_RETRANS_PENDING_POOL_CAP") (auto simp: stock_def)
    then show ?thesis using None by (intro that [of sp]) (simp_all add: ensure_retrans_pool_def stock_def)
  next
    case (Some sp)
    then have "w\<lparr>g_retrans_pool := Some sp\<rparr> = w" by (metis retrans_st.surjective retrans_st.update_convs(1))
    then show ?thesis using Some by (intro that [of sp]) (simp_all add: ensure_retrans_pool_def)
  qed
  then have "pool_set free (Some pool0) \<noteq> {}" using p(3) by simp
  with p(1) obtain r rpool where r: "pool_get D (Some pool0) = Some (r, rpool)" by (rule pool_take)
  define w1 where "w1 = w\<lparr>g_retrans_pool := Some rpool, retrans_pending_at := (retrans_pending_at w)(r := cb)\<rparr>"
  have w1: "quiet waiting w1" "pool_set free (g_db_pool w1) \<noteq> {}" using q p(2) by (simp_all add: w1_def quiet_def)
  obtain x pool c where x: "v_port_db_cmd D hi (v_port_db_shard_of key) (Lookup_reply_cb r) [''GET'', key] w1 =
       (RET_CODE_OK, w1\<lparr>g_db_pool := Some pool, db_pending_at := (db_pending_at w1)(x := \<lparr>pend_cb = Some (Lookup_reply_cb r)\<rparr>), g_ctx := c\<rparr>)"
    "\<And>v :: ('r, 'p, 'h, 'a) retrans_st_scheme. g_ctx v = c \<Longrightarrow> db_pending_at v x = \<lparr>pend_cb = Some (Lookup_reply_cb r)\<rparr> \<Longrightarrow>
       one_waits waiting v (unat (v_port_db_shard_of key)) [''GET'', key] x (Lookup_reply_cb r)"
    "free pool = pool_set free (g_db_pool w1) - {x}"
    using l w1(1) shard_of_lt p(1) w1(2) by (rule command_sent [where cb = "Lookup_reply_cb r" and args = "[''GET'', key]"]) blast
  have "v_retrans_lookup D hi part f seq cb w =
      (RET_CODE_OK, w1\<lparr>g_db_pool := Some pool, db_pending_at := (db_pending_at w1)(x := \<lparr>pend_cb = Some (Lookup_reply_cb r)\<rparr>), g_ctx := c\<rparr>)"
    using e(1) r x(1) by (simp add: v_retrans_lookup_def key w1_def Let_def)
  then show ?thesis using x(2,3) by (intro that [where r = r and rpool = rpool and x = x and pool = pool and c = c]) (simp_all add: w1_def)
qed

lemma cas_write_sent:
  fixes w :: "('r, 'p, 'h, 'a) sess_st_scheme"
  assumes l: "hiredis_laws hi waiting" "hiredis_accepts hi" and q: "quiet waiting w"
    and p: "pool_laws D free" "pool_set free (g_db_pool w) \<noteq> {}" "pool_set free (g_evalsha_pool w) \<noteq> {}"
      "stock D free V_SESS_PENDING_POOL_CAP (g_sess_pool w) \<noteq> {}"
    and key: "key = make_key part seid" and shard: "shard = v_port_db_shard_of key"
    and sha: "g_sha w (unat shard) V_SCRIPT_SESS_CAS_WRITE = sha" "sha \<noteq> []" "g_shard_count w = int V_STUB_DB_SHARDS"
    and ctx: "ctx_wf (ctx_at w ctx)"
  obtains u spool e epool x pool c where
    "v_sess_cas_write D hi cc part seid ver ctx st cb w =
       (RET_CODE_OK, w\<lparr>g_sess_pool := Some spool, sess_pending_at := (sess_pending_at w)(u := Sess_cas cb ver),
          g_evalsha_pool := Some epool,
          evalsha_at := (evalsha_at w)(e := \<lparr>ev_shard = shard, ev_script_id = V_SCRIPT_SESS_CAS_WRITE,
             ev_user_cb = Some (Cas_write_reply_cb u), ev_retried = False,
             ev_parts = [''EVALSHA'', sha, dec 1, key, dec (unat ver), chars_of_bytes (ctx_bytes (ctx_at w ctx)), dec (ttl_of st)]\<rparr>),
          g_db_pool := Some pool, db_pending_at := (db_pending_at w)(x := \<lparr>pend_cb = Some (Evalsha_reply_cb e)\<rparr>), g_ctx := c\<rparr>)"
    "\<And>v :: ('r, 'p, 'h, 'a) sess_st_scheme. g_ctx v = c \<Longrightarrow> db_pending_at v x = \<lparr>pend_cb = Some (Evalsha_reply_cb e)\<rparr> \<Longrightarrow>
       one_waits waiting v (unat shard)
         [''EVALSHA'', sha, dec 1, key, dec (unat ver), chars_of_bytes (ctx_bytes (ctx_at w ctx)), dec (ttl_of st)] x (Evalsha_reply_cb e)"
    "free pool = pool_set free (g_db_pool w) - {x}"
    "free spool = stock D free V_SESS_PENDING_POOL_CAP (g_sess_pool w) - {u}"
proof -
  obtain u pool0 spool where u: "ensure_pool D w = (RET_CODE_OK, w\<lparr>g_sess_pool := Some pool0\<rparr>)"
    "sess_get D (Sess_cas cb ver) (w\<lparr>g_sess_pool := Some pool0\<rparr>) =
       Some (u, w\<lparr>g_sess_pool := Some spool, sess_pending_at := (sess_pending_at w)(u := Sess_cas cb ver)\<rparr>)"
    "free spool = stock D free V_SESS_PENDING_POOL_CAP (g_sess_pool w) - {u}"
    using p(1,4) by (rule sess_object [where u = "Sess_cas cb ver"])
  define w1 where "w1 = w\<lparr>g_sess_pool := Some spool, sess_pending_at := (sess_pending_at w)(u := Sess_cas cb ver)\<rparr>"
  define argv where "argv = [dec (unat ver), chars_of_bytes (ctx_bytes (ctx_at w ctx)), dec (ttl_of st)]"
  have one: "snprintf 8 (dec (length [key])) = dec 1" by simp
  have "length (dec (ttl_of st)) \<le> 2" by (rule length_dec) (simp_all add: ttl_of_def V_SESS_PENDING_TTL_def)
  moreover have "length key \<le> 30" using dec_u16_length [of part] dec_u64_length [of seid] by (simp add: key make_key_exact)
  moreover have "int (unat shard) < int V_STUB_DB_SHARDS" by (simp only: of_nat_less_iff shard shard_of_lt)
  ultimately have ok: "evalsha_ok shard V_SCRIPT_SESS_CAS_WRITE [key] argv w1"
    using sha dec_u64_length [of ver] ctx length_ctx_bytes [OF ctx]
    by (simp add: evalsha_ok_def one argv_def w1_def script_ids V_DB_EVALSHA_MAX_PARTS_def V_DB_EVALSHA_SCRATCH_BYTES_def shard sizeof_ctx_def)
  have w1: "quiet waiting w1" "pool_set free (g_db_pool w1) \<noteq> {}" "pool_set free (g_evalsha_pool w1) \<noteq> {}"
    using q p(2,3) by (simp_all add: w1_def quiet_def)
  have sh: "unat shard < V_STUB_DB_SHARDS" by (simp add: shard)
  let ?E = "evalsha_pending_of shard V_SCRIPT_SESS_CAS_WRITE [key] argv (Cas_write_reply_cb u) w1"
  have E: "?E = \<lparr>ev_shard = shard, ev_script_id = V_SCRIPT_SESS_CAS_WRITE,
             ev_user_cb = Some (Cas_write_reply_cb u), ev_retried = False,
             ev_parts = [''EVALSHA'', sha, dec 1, key, dec (unat ver), chars_of_bytes (ctx_bytes (ctx_at w ctx)), dec (ttl_of st)]\<rparr>"
    by (simp add: evalsha_pending_of_def one argv_def w1_def sha(1))
  obtain e epool x pool c where x: "v_db_evalsha D hi cc shard V_SCRIPT_SESS_CAS_WRITE [key] argv (Cas_write_reply_cb u) w1 =
       (RET_CODE_OK, w1\<lparr>g_evalsha_pool := Some epool, evalsha_at := (evalsha_at w1)(e := ?E),
          g_db_pool := Some pool, db_pending_at := (db_pending_at w1)(x := \<lparr>pend_cb = Some (Evalsha_reply_cb e)\<rparr>), g_ctx := c\<rparr>)"
    "\<And>v :: ('r, 'p, 'h, 'a) sess_st_scheme. g_ctx v = c \<Longrightarrow> db_pending_at v x = \<lparr>pend_cb = Some (Evalsha_reply_cb e)\<rparr> \<Longrightarrow>
       one_waits waiting v (unat shard) (ev_parts ?E) x (Evalsha_reply_cb e)"
    "free pool = pool_set free (g_db_pool w1) - {x}"
    using l w1(1) sh p(1) w1(2,3) ok by (rule evalsha_sent [where cb = "Cas_write_reply_cb u" and cc = cc]) blast
  have "v_sess_cas_write D hi cc part seid ver ctx st cb w =
      (RET_CODE_OK, w1\<lparr>g_evalsha_pool := Some epool, evalsha_at := (evalsha_at w1)(e := ?E),
          g_db_pool := Some pool, db_pending_at := (db_pending_at w1)(x := \<lparr>pend_cb = Some (Evalsha_reply_cb e)\<rparr>), g_ctx := c\<rparr>)"
    using u(1,2) x(1) ttl_str_exact [of st]
    by (simp add: v_sess_cas_write_def serialize_ctx argv_def w1_def key shard ttl_of_def Let_def split_beta)
  then show ?thesis using x(2,3) u(3)
    by (intro that [where u = u and spool = spool and e = e and epool = epool and x = x and pool = pool and c = c])
      (simp_all add: w1_def E [unfolded w1_def])
qed

lemma confirm_sent:
  fixes w :: "('r, 'p, 'h, 'a) sess_st_scheme"
  assumes l: "hiredis_laws hi waiting" "hiredis_accepts hi" and q: "quiet waiting w"
    and p: "pool_laws D free" "pool_set free (g_db_pool w) \<noteq> {}"
      "stock D free V_SESS_PENDING_POOL_CAP (g_sess_pool w) \<noteq> {}"
    and key: "key = make_key part seid"
  obtains u spool x pool c where
    "v_sess_confirm D hi part seid cb w =
       (RET_CODE_OK, w\<lparr>g_sess_pool := Some spool, sess_pending_at := (sess_pending_at w)(u := Sess_simple cb),
          g_db_pool := Some pool, db_pending_at := (db_pending_at w)(x := \<lparr>pend_cb = Some (Confirm_reply_cb u)\<rparr>), g_ctx := c\<rparr>)"
    "\<And>v :: ('r, 'p, 'h, 'a) sess_st_scheme. g_ctx v = c \<Longrightarrow> db_pending_at v x = \<lparr>pend_cb = Some (Confirm_reply_cb u)\<rparr> \<Longrightarrow>
       one_waits waiting v (unat (v_port_db_shard_of key)) [''PERSIST'', key] x (Confirm_reply_cb u)"
    "free pool = pool_set free (g_db_pool w) - {x}" "u \<in> stock D free V_SESS_PENDING_POOL_CAP (g_sess_pool w)"
proof -
  obtain u pool0 spool where u: "ensure_pool D w = (RET_CODE_OK, w\<lparr>g_sess_pool := Some pool0\<rparr>)"
    "sess_get D (Sess_simple cb) (w\<lparr>g_sess_pool := Some pool0\<rparr>) =
       Some (u, w\<lparr>g_sess_pool := Some spool, sess_pending_at := (sess_pending_at w)(u := Sess_simple cb)\<rparr>)"
    "free spool = stock D free V_SESS_PENDING_POOL_CAP (g_sess_pool w) - {u}" "u \<in> stock D free V_SESS_PENDING_POOL_CAP (g_sess_pool w)"
    using p(1,3) by (rule sess_object [where u = "Sess_simple cb"])
  define w1 where "w1 = w\<lparr>g_sess_pool := Some spool, sess_pending_at := (sess_pending_at w)(u := Sess_simple cb)\<rparr>"
  have w1: "quiet waiting w1" "pool_set free (g_db_pool w1) \<noteq> {}" using q p(2) by (simp_all add: w1_def quiet_def)
  obtain x pool c where x: "v_port_db_cmd D hi (v_port_db_shard_of key) (Confirm_reply_cb u) [''PERSIST'', key] w1 =
       (RET_CODE_OK, w1\<lparr>g_db_pool := Some pool, db_pending_at := (db_pending_at w1)(x := \<lparr>pend_cb = Some (Confirm_reply_cb u)\<rparr>), g_ctx := c\<rparr>)"
    "\<And>v :: ('r, 'p, 'h, 'a) sess_st_scheme. g_ctx v = c \<Longrightarrow> db_pending_at v x = \<lparr>pend_cb = Some (Confirm_reply_cb u)\<rparr> \<Longrightarrow>
       one_waits waiting v (unat (v_port_db_shard_of key)) [''PERSIST'', key] x (Confirm_reply_cb u)"
    "free pool = pool_set free (g_db_pool w1) - {x}"
    using l w1(1) shard_of_lt p(1) w1(2) by (rule command_sent [where cb = "Confirm_reply_cb u" and args = "[''PERSIST'', key]"]) blast
  have "v_sess_confirm D hi part seid cb w =
      (RET_CODE_OK, w1\<lparr>g_db_pool := Some pool, db_pending_at := (db_pending_at w1)(x := \<lparr>pend_cb = Some (Confirm_reply_cb u)\<rparr>), g_ctx := c\<rparr>)"
    using u(1,2) x(1) by (simp add: v_sess_confirm_def key w1_def Let_def)
  then show ?thesis using x(2,3) u(4)
    by (intro that [where u = u and spool = spool and x = x and pool = pool and c = c]) (simp_all add: w1_def)
qed

subsection \<open>Ownership over an exchange\<close>

lemma delivered_flat:
  assumes "length (g_scratch w) = V_STUB_DB_REPLY_SCRATCH_CAP" and "flat_reply r" and "r \<noteq> H_null"
  shows "delivered r w = Some (spec_reply r)"
proof -
  obtain g used where "convert_reply r (g_scratch w, 0) = (Some 0, g, used)" "reply_at g 0 = spec_reply r"
    using assms(1,2) by (rule convert_flat)
  then show ?thesis using assms(3) by (simp add: delivered_def)
qed

lemma acct_pump:
  fixes w :: "('r, 'p, 'h, 'a) flow_st_scheme"
  assumes l: "hiredis_laws hi waiting" "next_reply_laws nr waiting" and a: "acct D free waiting U {#} w"
    and o: "one_waits waiting w s args q cb" and g: "length (g_scratch w) = V_STUB_DB_REPLY_SCRATCH_CAP"
    and r: "answers serve srv args (r, srv')" "reply_ok (Some r)"
  shows "acct D free waiting U {#} (snd (pump D nr serve (db_call D hi now) s (srv, w)))"
proof -
  obtain h where h: "g_ctx w s = Some h" "waiting h = [(args, q)]" "s < V_STUB_DB_SHARDS" using o by (auto simp: one_waits_def)
  obtain h' where h': "nr h = Some ((args, q), h')" "waiting h' = []" using l(2) h(2) by (rule next_replyE)
  obtain hr where hr: "serve srv args = (hr, srv')" "flat_reply hr" "hr \<noteq> H_null" "spec_reply hr = r"
    using r(1) by (cases "serve srv args") (auto simp: answers_def)
  have "reply_ok (delivered hr w)" using delivered_flat [OF g hr(2,3)] hr(4) r(2) by simp
  from acct_reply [OF l(1) a h(3,1,2) h'(2) this, of now] show ?thesis using h(1) h'(1) hr(1) by (simp add: pump_def Let_def)
qed

text \<open>
  One exchange: the server executes the command that waits, its callback runs on a state \<open>W\<close> in
  which nothing waits, and the pending call goes back to its pool.
\<close>

lemma exchange:
  fixes w :: "('r, 'p, 'h, 'a) flow_st_scheme"
  assumes l: "hiredis_laws hi waiting" "next_reply_laws nr waiting" and a: "acct D free waiting U {#} w"
    and o: "one_waits waiting w s args q cb" and g: "length (g_scratch w) = V_STUB_DB_REPLY_SCRATCH_CAP"
    and r: "answers serve srv args (r, srv')" "reply_ok (Some r)"
  obtains c sc us W v w' where "W = w\<lparr>g_ctx := c, g_scratch := sc, g_scratch_used := us\<rparr>" "quiet waiting W"
    "length sc = V_STUB_DB_REPLY_SCRATCH_CAP"
    "v = db_call D hi now cb RET_CODE_OK (Some r) W" "w' = v\<lparr>g_db_pool := pool_put D q (g_db_pool v)\<rparr>"
    "pump D nr serve (db_call D hi now) s (srv, w) = (srv', w')" "acct D free waiting U {#} w'"
    "\<And>s args y cb. one_waits waiting w' s args y cb = one_waits waiting v s args y cb"
proof -
  obtain c sc us where p: "\<And>v. g_ctx v = c \<Longrightarrow> quiet waiting (v :: ('r, 'p, 'h, 'a) flow_st_scheme)" "length sc = V_STUB_DB_REPLY_SCRATCH_CAP"
    "pump D nr serve (db_call D hi now) s (srv, w) =
       (srv', let w2 = db_call D hi now cb RET_CODE_OK (Some r) (w\<lparr>g_ctx := c, g_scratch := sc, g_scratch_used := us\<rparr>)
              in w2\<lparr>g_db_pool := pool_put D q (g_db_pool w2)\<rparr>)"
    using l(2) o g r(1) by (rule reply_runs [where cc = "db_call D hi now" and D = D]) blast
  define W where "W = w\<lparr>g_ctx := c, g_scratch := sc, g_scratch_used := us\<rparr>"
  define v where "v = db_call D hi now cb RET_CODE_OK (Some r) W"
  define w' where "w' = v\<lparr>g_db_pool := pool_put D q (g_db_pool v)\<rparr>"
  have e: "pump D nr serve (db_call D hi now) s (srv, w) = (srv', w')" using p(3) by (simp add: w'_def v_def W_def Let_def)
  have "quiet waiting W" by (rule p(1)) (simp add: W_def)
  from that [OF W_def this p(2) v_def w'_def e] show ?thesis
    using acct_pump [OF l a o g r, of now] e one_waits_cong [of w' v] by (simp add: w'_def)
qed

text \<open>With one command on the way, all pending calls but its own are free.\<close>

lemma acct_one_waits:
  assumes "acct D free waiting U {#} w" and "one_waits waiting w s args q cb"
  shows "pool_set free (g_db_pool w) = ar_db U - {q}"
proof -
  have w: "waits waiting w t = (if t = s then [q] else [])" if "t < V_STUB_DB_SHARDS" for t
    using assms(2) that by (auto simp: one_waits_def waits_def)
  have "s < V_STUB_DB_SHARDS" using assms(2) by (simp add: one_waits_def)
  then have "(\<Union>t < V_STUB_DB_SHARDS. set (waits waiting w t)) = {q}" using w by (auto split: if_splits)
  then show ?thesis using assms(1) by (auto simp: acct_def db_inv_def owns_def)
qed

subsection \<open>A server for the witnesses\<close>

text \<open>The documented commands and the two session scripts over a keyspace, with replies as hiredis reads them.\<close>

fun wire_reply :: "v_db_reply \<Rightarrow> hreply" where
  "wire_reply Reply_Nil = H_nil"
| "wire_reply (Reply_Status s) = H_status s"
| "wire_reply (Reply_Integer i) = H_integer i"
| "wire_reply (Reply_String s) = H_string s"
| "wire_reply (Reply_Error s) = H_error s"
| "wire_reply (Reply_Array rs) = H_array (map wire_reply rs)"

definition script_sha :: "nat \<Rightarrow> string" where
  "script_sha i = CHR ''a'' # dec i"

definition keyspace_serve :: "keyspace server" where
  "keyspace_serve ks args = apfst wire_reply (case args of
     c # h # n # k # as \<Rightarrow>
       if c = ''EVALSHA'' \<and> h = script_sha V_SCRIPT_SESS_CAS_WRITE then V_LUA_SESS_CAS_WRITE spec_redis [k] as ks
       else if c = ''EVALSHA'' \<and> h = script_sha V_SCRIPT_SESS_DELETE then V_LUA_SESS_DELETE spec_redis [k] as ks
       else spec_redis ks args
   | _ \<Rightarrow> spec_redis ks args)"

text \<open>Every reply of these commands is a scalar or a short array of scalars.\<close>

definition small_reply :: "v_db_reply \<Rightarrow> bool" where
  "small_reply r = (case r of
     Reply_Array rs \<Rightarrow> (\<forall>x \<in> set rs. \<forall>xs. x \<noteq> Reply_Array xs) \<and> length rs < V_STUB_DB_REPLY_SCRATCH_CAP | _ \<Rightarrow> True)"

lemma wire_scalar: "(\<forall>xs. x \<noteq> Reply_Array xs) \<Longrightarrow> \<not> is_array (wire_reply x) \<and> scalar_reply (wire_reply x) = x"
  by (cases x) auto

lemma wire_small:
  assumes "small_reply r"
  shows "flat_reply (wire_reply r)" "wire_reply r \<noteq> H_null" "spec_reply (wire_reply r) = r"
proof -
  have "flat_reply (wire_reply r) \<and> wire_reply r \<noteq> H_null \<and> spec_reply (wire_reply r) = r"
  proof (cases r)
    case (Reply_Array rs)
    then have "\<forall>x \<in> set rs. \<not> is_array (wire_reply x) \<and> scalar_reply (wire_reply x) = x" "length rs < V_STUB_DB_REPLY_SCRATCH_CAP"
      using assms by (auto simp: small_reply_def intro!: wire_scalar)
    then show ?thesis using Reply_Array by (auto simp: flat_reply_def list_all_iff map_idI)
  qed (simp_all add: flat_reply_def)
  then show "flat_reply (wire_reply r)" "wire_reply r \<noteq> H_null" "spec_reply (wire_reply r) = r" by blast+
qed

lemma answers_small: "serve s args = apfst wire_reply x \<Longrightarrow> small_reply (fst x) \<Longrightarrow> answers serve s args x"
  by (cases x) (simp add: answers_def wire_small)

lemma small_simps [simp]:
  "small_reply Reply_Nil" "small_reply (Reply_Status s)" "small_reply (Reply_Integer i)" "small_reply (Reply_String s)"
  "small_reply (Reply_Error s)" "small_reply wrongtype" "small_reply not_integer" "small_reply (bulk b)"
  "small_reply (Reply_Array [bulk b, bulk c])" "small_reply (Reply_Array [Reply_Nil, Reply_Nil])"
  by (simp_all add: small_reply_def wrongtype_def not_integer_def V_STUB_DB_REPLY_SCRATCH_CAP_def; cases b; cases c; simp)+

lemma redis_small:
  assumes "redis_spec ks args = Some x"
  shows "small_reply (fst x)"
proof -
  obtain c as f where "args = c # as" "(c, f) \<in> set redis_table" "f ks as = Some x"
    using assms by (auto simp: redis_spec_def split: list.splits option.splits dest: map_of_SomeD)
  then show ?thesis
    by (auto simp: redis_table_def redis_command_defs split: list.splits option.splits rval.splits if_splits prod.splits)
qed

lemma scripts_small:
  "small_reply (fst (V_LUA_SESS_CAS_WRITE call [k] as s))" "small_reply (fst (V_LUA_SESS_DELETE call [k] as s))"
  by (auto simp: V_LUA_SESS_CAS_WRITE_def V_LUA_SESS_DELETE_def redis_call_def lua_expire_return_def lua_nil_argument_def
      lua_arith_error_def split: list.split prod.split v_db_reply.split option.split)

lemma keyspace_server_laws: "server_laws keyspace_serve spec_redis (\<lambda>ks. ks) script_sha"
proof -
  have "answers keyspace_serve s args (spec_redis s args)" if "redis_spec s args \<noteq> None" for s args
  proof (rule answers_small)
    show "keyspace_serve s args = apfst wire_reply (spec_redis s args)"
      using that by (auto simp: keyspace_serve_def redis_spec_def redis_table_def split: list.split)
    show "small_reply (fst (spec_redis s args))" using that redis_small [of s args] by (cases "redis_spec s args") (simp_all add: spec_redis_def)
  qed
  moreover have "answers keyspace_serve s (''EVALSHA'' # script_sha V_SCRIPT_SESS_CAS_WRITE # dec 1 # k # as) (V_LUA_SESS_CAS_WRITE spec_redis [k] as s)"
    "answers keyspace_serve s (''EVALSHA'' # script_sha V_SCRIPT_SESS_DELETE # dec 1 # k # as) (V_LUA_SESS_DELETE spec_redis [k] as s)" for s k as
    by (rule answers_small, auto simp: keyspace_serve_def script_sha_def script_ids scripts_small)+
  ultimately show ?thesis by (simp add: server_laws_def spec_redis_conforms)
qed

end
