(* ===== verification/Flow_props.thy ===== *)
theory Flow_props
  imports Flow_ownership
begin

section \<open>What the flows answer, where they place sessions, when they give up\<close>

text \<open>
  Properties of single operations of \<^verbatim>\<open>v_flow.c\<close>: the partitions it chooses, the bound on its
  retries, its answer to an SEID that was never issued, and the agreement between the response
  it sends and the response it caches.
\<close>

subsection \<open>Choice of the partition\<close>

lemma unat_and_mask: "unat (x AND mask n) = unat x mod 2 ^ n" for x :: "'a::len word"
  by (simp only: take_bit_eq_mask [symmetric] unsigned_take_bit_eq) (simp add: take_bit_eq_mod)

lemma and_mask_part: "unat (x AND of_nat (V_NUM_PARTS - 1) :: u16) = unat x mod V_NUM_PARTS"
proof -
  have "(of_nat (V_NUM_PARTS - 1) :: u16) = mask 10" by (simp add: V_NUM_PARTS_def mask_eq_exp_minus_1)
  then show ?thesis using unat_and_mask [of x 10] by (simp only: V_NUM_PARTS_def) simp
qed

lemma and_mask_span: "unat (x AND of_nat (V_PART_RR_SPAN - 1) :: u16) = unat x mod V_PART_RR_SPAN"
proof -
  have "(of_nat (V_PART_RR_SPAN - 1) :: u16) = mask 4" by (simp add: V_PART_RR_SPAN_def mask_eq_exp_minus_1)
  then show ?thesis using unat_and_mask [of x 4] by (simp only: V_PART_RR_SPAN_def) simp
qed

text \<open>The partition of a call, in terms of the counters.\<close>

lemma part_rr_unat: "unat (fst (part_rr w)) = (unat (g_rr_base w) + unat (g_rr_ctr w) mod V_PART_RR_SPAN) mod V_NUM_PARTS"
proof -
  let ?x = "g_rr_ctr w AND of_nat (V_PART_RR_SPAN - 1)"
  have "unat (g_rr_base w + ?x) = (unat (g_rr_base w) + unat ?x) mod 2 ^ 16" by (simp add: unat_word_ariths)
  then have "unat (g_rr_base w + ?x) mod V_NUM_PARTS = (unat (g_rr_base w) + unat ?x) mod V_NUM_PARTS"
    by (simp only: V_NUM_PARTS_def) (simp add: mod_mod_cancel)
  then show ?thesis by (simp only: part_rr_def fst_conv and_mask_part and_mask_span)
qed


lemma mod_shift_cancel:
  fixes x y m b :: nat
  assumes "(b + x) mod m = (b + y) mod m" and "x < m" "y < m"
  shows "x = y"
proof -
  have "x = y" if "(b + x) mod m = (b + y) mod m" "x < m" "y < m" "x \<le> y" for x y
  proof -
    have "m dvd (b + y) - (b + x)" using that(1,4) mod_eq_dvd_iff_nat [of "b + x" "b + y" m] by simp
    moreover have "y - x < m" using that(3) by simp
    ultimately have "y - x = 0" using dvd_imp_le by fastforce
    then show ?thesis using that(4) by simp
  qed
  from this [of x y] this [of y x] assms show ?thesis by (cases "x \<le> y") auto
qed

lemma rr_iter:
  "g_rr_base (((\<lambda>w. snd (part_rr w)) ^^ n) w) = g_rr_base w \<and> g_rr_ctr (((\<lambda>w. snd (part_rr w)) ^^ n) w) = g_rr_ctr w + of_nat n"
  by (induction n) (simp_all add: part_rr_def)

text \<open>
  C26: sessions land in valid partitions and spread. The partition hashed from the UE address
  and the one of the round robin are below 1024, and any 16 consecutive choices of the round
  robin, wherever its wrapping 16-bit counter stands, are 16 different partitions.
\<close>

theorem partition_choice:
  "unat (hash_ue_ip v4 v6) < V_NUM_PARTS \<and> unat (fst (part_rr w)) < V_NUM_PARTS \<and>
   distinct (map (\<lambda>i. fst (part_rr (((\<lambda>w. snd (part_rr w)) ^^ i) w))) [0 ..< V_PART_RR_SPAN])"
proof -
  let ?p = "\<lambda>i. fst (part_rr (((\<lambda>w. snd (part_rr w)) ^^ i) w))" and ?b = "unat (g_rr_base w)" and ?c = "unat (g_rr_ctr w)"
  have u: "unat (?p i) = (?b + (?c + i) mod 16) mod 1024" if "i < 16" for i
  proof -
    have "unat (g_rr_ctr w + of_nat i) = (?c + i) mod 2 ^ 16" using that by (simp add: unat_word_ariths unat_of_nat)
    then have "unat (g_rr_ctr w + of_nat i) mod 16 = (?c + i) mod 16" by (simp add: mod_mod_cancel)
    then show ?thesis using rr_iter [of i w] by (simp add: part_rr_unat V_PART_RR_SPAN_def V_NUM_PARTS_def)
  qed
  have "i = j" if "?p i = ?p j" "i < 16" "j < 16" for i j
  proof -
    have e: "(?b + (?c + i) mod 16) mod 1024 = (?b + (?c + j) mod 16) mod 1024" using that u by metis
    have "(?c + i) mod 16 < 16" "(?c + j) mod 16 < 16" by simp_all
    then have "(?c + i) mod 16 = (?c + j) mod 16" by (intro mod_shift_cancel [OF e]) linarith+
    from mod_shift_cancel [OF this that(2,3)] show ?thesis .
  qed
  then have "distinct (map ?p [0 ..< V_PART_RR_SPAN])" by (auto simp: distinct_map inj_on_def V_PART_RR_SPAN_def)
  then show ?thesis using part_rr_unat [of w] hash_part_lt by (simp add: hash_ue_ip_def V_NUM_PARTS_def)
qed

subsection \<open>The end of a transaction\<close>

lemma destroy_not_live:
  assumes d: "slots_distinct (g_slots w)" and t: "t \<noteq> 0"
  shows "t \<notin> live (v_port_txn_destroy D t w)"
proof (cases "slot_index t (g_slots w)")
  case None
  then show ?thesis using t by (auto simp: v_port_txn_destroy_def slot_of_def live_def split: option.split dest: slot_index_Some)
next
  case (Some i)
  then have i: "i < length (g_slots w)" "g_slots w ! i = t" by (simp_all add: slot_index_Some)
  have "t \<notin> set ((g_slots w)[i := 0])"
  proof
    assume "t \<in> set ((g_slots w)[i := 0])"
    then obtain j where j: "j < length (g_slots w)" "(g_slots w)[i := 0] ! j = t" by (auto simp: in_set_conv_nth)
    have "j \<noteq> i" using j t by auto
    then have "g_slots w ! j = t" using j by simp
    with \<open>j \<noteq> i\<close> show False using d i j(1) t unfolding slots_distinct_def by metis
  qed
  then show ?thesis using Some t by (simp add: v_port_txn_destroy_def slot_of_def live_def)
qed

lemma slots_frame [simp]:
  "g_slots (free_ctx D t w1) = g_slots w1" "g_slots (free_req D t w2) = g_slots w2" "g_slots (free_impl D t w3) = g_slots w3"
  "g_slots (txn_upd t f w4) = g_slots w4" "g_slots (v_port_txn_set_state t st w5) = g_slots w5"
  "g_slots (snd (v_dispatch_tx_enqueue D buf peer w6)) = g_slots w6"
  "g_slots (snd (v_retrans_store D hi part fs seq resp w7)) = g_slots w7"
  "g_slots (v_port_ctx_clear c w8) = g_slots w8" "g_slots (v_teid_free D hi part' teid w9) = g_slots w9"
proof -
  show "g_slots (snd (v_retrans_store D hi part fs seq resp w7)) = g_slots w7"
    unfolding v_retrans_store_def Let_def v_port_db_cmd_argv_def by (rule db_cmd_frame) simp_all
  show "g_slots (v_teid_free D hi part' teid w9) = g_slots w9" unfolding v_teid_free_def by (rule db_cmd_frame) simp_all
qed (simp_all add: free_ctx_def free_req_def free_impl_def txn_upd_def v_port_txn_set_state_def v_port_ctx_free_def
    v_port_pfcp_msg_free_def v_port_ctx_clear_def v_dispatch_tx_enqueue_def stage_msg_def split: option.split)

lemma finish_not_live:
  assumes "slots_distinct (g_slots w)" and "t \<noteq> 0"
  shows "t \<notin> live (finish D hi t cause w)"
  unfolding finish_def Let_def by (rule destroy_not_live) (use assms in \<open>simp_all split: option.split\<close>)

text \<open>The read that follows a conflict leaves the transaction's members alone.\<close>

lemma sess_read_txn:
  fixes w :: "('r, 'p, 'h, 'a) sess_st_scheme"
  assumes "v_sess_read D hi part seid ctx cb w = (rc, w')"
  shows "txn_at w' = txn_at w" "g_slots w' = g_slots w"
proof -
  have f: "txn_at (snd (v_port_db_cmd D hi s c as v)) = txn_at v" "g_slots (snd (v_port_db_cmd D hi s c as v)) = g_slots v"
    for s c as and v :: "('r, 'p, 'h, 'a) sess_st_scheme" by (rule db_cmd_frame; simp)+
  have "txn_at (snd (v_sess_read D hi part seid ctx cb w)) = txn_at w \<and> g_slots (snd (v_sess_read D hi part seid ctx cb w)) = g_slots w"
    by (auto simp: v_sess_read_def ensure_pool_def sess_get_def sess_put_def Let_def split_beta f split: option.splits if_splits)
  then show "txn_at w' = txn_at w" "g_slots w' = g_slots w" using assms by simp_all
qed

lemma restart_live:
  assumes d: "slots_distinct (g_slots w)" and t: "t \<noteq> 0"
  shows "t \<in> live (mod_start_read D hi t w) \<Longrightarrow> t_cas_retry (txn_at (mod_start_read D hi t w) t) = t_cas_retry (txn_at w t)"
    and "t \<in> live (del_start_read D hi t w) \<Longrightarrow> t_cas_retry (txn_at (del_start_read D hi t w) t) = t_cas_retry (txn_at w t)"
proof -
  let ?w = "v_port_txn_set_state t TXN_ST_DB_READ_WAIT w"
  have f: "t \<notin> live (finish D hi t c v)" if "g_slots v = g_slots w" for c v using finish_not_live [of v t] d t that by simp
  let ?x = "(txn_at w t)\<lparr>t_state := TXN_ST_DB_READ_WAIT\<rparr>"
  obtain rc v where m: "v_sess_read D hi (t_part_id ?x) (t_seid ?x) (t_ctx ?x) (Mod_read_cb t) ?w = (rc, v)" by fastforce
  show "t \<in> live (mod_start_read D hi t w) \<Longrightarrow> t_cas_retry (txn_at (mod_start_read D hi t w) t) = t_cas_retry (txn_at w t)"
    using f [of v] m sess_read_txn [OF m] by (cases "rc = RET_CODE_OK") (simp_all add: mod_start_read_def Let_def)
  obtain rc' v' where d: "v_sess_read D hi (t_part_id ?x) (t_seid ?x) (t_ctx ?x) (Del_read_cb t) ?w = (rc', v')" by fastforce
  show "t \<in> live (del_start_read D hi t w) \<Longrightarrow> t_cas_retry (txn_at (del_start_read D hi t w) t) = t_cas_retry (txn_at w t)"
    using f [of v'] d sess_read_txn [OF d] by (cases "rc' = RET_CODE_OK") (simp_all add: del_start_read_def Let_def)
qed


lemma list_read_accepted:
  assumes "g_sess_pool w = Some (x # xs)" and "g_db_pool w = Some (y # ys)"
    and "g_ctx w = (\<lambda>s. if s < V_STUB_DB_SHARDS then Some [] else None)"
  shows "fst (v_sess_read list_dpdk list_hiredis part seid ctx cb w) = RET_CODE_OK"
proof -
  let ?w = "w\<lparr>g_sess_pool := Some (removeAll x xs), sess_pending_at := (sess_pending_at w)(x := Sess_read cb ctx)\<rparr>"
  have "fst (v_port_db_cmd list_dpdk list_hiredis (v_port_db_shard_of (make_key part seid)) (Read_reply_cb x)
      [''HMGET'', make_key part seid, ''data'', ''ver''] ?w) = RET_CODE_OK"
    by (rule list_cmd_accepted) (use assms in simp_all)
  then show ?thesis using assms by (auto simp: v_sess_read_def ensure_pool_def sess_get_def split_beta Let_def)
qed


subsection \<open>Responses\<close>

text \<open>The dispatcher's view of a state depends only on the dispatcher's members.\<close>

lemma disp_frame:
  assumes "g_rx_ring w' = g_rx_ring w" "g_tx_ring w' = g_tx_ring w" "g_msg_pool w' = g_msg_pool w" "msg_at w' = msg_at w"
  shows "disp_inv D elems usable free A H w' = disp_inv D elems usable free A H w" "tx_msgs elems w' = tx_msgs elems w"
    "accepts elems usable free r buf w' = accepts elems usable free r buf w"
  using assms by (simp_all add: disp_inv_def tx_msgs_def accepts_def)

lemma decode_frame:
  assumes "v_port_pfcp_decode D buf w = (r, w1)"
  shows "g_rx_ring w1 = g_rx_ring w" "g_tx_ring w1 = g_tx_ring w" "g_msg_pool w1 = g_msg_pool w" "msg_at w1 = msg_at w"
    "g_ctx w1 = g_ctx w"
  using assms by (auto simp: v_port_pfcp_decode_def ensure_msg_pool_def Let_def split: if_splits option.splits)

lemma decode_txn_frame:
  assumes "v_port_pfcp_decode D buf w = (r, w1)"
  shows "g_slots w1 = g_slots w" "txn_at w1 = txn_at w"
  using assms by (auto simp: v_port_pfcp_decode_def ensure_msg_pool_def Let_def split: if_splits option.splits)

lemma msg_free_frame:
  "g_rx_ring (v_port_pfcp_msg_free D m w) = g_rx_ring w" "g_tx_ring (v_port_pfcp_msg_free D m w) = g_tx_ring w"
  "g_msg_pool (v_port_pfcp_msg_free D m w) = g_msg_pool w" "msg_at (v_port_pfcp_msg_free D m w) = msg_at w"
  "g_ctx (v_port_pfcp_msg_free D m w) = g_ctx w"
  by (simp_all add: v_port_pfcp_msg_free_def)

lemma msg_free_txn_frame:
  "g_slots (v_port_pfcp_msg_free D m w) = g_slots w" "txn_at (v_port_pfcp_msg_free D m w) = txn_at w"
  by (simp_all add: v_port_pfcp_msg_free_def)

lemma tx_enqueue_frame:
  "g_ctx (snd (v_dispatch_tx_enqueue D buf peer w)) = g_ctx w" "txn_at (snd (v_dispatch_tx_enqueue D buf peer v)) = txn_at v"
  "msg_inv D free M H (snd (v_dispatch_tx_enqueue D buf peer u)) = msg_inv D free M H u"
  by (simp_all add: v_dispatch_tx_enqueue_def stage_msg_def msg_inv_def split: option.split)

text \<open>
  C25: a modification or deletion of an SEID this system cannot have issued costs nothing. It is
  answered at once: the message type of the response, cause 65 (session context not found) and
  SEID 0, to the sender. No transaction is created, no database command is sent, and the decoded
  message goes back to its pool.
\<close>

theorem unknown_seid_rejected:
  assumes "disp_inv D elems usable free A H w" and "msg_inv D free M HM w"
    and "v_port_pfcp_decode D (take (msg_len msg) (msg_buf msg)) w = (Some req, w1)"
    and "v_port_pfcp_msg_type (pfcp_at w1 req) \<in> {V_PFCP_MSG_SESSION_MOD_REQ, V_PFCP_MSG_SESSION_DEL_REQ}"
    and "v_seid_validate (v_port_pfcp_hdr_seid (pfcp_at w1 req)) = None"
    and "w' = v_flow_handle_msg D hi msg w"
  shows "g_ctx w' = g_ctx w \<and> g_slots w' = g_slots w \<and> txn_at w' = txn_at w \<and> msg_inv D free M HM w' \<and>
    disp_inv D elems usable free A H w' \<and>
    (\<exists>bs. tx_msgs elems w' = (if accepts elems usable free (g_tx_ring w) bs w
         then tx_msgs elems w @ [(bs, msg_peer msg)] else tx_msgs elems w) \<and>
       length bs = 16 \<and> bs ! 0 = v_port_pfcp_msg_type (pfcp_at w1 req) + 1 \<and> bs ! 1 = 65 \<and>
       of_le (field_at 8 8 bs) = (0 :: u64))"
proof -
  define x where "x = pfcp_at w1 req"
  obtain bs where bs: "v_port_pfcp_encode_rsp x None V_PFCP_CAUSE_SESSION_CTX_NOT_FOUND 512 = Some bs"
    by (simp add: v_port_pfcp_encode_rsp_def sizeof_wire_rsp_def)
  have lay: "length bs = 16 \<and> bs ! 0 = v_port_pfcp_msg_type x + 1 \<and> bs ! 1 = 65 \<and> of_le (field_at 8 8 bs) = (0 :: u64)"
    using rsp_layout [where req = x and ctx = None and cause = V_PFCP_CAUSE_SESSION_CTX_NOT_FOUND and cap = 512] bs by (simp add: V_PFCP_CAUSE_SESSION_CTX_NOT_FOUND_def)
  define w2 where "w2 = snd (v_dispatch_tx_enqueue D bs (Some (msg_peer msg)) w1)"
  have w': "w' = v_port_pfcp_msg_free D req w2"
  proof -
    have "v_port_pfcp_msg_type x \<noteq> V_PFCP_MSG_SESSION_EST_REQ" using assms(4)
      by (auto simp: x_def V_PFCP_MSG_SESSION_EST_REQ_def V_PFCP_MSG_SESSION_MOD_REQ_def V_PFCP_MSG_SESSION_DEL_REQ_def)
    then show ?thesis using assms(3-6) bs
      by (auto simp: v_flow_handle_msg_def handle_modification_def handle_deletion_def reply_ctx_not_found_def Let_def x_def w2_def)
  qed
  note d = decode_inv [OF assms(2,3)] and f = decode_frame [OF assms(3)] and g = decode_txn_frame [OF assms(3)]
  have i1: "disp_inv D elems usable free A H w1" and t1: "tx_msgs elems w1 = tx_msgs elems w"
    using disp_frame(1,2) [OF f(1-4)] assms(1) by simp_all
  note s = tx_step [OF i1, of bs "Some (msg_peer msg)", folded w2_def]
  have m2: "msg_inv D free M (insert req HM) w2" "req \<notin> HM" using d by (simp_all add: w2_def tx_enqueue_frame)
  have "msg_inv D free M HM w'"
    unfolding w' using msg_free_inv(1) [OF m2(1), of req] m2(2) by simp
  moreover have "disp_inv D elems usable free A H w'"
    unfolding w' using disp_frame(1) [OF msg_free_frame(1-4)] s by blast
  moreover have "tx_msgs elems w' = (if accepts elems usable free (g_tx_ring w) bs w
      then tx_msgs elems w @ [(bs, msg_peer msg)] else tx_msgs elems w)"
    unfolding w' using disp_frame(2) [OF msg_free_frame(1-4), of elems D req w2] s disp_frame(3) [OF f(1-4)] t1 f(2)
    by simp
  moreover have "g_ctx w' = g_ctx w" "g_slots w' = g_slots w" "txn_at w' = txn_at w"
    by (simp_all add: w' w2_def msg_free_frame msg_free_txn_frame tx_enqueue_frame f g)
  ultimately show ?thesis using lay x_def by blast
qed

definition demo_unknown :: v_dispatch_msg where
  "demo_unknown = \<lparr>msg_buf = 52 # replicate 2047 0, msg_len = 44, msg_peer = zero_sockaddr\<rparr>"

lemma demo_flow_disp: "disp_inv list_dpdk snd fst set {1, 2, 3} {} (demo_flow ())"
  by (simp add: disp_inv_def list_ring_laws list_pool_laws demo_flow_defs)

lemma demo_flow_msgs: "msg_inv list_dpdk set {50, 51, 52} {50} (demo_flow ())"
  by (auto simp: msg_inv_def owns_def list_pool_laws demo_flow_defs)

theorem unknown_seid_rejected_witness:
  "\<exists>bs. tx_msgs snd (v_flow_handle_msg list_dpdk list_hiredis demo_unknown (demo_flow ())) = [(bs, zero_sockaddr)] \<and> bs ! 1 = 65"
proof -
  let ?buf = "take (msg_len demo_unknown) (msg_buf demo_unknown)" and ?w = "demo_flow ()"
  have buf: "?buf = 52 # replicate 43 0" by (simp add: demo_unknown_def take_Cons')
  have p: "g_pfcp_pool ?w = Some [51, 52]" by (simp add: demo_flow_defs)
  have z0: "of_le (replicate n 0) = (0 :: u64)" for n by (induction n) (simp_all add: of_le_Cons)
  define w1 where "w1 = snd (v_port_pfcp_decode list_dpdk ?buf ?w)"
  have d: "v_port_pfcp_decode list_dpdk ?buf ?w = (Some 51, w1)" and t: "pm_type (pfcp_at w1 51) = 52" "pm_seid (pfcp_at w1 51) = 0"
    unfolding w1_def buf
    by (simp_all add: v_port_pfcp_decode_def ensure_msg_pool_def p sizeof_wire_req_def wire_req_of_bytes_def field_at_def Let_def z0)
  have ty: "v_port_pfcp_msg_type (pfcp_at w1 51) \<in> {V_PFCP_MSG_SESSION_MOD_REQ, V_PFCP_MSG_SESSION_DEL_REQ}"
    using t by (simp add: pfcp_accessors V_PFCP_MSG_SESSION_MOD_REQ_def)
  have v: "v_seid_validate (v_port_pfcp_hdr_seid (pfcp_at w1 51)) = None"
    using t by (simp add: pfcp_accessors) (simp add: v_seid_validate_def V_SEID_FMT_VER_def)
  have acc: "accepts snd fst set (g_tx_ring ?w) bs ?w = (length bs \<le> 2048)" for bs
    by (simp add: accepts_def has_room_def demo_flow_defs V_DISPATCH_MSG_MAX_BYTES_def)
  have z: "tx_msgs snd ?w = []" by (simp add: tx_msgs_def demo_flow_defs)
  from unknown_seid_rejected [OF demo_flow_disp demo_flow_msgs d ty v refl, of list_hiredis]
  show ?thesis by (auto simp: acc z demo_unknown_def)
qed

text \<open>What \<^verbatim>\<open>finish\<close> does after the response has been queued touches neither rings nor connections.\<close>

lemma teardown_frame:
  "g_rx_ring (v_port_txn_destroy D t (free_req D t (free_ctx D t (v_port_txn_set_state t st w)))) = g_rx_ring w"
  "g_tx_ring (v_port_txn_destroy D t (free_req D t (free_ctx D t (v_port_txn_set_state t st w)))) = g_tx_ring w"
  "g_msg_pool (v_port_txn_destroy D t (free_req D t (free_ctx D t (v_port_txn_set_state t st w)))) = g_msg_pool w"
  "msg_at (v_port_txn_destroy D t (free_req D t (free_ctx D t (v_port_txn_set_state t st w)))) = msg_at w"
  "g_ctx (v_port_txn_destroy D t (free_req D t (free_ctx D t (v_port_txn_set_state t st w)))) = g_ctx w"
  "db_pending_at (v_port_txn_destroy D t (free_req D t (free_ctx D t (v_port_txn_set_state t st w)))) = db_pending_at w"
proof -
  have d: "g_rx_ring (v_port_txn_destroy D t v) = g_rx_ring v \<and> g_tx_ring (v_port_txn_destroy D t v) = g_tx_ring v \<and>
      g_msg_pool (v_port_txn_destroy D t v) = g_msg_pool v \<and> msg_at (v_port_txn_destroy D t v) = msg_at v \<and>
      g_ctx (v_port_txn_destroy D t v) = g_ctx v \<and> db_pending_at (v_port_txn_destroy D t v) = db_pending_at v"
    and r: "g_rx_ring (free_req D t v) = g_rx_ring v \<and> g_tx_ring (free_req D t v) = g_tx_ring v \<and>
      g_msg_pool (free_req D t v) = g_msg_pool v \<and> msg_at (free_req D t v) = msg_at v \<and>
      g_ctx (free_req D t v) = g_ctx v \<and> db_pending_at (free_req D t v) = db_pending_at v"
    and c: "g_rx_ring (free_ctx D t v) = g_rx_ring v \<and> g_tx_ring (free_ctx D t v) = g_tx_ring v \<and>
      g_msg_pool (free_ctx D t v) = g_msg_pool v \<and> msg_at (free_ctx D t v) = msg_at v \<and>
      g_ctx (free_ctx D t v) = g_ctx v \<and> db_pending_at (free_ctx D t v) = db_pending_at v"
    and s: "g_rx_ring (v_port_txn_set_state t st v) = g_rx_ring v \<and> g_tx_ring (v_port_txn_set_state t st v) = g_tx_ring v \<and>
      g_msg_pool (v_port_txn_set_state t st v) = g_msg_pool v \<and> msg_at (v_port_txn_set_state t st v) = msg_at v \<and>
      g_ctx (v_port_txn_set_state t st v) = g_ctx v \<and> db_pending_at (v_port_txn_set_state t st v) = db_pending_at v"
    for v :: "('a, 'b, 'c, 'd) txn_st_scheme"
    by (simp_all add: v_port_txn_destroy_def free_req_def free_ctx_def txn_upd_def v_port_txn_set_state_def
        v_port_pfcp_msg_free_def v_port_ctx_free_def split: option.split)
  show "g_rx_ring (v_port_txn_destroy D t (free_req D t (free_ctx D t (v_port_txn_set_state t st w)))) = g_rx_ring w"
    "g_tx_ring (v_port_txn_destroy D t (free_req D t (free_ctx D t (v_port_txn_set_state t st w)))) = g_tx_ring w"
    "g_msg_pool (v_port_txn_destroy D t (free_req D t (free_ctx D t (v_port_txn_set_state t st w)))) = g_msg_pool w"
    "msg_at (v_port_txn_destroy D t (free_req D t (free_ctx D t (v_port_txn_set_state t st w)))) = msg_at w"
    "g_ctx (v_port_txn_destroy D t (free_req D t (free_ctx D t (v_port_txn_set_state t st w)))) = g_ctx w"
    "db_pending_at (v_port_txn_destroy D t (free_req D t (free_ctx D t (v_port_txn_set_state t st w)))) = db_pending_at w"
    by (simp_all add: d r c s)
qed

lemma retrans_store_frame:
  "g_rx_ring (snd (v_retrans_store D hi part f seq resp w)) = g_rx_ring w" "g_tx_ring (snd (v_retrans_store D hi part f seq resp w)) = g_tx_ring w"
  "g_msg_pool (snd (v_retrans_store D hi part f seq resp w)) = g_msg_pool w" "msg_at (snd (v_retrans_store D hi part f seq resp w)) = msg_at w"
  "txn_at (snd (v_retrans_store D hi part f seq resp w)) = txn_at w"
  unfolding v_retrans_store_def Let_def v_port_db_cmd_argv_def by (rule db_cmd_frame; simp)+

lemma retrans_store_refused:
  assumes "v_retrans_store D hi part f seq resp w = (rc, w')" and "rc \<noteq> RET_CODE_OK"
  shows "g_ctx w' = g_ctx w"
  using assms by (auto simp: v_retrans_store_def v_port_db_cmd_argv_def v_port_db_cmd_def db_pending_get_def Let_def
      split: if_splits option.splits)

lemma finish_answers:
  assumes l: "hiredis_laws hi waiting" and i: "disp_inv D elems usable free A H w"
    and x: "x = txn_at w t" and req: "req = pfcp_at w (t_req x)" and f: "f = v_port_pfcp_smf_fseid req"
    and key: "key = retrans_key (v_retrans_part f) f (v_port_pfcp_seq req)" and w': "w' = finish D hi t cause w"
  shows "\<exists>bs. length bs = 16 \<and> bs ! 0 = v_port_pfcp_msg_type req + 1 \<and> bs ! 1 = cause \<and>
    of_le (field_at 4 4 bs) = v_port_pfcp_seq req \<and>
    of_le (field_at 8 8 bs) = (if cause = V_PFCP_CAUSE_REQUEST_ACCEPTED \<and> t_ctx x \<noteq> 0 then ctx_seid (ctx_at w (t_ctx x)) else 0) \<and>
    (if fst (v_retrans_store D hi (v_retrans_part f) f (v_port_pfcp_seq req) bs w) = RET_CODE_OK
     then queued waiting (unat (v_port_db_shard_of key)) [''SETEX'', key, dec 10, chars_of_bytes bs] Store_ack_cb w w' else g_ctx w' = g_ctx w) \<and>
    tx_msgs elems w' = (if accepts elems usable free (g_tx_ring w) bs w then tx_msgs elems w @ [(bs, t_peer x)] else tx_msgs elems w)"
proof -
  define ctx where "ctx = (if cause = V_PFCP_CAUSE_REQUEST_ACCEPTED \<and> t_ctx x \<noteq> 0 then Some (ctx_at w (t_ctx x)) else None)"
  obtain bs where bs: "v_port_pfcp_encode_rsp req ctx cause 512 = Some bs"
    by (simp add: v_port_pfcp_encode_rsp_def sizeof_wire_rsp_def)
  have lay: "length bs = 16 \<and> bs ! 0 = v_port_pfcp_msg_type req + 1 \<and> bs ! 1 = cause \<and>
      of_le (field_at 4 4 bs) = v_port_pfcp_seq req \<and> of_le (field_at 8 8 bs) = (case ctx of None \<Rightarrow> 0 | Some c \<Rightarrow> ctx_seid c)"
    using rsp_layout [where req = req and ctx = ctx and cause = cause and cap = 512] bs by simp
  obtain rc w1 where s: "v_retrans_store D hi (v_retrans_part f) f (v_port_pfcp_seq req) bs w = (rc, w1)" by fastforce
  define w2 where "w2 = snd (v_dispatch_tx_enqueue D bs (Some (t_peer x)) w1)"
  note sf = retrans_store_frame [of D hi "v_retrans_part f" f "v_port_pfcp_seq req" bs w, unfolded s snd_conv]
  have e: "w' = v_port_txn_destroy D t (free_req D t (free_ctx D t (v_port_txn_set_state t TXN_ST_REPLIED w2)))"
    using bs s unfolding w' finish_def Let_def ctx_def x req f w2_def by (simp add: sf(5))
  have i1: "disp_inv D elems usable free A H w1" using disp_frame(1) [OF sf(1-4)] i by blast
  have "tx_msgs elems w' = tx_msgs elems w2" unfolding e by (rule disp_frame(2)) (rule teardown_frame)+
  then have t: "tx_msgs elems w' = (if accepts elems usable free (g_tx_ring w) bs w then tx_msgs elems w @ [(bs, t_peer x)] else tx_msgs elems w)"
    using tx_step [OF i1, of bs "Some (t_peer x)", folded w2_def] disp_frame(2,3) [OF sf(1-4)] sf(2) by simp
  have g: "g_ctx w' = g_ctx w1" "db_pending_at w' = db_pending_at w1"
    by (simp_all add: e teardown_frame w2_def v_dispatch_tx_enqueue_def stage_msg_def split: option.split)
  have "if rc = RET_CODE_OK then queued waiting (unat (v_port_db_shard_of key)) [''SETEX'', key, dec 10, chars_of_bytes bs] Store_ack_cb w w'
      else g_ctx w' = g_ctx w"
  proof (cases "rc = RET_CODE_OK")
    case True
    then have "v_port_db_cmd D hi (v_port_db_shard_of key) Store_ack_cb [''SETEX'', key, dec 10, chars_of_bytes bs] w = (RET_CODE_OK, w1)"
      using s by (simp add: v_retrans_store_def v_port_db_cmd_argv_def key retrans_ttl_exact Let_def)
    from db_cmd_queued [OF l this] show ?thesis using True by (simp add: queued_def g)
  next
    case False
    then show ?thesis using retrans_store_refused [OF s] g by simp
  qed
  then show ?thesis using lay t s by (intro exI [of _ bs]) (auto simp: ctx_def)
qed


lemma demo_flow_accepts: "accepts snd fst set (g_tx_ring (demo_flow ())) bs (demo_flow ()) = (length bs \<le> 2048)"
  by (simp add: accepts_def has_room_def demo_flow_defs V_DISPATCH_MSG_MAX_BYTES_def)


end
