(* ===== verification/Request.thy ===== *)
theory Request
  imports Exchange Flow_props
begin

section \<open>A request arrives at an idle pod\<close>

text \<open>
  What the three flows have in common: the pod they start on (\<open>pod_ready\<close>), the transaction and the
  lookup in the retransmission cache with which each of them begins, and the first exchange, in
  which the server answers the lookup. \<open>flow_of\<close> says which flow a request starts.
\<close>

subsection \<open>An idle pod\<close>

text \<open>
  A pod that has started: connected, nothing waits, the scripts are loaded on every shard, and the
  pools are large enough: three pending calls, two store requests and two contexts, since a callback
  holds its own object while it sends the next commands. The two pools that are created on first use
  are there or can be created.
\<close>

definition pod_ready ::
    "('r, 'p) dpdk \<Rightarrow> ('p \<Rightarrow> ptr set) \<Rightarrow> ('h \<Rightarrow> (string list \<times> ptr) list) \<Rightarrow> arena \<Rightarrow> (nat \<Rightarrow> string) \<Rightarrow>
     ('r, 'p, 'h, 'a) flow_st_scheme \<Rightarrow> bool" where
  "pod_ready D free waiting U sha w \<longleftrightarrow>
     acct D free waiting U {#} w \<and> quiet waiting w \<and> length (g_scratch w) = V_STUB_DB_REPLY_SCRATCH_CAP \<and>
     g_shard_count w = int V_STUB_DB_SHARDS \<and> (\<forall>i. sha i \<noteq> []) \<and>
     (\<forall>s < V_STUB_DB_SHARDS. \<forall>i < V_SCRIPT_COUNT. g_sha w s i = sha i) \<and>
     3 \<le> card (ar_db U) \<and> ar_ev U \<noteq> {} \<and> 2 \<le> card (ar_cx U) \<and> ar_ms U \<noteq> {} \<and> ar_tx U \<noteq> {} \<and>
     ar_rt U \<noteq> {} \<and> 2 \<le> card (ar_ss U) \<and> stock D free V_RETRANS_PENDING_POOL_CAP None \<noteq> {} \<and>
     2 \<le> card (stock D free V_SESS_PENDING_POOL_CAP None)"

lemma card_two: "2 \<le> card S \<Longrightarrow> S - {x} \<noteq> {}"
  using card_mono [of "{x}" S] by auto

lemma card_three: "3 \<le> card S \<Longrightarrow> S - {x, y} \<noteq> {}"
  using card_mono [of "{x, y}" S] card_insert_le_m1 [of 2 "{y}" x] by auto

lemma quiet_waits: "quiet waiting w \<Longrightarrow> \<forall>s < V_STUB_DB_SHARDS. waits waiting w s = []"
  by (auto simp: quiet_def waits_def)

lemma pod_readyD:
  assumes "pod_ready D free waiting U sha w"
  shows "pool_laws D free" "acct D free waiting U {#} w" "quiet waiting w" "length (g_scratch w) = V_STUB_DB_REPLY_SCRATCH_CAP"
    "pool_set free (g_db_pool w) = ar_db U" "pool_set free (g_evalsha_pool w) \<noteq> {}"
    "pool_set free (g_ctx_pool w) - {x} \<noteq> {}" "0 \<notin> pool_set free (g_ctx_pool w)"
    "pool_set free (g_pfcp_pool w) \<noteq> {}" "live w = {}"
    "pool_set free (g_txn_pool w) \<noteq> {}" "0 \<notin> pool_set free (g_txn_pool w)" "0 \<in> set (g_slots w)"
    "ar_db U - {x} \<noteq> {}" "stock D free V_SESS_PENDING_POOL_CAP (g_sess_pool w) - {x} \<noteq> {}"
    "stock D free V_RETRANS_PENDING_POOL_CAP (g_retrans_pool w) \<noteq> {}" "ar_db U - {x, y} \<noteq> {}"
proof -
  have a: "acct D free waiting U {#} w" and q: "quiet waiting w" using assms by (simp_all add: pod_ready_def)
  then show "acct D free waiting U {#} w" "quiet waiting w" "length (g_scratch w) = V_STUB_DB_REPLY_SCRATCH_CAP"
    using assms by (simp_all add: pod_ready_def)
  note ws = quiet_waits [OF q] and e = acct_quiet [OF a quiet_waits [OF q]]
  show "stock D free V_RETRANS_PENDING_POOL_CAP (g_retrans_pool w) \<noteq> {}"
    using e assms by (cases "g_retrans_pool w") (auto simp: pod_ready_def)
  have "2 \<le> card (stock D free V_SESS_PENDING_POOL_CAP (g_sess_pool w))"
    using e assms by (cases "g_sess_pool w") (auto simp: pod_ready_def)
  then show "stock D free V_SESS_PENDING_POOL_CAP (g_sess_pool w) - {x} \<noteq> {}" "pool_set free (g_ctx_pool w) - {x} \<noteq> {}"
    using assms e by (auto simp: pod_ready_def dest!: card_two)
  have "3 \<le> card (ar_db U)" using assms by (simp add: pod_ready_def)
  then show "ar_db U - {x, y} \<noteq> {}" "ar_db U - {x} \<noteq> {}" using card_three [of "ar_db U" x x] card_three [of "ar_db U" x y] by auto
  have "inflight waiting w = {#}" using ws by (simp add: inflight_def calls_def)
  then have p: "pools D free U {#} w" using acct_pools [OF a] by simp
  show "pool_laws D free" using p by (simp add: pools_def owns_def)
  show "0 \<notin> pool_set free (g_ctx_pool w)" "0 \<notin> pool_set free (g_txn_pool w)"
    using p e by (simp_all add: pools_def ctx_inv_def txn_inv_def msg_inv_def owns_def)
  show "0 \<in> set (g_slots w)"
    using p assms by (intro free_slot_exists [of D free "ar_tx U" "{}"]) (auto simp: pools_def pod_ready_def)
  show "pool_set free (g_db_pool w) = ar_db U" "pool_set free (g_evalsha_pool w) \<noteq> {}" "live w = {}"
    "pool_set free (g_pfcp_pool w) \<noteq> {}" "pool_set free (g_txn_pool w) \<noteq> {}"
    using e assms by (simp_all add: pod_ready_def)
qed

text \<open>A pod is ready again as soon as nothing waits, if it has kept the scripts and its reply arena.\<close>

definition script_part where
  "script_part w = (g_sha w, g_shard_count w, length (g_scratch w))"

lemma ready_again:
  assumes "pod_ready D free waiting U sha w" and "acct D free waiting U {#} w'" and "quiet waiting w'"
    and "script_part w' = script_part w"
  shows "pod_ready D free waiting U sha w'"
  using assms by (simp add: pod_ready_def script_part_def)

definition request_of :: "v_dispatch_msg \<Rightarrow> pfcp_msg" where
  "request_of msg = msg_of_wire (wire_req_of_bytes (take sizeof_wire_req (take (msg_len msg) (msg_buf msg))))"

lemma request_v6:
  "sizeof_wire_req \<le> length (take (msg_len msg) (msg_buf msg)) \<Longrightarrow> length (pm_v6_ue_ip (request_of msg)) = 16"
  by (simp add: request_of_def msg_of_wire_def wire_req_of_bytes_def field_at_def sizeof_wire_req_def)

subsection \<open>The transaction and the lookup\<close>

lemma start_sent:
  fixes w :: "('r, 'p, 'h, 'a) flow_st_scheme"
  assumes l: "hiredis_laws hi waiting" "hiredis_accepts hi" and q: "quiet waiting w"
    and p: "pool_laws D free" "pool_set free (g_db_pool w) \<noteq> {}" "pool_set free (g_txn_pool w) \<noteq> {}"
      "0 \<notin> pool_set free (g_txn_pool w)" "0 \<in> set (g_slots w)"
      "stock D free V_RETRANS_PENDING_POOL_CAP (g_retrans_pool w) \<noteq> {}"
    and key: "f = pm_smf_fseid (pfcp_at w req)" "key = retrans_key (v_retrans_part f) f (pm_seq (pfcp_at w req))"
  obtains t tp sl fi r rpool x pool c where
    "start_txn D hi mk init req (Some peer) w =
       w\<lparr>g_txn_pool := Some tp, g_slots := sl, g_fired := fi,
         txn_at := (txn_at w)(t := (init (zero_txn\<lparr>t_deadline_ms := g_now_ms w + V_STUB_TXN_HARD_TIMEOUT_MS, t_req := req, t_peer := peer\<rparr>))
           \<lparr>t_state := TXN_ST_RECV\<rparr>),
         g_retrans_pool := Some rpool, retrans_pending_at := (retrans_pending_at w)(r := mk t),
         g_db_pool := Some pool, db_pending_at := (db_pending_at w)(x := \<lparr>pend_cb = Some (Lookup_reply_cb r)\<rparr>), g_ctx := c\<rparr>"
    "\<And>v :: ('r, 'p, 'h, 'a) flow_st_scheme. g_ctx v = c \<Longrightarrow> db_pending_at v x = \<lparr>pend_cb = Some (Lookup_reply_cb r)\<rparr> \<Longrightarrow>
       one_waits waiting v (unat (v_port_db_shard_of key)) [''GET'', key] x (Lookup_reply_cb r)"
    "free pool = pool_set free (g_db_pool w) - {x}" "t \<noteq> 0"
proof -
  obtain slot where slot: "slot_index 0 (g_slots w) = Some slot" using p(5) slot_index_None by blast
  obtain t tp where t: "pool_get D (g_txn_pool w) = Some (t, tp)" "t \<in> pool_set free (g_txn_pool w)"
    using p(1,3) by (rule pool_take)
  then have t0: "t \<noteq> 0" using p(4) by auto
  define X where "X = (init (zero_txn\<lparr>t_deadline_ms := g_now_ms w + V_STUB_TXN_HARD_TIMEOUT_MS, t_req := req, t_peer := peer\<rparr>))
      \<lparr>t_state := TXN_ST_RECV\<rparr>"
  define w1 where "w1 = w\<lparr>g_txn_pool := Some tp, g_slots := (g_slots w)[slot := t],
      g_fired := (g_fired w)[slot := False], txn_at := (txn_at w)(t := X)\<rparr>"
  have w1: "quiet waiting w1" "pool_set free (g_db_pool w1) \<noteq> {}"
    "stock D free V_RETRANS_PENDING_POOL_CAP (g_retrans_pool w1) \<noteq> {}"
    using q p(2,6) by (simp_all add: w1_def quiet_def)
  obtain r rpool x pool c where x: "v_retrans_lookup D hi (v_retrans_part f) f (pm_seq (pfcp_at w req)) (mk t) w1 =
       (RET_CODE_OK, w1\<lparr>g_retrans_pool := Some rpool, retrans_pending_at := (retrans_pending_at w1)(r := mk t),
          g_db_pool := Some pool, db_pending_at := (db_pending_at w1)(x := \<lparr>pend_cb = Some (Lookup_reply_cb r)\<rparr>), g_ctx := c\<rparr>)"
    "\<And>v :: ('r, 'p, 'h, 'a) flow_st_scheme. g_ctx v = c \<Longrightarrow> db_pending_at v x = \<lparr>pend_cb = Some (Lookup_reply_cb r)\<rparr> \<Longrightarrow>
       one_waits waiting v (unat (v_port_db_shard_of key)) [''GET'', key] x (Lookup_reply_cb r)"
    "free pool = pool_set free (g_db_pool w1) - {x}"
    using l w1(1) p(1) w1(2,3) key(2) by (rule lookup_sent [where cb = "mk t"]) blast
  have "start_txn D hi mk init req (Some peer) w =
      w1\<lparr>g_retrans_pool := Some rpool, retrans_pending_at := (retrans_pending_at w1)(r := mk t),
         g_db_pool := Some pool, db_pending_at := (db_pending_at w1)(x := \<lparr>pend_cb = Some (Lookup_reply_cb r)\<rparr>), g_ctx := c\<rparr>"
    using slot t(1) t0 x(1) key(1)
    by (simp add: start_txn_def v_port_txn_create_def txn_upd_def v_port_txn_set_state_def w1_def X_def pfcp_accessors Let_def)
  then show ?thesis using x(2,3) t0
    by (intro that [where t = t and tp = tp and sl = "(g_slots w)[slot := t]" and fi = "(g_fired w)[slot := False]"
          and r = r and rpool = rpool and x = x and pool = pool and c = c]) (simp_all add: w1_def X_def)
qed

subsection \<open>The first exchange\<close>

text \<open>The callback a request's lookup runs, and the members of the transaction it sets first.\<close>

definition flow_of :: "pfcp_msg \<Rightarrow> ((ptr \<Rightarrow> v_retrans_cb) \<times> (v_txn \<Rightarrow> v_txn)) option" where
  "flow_of m =
     (let session = (\<lambda>cb. map_option (\<lambda>part. (cb, \<lambda>x. x\<lparr>t_part_id := part, t_seid := pm_seid m\<rparr>)) (v_seid_validate (pm_seid m)))
      in if pm_type m = V_PFCP_MSG_SESSION_EST_REQ then Some (Retrans_lookup_cb, \<lambda>x. x)
         else if pm_type m = V_PFCP_MSG_SESSION_MOD_REQ then session Mod_retrans_lookup_cb
         else if pm_type m = V_PFCP_MSG_SESSION_DEL_REQ then session Del_retrans_lookup_cb
         else None)"

lemma flow_starts:
  assumes "flow_of (request_of msg) = Some (mk, init)" and "sizeof_wire_req \<le> length (take (msg_len msg) (msg_buf msg))"
    and "pool_get D (g_pfcp_pool w) = Some (req, pool)"
  shows "v_flow_handle_msg D hi msg w =
    start_txn D hi mk init req (Some (msg_peer msg)) (w\<lparr>g_pfcp_pool := Some pool, pfcp_at := (pfcp_at w)(req := request_of msg)\<rparr>)"
proof -
  have "g_pfcp_pool w \<noteq> None" using assms(3) by (auto simp: pool_get_def split: option.splits)
  from decode_long [OF this assms(2), of D] have "v_port_pfcp_decode D (take (msg_len msg) (msg_buf msg)) w =
      (Some req, w\<lparr>g_pfcp_pool := Some pool, pfcp_at := (pfcp_at w)(req := request_of msg)\<rparr>)"
    using assms(3) by (simp add: request_of_def)
  then show ?thesis using assms(1)
    by (auto simp: v_flow_handle_msg_def handle_establishment_def handle_modification_def handle_deletion_def
        pfcp_accessors flow_of_def Let_def split: if_splits)
qed

text \<open>What the rest of the flow leaves alone.\<close>

definition steady :: "('r, 'p, 'h, 'a) flow_st_scheme \<Rightarrow> ('r, 'p, 'h, 'a) flow_st_scheme \<Rightarrow> bool" where
  "steady w w' \<longleftrightarrow>
     g_rx_ring w' = g_rx_ring w \<and> g_tx_ring w' = g_tx_ring w \<and> g_msg_pool w' = g_msg_pool w \<and> msg_at w' = msg_at w \<and>
     length (g_scratch w') = length (g_scratch w) \<and> pfcp_at w' = pfcp_at w \<and>
     g_forced_set w' = g_forced_set w \<and> g_forced w' = g_forced w \<and> g_shard_count w' = g_shard_count w \<and> g_sha w' = g_sha w"

lemma steady_script: "steady w w' \<Longrightarrow> script_part w' = script_part w"
  by (simp add: steady_def script_part_def)

lemma db_call_eq: "db_call D hi now = db_callback D hi now (db_call_at D hi now 2)"
  by (simp add: db_call_def numeral_3_eq_3 numeral_2_eq_2)

text \<open>What a lookup leaves to the steps after it.\<close>

definition spares :: "('r, 'p, 'h, 'a) flow_st_scheme \<Rightarrow> ('r, 'p, 'h, 'a) flow_st_scheme \<Rightarrow> bool" where
  "spares w w' \<longleftrightarrow>
     g_ctx_pool w' = g_ctx_pool w \<and> ctx_at w' = ctx_at w \<and> g_evalsha_pool w' = g_evalsha_pool w \<and> g_sess_pool w' = g_sess_pool w \<and>
     g_seid_ring w' = g_seid_ring w \<and> g_teid_ring w' = g_teid_ring w \<and> g_rr_base w' = g_rr_base w \<and> g_rr_ctr w' = g_rr_ctr w"

lemma request_exchanged:
  fixes w :: "('r, 'p, 'h, 'a) flow_st_scheme"
  assumes l: "hiredis_laws hi waiting" "hiredis_accepts hi" "next_reply_laws nr waiting"
    and ready: "pod_ready D free waiting U sha w"
    and m: "m = request_of msg" "sizeof_wire_req \<le> length (take (msg_len msg) (msg_buf msg))" "flow_of m = Some (mk, init)"
    and rkey: "rkey = retrans_key (v_retrans_part (pm_smf_fseid m)) (pm_smf_fseid m) (pm_seq m)"
    and an: "answers serve db [''GET'', rkey] (r, db')" "reply_ok (Some r)"
  obtains t rt x req W v w' where
    "pump D nr serve (db_call D hi now) (unat (v_port_db_shard_of rkey)) (db, v_flow_handle_msg D hi msg w) = (db', w')"
    "quiet waiting W" "v = db_call D hi now (Lookup_reply_cb rt) RET_CODE_OK (Some r) W" "w' = v\<lparr>g_db_pool := pool_put D x (g_db_pool v)\<rparr>"
    "acct D free waiting U {#} w'" "\<And>s args y cb. one_waits waiting w' s args y cb = one_waits waiting v s args y cb"
    "retrans_pending_at W rt = mk t" "pfcp_at W req = m"
    "txn_at W t = (init (zero_txn\<lparr>t_deadline_ms := g_now_ms w + V_STUB_TXN_HARD_TIMEOUT_MS, t_req := req, t_peer := msg_peer msg\<rparr>))
       \<lparr>t_state := TXN_ST_RECV\<rparr>"
    "pool_set free (g_db_pool W) = ar_db U - {x}" "spares w W" "steady (w\<lparr>pfcp_at := pfcp_at W\<rparr>) W" "t \<noteq> 0"
proof -
  note p = pod_readyD [OF ready]
  obtain req pool where req: "pool_get D (g_pfcp_pool w) = Some (req, pool)" using p(1,9) by (rule pool_take)
  define w0 where "w0 = w\<lparr>g_pfcp_pool := Some pool, pfcp_at := (pfcp_at w)(req := m)\<rparr>"
  have w0: "quiet waiting w0" "pool_set free (g_db_pool w0) \<noteq> {}" "pool_set free (g_txn_pool w0) \<noteq> {}"
      "0 \<notin> pool_set free (g_txn_pool w0)" "0 \<in> set (g_slots w0)" "stock D free V_RETRANS_PENDING_POOL_CAP (g_retrans_pool w0) \<noteq> {}"
      "pm_smf_fseid m = pm_smf_fseid (pfcp_at w0 req)"
      "rkey = retrans_key (v_retrans_part (pm_smf_fseid m)) (pm_smf_fseid m) (pm_seq (pfcp_at w0 req))"
    using p(3,5,11,12,13,16) p(14) rkey by (auto simp: w0_def quiet_def)
  have d: "v_flow_handle_msg D hi msg w = start_txn D hi mk init req (Some (msg_peer msg)) w0"
    using flow_starts [OF m(3) [unfolded m(1)] m(2) req] by (simp add: w0_def m(1))
  obtain t tp sl fi rt rpool x dpool g where st: "start_txn D hi mk init req (Some (msg_peer msg)) w0 =
       w0\<lparr>g_txn_pool := Some tp, g_slots := sl, g_fired := fi,
         txn_at := (txn_at w0)(t := (init (zero_txn\<lparr>t_deadline_ms := g_now_ms w0 + V_STUB_TXN_HARD_TIMEOUT_MS, t_req := req, t_peer := msg_peer msg\<rparr>))
           \<lparr>t_state := TXN_ST_RECV\<rparr>),
         g_retrans_pool := Some rpool, retrans_pending_at := (retrans_pending_at w0)(rt := mk t),
         g_db_pool := Some dpool, db_pending_at := (db_pending_at w0)(x := \<lparr>pend_cb = Some (Lookup_reply_cb rt)\<rparr>), g_ctx := g\<rparr>"
    "\<And>v :: ('r, 'p, 'h, 'a) flow_st_scheme. g_ctx v = g \<Longrightarrow> db_pending_at v x = \<lparr>pend_cb = Some (Lookup_reply_cb rt)\<rparr> \<Longrightarrow>
       one_waits waiting v (unat (v_port_db_shard_of rkey)) [''GET'', rkey] x (Lookup_reply_cb rt)"
    "free dpool = pool_set free (g_db_pool w0) - {x}" "t \<noteq> 0"
    using l(1,2) w0(1) p(1) w0(2-8) by (rule start_sent [where mk = mk and init = init]) blast
  define w1 where "w1 = v_flow_handle_msg D hi msg w"
  note w1 = w1_def [unfolded d, unfolded st(1), unfolded w0_def]
  have o1: "one_waits waiting w1 (unat (v_port_db_shard_of rkey)) [''GET'', rkey] x (Lookup_reply_cb rt)" by (rule st(2)) (simp_all add: w1)
  have s1: "length (g_scratch w1) = V_STUB_DB_REPLY_SCRATCH_CAP" using p(4) by (simp add: w1)
  have a1: "acct D free waiting U {#} w1" unfolding w1_def by (rule acct_handle_msg [OF l(1) p(2)])
  obtain c sc us W v w' where e: "W = w1\<lparr>g_ctx := c, g_scratch := sc, g_scratch_used := us\<rparr>" "quiet waiting W"
    "length sc = V_STUB_DB_REPLY_SCRATCH_CAP"
    "v = db_call D hi now (Lookup_reply_cb rt) RET_CODE_OK (Some r) W" "w' = v\<lparr>g_db_pool := pool_put D x (g_db_pool v)\<rparr>"
    "pump D nr serve (db_call D hi now) (unat (v_port_db_shard_of rkey)) (db, w1) = (db', w')" "acct D free waiting U {#} w'"
    "\<And>s args y cb. one_waits waiting w' s args y cb = one_waits waiting v s args y cb"
    using l(1,3) a1 o1 s1 an by (rule exchange [where now = now]) blast
  show ?thesis
    by (rule that [OF e(6) [unfolded w1_def] e(2,4,5,7,8), where t = t and req = req])
      (use st(3,4) p(4,5) e(3) in \<open>simp_all add: e(1) w1 w0_def spares_def steady_def\<close>)
qed

text \<open>The server's side of a lookup.\<close>

lemma lookup_answered:
  assumes srv: "server_laws serve call view sha" and v: "view db k = (case b of None \<Rightarrow> None | Some (s, ttl) \<Rightarrow> Some (RStr s, ttl))"
  shows "\<exists>db'. answers serve db [''GET'', k] (bulk (map_option fst b), db') \<and> view db' = view db"
proof -
  have s: "redis_spec (view db) [''GET'', k] = Some (bulk (map_option fst b), view db)"
    by (auto simp: redis_GET_def v split: option.split)
  with server_lawsD(1) [OF srv] obtain db' where "call db [''GET'', k] = (bulk (map_option fst b), db')" "view db' = view db"
    by (rule redis_conformsD)
  with server_lawsD(2) [OF srv, of db "[''GET'', k]"] s show ?thesis by auto
qed

subsection \<open>The answer\<close>

definition answer_to :: "pfcp_msg \<Rightarrow> u8 \<Rightarrow> u64 \<Rightarrow> u8 list \<Rightarrow> bool" where
  "answer_to m cause seid bs \<longleftrightarrow>
     length bs = 16 \<and> bs ! 0 = pm_type m + 1 \<and> bs ! 1 = cause \<and> of_le (field_at 4 4 bs) = pm_seq m \<and> of_le (field_at 8 8 bs) = seid"

text \<open>
  A flow that finishes: the answer goes to the peer and, behind what waits already, to the cache. The
  pending calls that wait keep their callbacks.
\<close>

lemma cmd_accepted:
  assumes "hiredis_accepts hi" and "g_ctx w (unat shard) = Some h" and "unat shard < V_STUB_DB_SHARDS" and "pool_laws D free" "pool_set free (g_db_pool w) \<noteq> {}"
  shows "fst (v_port_db_cmd D hi shard cb args w) = RET_CODE_OK"
proof -
  obtain x p where "pool_get D (g_db_pool w) = Some (x, p)" using assms(4,5) by (rule pool_take)
  moreover obtain h' where "redisAsyncCommand hi h args x = Some h'" using assms(1) unfolding hiredis_accepts_def by (metis option.exhaust)
  ultimately show ?thesis using assms(2,3) by (simp add: v_port_db_cmd_def db_pending_get_def)
qed

lemma pending_kept:
  assumes "pool_laws D free" and "q \<notin> pool_set free (g_db_pool w)"
  shows "db_pending_at (finish D hi t cause w) q = db_pending_at w q"
proof -
  have c: "db_pending_at (snd (v_port_db_cmd D hi shard cb args w)) q = db_pending_at w q" for shard cb args
  proof -
    have "x \<noteq> q" if "pool_get D (g_db_pool w) = Some (x, p)" for x p
      using that assms by (auto simp: pool_get_def dest: pool_get_Some split: option.splits)
    then show ?thesis by (auto simp: v_port_db_cmd_def db_pending_get_def split: option.split)
  qed
  have s: "db_pending_at (snd (v_retrans_store D hi part f seq bs w)) q = db_pending_at w q" for part f seq bs
    by (simp add: v_retrans_store_def v_port_db_cmd_argv_def c Let_def)
  have e: "db_pending_at (snd (v_dispatch_tx_enqueue D bs peer v)) = db_pending_at v" for bs peer v
    by (simp add: v_dispatch_tx_enqueue_def stage_msg_def split: option.split)
  show ?thesis by (simp add: finish_def teardown_frame e s Let_def split: option.split)
qed

lemma finish_queued:
  fixes w :: "('r, 'p, 'h, 'a) flow_st_scheme"
  assumes l: "hiredis_laws hi waiting" "hiredis_accepts hi" and q: "\<forall>s < V_STUB_DB_SHARDS. g_ctx w s \<noteq> None"
    and p: "pool_laws D free" "pool_set free (g_db_pool w) \<noteq> {}" and i: "disp_inv D elems usable free A H w"
    and x: "x = txn_at w t" "t_ctx x \<noteq> 0" and m: "m = pfcp_at w (t_req x)" "f = pm_smf_fseid m"
    and key: "key = retrans_key (v_retrans_part f) f (pm_seq m)" and w': "w' = finish D hi t V_PFCP_CAUSE_REQUEST_ACCEPTED w"
  obtains bs where "answer_to m V_PFCP_CAUSE_REQUEST_ACCEPTED (ctx_seid (ctx_at w (t_ctx x))) bs"
    "queued waiting (unat (v_port_db_shard_of key)) [''SETEX'', key, dec 10, chars_of_bytes bs] Store_ack_cb w w'"
    "tx_msgs elems w' = (if accepts elems usable free (g_tx_ring w) bs w then tx_msgs elems w @ [(bs, t_peer x)] else tx_msgs elems w)"
proof -
  have k: "key = retrans_key (v_retrans_part (v_port_pfcp_smf_fseid m)) (v_port_pfcp_smf_fseid m) (v_port_pfcp_seq m)"
    by (simp add: key m(2) pfcp_accessors)
  obtain h where h: "g_ctx w (unat (v_port_db_shard_of key)) = Some h" using q shard_of_lt by blast
  have ok: "fst (v_retrans_store D hi (v_retrans_part (v_port_pfcp_smf_fseid m)) (v_port_pfcp_smf_fseid m) (v_port_pfcp_seq m) bs w) = RET_CODE_OK" for bs
    using cmd_accepted [OF l(2) h shard_of_lt p] by (simp add: v_retrans_store_def v_port_db_cmd_argv_def k Let_def)
  obtain bs where bs: "length bs = 16" "bs ! 0 = v_port_pfcp_msg_type m + 1" "bs ! 1 = V_PFCP_CAUSE_REQUEST_ACCEPTED"
    "of_le (field_at 4 4 bs) = v_port_pfcp_seq m" "of_le (field_at 8 8 bs) = ctx_seid (ctx_at w (t_ctx x))"
    "queued waiting (unat (v_port_db_shard_of key)) [''SETEX'', key, dec 10, chars_of_bytes bs] Store_ack_cb w w'"
    "tx_msgs elems w' = (if accepts elems usable free (g_tx_ring w) bs w then tx_msgs elems w @ [(bs, t_peer x)] else tx_msgs elems w)"
    using finish_answers [OF l(1) i x(1) m(1) refl k w'] ok x(2) by auto
  from that [OF _ bs(6,7)] bs(1-5) show ?thesis by (simp add: answer_to_def pfcp_accessors)
qed

lemma finish_alone:
  fixes w :: "('r, 'p, 'h, 'a) flow_st_scheme"
  assumes l: "hiredis_laws hi waiting" "hiredis_accepts hi" and q: "quiet waiting w"
    and p: "pool_laws D free" "pool_set free (g_db_pool w) \<noteq> {}" and i: "disp_inv D elems usable free A H w"
    and x: "x = txn_at w t" "t_ctx x \<noteq> 0" and m: "m = pfcp_at w (t_req x)" "f = pm_smf_fseid m"
    and key: "key = retrans_key (v_retrans_part f) f (pm_seq m)" and w': "w' = finish D hi t V_PFCP_CAUSE_REQUEST_ACCEPTED w"
  obtains bs q where "answer_to m V_PFCP_CAUSE_REQUEST_ACCEPTED (ctx_seid (ctx_at w (t_ctx x))) bs"
    "one_waits waiting w' (unat (v_port_db_shard_of key)) [''SETEX'', key, dec 10, chars_of_bytes bs] q Store_ack_cb"
    "tx_msgs elems w' = (if accepts elems usable free (g_tx_ring w) bs w then tx_msgs elems w @ [(bs, t_peer x)] else tx_msgs elems w)"
proof -
  have c: "\<forall>s < V_STUB_DB_SHARDS. g_ctx w s \<noteq> None" using q by (auto simp: quiet_def)
  obtain bs where bs: "answer_to m V_PFCP_CAUSE_REQUEST_ACCEPTED (ctx_seid (ctx_at w (t_ctx x))) bs"
    "queued waiting (unat (v_port_db_shard_of key)) [''SETEX'', key, dec 10, chars_of_bytes bs] Store_ack_cb w w'"
    "tx_msgs elems w' = (if accepts elems usable free (g_tx_ring w) bs w then tx_msgs elems w @ [(bs, t_peer x)] else tx_msgs elems w)"
    using l c p i x m key w' by (rule finish_queued)
  from queued_alone [OF q bs(2) shard_of_lt] bs(1,3) that show ?thesis by blast
qed

lemma session_key_not_cached: "make_key part seid \<noteq> retrans_key part' f seq"
  by (simp add: make_key_exact retrans_key_exact)

text \<open>What remains of a flow is the acknowledgement of the cache; after it the pod is ready again.\<close>

lemma script_part_frame:
  "script_part (snd (v_retrans_store D hi part f seq bs w)) = script_part w"
  "script_part (snd (v_dispatch_tx_enqueue D bs peer w)) = script_part w"
  "script_part (v_port_txn_set_state t st w) = script_part w" "script_part (txn_upd t g w) = script_part w"
  "script_part (v_port_ctx_free D c w) = script_part w" "script_part (v_port_pfcp_msg_free D m w) = script_part w"
  "script_part (v_port_txn_destroy D t w) = script_part w"
  by (simp_all add: script_part_def v_retrans_store_def v_port_db_cmd_argv_def v_port_db_cmd_def db_pending_get_def v_dispatch_tx_enqueue_def
      stage_msg_def v_port_txn_set_state_def txn_upd_def v_port_ctx_free_def v_port_pfcp_msg_free_def v_port_txn_destroy_def
      Let_def split: option.split prod.split)

lemma finish_script_frame:
  "script_part (finish D hi t cause w) = script_part w"
  by (simp add: finish_def free_ctx_def free_req_def script_part_frame Let_def split: option.split)

lemma answer_cached:
  fixes w :: "('r, 'p, 'h, 'a) flow_st_scheme"
  assumes l: "hiredis_laws hi waiting" "next_reply_laws nr waiting" and srv: "server_laws serve call view sha"
    and o: "one_waits waiting w s [''SETEX'', k, dec 10, data] q Store_ack_cb" and a: "acct D free waiting U {#} w"
    and ready: "pod_ready D free waiting U sha w0"
    and g: "script_part w = script_part w0"
  obtains db' w' where "pump D nr serve (db_call D hi now) s (db, w) = (db', w')"
    "view db' = (view db)(k \<mapsto> (RStr data, Some 10))" "pod_ready D free waiting U sha w'" "tx_msgs elems w' = tx_msgs elems w"
proof -
  have s: "redis_spec (view db) [''SETEX'', k, dec 10, data] = Some (Reply_Status ''OK'', (view db)(k \<mapsto> (RStr data, Some 10)))"
    using parse_int_dec [of 10] by (simp add: redis_SETEX_def del: parse_int_dec)
  with server_lawsD(1) [OF srv] obtain db' where db': "call db [''SETEX'', k, dec 10, data] = (Reply_Status ''OK'', db')"
    "view db' = (view db)(k \<mapsto> (RStr data, Some 10))" by (rule redis_conformsD)
  have an: "answers serve db [''SETEX'', k, dec 10, data] (Reply_Status ''OK'', db')" "reply_ok (Some (Reply_Status ''OK''))"
    using server_lawsD(2) [OF srv, of db "[''SETEX'', k, dec 10, data]"] s db'(1) by simp_all
  have g1: "length (g_scratch w) = V_STUB_DB_REPLY_SCRATCH_CAP" using g pod_readyD(4) [OF ready] by (simp add: script_part_def)
  obtain c sc us W v w' where e: "W = w\<lparr>g_ctx := c, g_scratch := sc, g_scratch_used := us\<rparr>" "quiet waiting W"
    "length sc = V_STUB_DB_REPLY_SCRATCH_CAP" "v = db_call D hi now Store_ack_cb RET_CODE_OK (Some (Reply_Status ''OK'')) W"
    "w' = v\<lparr>g_db_pool := pool_put D q (g_db_pool v)\<rparr>" "pump D nr serve (db_call D hi now) s (db, w) = (db', w')" "acct D free waiting U {#} w'"
    using l a o g1 an by (rule exchange [where now = now]) blast
  have w': "w' = W\<lparr>g_db_pool := pool_put D q (g_db_pool W)\<rparr>" by (simp add: e(4,5) db_call_eq store_ack_cb_def)
  have "quiet waiting w'" using e(2) quiet_cong [of w' W] by (simp add: w')
  with ready e(7) have "pod_ready D free waiting U sha w'" by (rule ready_again) (use e(3) g g1 in \<open>simp add: w' e(1) script_part_def\<close>)
  from that [OF e(6) db'(2) this] show ?thesis by (simp add: w' e(1) tx_msgs_def)
qed

subsection \<open>A pod that has just started\<close>

definition ready_pod :: "(nat \<times> ptr list, ptr list, (string list \<times> ptr) list) flow_st" where
  "ready_pod = (demo_flow ())
     \<lparr>g_sha := (\<lambda>_. script_sha), g_seid_ring := (\<lambda>_. Some (1023, 5 # replicate 63 5)), g_teid_ring := (\<lambda>_. Some (1023, 7 # replicate 63 7)),
      g_ctx_pool := Some [40, 41, 42], ctx_at := (\<lambda>_. zero_ctx), g_pfcp_pool := Some [50, 51, 52], pfcp_at := (\<lambda>_. zero_pfcp_msg),
      g_txn_pool := Some [60, 61, 62], txn_at := (\<lambda>_. zero_txn), g_slots := [0, 0, 0],
      g_sess_pool := Some [71, 72], g_retrans_pool := Some [80, 81, 82]\<rparr>"

lemmas ready_pod_defs = ready_pod_def demo_flow_defs

lemma ready_waits: "waits (\<lambda>h. h) ready_pod s = []"
  by (simp add: waits_def ready_pod_defs)

lemma ready_acct: "acct list_dpdk set (\<lambda>h. h) demo_arena {#} ready_pod"
proof -
  have "pools list_dpdk set demo_arena {#} ready_pod"
    by (auto simp: pools_def owns_def list_pool_laws ctx_inv_def msg_inv_def txn_inv_def live_def slots_distinct_def
        demo_arena_def ready_pod_defs nth_Cons split: nat.splits)
  moreover have "db_inv list_dpdk set (\<lambda>h. h) {10, 11, 12, 13} {} ready_pod"
    unfolding db_inv_def ready_waits by (auto simp: owns_def list_pool_laws ready_pod_defs)
  moreover have "calls (\<lambda>h. h) ready_pod = {#}" "calls_set (\<lambda>h. h) ready_pod"
    by (simp_all add: calls_def calls_set_def ready_waits)
  ultimately show ?thesis by (simp add: acct_def inflight_def) (simp add: demo_arena_def)
qed

lemma list_stock: "0 < n \<Longrightarrow> n < 2 ^ 32 \<Longrightarrow> card (stock list_dpdk set n None) = n"
  using pool_create_law [OF list_pool_laws, of n] by (cases "rte_mempool_create list_dpdk n") (auto simp: stock_def list_dpdk_def)

lemma ready_pod_ready: "pod_ready list_dpdk set (\<lambda>h. h) demo_arena script_sha ready_pod"
proof -
  have "stock list_dpdk set V_RETRANS_PENDING_POOL_CAP None \<noteq> {}" "2 \<le> card (stock list_dpdk set V_SESS_PENDING_POOL_CAP None)"
    using list_stock [of V_RETRANS_PENDING_POOL_CAP] list_stock [of V_SESS_PENDING_POOL_CAP]
    by (auto simp: V_RETRANS_PENDING_POOL_CAP_def V_SESS_PENDING_POOL_CAP_def)
  then show ?thesis unfolding pod_ready_def
    using ready_acct by (simp add: quiet_def script_sha_def demo_arena_def V_STUB_DB_SHARDS_def ready_pod_defs)
qed

lemma ready_pod_disp:
  "disp_inv list_dpdk snd fst set {1, 2, 3} {} ready_pod" "pool_set set (g_msg_pool ready_pod) \<noteq> {}"
  "has_room snd fst (g_tx_ring ready_pod)" "next_result ready_pod = V_VDP_ACCEPT" "tx_msgs snd ready_pod = []"
  by (simp_all add: disp_inv_def list_ring_laws list_pool_laws has_room_def next_result_def tx_msgs_def ready_pod_defs)

lemma list_hiredis_accepts: "hiredis_accepts list_hiredis"
  by (simp add: hiredis_accepts_def list_hiredis_def)

definition list_step ::
    "nat \<Rightarrow> keyspace \<times> (nat \<times> ptr list, ptr list, (string list \<times> ptr) list) flow_st \<Rightarrow>
     keyspace \<times> (nat \<times> ptr list, ptr list, (string list \<times> ptr) list) flow_st" where
  "list_step = pump list_dpdk list_reader keyspace_serve (db_call list_dpdk list_hiredis 0)"

end
