(* ===== verification/Establishment.thy ===== *)
theory Establishment
  imports Request
begin

section \<open>An establishment from request to answer\<close>

text \<open>
  What an idle pod does with a session establishment request when the server answers: three
  commands, the call of the data plane, one answer. The lemmas follow the request callback by
  callback; the theorem at the end says what the peer gets and what the database holds.
\<close>

subsection \<open>No cached answer: the record is written\<close>

definition est_part :: "pfcp_msg \<Rightarrow> ('r, 'p, 'h, 'a) flow_st_scheme \<Rightarrow> u16" where
  "est_part m w = (case v_port_pfcp_ue_ip m of Some (v4, v6) \<Rightarrow> hash_ue_ip v4 v6 | None \<Rightarrow> fst (part_rr w))"

text \<open>The context an establishment builds.\<close>

definition est_ctx :: "pfcp_msg \<Rightarrow> u64 \<Rightarrow> u32 \<Rightarrow> v_stub_ses_ctx" where
  "est_ctx m seid teid = fill_pattern (pm_seq m)
     (zero_ctx\<lparr>ctx_magic := V_STUB_CTX_MAGIC, ctx_seid := seid, ctx_teid := teid, ctx_has_ue_ip := pm_has_ue_ip m,
        ctx_v4_ue_ip := pm_v4_ue_ip m, ctx_v6_ue_ip := pm_v6_ue_ip m\<rparr>)"

lemma est_ctx_wf: "length (pm_v6_ue_ip m) = 16 \<Longrightarrow> ctx_wf (est_ctx m seid teid)"
  by (simp add: est_ctx_def ctx_wf_def fill_pattern_def zero_ctx_def)

lemma part_choice_cases:
  obtains k where "(case v_port_pfcp_ue_ip m of Some (v4, v6) \<Rightarrow> (hash_ue_ip v4 v6, w) | None \<Rightarrow> part_rr w) = (est_part m w, w\<lparr>g_rr_ctr := k\<rparr>)"
proof (cases "v_port_pfcp_ue_ip m")
  case None
  then show ?thesis by (intro that [of "g_rr_ctr w + 1"]) (simp add: est_part_def part_rr_def)
next
  case (Some a)
  then show ?thesis by (intro that [of "g_rr_ctr w"]) (auto simp: est_part_def split: prod.split)
qed

text \<open>The partition has identifiers ready, so many that no refill is due.\<close>

definition ids_ready :: "('r, 'p) dpdk \<Rightarrow> u16 \<Rightarrow> u64 \<Rightarrow> u32 \<Rightarrow> ('r, 'p, 'h, 'a) id_st_scheme \<Rightarrow> bool" where
  "ids_ready D part seid teid w \<longleftrightarrow>
     V_ID_WATERMARK \<le> ring_count D (g_seid_ring w part) \<and> V_ID_WATERMARK \<le> ring_count D (g_teid_ring w part) \<and>
     (\<exists>r. ring_take D (g_seid_ring w part) = Some (seid, r)) \<and>
     (\<exists>obj r. ring_take D (g_teid_ring w part) = Some (obj, r) \<and> ucast obj = teid) \<and> seid \<noteq> 0 \<and> teid \<noteq> 0"

lemma miss_prepares:
  fixes w :: "('r, 'p, 'h, 'a) flow_st_scheme"
  assumes p: "pool_laws D free" "pool_set free (g_ctx_pool w) \<noteq> {}" "0 \<notin> pool_set free (g_ctx_pool w)"
    and ids: "ids_ready D part seid teid w" and part: "part = est_part m w" and m: "m = pfcp_at w (t_req (txn_at w t))"
  obtains c k sr tr cp where
    "retrans_lookup_cb D hi cc RET_CODE_OK False [] t w =
       (let W = w\<lparr>g_rr_ctr := k, g_seid_ring := sr, g_teid_ring := tr, g_ctx_pool := Some cp,
              ctx_at := (ctx_at w)(c := est_ctx m seid teid),
              txn_at := (txn_at w)(t := (txn_at w t)\<lparr>t_part_id := part, t_seid := seid, t_teid := teid, t_ctx := c,
                t_state := TXN_ST_DB_WRITE_WAIT\<rparr>)\<rparr>;
            (rc, w) = v_sess_cas_write D hi cc part seid 0 c V_SESS_PENDING (Cas_write_cb t) W
        in if rc \<noteq> RET_CODE_OK then finish D hi t V_PFCP_CAUSE_SYSTEM_FAILURE (v_teid_free D hi part teid w) else w)"
    "c \<noteq> 0"
proof -
  obtain k where k: "(case v_port_pfcp_ue_ip m of Some (v4, v6) \<Rightarrow> (hash_ue_ip v4 v6, w) | None \<Rightarrow> part_rr w) = (part, w\<lparr>g_rr_ctr := k\<rparr>)"
    unfolding part by (rule part_choice_cases)
  obtain sr obj tr where r: "ring_take D (g_seid_ring w part) = Some (seid, sr)" "ring_take D (g_teid_ring w part) = Some (obj, tr)"
    "ucast obj = teid" "seid \<noteq> 0" "teid \<noteq> 0" using ids by (auto simp: ids_ready_def)
  obtain c cp where c: "pool_get D (g_ctx_pool w) = Some (c, cp)" "c \<in> pool_set free (g_ctx_pool w)"
    using p(1,2) by (rule pool_take)
  then have c0: "c \<noteq> 0" using p(3) by auto
  have s: "v_seid_alloc D hi part v = (seid, v\<lparr>g_seid_ring := (g_seid_ring v)(part := Some sr)\<rparr>)"
    if "g_seid_ring v = g_seid_ring w" for v :: "('r, 'p, 'h, 'a) flow_st_scheme"
    using that r(1) ids by (simp add: v_seid_alloc_def seid_maybe_refill_def ids_ready_def)
  have t: "v_teid_alloc D hi cc part v = (teid, v\<lparr>g_teid_ring := (g_teid_ring v)(part := Some tr)\<rparr>)"
    if "g_teid_ring v = g_teid_ring w" for v :: "('r, 'p, 'h, 'a) flow_st_scheme"
    using that r(2,3) ids by (simp add: v_teid_alloc_def teid_maybe_refill_def ids_ready_def)
  show ?thesis
    by (rule that [where c = c and k = k and cp = cp and sr = "(g_seid_ring w)(part := Some sr)" and tr = "(g_teid_ring w)(part := Some tr)"])
      (use c0 in \<open>simp_all add: retrans_lookup_cb_def k [unfolded m] s t r(4,5) txn_upd_def v_port_ctx_alloc_def c(1)
        v_port_pfcp_build_session_def v_port_txn_set_state_def m est_ctx_def Let_def\<close>)
qed

lemma write_requested:
  fixes w :: "('r, 'p, 'h, 'a) flow_st_scheme"
  assumes l: "hiredis_laws hi waiting" "hiredis_accepts hi" and q: "quiet waiting w"
    and p: "pool_laws D free" "pool_set free (g_ctx_pool w) \<noteq> {}" "0 \<notin> pool_set free (g_ctx_pool w)"
      "pool_set free (g_db_pool w) \<noteq> {}" "pool_set free (g_evalsha_pool w) \<noteq> {}"
      "stock D free V_SESS_PENDING_POOL_CAP (g_sess_pool w) \<noteq> {}"
    and r: "retrans_pending_at w r = Retrans_lookup_cb t"
    and ids: "ids_ready D part seid teid w" and part: "part = est_part m w" and m: "m = pfcp_at w (t_req (txn_at w t))"
    and v6: "length (pm_v6_ue_ip m) = 16"
    and key: "key = make_key part seid" "shard = v_port_db_shard_of key"
    and sha: "g_sha w (unat shard) V_SCRIPT_SESS_CAS_WRITE = sha" "sha \<noteq> []" "g_shard_count w = int V_STUB_DB_SHARDS"
  obtains c u e x w' where "db_call D hi now (Lookup_reply_cb r) RET_CODE_OK (Some Reply_Nil) w = w'"
    "one_waits waiting w' (unat shard) [''EVALSHA'', sha, dec 1, key, dec 0, chars_of_bytes (ctx_bytes (est_ctx m seid teid)), dec 30]
       x (Evalsha_reply_cb e)"
    "ev_user_cb (evalsha_at w' e) = Some (Cas_write_reply_cb u)" "sess_pending_at w' u = Sess_cas (Cas_write_cb t) 0"
    "txn_at w' t = (txn_at w t)\<lparr>t_part_id := part, t_seid := seid, t_teid := teid, t_ctx := c, t_state := TXN_ST_DB_WRITE_WAIT\<rparr>"
    "ctx_at w' c = est_ctx m seid teid" "c \<noteq> 0" "g_db_pool w' \<noteq> None" "g_sess_pool w' \<noteq> None"
    "pool_set free (g_sess_pool w') = stock D free V_SESS_PENDING_POOL_CAP (g_sess_pool w) - {u}" "steady w w'"
proof -
  let ?cc = "db_call_at D hi now 2" and ?C = "est_ctx m seid teid"
  obtain c k sr tr cp where c: "retrans_lookup_cb D hi ?cc RET_CODE_OK False [] t w =
       (let W = w\<lparr>g_rr_ctr := k, g_seid_ring := sr, g_teid_ring := tr, g_ctx_pool := Some cp, ctx_at := (ctx_at w)(c := ?C),
              txn_at := (txn_at w)(t := (txn_at w t)\<lparr>t_part_id := part, t_seid := seid, t_teid := teid, t_ctx := c,
                t_state := TXN_ST_DB_WRITE_WAIT\<rparr>)\<rparr>;
            (rc, w) = v_sess_cas_write D hi ?cc part seid 0 c V_SESS_PENDING (Cas_write_cb t) W
        in if rc \<noteq> RET_CODE_OK then finish D hi t V_PFCP_CAUSE_SYSTEM_FAILURE (v_teid_free D hi part teid w) else w)"
    "c \<noteq> 0" using p(1-3) ids part m by (rule miss_prepares)
  define W where "W = w\<lparr>g_rr_ctr := k, g_seid_ring := sr, g_teid_ring := tr, g_ctx_pool := Some cp, ctx_at := (ctx_at w)(c := ?C),
      txn_at := (txn_at w)(t := (txn_at w t)\<lparr>t_part_id := part, t_seid := seid, t_teid := teid, t_ctx := c,
        t_state := TXN_ST_DB_WRITE_WAIT\<rparr>)\<rparr>"
  have W: "quiet waiting W" "pool_set free (g_db_pool W) \<noteq> {}" "pool_set free (g_evalsha_pool W) \<noteq> {}"
    "stock D free V_SESS_PENDING_POOL_CAP (g_sess_pool W) \<noteq> {}" "g_sha W (unat shard) V_SCRIPT_SESS_CAS_WRITE = sha"
    "g_shard_count W = int V_STUB_DB_SHARDS" "ctx_wf (ctx_at W c)"
    using q p(4-6) sha(1,3) est_ctx_wf [OF v6] by (simp_all add: W_def quiet_def)
  let ?args = "[''EVALSHA'', sha, dec 1, key, dec (unat (0 :: u64)), chars_of_bytes (ctx_bytes (ctx_at W c)), dec (ttl_of V_SESS_PENDING)]"
  obtain u spool e epool x pool g where s:
    "v_sess_cas_write D hi ?cc part seid 0 c V_SESS_PENDING (Cas_write_cb t) W =
       (RET_CODE_OK, W\<lparr>g_sess_pool := Some spool, sess_pending_at := (sess_pending_at W)(u := Sess_cas (Cas_write_cb t) 0),
          g_evalsha_pool := Some epool,
          evalsha_at := (evalsha_at W)(e := \<lparr>ev_shard = shard, ev_script_id = V_SCRIPT_SESS_CAS_WRITE,
             ev_user_cb = Some (Cas_write_reply_cb u), ev_retried = False, ev_parts = ?args\<rparr>),
          g_db_pool := Some pool, db_pending_at := (db_pending_at W)(x := \<lparr>pend_cb = Some (Evalsha_reply_cb e)\<rparr>), g_ctx := g\<rparr>)"
    "\<And>v :: ('r, 'p, 'h, 'a) flow_st_scheme. g_ctx v = g \<Longrightarrow> db_pending_at v x = \<lparr>pend_cb = Some (Evalsha_reply_cb e)\<rparr> \<Longrightarrow>
       one_waits waiting v (unat shard) ?args x (Evalsha_reply_cb e)"
    "free spool = stock D free V_SESS_PENDING_POOL_CAP (g_sess_pool W) - {u}"
    using l W(1) p(1) W(2-4) key W(5) sha(2) W(6,7) by (rule cas_write_sent [where cc = ?cc]) blast
  define w' where "w' = retrans_put D r (snd (v_sess_cas_write D hi ?cc part seid 0 c V_SESS_PENDING (Cas_write_cb t) W))"
  have args: "?args = [''EVALSHA'', sha, dec 1, key, dec 0, chars_of_bytes (ctx_bytes ?C), dec 30]"
    by (simp add: W_def ttl_of_def V_SESS_PENDING_TTL_def)
  have "db_call D hi now (Lookup_reply_cb r) RET_CODE_OK (Some Reply_Nil) w = w'"
    using c(1) [folded W_def] r by (simp add: db_call_eq lookup_reply_cb_def w'_def s(1) Let_def)
  then show ?thesis
    by (rule that [where c = c and u = u and e = e and x = x])
      (use s(2) [unfolded args] s(3) [unfolded W_def] c(2) in
        \<open>simp_all add: w'_def [unfolded s(1) snd_conv retrans_put_def, unfolded args, unfolded W_def] steady_def\<close>)
qed

subsection \<open>The record is written: the data plane accepts, the record is made permanent\<close>

lemma confirm_requested:
  fixes w :: "('r, 'p, 'h, 'a) flow_st_scheme"
  assumes l: "hiredis_laws hi waiting" "hiredis_accepts hi" and q: "quiet waiting w"
    and p: "pool_laws D free" "pool_set free (g_db_pool w) \<noteq> {}" "stock D free V_SESS_PENDING_POOL_CAP (g_sess_pool w) \<noteq> {}"
    and e: "ev_user_cb (evalsha_at w e) = Some (Cas_write_reply_cb u)" "sess_pending_at w u = Sess_cas (Cas_write_cb t) 0"
    and vdp: "next_result w = V_VDP_ACCEPT" and key: "key = make_key (t_part_id (txn_at w t)) (t_seid (txn_at w t))"
  obtains u' x w' where "db_call D hi now (Evalsha_reply_cb e) RET_CODE_OK (Some (Reply_Integer 1)) w = w'"
    "one_waits waiting w' (unat (v_port_db_shard_of key)) [''PERSIST'', key] x (Confirm_reply_cb u')"
    "sess_pending_at w' u' = Sess_simple (Confirm_cb t)"
    "txn_at w' t = (txn_at w t)\<lparr>t_db_ver := 1, t_state := TXN_ST_DB_CONFIRM_WAIT\<rparr>"
    "ctx_at w' = ctx_at w" "g_db_pool w' \<noteq> None" "steady w w'"
proof -
  define W where "W = w\<lparr>txn_at := (txn_at w)(t := (txn_at w t)\<lparr>t_db_ver := 1, t_state := TXN_ST_DB_CONFIRM_WAIT\<rparr>)\<rparr>"
  have W: "quiet waiting W" "pool_set free (g_db_pool W) \<noteq> {}" "stock D free V_SESS_PENDING_POOL_CAP (g_sess_pool W) \<noteq> {}"
    "key = make_key (t_part_id (txn_at W t)) (t_seid (txn_at W t))"
    using q p(2,3) by (simp_all add: W_def quiet_def key)
  obtain u' spool x pool c where s: "v_sess_confirm D hi (t_part_id (txn_at W t)) (t_seid (txn_at W t)) (Confirm_cb t) W =
       (RET_CODE_OK, W\<lparr>g_sess_pool := Some spool, sess_pending_at := (sess_pending_at W)(u' := Sess_simple (Confirm_cb t)),
          g_db_pool := Some pool, db_pending_at := (db_pending_at W)(x := \<lparr>pend_cb = Some (Confirm_reply_cb u')\<rparr>), g_ctx := c\<rparr>)"
    "\<And>v :: ('r, 'p, 'h, 'a) flow_st_scheme. g_ctx v = c \<Longrightarrow> db_pending_at v x = \<lparr>pend_cb = Some (Confirm_reply_cb u')\<rparr> \<Longrightarrow>
       one_waits waiting v (unat (v_port_db_shard_of key)) [''PERSIST'', key] x (Confirm_reply_cb u')"
    using l W(1) p(1) W(2,3,4) by (rule confirm_sent [where cb = "Confirm_cb t"]) blast
  define w' where "w' = evalsha_put D e (sess_put D u (snd (v_sess_confirm D hi (t_part_id (txn_at W t)) (t_seid (txn_at W t)) (Confirm_cb t) W)))"
  have n: "db_call_at D hi now 2 = db_callback D hi now (db_call_at D hi now 1)" by (simp add: numeral_2_eq_2)
  have "vdp_create_cb D hi cc V_VDP_ACCEPT t (w\<lparr>txn_at := (txn_at w)(t := (txn_at w t)\<lparr>t_db_ver := 1, t_state := TXN_ST_VDP_WAIT\<rparr>)\<rparr>) =
      snd (v_sess_confirm D hi (t_part_id (txn_at W t)) (t_seid (txn_at W t)) (Confirm_cb t) W)" for cc
    using s(1) by (simp add: vdp_create_cb_def v_port_txn_set_state_def txn_upd_def W_def Let_def)
  moreover have "next_result (w\<lparr>txn_at := X\<rparr>) = V_VDP_ACCEPT" for X using vdp by (simp add: next_result_def split: if_splits)
  ultimately have "cas_write_cb D hi cc RET_CODE_OK V_CAS_OK 1 t w =
      snd (v_sess_confirm D hi (t_part_id (txn_at W t)) (t_seid (txn_at W t)) (Confirm_cb t) W)" for cc
    by (simp add: cas_write_cb_def v_port_vdp_session_create_def txn_upd_def v_port_txn_set_state_def Let_def)
  then have "db_call D hi now (Evalsha_reply_cb e) RET_CODE_OK (Some (Reply_Integer 1)) w = w'"
    using e by (simp add: db_call_eq evalsha_reply_cb_def is_noscript_def call_opt_def n cas_write_reply_cb_def w'_def)
  then show ?thesis
    by (rule that [where u' = u' and x = x])
      (use s(2) in \<open>simp_all add: w'_def [unfolded s(1) snd_conv evalsha_put_def sess_put_def, unfolded W_def] steady_def\<close>)
qed

subsection \<open>The server's side\<close>

lemma record_created:
  assumes c: "redis_conforms call view" and k: "view db k = None"
  obtains db' where "V_LUA_SESS_CAS_WRITE call [k] [dec 0, blob, dec 30] db = (Reply_Integer 1, db')"
    "sess_rec (view db') k = Some (1, blob, Some 30)" "sess_wf (view db') k" "\<And>k'. k' \<noteq> k \<Longrightarrow> view db' k' = view db k'"
proof -
  have wf: "sess_wf (view db) k" "sess_rec (view db) k = None" using k by (simp_all add: sess_wf_def sess_rec_def)
  note s = cas_write_script [OF c wf(1), of 0 30, where blob = blob, unfolded wf(2), simplified]
  show ?thesis by (rule that [of "snd (V_LUA_SESS_CAS_WRITE call [k] [dec 0, blob, dec 30] db)"]) (use s in \<open>simp_all add: prod_eq_iff\<close>)
qed

lemma record_persisted:
  assumes c: "redis_conforms call view" and wf: "sess_wf (view db) k" and r: "sess_rec (view db) k = Some (v, d, Some t)"
  obtains db' where "call db [''PERSIST'', k] = (Reply_Integer 1, db')" "sess_rec (view db') k = Some (v, d, None)"
    "sess_wf (view db') k" "\<And>k'. k' \<noteq> k \<Longrightarrow> view db' k' = view db k'"
proof -
  from wf r obtain h where h: "view db k = Some (RHash h, Some t)" "h ''ver'' = Some (dec v)" "h ''data'' = Some d" "0 < v"
    by (cases rule: sess_wf_cases) auto
  have "redis_spec (view db) [''PERSIST'', k] = Some (Reply_Integer 1, (view db)(k \<mapsto> (RHash h, None)))"
    by (simp add: redis_PERSIST_def h(1))
  with c obtain db' where "call db [''PERSIST'', k] = (Reply_Integer 1, db')" "view db' = (view db)(k \<mapsto> (RHash h, None))"
    by (rule redis_conformsD)
  then show ?thesis using h by (intro that [of db']) (simp_all add: sess_rec_def sess_wf_def)
qed

text \<open>From the datagram to the write of the record.\<close>

lemma request_written:
  fixes w :: "('r, 'p, 'h, 'a) flow_st_scheme"
  assumes l: "hiredis_laws hi waiting" "hiredis_accepts hi" "next_reply_laws nr waiting" and srv: "server_laws serve call view sha"
    and ready: "pod_ready D free waiting U sha w"
    and m: "m = request_of msg" "sizeof_wire_req \<le> length (take (msg_len msg) (msg_buf msg))" "pm_type m = V_PFCP_MSG_SESSION_EST_REQ"
    and rkey: "f = pm_smf_fseid m" "rkey = retrans_key (v_retrans_part f) f (pm_seq m)" "view db rkey = None"
    and ids: "part = est_part m w" "ids_ready D part seid teid w" and key: "key = make_key part seid"
  obtains db1 t c u e q w2 where
    "pump D nr serve (db_call D hi now) (unat (v_port_db_shard_of rkey)) (db, v_flow_handle_msg D hi msg w) = (db1, w2)" "view db1 = view db"
    "one_waits waiting w2 (unat (v_port_db_shard_of key))
       [''EVALSHA'', sha V_SCRIPT_SESS_CAS_WRITE, dec 1, key, dec 0, chars_of_bytes (ctx_bytes (est_ctx m seid teid)), dec 30] q (Evalsha_reply_cb e)"
    "ev_user_cb (evalsha_at w2 e) = Some (Cas_write_reply_cb u)" "sess_pending_at w2 u = Sess_cas (Cas_write_cb t) 0"
    "t_part_id (txn_at w2 t) = part" "t_seid (txn_at w2 t) = seid" "t_ctx (txn_at w2 t) = c" "t_peer (txn_at w2 t) = msg_peer msg"
    "pfcp_at w2 (t_req (txn_at w2 t)) = m" "ctx_at w2 c = est_ctx m seid teid" "c \<noteq> 0"
    "pool_set free (g_db_pool w2) \<noteq> {}" "stock D free V_SESS_PENDING_POOL_CAP (g_sess_pool w2) \<noteq> {}"
    "acct D free waiting U {#} w2" "steady (w\<lparr>pfcp_at := pfcp_at w2\<rparr>) w2"
proof -
  note p = pod_readyD [OF ready]
  have fl: "flow_of m = Some (Retrans_lookup_cb, \<lambda>x. x)" using m(3) by (simp add: flow_of_def)
  obtain db1 where db1: "answers serve db [''GET'', rkey] (Reply_Nil, db1)" "view db1 = view db"
    using lookup_answered [OF srv, of db rkey None] rkey(3) by auto
  have rk: "rkey = retrans_key (v_retrans_part (pm_smf_fseid m)) (pm_smf_fseid m) (pm_seq m)" using rkey(1,2) by simp
  have ok: "reply_ok (Some Reply_Nil)" by simp
  obtain t rt x req W v w2 where e:
    "pump D nr serve (db_call D hi now) (unat (v_port_db_shard_of rkey)) (db, v_flow_handle_msg D hi msg w) = (db1, w2)"
    "quiet waiting W" "v = db_call D hi now (Lookup_reply_cb rt) RET_CODE_OK (Some Reply_Nil) W" "w2 = v\<lparr>g_db_pool := pool_put D x (g_db_pool v)\<rparr>"
    "acct D free waiting U {#} w2" "\<And>s args y cb. one_waits waiting w2 s args y cb = one_waits waiting v s args y cb"
    "retrans_pending_at W rt = Retrans_lookup_cb t" "pfcp_at W req = m"
    "txn_at W t = (zero_txn\<lparr>t_deadline_ms := g_now_ms w + V_STUB_TXN_HARD_TIMEOUT_MS, t_req := req, t_peer := msg_peer msg\<rparr>)\<lparr>t_state := TXN_ST_RECV\<rparr>"
    "pool_set free (g_db_pool W) = ar_db U - {x}" "spares w W" "steady (w\<lparr>pfcp_at := pfcp_at W\<rparr>) W"
    using l ready m(1,2) fl rk db1(1) ok by (rule request_exchanged [where now = now]) blast
  have pt: "part = est_part m W" using e(11) unfolding ids(1) by (simp add: est_part_def part_rr_def spares_def split: option.split)
  have ir: "ids_ready D part seid teid W" using ids(2) e(11) by (simp add: ids_ready_def spares_def)
  have ss: "g_sess_pool W = g_sess_pool w" "stock D free V_SESS_PENDING_POOL_CAP (g_sess_pool w) \<noteq> {}" using p(15) e(11) by (auto simp: spares_def)
  have W: "pool_set free (g_ctx_pool W) \<noteq> {}" "0 \<notin> pool_set free (g_ctx_pool W)"
      "pool_set free (g_db_pool W) \<noteq> {}" "pool_set free (g_evalsha_pool W) \<noteq> {}"
      "stock D free V_SESS_PENDING_POOL_CAP (g_sess_pool W) \<noteq> {}" "m = pfcp_at W (t_req (txn_at W t))"
      "g_sha W (unat (v_port_db_shard_of key)) V_SCRIPT_SESS_CAS_WRITE = sha V_SCRIPT_SESS_CAS_WRITE" "sha V_SCRIPT_SESS_CAS_WRITE \<noteq> []"
      "g_shard_count W = int V_STUB_DB_SHARDS"
    using e(8-12) p(6,8) p(7) [of x] p(14) [of x] ss ready by (auto simp: spares_def steady_def pod_ready_def script_ids V_SCRIPT_COUNT_def)
  obtain c u y q where w': "one_waits waiting v (unat (v_port_db_shard_of key))
       [''EVALSHA'', sha V_SCRIPT_SESS_CAS_WRITE, dec 1, key, dec 0, chars_of_bytes (ctx_bytes (est_ctx m seid teid)), dec 30] q (Evalsha_reply_cb y)"
    "ev_user_cb (evalsha_at v y) = Some (Cas_write_reply_cb u)" "sess_pending_at v u = Sess_cas (Cas_write_cb t) 0"
    "txn_at v t = (txn_at W t)\<lparr>t_part_id := part, t_seid := seid, t_teid := teid, t_ctx := c, t_state := TXN_ST_DB_WRITE_WAIT\<rparr>"
    "ctx_at v c = est_ctx m seid teid" "c \<noteq> 0" "g_db_pool v \<noteq> None" "g_sess_pool v \<noteq> None"
    "pool_set free (g_sess_pool v) = stock D free V_SESS_PENDING_POOL_CAP (g_sess_pool W) - {u}" "steady W v"
    using l(1,2) e(2) p(1) W(1-5) e(7) ir pt W(6) request_v6 [OF m(2), folded m(1)] key refl W(7-9)
    unfolding e(3) by (rule write_requested [where now = now]) blast
  have sd: "steady (w\<lparr>pfcp_at := pfcp_at w2\<rparr>) w2" "pfcp_at w2 = pfcp_at W" using w'(10) e(4,12) by (simp_all add: steady_def)
  have f: "t_part_id (txn_at w2 t) = part" "t_seid (txn_at w2 t) = seid" "t_ctx (txn_at w2 t) = c" "t_peer (txn_at w2 t) = msg_peer msg"
      "pfcp_at w2 (t_req (txn_at w2 t)) = m"
    using w'(4) e(4,8,9) sd(2) by simp_all
  have g: "ev_user_cb (evalsha_at w2 y) = Some (Cas_write_reply_cb u)" "sess_pending_at w2 u = Sess_cas (Cas_write_cb t) 0"
      "ctx_at w2 c = est_ctx m seid teid" "pool_set free (g_db_pool w2) \<noteq> {}" "stock D free V_SESS_PENDING_POOL_CAP (g_sess_pool w2) \<noteq> {}"
    using w'(2,3,5,7-9) ss p(1,15) by (auto simp: e(4) pool_put_set)
  show ?thesis by (rule that [OF e(1) db1(2) w'(1) [folded e(6)] g(1,2) f g(3) w'(6) g(4,5) e(5) sd(1)])
qed

text \<open>The server has written the record; the pod calls the data plane and confirms.\<close>

lemma record_confirmed:
  fixes w :: "('r, 'p, 'h, 'a) flow_st_scheme"
  assumes l: "hiredis_laws hi waiting" "hiredis_accepts hi" "next_reply_laws nr waiting" and srv: "server_laws serve call view sha"
    and p: "pool_laws D free" "pool_set free (g_db_pool w) \<noteq> {}" "stock D free V_SESS_PENDING_POOL_CAP (g_sess_pool w) \<noteq> {}"
    and o: "one_waits waiting w s [''EVALSHA'', sha V_SCRIPT_SESS_CAS_WRITE, dec 1, key, dec 0, blob, dec 30] q (Evalsha_reply_cb e)"
    and e: "ev_user_cb (evalsha_at w e) = Some (Cas_write_reply_cb u)" "sess_pending_at w u = Sess_cas (Cas_write_cb t) 0"
    and a: "acct D free waiting U {#} w" and g: "length (g_scratch w) = V_STUB_DB_REPLY_SCRATCH_CAP"
    and vdp: "next_result w = V_VDP_ACCEPT" and key: "key = make_key (t_part_id (txn_at w t)) (t_seid (txn_at w t))"
    and db: "view db key = None"
  obtains db' u' q' w' where "pump D nr serve (db_call D hi now) s (db, w) = (db', w')"
    "sess_rec (view db') key = Some (1, blob, Some 30)" "sess_wf (view db') key" "\<And>k. k \<noteq> key \<Longrightarrow> view db' k = view db k"
    "one_waits waiting w' (unat (v_port_db_shard_of key)) [''PERSIST'', key] q' (Confirm_reply_cb u')"
    "sess_pending_at w' u' = Sess_simple (Confirm_cb t)" "txn_at w' t = (txn_at w t)\<lparr>t_db_ver := 1, t_state := TXN_ST_DB_CONFIRM_WAIT\<rparr>"
    "ctx_at w' = ctx_at w" "pool_set free (g_db_pool w') \<noteq> {}" "acct D free waiting U {#} w'" "steady w w'"
proof -
  obtain db' where db': "V_LUA_SESS_CAS_WRITE call [key] [dec 0, blob, dec 30] db = (Reply_Integer 1, db')"
    "sess_rec (view db') key = Some (1, blob, Some 30)" "sess_wf (view db') key" "\<And>k. k \<noteq> key \<Longrightarrow> view db' k = view db k"
    using server_lawsD(1) [OF srv] db by (rule record_created [where blob = blob]) blast
  have an: "answers serve db [''EVALSHA'', sha V_SCRIPT_SESS_CAS_WRITE, dec 1, key, dec 0, blob, dec 30] (Reply_Integer 1, db')"
    using server_lawsD(3) [OF srv, of db key "[dec 0, blob, dec 30]"] by (simp only: db'(1))
  have ok: "reply_ok (Some (Reply_Integer 1))" by simp
  obtain c sc us W v w' where r: "W = w\<lparr>g_ctx := c, g_scratch := sc, g_scratch_used := us\<rparr>" "quiet waiting W" "length sc = V_STUB_DB_REPLY_SCRATCH_CAP"
    "v = db_call D hi now (Evalsha_reply_cb e) RET_CODE_OK (Some (Reply_Integer 1)) W" "w' = v\<lparr>g_db_pool := pool_put D q (g_db_pool v)\<rparr>"
    "pump D nr serve (db_call D hi now) s (db, w) = (db', w')" "acct D free waiting U {#} w'"
    "\<And>s args y cb. one_waits waiting w' s args y cb = one_waits waiting v s args y cb"
    using l(1,3) a o g an ok by (rule exchange [where now = now]) blast
  have W: "pool_set free (g_db_pool W) \<noteq> {}" "stock D free V_SESS_PENDING_POOL_CAP (g_sess_pool W) \<noteq> {}"
      "ev_user_cb (evalsha_at W e) = Some (Cas_write_reply_cb u)" "sess_pending_at W u = Sess_cas (Cas_write_cb t) 0"
      "next_result W = V_VDP_ACCEPT" "key = make_key (t_part_id (txn_at W t)) (t_seid (txn_at W t))"
    using p(2,3) e vdp key by (simp_all add: r(1) next_result_def split: if_splits)
  obtain u' q' where w1: "one_waits waiting v (unat (v_port_db_shard_of key)) [''PERSIST'', key] q' (Confirm_reply_cb u')"
    "sess_pending_at v u' = Sess_simple (Confirm_cb t)" "txn_at v t = (txn_at W t)\<lparr>t_db_ver := 1, t_state := TXN_ST_DB_CONFIRM_WAIT\<rparr>"
    "ctx_at v = ctx_at W" "g_db_pool v \<noteq> None" "steady W v"
    using l(1,2) r(2) p(1) W unfolding r(4) by (rule confirm_requested [where now = now]) blast
  show ?thesis
    by (rule that [OF r(6) db'(2-4) w1(1) [folded r(8)] _ _ _ _ r(7)])
      (use w1(2-6) p(1) r(3) g in \<open>auto simp: r(5,1) pool_put_set steady_def\<close>)
qed

text \<open>The record is permanent; the pod answers.\<close>

lemma record_answered:
  fixes w :: "('r, 'p, 'h, 'a) flow_st_scheme"
  assumes l: "hiredis_laws hi waiting" "hiredis_accepts hi" "next_reply_laws nr waiting" and srv: "server_laws serve call view sha"
    and p: "pool_laws D free" "pool_set free (g_db_pool w) \<noteq> {}" and i: "disp_inv D elems usable free A H w"
    and o: "one_waits waiting w s [''PERSIST'', key] q (Confirm_reply_cb u)" and u: "sess_pending_at w u = Sess_simple (Confirm_cb t)"
    and a: "acct D free waiting U {#} w" and g: "length (g_scratch w) = V_STUB_DB_REPLY_SCRATCH_CAP"
    and db: "sess_wf (view db) key" "sess_rec (view db) key = Some (v, d, Some ttl)"
    and x: "t_ctx (txn_at w t) \<noteq> 0" and m: "m = pfcp_at w (t_req (txn_at w t))"
    and rkey: "rkey = retrans_key (v_retrans_part (pm_smf_fseid m)) (pm_smf_fseid m) (pm_seq m)"
  obtains db' w' bs q' where "pump D nr serve (db_call D hi now) s (db, w) = (db', w')"
    "sess_rec (view db') key = Some (v, d, None)" "\<And>k. k \<noteq> key \<Longrightarrow> view db' k = view db k"
    "answer_to m V_PFCP_CAUSE_REQUEST_ACCEPTED (ctx_seid (ctx_at w (t_ctx (txn_at w t)))) bs"
    "one_waits waiting w' (unat (v_port_db_shard_of rkey)) [''SETEX'', rkey, dec 10, chars_of_bytes bs] q' Store_ack_cb"
    "tx_msgs elems w' = (if accepts elems usable free (g_tx_ring w) bs w then tx_msgs elems w @ [(bs, t_peer (txn_at w t))] else tx_msgs elems w)"
    "acct D free waiting U {#} w'" "script_part w' = script_part w"
proof -
  obtain db' where db': "call db [''PERSIST'', key] = (Reply_Integer 1, db')" "sess_rec (view db') key = Some (v, d, None)"
    "\<And>k. k \<noteq> key \<Longrightarrow> view db' k = view db k"
    using server_lawsD(1) [OF srv] db by (rule record_persisted) blast
  have an: "answers serve db [''PERSIST'', key] (Reply_Integer 1, db')" "reply_ok (Some (Reply_Integer 1))"
    using server_lawsD(2) [OF srv, of db "[''PERSIST'', key]"] db'(1) by (simp_all add: redis_PERSIST_def)
  obtain c sc us W w1 w' where r: "W = w\<lparr>g_ctx := c, g_scratch := sc, g_scratch_used := us\<rparr>" "quiet waiting W" "length sc = V_STUB_DB_REPLY_SCRATCH_CAP"
    "w1 = db_call D hi now (Confirm_reply_cb u) RET_CODE_OK (Some (Reply_Integer 1)) W" "w' = w1\<lparr>g_db_pool := pool_put D q (g_db_pool w1)\<rparr>"
    "pump D nr serve (db_call D hi now) s (db, w) = (db', w')" "acct D free waiting U {#} w'"
    "\<And>s args y cb. one_waits waiting w' s args y cb = one_waits waiting w1 s args y cb"
    using l(1,3) a o g an by (rule exchange [where now = now]) blast
  have W: "pool_set free (g_db_pool W) \<noteq> {}" "disp_inv D elems usable free A H W" "t_ctx (txn_at W t) \<noteq> 0" "m = pfcp_at W (t_req (txn_at W t))"
    using p(2) i x m disp_frame(1) [of W w] by (simp_all add: r(1))
  define v' where "v' = finish D hi t V_PFCP_CAUSE_REQUEST_ACCEPTED W"
  have w1: "w1 = sess_put D u v'" using u r(1) by (simp add: r(4) db_call_eq confirm_reply_cb_def confirm_cb_def v'_def)
  obtain bs q' where bs: "answer_to m V_PFCP_CAUSE_REQUEST_ACCEPTED (ctx_seid (ctx_at W (t_ctx (txn_at W t)))) bs"
    "one_waits waiting v' (unat (v_port_db_shard_of rkey)) [''SETEX'', rkey, dec 10, chars_of_bytes bs] q' Store_ack_cb"
    "tx_msgs elems v' = (if accepts elems usable free (g_tx_ring W) bs W then tx_msgs elems W @ [(bs, t_peer (txn_at W t))] else tx_msgs elems W)"
    using l(1,2) r(2) p(1) W(1,2) refl W(3,4) refl rkey v'_def by (rule finish_alone)
  have o': "one_waits waiting w' (unat (v_port_db_shard_of rkey)) [''SETEX'', rkey, dec 10, chars_of_bytes bs] q' Store_ack_cb"
    using bs(2) one_waits_cong [of w1 v'] by (simp add: r(8) w1 sess_put_def)
  have "tx_msgs elems w' = tx_msgs elems v'" by (simp add: r(5) w1 sess_put_def tx_msgs_def)
  then have tx: "tx_msgs elems w' = (if accepts elems usable free (g_tx_ring w) bs w then tx_msgs elems w @ [(bs, t_peer (txn_at w t))] else tx_msgs elems w)"
    using bs(3) disp_frame(2,3) [of W w] by (simp add: r(1))
  have "answer_to m V_PFCP_CAUSE_REQUEST_ACCEPTED (ctx_seid (ctx_at w (t_ctx (txn_at w t)))) bs" using bs(1) by (simp add: r(1))
  from that [OF r(6) db'(2,3) this o' tx r(7)] show ?thesis
    using finish_script_frame [of D hi t V_PFCP_CAUSE_REQUEST_ACCEPTED W, folded v'_def] r(3) g by (simp add: script_part_def r(5,1) w1 sess_put_def)
qed

subsection \<open>Property\<close>

text \<open>
  C3: an establishment is committed. An idle pod that gets a session establishment request, no
  answer to which is cached, with identifiers at hand, a data plane that accepts and a server that
  answers, exchanges four commands with the server. Then the database holds the session record at
  version 1, permanent, with the context the request describes and the identifiers taken from the
  rings, and the answer in the retransmission cache, and nothing else in it has changed; exactly one
  answer, cause accepted, with the sequence number of the request and the new SEID, the bytes that
  are cached, is queued for the peer; the transaction is gone and the pod is ready for the next
  request.
\<close>

theorem establishment_committed:
  fixes w :: "('r, 'p, 'h, 'a) flow_st_scheme"
  assumes "hiredis_laws hi waiting" "hiredis_accepts hi" "next_reply_laws nr waiting" and srv: "server_laws serve call view sha"
    and ready: "pod_ready D free waiting U sha w" and disp: "disp_inv D elems usable free A H w"
      "pool_set free (g_msg_pool w) \<noteq> {}" "has_room elems usable (g_tx_ring w)" and vdp: "next_result w = V_VDP_ACCEPT"
    and m: "m = request_of msg" "sizeof_wire_req \<le> length (take (msg_len msg) (msg_buf msg))" "pm_type m = V_PFCP_MSG_SESSION_EST_REQ"
    and rkey: "rkey = retrans_key (v_retrans_part (pm_smf_fseid m)) (pm_smf_fseid m) (pm_seq m)" "view db rkey = None"
    and ids: "part = est_part m w" "ids_ready D part seid teid w" and key: "key = make_key part seid" "view db key = None"
    and step: "step = pump D nr serve (db_call D hi now)"
    and s: "r = unat (v_port_db_shard_of rkey)" "s = unat (v_port_db_shard_of key)"
  shows "\<exists>db' w' bs. step r (step s (step s (step r (db, v_flow_handle_msg D hi msg w)))) = (db', w') \<and>
    sess_rec (view db') key = Some (1, chars_of_bytes (ctx_bytes (est_ctx m seid teid)), None) \<and>
    view db' rkey = Some (RStr (chars_of_bytes bs), Some 10) \<and> (\<forall>k. k \<noteq> key \<and> k \<noteq> rkey \<longrightarrow> view db' k = view db k) \<and>
    tx_msgs elems w' = tx_msgs elems w @ [(bs, msg_peer msg)] \<and> answer_to m V_PFCP_CAUSE_REQUEST_ACCEPTED seid bs \<and>
    live w' = {} \<and> pod_ready D free waiting U sha w'"
proof -
  note l = assms(1-3) and pl = pod_readyD(1) [OF ready] and g0 = pod_readyD(4) [OF ready]
  let ?blob = "chars_of_bytes (ctx_bytes (est_ctx m seid teid))"
  obtain db1 t c u e q2 w2 where w2: "step r (db, v_flow_handle_msg D hi msg w) = (db1, w2)" "view db1 = view db"
    "one_waits waiting w2 s [''EVALSHA'', sha V_SCRIPT_SESS_CAS_WRITE, dec 1, key, dec 0, ?blob, dec 30] q2 (Evalsha_reply_cb e)"
    "ev_user_cb (evalsha_at w2 e) = Some (Cas_write_reply_cb u)" "sess_pending_at w2 u = Sess_cas (Cas_write_cb t) 0"
    "t_part_id (txn_at w2 t) = part" "t_seid (txn_at w2 t) = seid" "t_ctx (txn_at w2 t) = c" "t_peer (txn_at w2 t) = msg_peer msg"
    "pfcp_at w2 (t_req (txn_at w2 t)) = m" "ctx_at w2 c = est_ctx m seid teid" "c \<noteq> 0"
    "pool_set free (g_db_pool w2) \<noteq> {}" "stock D free V_SESS_PENDING_POOL_CAP (g_sess_pool w2) \<noteq> {}"
    "acct D free waiting U {#} w2" "steady (w\<lparr>pfcp_at := pfcp_at w2\<rparr>) w2"
    using l srv ready m refl rkey ids key(1) unfolding step s by (rule request_written [where now = now])
  have v2: "next_result w2 = V_VDP_ACCEPT" "length (g_scratch w2) = V_STUB_DB_REPLY_SCRATCH_CAP"
    using w2(16) vdp g0 by (simp_all add: steady_def next_result_def split: if_splits)
  have k2: "key = make_key (t_part_id (txn_at w2 t)) (t_seid (txn_at w2 t))" "view db1 key = None" using key w2(2,6,7) by simp_all
  obtain db2 u' q3 w3 where w3: "step s (db1, w2) = (db2, w3)"
    "sess_rec (view db2) key = Some (1, ?blob, Some 30)" "sess_wf (view db2) key" "\<And>k. k \<noteq> key \<Longrightarrow> view db2 k = view db1 k"
    "one_waits waiting w3 s [''PERSIST'', key] q3 (Confirm_reply_cb u')"
    "sess_pending_at w3 u' = Sess_simple (Confirm_cb t)" "txn_at w3 t = (txn_at w2 t)\<lparr>t_db_ver := 1, t_state := TXN_ST_DB_CONFIRM_WAIT\<rparr>"
    "ctx_at w3 = ctx_at w2" "pool_set free (g_db_pool w3) \<noteq> {}" "acct D free waiting U {#} w3" "steady w2 w3"
    using l srv pl w2(13,14,3,4,5,15) v2(2,1) k2 unfolding step s by (rule record_confirmed [where now = now]) blast
  have g3: "length (g_scratch w3) = V_STUB_DB_REPLY_SCRATCH_CAP" using v2(2) w3(11) by (simp add: steady_def)
  have d3: "disp_inv D elems usable free A H w3" "tx_msgs elems w3 = tx_msgs elems w" "accepts elems usable free (g_tx_ring w3) bs w3 = (length bs \<le> V_DISPATCH_MSG_MAX_BYTES)" for bs
    using w2(16) w3(11) disp disp_frame [of w3 w] by (simp_all add: steady_def accepts_def)
  have x3: "t_ctx (txn_at w3 t) \<noteq> 0" "m = pfcp_at w3 (t_req (txn_at w3 t))" "t_peer (txn_at w3 t) = msg_peer msg"
      "ctx_at w3 (t_ctx (txn_at w3 t)) = est_ctx m seid teid"
    using w3(7,8,11) w2(8-12) by (simp_all add: steady_def)
  obtain db3 w4 bs q where w4: "step s (db2, w3) = (db3, w4)" "sess_rec (view db3) key = Some (1, ?blob, None)" "\<And>k. k \<noteq> key \<Longrightarrow> view db3 k = view db2 k"
    "answer_to m V_PFCP_CAUSE_REQUEST_ACCEPTED (ctx_seid (ctx_at w3 (t_ctx (txn_at w3 t)))) bs"
    "one_waits waiting w4 r [''SETEX'', rkey, dec 10, chars_of_bytes bs] q Store_ack_cb"
    "tx_msgs elems w4 = (if accepts elems usable free (g_tx_ring w3) bs w3 then tx_msgs elems w3 @ [(bs, t_peer (txn_at w3 t))] else tx_msgs elems w3)"
    "acct D free waiting U {#} w4" "script_part w4 = script_part w3"
    using l srv pl w3(9) d3(1) w3(5,6,10) g3 w3(3,2) x3(1,2) rkey(1) unfolding step s by (rule record_answered [where now = now]) blast
  have sp: "script_part w4 = script_part w" using steady_script [OF w2(16)] steady_script [OF w3(11)] w4(8) by (simp add: script_part_def)
  obtain db' w' where w': "step r (db3, w4) = (db', w')" "view db' = (view db3)(rkey \<mapsto> (RStr (chars_of_bytes bs), Some 10))"
    "pod_ready D free waiting U sha w'" "tx_msgs elems w' = tx_msgs elems w4"
    using l(1,3) srv w4(5,7) ready sp unfolding step by (rule answer_cached [where now = now])
  have "key \<noteq> rkey" unfolding key(1) rkey(1) by (rule session_key_not_cached)
  then have "sess_rec (view db') key = Some (1, ?blob, None)" using w4(2) w'(2) by (simp add: sess_rec_def)
  moreover have "ctx_seid (est_ctx m seid teid) = seid" by (simp add: est_ctx_def fill_pattern_def)
  ultimately show ?thesis
    using w' w4(1,3,4,6) w2(1,2) w3(1,4) x3(3,4) d3(2,3) pod_readyD(10) [OF w'(3)]
    by (intro exI [of _ db'] exI [of _ w'] exI [of _ bs]) (simp add: V_DISPATCH_MSG_MAX_BYTES_def answer_to_def)
qed

subsection \<open>An instance\<close>

definition est_request :: v_dispatch_msg where
  "est_request = \<lparr>msg_buf = 50 # replicate 2047 0, msg_len = 44, msg_peer = zero_sockaddr\<rparr>"

lemma est_request_ok:
  "sizeof_wire_req \<le> length (take (msg_len est_request) (msg_buf est_request))"
  "pm_type (request_of est_request) = V_PFCP_MSG_SESSION_EST_REQ"
proof -
  have buf: "take (msg_len est_request) (msg_buf est_request) = 50 # replicate 43 0" by (simp add: est_request_def take_Cons')
  show "sizeof_wire_req \<le> length (take (msg_len est_request) (msg_buf est_request))"
    "pm_type (request_of est_request) = V_PFCP_MSG_SESSION_EST_REQ"
    unfolding request_of_def buf
    by (simp_all add: sizeof_wire_req_def msg_of_wire_def wire_req_of_bytes_def V_PFCP_MSG_SESSION_EST_REQ_def take_Cons')
qed

theorem establishment_committed_witness:
  "\<exists>db' w' bs key s r. list_step r (list_step s (list_step s (list_step r
       (Map.empty, v_flow_handle_msg list_dpdk list_hiredis est_request ready_pod)))) = (db', w') \<and>
     (\<exists>blob. sess_rec db' key = Some (1, blob, None)) \<and> tx_msgs snd w' = [(bs, zero_sockaddr)] \<and>
     answer_to (request_of est_request) V_PFCP_CAUSE_REQUEST_ACCEPTED 5 bs"
proof -
  have ids: "ids_ready list_dpdk part 5 7 ready_pod" for part
    by (simp add: ids_ready_def ring_count_def ring_take_def list_dpdk_def ready_pod_defs id_alloc_consts)
  have c: "msg_peer est_request = zero_sockaddr" by (simp add: est_request_def)
  from establishment_committed [OF list_hiredis_laws list_hiredis_accepts list_reader_laws keyspace_server_laws ready_pod_ready ready_pod_disp(1-4) refl est_request_ok refl _ refl ids refl _
        list_step_def refl refl, of Map.empty]
  show ?thesis unfolding ready_pod_disp(5) append_Nil c by blast
qed

end
