(* ===== verification/Retransmission.thy ===== *)
theory Retransmission
  imports Establishment
begin

section \<open>A request that comes again\<close>

text \<open>
  What an idle pod does with a request whose answer is in the retransmission cache: it sends the
  cached bytes and does nothing else. With the state \<open>establishment_committed\<close> ends in, this is the
  repetition of an establishment: the peer gets the same answer and no second session.
\<close>

lemma cached_call:
  assumes "flow_of m = Some (mk, init)" and "retrans_pending_at w rt = mk t"
  shows "db_call D hi now (Lookup_reply_cb rt) RET_CODE_OK (Some (Reply_String (chars_of_bytes bs))) w = retrans_put D rt (retrans_hit D bs t w)"
proof -
  have "mk = Retrans_lookup_cb \<or> mk = Mod_retrans_lookup_cb \<or> mk = Del_retrans_lookup_cb"
    using assms(1) by (auto simp: flow_of_def Let_def split: if_splits)
  then show ?thesis using assms(2)
    by (auto simp: db_call_eq lookup_reply_cb_def retrans_lookup_cb_def mod_retrans_lookup_cb_def del_retrans_lookup_cb_def Let_def)
qed

lemma retrans_hit_frame:
  fixes w :: "('r, 'p, 'h, 'a) flow_st_scheme" and D :: "('r, 'p) dpdk" and bs :: "u8 list" and t :: ptr
  defines "w' \<equiv> retrans_hit D bs t w" and "w1 \<equiv> snd (v_dispatch_tx_enqueue D bs (Some (t_peer (txn_at w t))) w)"
  shows "g_rx_ring w' = g_rx_ring w1" "g_tx_ring w' = g_tx_ring w1" "g_msg_pool w' = g_msg_pool w1" "msg_at w' = msg_at w1"
    "script_part w' = script_part w" "g_seid_ring w' = g_seid_ring w" "g_teid_ring w' = g_teid_ring w" "ctx_at w' = ctx_at w"
proof -
  have d: "g_rx_ring (v_port_txn_destroy D t v) = g_rx_ring v" "g_tx_ring (v_port_txn_destroy D t v) = g_tx_ring v"
      "g_msg_pool (v_port_txn_destroy D t v) = g_msg_pool v" "msg_at (v_port_txn_destroy D t v) = msg_at v"
      "g_seid_ring (v_port_txn_destroy D t v) = g_seid_ring v" "g_teid_ring (v_port_txn_destroy D t v) = g_teid_ring v"
      "ctx_at (v_port_txn_destroy D t v) = ctx_at v" for v :: "('r, 'p, 'h, 'a) flow_st_scheme"
    by (simp_all add: v_port_txn_destroy_def split: option.split)
  have f: "g_seid_ring w1 = g_seid_ring w" "g_teid_ring w1 = g_teid_ring w" "ctx_at w1 = ctx_at w"
    by (simp_all add: w1_def v_dispatch_tx_enqueue_def stage_msg_def split: option.split)
  have e: "w' = v_port_txn_destroy D t (txn_upd t (\<lambda>x. x\<lparr>t_req := 0\<rparr>) (v_port_pfcp_msg_free D (t_req (txn_at w1 t)) w1))"
    by (simp add: w'_def w1_def retrans_hit_def Let_def)
  show "script_part w' = script_part w" by (simp add: e script_part_frame w1_def)
  show "g_rx_ring w' = g_rx_ring w1" "g_tx_ring w' = g_tx_ring w1" "g_msg_pool w' = g_msg_pool w1" "msg_at w' = msg_at w1"
    "g_seid_ring w' = g_seid_ring w" "g_teid_ring w' = g_teid_ring w" "ctx_at w' = ctx_at w"
    by (simp_all add: e d txn_upd_def v_port_pfcp_msg_free_def f)
qed

text \<open>
  C6: a retransmission is answered from the cache and changes nothing. An idle pod, with one exchange
  with the server, queues for the peer exactly the bytes that are cached under the key of the request,
  be it an establishment, a modification or a deletion; the database is as it was, no identifier is
  taken, no context is used, and the pod is ready for the next request.
\<close>

theorem retransmission_changes_nothing:
  fixes w :: "('r, 'p, 'h, 'a) flow_st_scheme"
  assumes l: "hiredis_laws hi waiting" "hiredis_accepts hi" "next_reply_laws nr waiting" and srv: "server_laws serve call view sha"
    and ready: "pod_ready D free waiting U sha w" and disp: "disp_inv D elems usable free A H w"
    and m: "m = request_of msg" "sizeof_wire_req \<le> length (take (msg_len msg) (msg_buf msg))" "flow_of m \<noteq> None"
    and rkey: "rkey = retrans_key (v_retrans_part (pm_smf_fseid m)) (pm_smf_fseid m) (pm_seq m)"
      "view db rkey = Some (RStr (chars_of_bytes bs), ttl)" and acc: "accepts elems usable free (g_tx_ring w) bs w"
  shows "\<exists>db' w'. pump D nr serve (db_call D hi now) (unat (v_port_db_shard_of rkey)) (db, v_flow_handle_msg D hi msg w) = (db', w') \<and>
    view db' = view db \<and> tx_msgs elems w' = tx_msgs elems w @ [(bs, msg_peer msg)] \<and>
    g_seid_ring w' = g_seid_ring w \<and> g_teid_ring w' = g_teid_ring w \<and> ctx_at w' = ctx_at w \<and>
    live w' = {} \<and> pod_ready D free waiting U sha w'"
proof -
  obtain mk init where fl: "flow_of m = Some (mk, init)" using m(3) by auto
  obtain db' where db': "answers serve db [''GET'', rkey] (Reply_String (chars_of_bytes bs), db')" "view db' = view db"
    using lookup_answered [OF srv, of db rkey "Some (chars_of_bytes bs, ttl)"] rkey(2) by auto
  have ok: "reply_ok (Some (Reply_String (chars_of_bytes bs)))" by simp
  obtain t rt x req W v w' where e:
    "pump D nr serve (db_call D hi now) (unat (v_port_db_shard_of rkey)) (db, v_flow_handle_msg D hi msg w) = (db', w')"
    "quiet waiting W" "v = db_call D hi now (Lookup_reply_cb rt) RET_CODE_OK (Some (Reply_String (chars_of_bytes bs))) W"
    "w' = v\<lparr>g_db_pool := pool_put D x (g_db_pool v)\<rparr>" "acct D free waiting U {#} w'" "retrans_pending_at W rt = mk t"
    "txn_at W t = (init (zero_txn\<lparr>t_deadline_ms := g_now_ms w + V_STUB_TXN_HARD_TIMEOUT_MS, t_req := req, t_peer := msg_peer msg\<rparr>))
       \<lparr>t_state := TXN_ST_RECV\<rparr>" "spares w W" "steady (w\<lparr>pfcp_at := pfcp_at W\<rparr>) W"
    using l ready m(1,2) fl rkey(1) db'(1) ok by (rule request_exchanged [where now = now]) blast
  have pe: "t_peer (txn_at W t) = msg_peer msg" using fl by (auto simp: e(7) flow_of_def Let_def split: if_splits)
  have v: "v = retrans_put D rt (retrans_hit D bs t W)" unfolding e(3) by (rule cached_call [OF fl e(6)])
  note f = retrans_hit_frame [of D bs t W]
  have g: "g_ctx w' = g_ctx W" "script_part w' = script_part w" "g_seid_ring w' = g_seid_ring w" "g_teid_ring w' = g_teid_ring w" "ctx_at w' = ctx_at w"
    using f(5-8) steady_script [OF e(9)] e(8) by (simp_all add: e(4) v retrans_put_def spares_def script_part_def)
  have dw: "disp_inv D elems usable free A H W" "tx_msgs elems W = tx_msgs elems w" "accepts elems usable free (g_tx_ring W) bs W"
    using disp acc e(9) disp_frame [of W w] by (simp_all add: steady_def)
  have "tx_msgs elems w' = tx_msgs elems (retrans_hit D bs t W)" by (simp add: e(4) v retrans_put_def tx_msgs_def)
  also have "\<dots> = tx_msgs elems w @ [(bs, msg_peer msg)]"
    using disp_frame(2) [OF f(1-4)] tx_step [OF dw(1), of bs "Some (t_peer (txn_at W t))"] dw(2,3) pe by simp
  finally have tx: "tx_msgs elems w' = tx_msgs elems w @ [(bs, msg_peer msg)]" .
  have "quiet waiting w'" using e(2) g(1) quiet_cong by blast
  with ready e(5) have "pod_ready D free waiting U sha w'" using g(2) by (rule ready_again)
  with e(1) db'(2) tx g(3-5) pod_readyD(10) [OF this] show ?thesis by blast
qed

subsection \<open>An instance\<close>

theorem retransmission_changes_nothing_witness:
  "\<exists>key r db' w'. list_step r ([key \<mapsto> (RStr (chars_of_bytes [51, 1]), Some 10)], v_flow_handle_msg list_dpdk list_hiredis est_request ready_pod) = (db', w') \<and>
     db' = [key \<mapsto> (RStr (chars_of_bytes [51, 1]), Some 10)] \<and> tx_msgs snd w' = [([51, 1], zero_sockaddr)] \<and> live w' = {}"
proof -
  have fl: "flow_of (request_of est_request) \<noteq> None" using est_request_ok(2) by (simp add: flow_of_def)
  have acc: "accepts snd fst set (g_tx_ring ready_pod) [51, 1] ready_pod"
    using ready_pod_disp(2,3) by (simp add: accepts_def V_DISPATCH_MSG_MAX_BYTES_def)
  define key where "key = (let m = request_of est_request in retrans_key (v_retrans_part (pm_smf_fseid m)) (pm_smf_fseid m) (pm_seq m))"
  have c: "msg_peer est_request = zero_sockaddr" by (simp add: est_request_def)
  from retransmission_changes_nothing [OF list_hiredis_laws list_hiredis_accepts list_reader_laws keyspace_server_laws ready_pod_ready ready_pod_disp(1)
      refl est_request_ok(1) fl key_def [unfolded Let_def] _ acc, of "[key \<mapsto> (RStr (chars_of_bytes [51, 1]), Some 10)]" "Some 10" 0, folded list_step_def]
  show ?thesis unfolding ready_pod_disp(5) append_Nil c by auto
qed

end
