(* ===== verification/Session_read.thy ===== *)
theory Session_read
  imports Request
begin

section \<open>A request for a session that exists\<close>

text \<open>
  What modification and deletion have in common: after a lookup that finds no cached answer, the pod
  takes a context, reads the record of the session, and the record's context and version reach the
  callback of the flow.
\<close>

subsection \<open>The read is sent\<close>

lemma read_sent:
  fixes w :: "('r, 'p, 'h, 'a) sess_st_scheme"
  assumes l: "hiredis_laws hi waiting" "hiredis_accepts hi" and q: "quiet waiting w"
    and p: "pool_laws D free" "pool_set free (g_db_pool w) \<noteq> {}" "stock D free V_SESS_PENDING_POOL_CAP (g_sess_pool w) \<noteq> {}"
    and key: "key = make_key part seid"
  obtains u spool x pool c where
    "v_sess_read D hi part seid ctx cb w =
       (RET_CODE_OK, w\<lparr>g_sess_pool := Some spool, sess_pending_at := (sess_pending_at w)(u := Sess_read cb ctx),
          g_db_pool := Some pool, db_pending_at := (db_pending_at w)(x := \<lparr>pend_cb = Some (Read_reply_cb u)\<rparr>), g_ctx := c\<rparr>)"
    "\<And>v :: ('r, 'p, 'h, 'a) sess_st_scheme. g_ctx v = c \<Longrightarrow> db_pending_at v x = \<lparr>pend_cb = Some (Read_reply_cb u)\<rparr> \<Longrightarrow>
       one_waits waiting v (unat (v_port_db_shard_of key)) [''HMGET'', key, ''data'', ''ver''] x (Read_reply_cb u)"
    "free spool = stock D free V_SESS_PENDING_POOL_CAP (g_sess_pool w) - {u}"
proof -
  obtain u pool0 spool where u: "ensure_pool D w = (RET_CODE_OK, w\<lparr>g_sess_pool := Some pool0\<rparr>)"
    "sess_get D (Sess_read cb ctx) (w\<lparr>g_sess_pool := Some pool0\<rparr>) =
       Some (u, w\<lparr>g_sess_pool := Some spool, sess_pending_at := (sess_pending_at w)(u := Sess_read cb ctx)\<rparr>)"
    "free spool = stock D free V_SESS_PENDING_POOL_CAP (g_sess_pool w) - {u}"
    using p(1,3) by (rule sess_object [where u = "Sess_read cb ctx"])
  define w1 where "w1 = w\<lparr>g_sess_pool := Some spool, sess_pending_at := (sess_pending_at w)(u := Sess_read cb ctx)\<rparr>"
  have w1: "quiet waiting w1" "pool_set free (g_db_pool w1) \<noteq> {}" using q p(2) by (simp_all add: w1_def quiet_def)
  let ?args = "[''HMGET'', key, ''data'', ''ver'']"
  obtain x pool c where x: "v_port_db_cmd D hi (v_port_db_shard_of key) (Read_reply_cb u) ?args w1 =
       (RET_CODE_OK, w1\<lparr>g_db_pool := Some pool, db_pending_at := (db_pending_at w1)(x := \<lparr>pend_cb = Some (Read_reply_cb u)\<rparr>), g_ctx := c\<rparr>)"
    "\<And>v :: ('r, 'p, 'h, 'a) sess_st_scheme. g_ctx v = c \<Longrightarrow> db_pending_at v x = \<lparr>pend_cb = Some (Read_reply_cb u)\<rparr> \<Longrightarrow>
       one_waits waiting v (unat (v_port_db_shard_of key)) ?args x (Read_reply_cb u)"
    using l w1(1) shard_of_lt p(1) w1(2) by (rule command_sent [where cb = "Read_reply_cb u" and args = ?args]) blast
  have "v_sess_read D hi part seid ctx cb w =
      (RET_CODE_OK, w1\<lparr>g_db_pool := Some pool, db_pending_at := (db_pending_at w1)(x := \<lparr>pend_cb = Some (Read_reply_cb u)\<rparr>), g_ctx := c\<rparr>)"
    using u(1,2) x(1) by (simp add: v_sess_read_def key w1_def Let_def)
  then show ?thesis using x(2) u(3)
    by (intro that [where u = u and spool = spool and x = x and pool = pool and c = c]) (simp_all add: w1_def)
qed

text \<open>The two flows that read a session, by the callback of the lookup and the callback of the read.\<close>

definition reading_flow :: "(ptr \<Rightarrow> v_retrans_cb) \<Rightarrow> (ptr \<Rightarrow> v_sess_read_cb) \<Rightarrow> bool" where
  "reading_flow mk rcb \<longleftrightarrow> mk = Mod_retrans_lookup_cb \<and> rcb = Mod_read_cb \<or> mk = Del_retrans_lookup_cb \<and> rcb = Del_read_cb"

lemma read_requested:
  fixes w :: "('r, 'p, 'h, 'a) flow_st_scheme"
  assumes l: "hiredis_laws hi waiting" "hiredis_accepts hi" and q: "quiet waiting w"
    and p: "pool_laws D free" "pool_set free (g_ctx_pool w) \<noteq> {}" "0 \<notin> pool_set free (g_ctx_pool w)"
      "pool_set free (g_db_pool w) \<noteq> {}" "stock D free V_SESS_PENDING_POOL_CAP (g_sess_pool w) \<noteq> {}"
    and r: "retrans_pending_at w r = mk t" "reading_flow mk rcb"
    and key: "key = make_key (t_part_id (txn_at w t)) (t_seid (txn_at w t))"
  obtains c u x w' where "db_call D hi now (Lookup_reply_cb r) RET_CODE_OK (Some Reply_Nil) w = w'"
    "one_waits waiting w' (unat (v_port_db_shard_of key)) [''HMGET'', key, ''data'', ''ver''] x (Read_reply_cb u)"
    "sess_pending_at w' u = Sess_read (rcb t) c" "txn_at w' t = (txn_at w t)\<lparr>t_ctx := c, t_state := TXN_ST_DB_READ_WAIT\<rparr>" "c \<noteq> 0"
    "g_db_pool w' \<noteq> None" "pool_set free (g_ctx_pool w') = pool_set free (g_ctx_pool w) - {c}"
    "g_sess_pool w' \<noteq> None" "pool_set free (g_sess_pool w') = stock D free V_SESS_PENDING_POOL_CAP (g_sess_pool w) - {u}"
    "g_evalsha_pool w' = g_evalsha_pool w" "steady w w'"
proof -
  obtain c cp where c: "pool_get D (g_ctx_pool w) = Some (c, cp)" "c \<in> pool_set free (g_ctx_pool w)" "free cp = pool_set free (g_ctx_pool w) - {c}"
    using p(1,2) by (rule pool_take)
  have c0: "c \<noteq> 0" using c(2) p(3) by auto
  define W where "W = w\<lparr>g_ctx_pool := Some cp, ctx_at := (ctx_at w)(c := zero_ctx\<lparr>ctx_magic := V_STUB_CTX_MAGIC\<rparr>),
      txn_at := (txn_at w)(t := (txn_at w t)\<lparr>t_ctx := c, t_state := TXN_ST_DB_READ_WAIT\<rparr>)\<rparr>"
  have W: "quiet waiting W" "pool_set free (g_db_pool W) \<noteq> {}" "stock D free V_SESS_PENDING_POOL_CAP (g_sess_pool W) \<noteq> {}"
      "key = make_key (t_part_id (txn_at W t)) (t_seid (txn_at W t))"
    using q p(4,5) by (simp_all add: W_def quiet_def key)
  obtain u spool x pool g where s: "v_sess_read D hi (t_part_id (txn_at W t)) (t_seid (txn_at W t)) c (rcb t) W =
       (RET_CODE_OK, W\<lparr>g_sess_pool := Some spool, sess_pending_at := (sess_pending_at W)(u := Sess_read (rcb t) c),
          g_db_pool := Some pool, db_pending_at := (db_pending_at W)(x := \<lparr>pend_cb = Some (Read_reply_cb u)\<rparr>), g_ctx := g\<rparr>)"
    "\<And>v :: ('r, 'p, 'h, 'a) flow_st_scheme. g_ctx v = g \<Longrightarrow> db_pending_at v x = \<lparr>pend_cb = Some (Read_reply_cb u)\<rparr> \<Longrightarrow>
       one_waits waiting v (unat (v_port_db_shard_of key)) [''HMGET'', key, ''data'', ''ver''] x (Read_reply_cb u)"
    "free spool = stock D free V_SESS_PENDING_POOL_CAP (g_sess_pool W) - {u}"
    using l W(1) p(1) W(2-4) by (rule read_sent [where cb = "rcb t" and ctx = c]) blast
  define w' where "w' = retrans_put D r (snd (v_sess_read D hi (t_part_id (txn_at W t)) (t_seid (txn_at W t)) c (rcb t) W))"
  have "db_call D hi now (Lookup_reply_cb r) RET_CODE_OK (Some Reply_Nil) w = w'"
    using r s(1) c(1) c0
    by (auto simp: reading_flow_def db_call_eq lookup_reply_cb_def mod_retrans_lookup_cb_def del_retrans_lookup_cb_def mod_start_read_def
        del_start_read_def v_port_ctx_alloc_def txn_upd_def v_port_txn_set_state_def w'_def W_def Let_def)
  then show ?thesis
    by (rule that [where c = c and u = u and x = x])
      (use s(2) s(3) [unfolded W_def] c(3) c0 in \<open>simp_all add: w'_def [unfolded s(1) snd_conv retrans_put_def, unfolded W_def] steady_def\<close>)
qed

lemma reading_flow_of:
  assumes "flow_of m = Some (mk, init)" and "reading_flow mk rcb"
  obtains part where "v_seid_validate (pm_seid m) = Some part" "init = (\<lambda>x. x\<lparr>t_part_id := part, t_seid := pm_seid m\<rparr>)"
  using assms by (auto simp: flow_of_def reading_flow_def Let_def fun_eq_iff split: if_splits)

lemma session_looked_up:
  fixes w :: "('r, 'p, 'h, 'a) flow_st_scheme"
  assumes l: "hiredis_laws hi waiting" "hiredis_accepts hi" "next_reply_laws nr waiting" and srv: "server_laws serve call view sha"
    and ready: "pod_ready D free waiting U sha w"
    and m: "m = request_of msg" "sizeof_wire_req \<le> length (take (msg_len msg) (msg_buf msg))" "flow_of m = Some (mk, init)" "reading_flow mk rcb"
    and rkey: "rkey = retrans_key (v_retrans_part (pm_smf_fseid m)) (pm_smf_fseid m) (pm_seq m)" "view db rkey = None"
    and part: "v_seid_validate (pm_seid m) = Some part" and key: "key = make_key part (pm_seid m)"
  obtains db1 t c u q w2 where
    "pump D nr serve (db_call D hi now) (unat (v_port_db_shard_of rkey)) (db, v_flow_handle_msg D hi msg w) = (db1, w2)" "view db1 = view db"
    "one_waits waiting w2 (unat (v_port_db_shard_of key)) [''HMGET'', key, ''data'', ''ver''] q (Read_reply_cb u)"
    "sess_pending_at w2 u = Sess_read (rcb t) c" "t_part_id (txn_at w2 t) = part" "t_seid (txn_at w2 t) = pm_seid m" "t_ctx (txn_at w2 t) = c"
    "t_peer (txn_at w2 t) = msg_peer msg" "pfcp_at w2 (t_req (txn_at w2 t)) = m" "c \<noteq> 0"
    "pool_set free (g_db_pool w2) \<noteq> {}" "stock D free V_SESS_PENDING_POOL_CAP (g_sess_pool w2) \<noteq> {}" "pool_set free (g_evalsha_pool w2) \<noteq> {}"
    "pool_set free (g_ctx_pool w2) \<noteq> {}" "0 \<notin> pool_set free (g_ctx_pool w2)" "c \<notin> pool_set free (g_ctx_pool w2)"
    "acct D free waiting U {#} w2" "steady (w\<lparr>pfcp_at := pfcp_at w2\<rparr>) w2"
proof -
  note p = pod_readyD [OF ready]
  have init: "init = (\<lambda>x. x\<lparr>t_part_id := part, t_seid := pm_seid m\<rparr>)" using reading_flow_of [OF m(3,4)] part by auto
  obtain db1 where db1: "answers serve db [''GET'', rkey] (Reply_Nil, db1)" "view db1 = view db"
    using lookup_answered [OF srv, of db rkey None] rkey(2) by auto
  have ok: "reply_ok (Some Reply_Nil)" by simp
  obtain t rt x req W v w2 where e:
    "pump D nr serve (db_call D hi now) (unat (v_port_db_shard_of rkey)) (db, v_flow_handle_msg D hi msg w) = (db1, w2)"
    "quiet waiting W" "v = db_call D hi now (Lookup_reply_cb rt) RET_CODE_OK (Some Reply_Nil) W" "w2 = v\<lparr>g_db_pool := pool_put D x (g_db_pool v)\<rparr>"
    "acct D free waiting U {#} w2" "\<And>s args y cb. one_waits waiting w2 s args y cb = one_waits waiting v s args y cb"
    "retrans_pending_at W rt = mk t" "pfcp_at W req = m"
    "txn_at W t = (init (zero_txn\<lparr>t_deadline_ms := g_now_ms w + V_STUB_TXN_HARD_TIMEOUT_MS, t_req := req, t_peer := msg_peer msg\<rparr>))
       \<lparr>t_state := TXN_ST_RECV\<rparr>"
    "pool_set free (g_db_pool W) = ar_db U - {x}" "spares w W" "steady (w\<lparr>pfcp_at := pfcp_at W\<rparr>) W"
    using l ready m(1-3) rkey(1) db1(1) ok by (rule request_exchanged [where now = now]) blast
  have pl: "g_ctx_pool W = g_ctx_pool w" "g_sess_pool W = g_sess_pool w" "g_evalsha_pool W = g_evalsha_pool w" using e(11) by (simp_all add: spares_def)
  have W: "pool_set free (g_ctx_pool W) \<noteq> {}" "0 \<notin> pool_set free (g_ctx_pool W)" "pool_set free (g_db_pool W) \<noteq> {}"
      "stock D free V_SESS_PENDING_POOL_CAP (g_sess_pool W) \<noteq> {}" "key = make_key (t_part_id (txn_at W t)) (t_seid (txn_at W t))"
    unfolding pl e(10) using p(7,8,14,15) by (auto simp: e(9) init key)
  obtain c u q where w': "one_waits waiting v (unat (v_port_db_shard_of key)) [''HMGET'', key, ''data'', ''ver''] q (Read_reply_cb u)"
    "sess_pending_at v u = Sess_read (rcb t) c" "txn_at v t = (txn_at W t)\<lparr>t_ctx := c, t_state := TXN_ST_DB_READ_WAIT\<rparr>" "c \<noteq> 0"
    "g_db_pool v \<noteq> None" "pool_set free (g_ctx_pool v) = pool_set free (g_ctx_pool W) - {c}"
    "g_sess_pool v \<noteq> None" "pool_set free (g_sess_pool v) = stock D free V_SESS_PENDING_POOL_CAP (g_sess_pool W) - {u}"
    "g_evalsha_pool v = g_evalsha_pool W" "steady W v"
    using l(1,2) e(2) p(1) W(1-4) e(7) m(4) W(5) unfolding e(3) by (rule read_requested [where now = now]) blast
  have x2: "txn_at w2 t = (txn_at W t)\<lparr>t_ctx := c, t_state := TXN_ST_DB_READ_WAIT\<rparr>" using w'(3) by (simp add: e(4))
  have sd: "steady (w\<lparr>pfcp_at := pfcp_at w2\<rparr>) w2" "pfcp_at w2 = pfcp_at W" using w'(10) e(4,12) by (simp_all add: steady_def)
  have f: "t_part_id (txn_at w2 t) = part" "t_seid (txn_at w2 t) = pm_seid m" "t_ctx (txn_at w2 t) = c" "t_peer (txn_at w2 t) = msg_peer msg"
      "pfcp_at w2 (t_req (txn_at w2 t)) = m"
    unfolding sd(2) x2 e(9) init using e(8) by simp_all
  have g: "sess_pending_at w2 u = Sess_read (rcb t) c" "pool_set free (g_db_pool w2) \<noteq> {}" "stock D free V_SESS_PENDING_POOL_CAP (g_sess_pool w2) \<noteq> {}"
      "pool_set free (g_evalsha_pool w2) \<noteq> {}" "pool_set free (g_ctx_pool w2) \<noteq> {}" "0 \<notin> pool_set free (g_ctx_pool w2)" "c \<notin> pool_set free (g_ctx_pool w2)"
    using w'(2,5-9) p(1,6,8) p(7) [of c] p(15) [of u] by (auto simp: e(4) pool_put_set pl)
  show ?thesis by (rule that [OF e(1) db1(2) w'(1) [folded e(6)] g(1) f w'(4) g(2-7) e(5) sd(1)])
qed

subsection \<open>The record arrives\<close>

definition stored_ctx :: "v_stub_ses_ctx \<Rightarrow> bool" where
  "stored_ctx c \<longleftrightarrow> ctx_wf c \<and> ctx_magic c = V_STUB_CTX_MAGIC"

lemma record_read:
  assumes srv: "server_laws serve call view sha" and db: "sess_wf (view db) k" "sess_rec (view db) k = Some (v, d, ttl)"
  shows "\<exists>db'. answers serve db [''HMGET'', k, ''data'', ''ver''] (Reply_Array [Reply_String d, Reply_String (dec v)], db') \<and> view db' = view db"
proof -
  from db obtain h where h: "view db k = Some (RHash h, ttl)" "h ''ver'' = Some (dec v)" "h ''data'' = Some d"
    by (cases rule: sess_wf_cases) auto
  have s: "redis_spec (view db) [''HMGET'', k, ''data'', ''ver''] = Some (Reply_Array [Reply_String d, Reply_String (dec v)], view db)"
    by (simp add: redis_HMGET_def h)
  with server_lawsD(1) [OF srv] obtain db' where "call db [''HMGET'', k, ''data'', ''ver''] = (Reply_Array [Reply_String d, Reply_String (dec v)], db')"
    "view db' = view db" by (rule redis_conformsD)
  with server_lawsD(2) [OF srv, of db "[''HMGET'', k, ''data'', ''ver'']"] s show ?thesis by auto
qed

lemma stored_ctx_reply:
  "stored_ctx c \<Longrightarrow> reply_ok (Some (Reply_Array [Reply_String (chars_of_bytes (ctx_bytes c)), Reply_String (dec v)]))"
  by (simp add: stored_ctx_def)

lemma record_delivered:
  assumes "stored_ctx C" and "v < 2 ^ 64" and "sess_pending_at w u = Sess_read cb ctx"
  shows "db_call D hi now (Read_reply_cb u) RET_CODE_OK (Some (Reply_Array [Reply_String (chars_of_bytes (ctx_bytes C)), Reply_String (dec v)])) w =
    sess_put D u (read_call D hi (db_call_at D hi now 2) cb RET_CODE_OK V_CAS_OK ctx (of_nat v) (w\<lparr>ctx_at := (ctx_at w)(ctx := C)\<rparr>))"
  using assms by (simp add: db_call_eq stored_ctx_def read_reply_record(2))

subsection \<open>A session to evaluate on\<close>

definition session_request :: "u8 \<Rightarrow> v_dispatch_msg" where
  "session_request ty =
     \<lparr>msg_buf = [ty, 0, 0, 0, 9, 0, 0, 0, 5, 0, 0, 0, 0, 0xC0, 0, 0x10] @ replicate 2032 0, msg_len = 44, msg_peer = zero_sockaddr\<rparr>"

definition session_ctx :: v_stub_ses_ctx where
  "session_ctx = zero_ctx\<lparr>ctx_magic := V_STUB_CTX_MAGIC, ctx_seid := 0x1000C00000000005, ctx_teid := 7\<rparr>"

definition session_db :: keyspace where
  "session_db = [make_key 3 0x1000C00000000005 \<mapsto> (RHash [''ver'' \<mapsto> dec 4, ''data'' \<mapsto> chars_of_bytes (ctx_bytes session_ctx)], None)]"

lemma session_ctx_stored: "stored_ctx session_ctx"
  by (simp add: stored_ctx_def session_ctx_def ctx_wf_def zero_ctx_def)

lemma session_request_ok:
  "sizeof_wire_req \<le> length (take (msg_len (session_request ty)) (msg_buf (session_request ty)))"
  "pm_type (request_of (session_request ty)) = ty" "pm_seid (request_of (session_request ty)) = 0x1000C00000000005"
  "v_seid_validate (pm_seid (request_of (session_request ty))) = Some 3" "msg_peer (session_request ty) = zero_sockaddr"
proof -
  have buf: "take (msg_len (session_request ty)) (msg_buf (session_request ty)) =
      [ty, 0, 0, 0, 9, 0, 0, 0, 5, 0, 0, 0, 0, 0xC0, 0, 0x10] @ replicate 28 0" by (simp add: session_request_def take_Cons')
  have v: "v_seid_validate 0x1000C00000000005 = Some 3" by code_simp
  show s: "sizeof_wire_req \<le> length (take (msg_len (session_request ty)) (msg_buf (session_request ty)))"
    "pm_type (request_of (session_request ty)) = ty" "pm_seid (request_of (session_request ty)) = 0x1000C00000000005"
    unfolding request_of_def buf
    by (simp_all add: sizeof_wire_req_def msg_of_wire_def wire_req_of_bytes_def field_at_def of_le_def take_Cons' drop_Cons')
  then show "v_seid_validate (pm_seid (request_of (session_request ty))) = Some 3" using v by simp
  show "msg_peer (session_request ty) = zero_sockaddr" by (simp add: session_request_def)
qed

lemma session_db_ok:
  fixes ty :: u8 defines "key \<equiv> make_key 3 (pm_seid (request_of (session_request ty)))"
  shows "session_db (retrans_key part f seq) = None" "sess_wf session_db key"
    "sess_rec session_db key = Some (4, chars_of_bytes (ctx_bytes session_ctx), None)"
proof -
  have k: "key = make_key 3 0x1000C00000000005" by (simp add: key_def session_request_ok(3))
  show "session_db (retrans_key part f seq) = None" using session_key_not_cached [of 3 "0x1000C00000000005" part f seq] by (auto simp: session_db_def)
  have "session_db key = Some (RHash [''ver'' \<mapsto> dec 4, ''data'' \<mapsto> chars_of_bytes (ctx_bytes session_ctx)], None)" by (simp add: session_db_def k)
  then show "sess_wf session_db key" "sess_rec session_db key = Some (4, chars_of_bytes (ctx_bytes session_ctx), None)"
    by (simp_all add: sess_wf_def sess_rec_def)
qed

end
