(* ===== verification/Modification.thy ===== *)
theory Modification
  imports Session_read
begin

section \<open>A modification from request to answer\<close>

text \<open>
  What an idle pod does with a session modification request: it reads the record, keeps a copy of
  the context, writes the changed context back under the version it has read, calls the data plane
  and answers.
\<close>

subsection \<open>The record is read: the changed one is written\<close>

definition mod_ctx :: "pfcp_msg \<Rightarrow> v_stub_ses_ctx \<Rightarrow> v_stub_ses_ctx" where
  "mod_ctx m c = fill_pattern (pm_seq m XOR 0xA5A5A5A5) c"

lemma mod_ctx_wf: "ctx_wf c \<Longrightarrow> ctx_wf (mod_ctx m c)"
  by (simp add: mod_ctx_def ctx_wf_def fill_pattern_def)

lemma mod_write_requested:
  fixes w :: "('r, 'p, 'h, 'a) flow_st_scheme"
  assumes l: "hiredis_laws hi waiting" "hiredis_accepts hi" and q: "quiet waiting w"
    and p: "pool_laws D free" "pool_set free (g_ctx_pool w) \<noteq> {}" "0 \<notin> pool_set free (g_ctx_pool w)" "c \<notin> pool_set free (g_ctx_pool w)"
      "pool_set free (g_db_pool w) \<noteq> {}" "pool_set free (g_evalsha_pool w) \<noteq> {}" "stock D free V_SESS_PENDING_POOL_CAP (g_sess_pool w) \<noteq> {}"
    and u: "sess_pending_at w u = Sess_read (Mod_read_cb t) c" and m: "m = pfcp_at w (t_req (txn_at w t))"
    and C: "stored_ctx C" "n < 2 ^ 64"
    and key: "key = make_key (t_part_id (txn_at w t)) (t_seid (txn_at w t))" "shard = v_port_db_shard_of key"
    and sha: "g_sha w (unat shard) V_SCRIPT_SESS_CAS_WRITE = sha" "sha \<noteq> []" "g_shard_count w = int V_STUB_DB_SHARDS"
  obtains prev u' e x w' where
    "db_call D hi now (Read_reply_cb u) RET_CODE_OK (Some (Reply_Array [Reply_String (chars_of_bytes (ctx_bytes C)), Reply_String (dec n)])) w = w'"
    "one_waits waiting w' (unat shard) [''EVALSHA'', sha, dec 1, key, dec n, chars_of_bytes (ctx_bytes (mod_ctx m C)), dec 0] x (Evalsha_reply_cb e)"
    "ev_user_cb (evalsha_at w' e) = Some (Cas_write_reply_cb u')" "sess_pending_at w' u' = Sess_cas (Mod_cas_cb t) (of_nat n)"
    "txn_at w' t = (txn_at w t)\<lparr>t_db_ver := of_nat n, t_impl := prev, t_state := TXN_ST_DB_WRITE_WAIT\<rparr>"
    "ctx_at w' c = mod_ctx m C" "prev \<noteq> 0" "prev \<noteq> c" "steady w w'"
proof -
  let ?cc = "db_call_at D hi now 2" and ?M = "mod_ctx m C"
  obtain prev cp where prev: "pool_get D (g_ctx_pool w) = Some (prev, cp)" "prev \<in> pool_set free (g_ctx_pool w)" using p(1,2) by (rule pool_take)
  have pn: "prev \<noteq> 0" "prev \<noteq> c" using prev(2) p(3,4) by auto
  define W where "W = w\<lparr>g_ctx_pool := Some cp, ctx_at := (ctx_at w)(prev := C, c := ?M),
      txn_at := (txn_at w)(t := (txn_at w t)\<lparr>t_db_ver := of_nat n, t_impl := prev, t_state := TXN_ST_DB_WRITE_WAIT\<rparr>)\<rparr>"
  have W: "quiet waiting W" "pool_set free (g_db_pool W) \<noteq> {}" "pool_set free (g_evalsha_pool W) \<noteq> {}"
      "stock D free V_SESS_PENDING_POOL_CAP (g_sess_pool W) \<noteq> {}" "key = make_key (t_part_id (txn_at W t)) (t_seid (txn_at W t))"
      "g_sha W (unat shard) V_SCRIPT_SESS_CAS_WRITE = sha" "g_shard_count W = int V_STUB_DB_SHARDS" "ctx_wf (ctx_at W c)"
    using q p(5-7) sha(1,3) key(1) C(1) mod_ctx_wf by (simp_all add: W_def quiet_def stored_ctx_def)
  let ?args = "[''EVALSHA'', sha, dec 1, key, dec (unat (of_nat n :: u64)), chars_of_bytes (ctx_bytes (ctx_at W c)), dec (ttl_of V_SESS_CONFIRMED)]"
  define res where "res = v_sess_cas_write D hi ?cc (t_part_id (txn_at W t)) (t_seid (txn_at W t)) (of_nat n) c V_SESS_CONFIRMED (Mod_cas_cb t) W"
  obtain u' spool e epool x pool g where s:
    "res = (RET_CODE_OK, W\<lparr>g_sess_pool := Some spool, sess_pending_at := (sess_pending_at W)(u' := Sess_cas (Mod_cas_cb t) (of_nat n)),
          g_evalsha_pool := Some epool,
          evalsha_at := (evalsha_at W)(e := \<lparr>ev_shard = shard, ev_script_id = V_SCRIPT_SESS_CAS_WRITE,
             ev_user_cb = Some (Cas_write_reply_cb u'), ev_retried = False, ev_parts = ?args\<rparr>),
          g_db_pool := Some pool, db_pending_at := (db_pending_at W)(x := \<lparr>pend_cb = Some (Evalsha_reply_cb e)\<rparr>), g_ctx := g\<rparr>)"
    "\<And>v :: ('r, 'p, 'h, 'a) flow_st_scheme. g_ctx v = g \<Longrightarrow> db_pending_at v x = \<lparr>pend_cb = Some (Evalsha_reply_cb e)\<rparr> \<Longrightarrow>
       one_waits waiting v (unat shard) ?args x (Evalsha_reply_cb e)"
    using l W(1) p(1) W(2-5) key(2) W(6) sha(2) W(7,8) unfolding res_def by (rule cas_write_sent [where cc = ?cc]) blast
  define w' where "w' = sess_put D u (snd res)"
  have un: "unat (of_nat n :: u64) = n" using C(2) by (simp add: unsigned_of_nat take_bit_nat_eq_self)
  have args: "?args = [''EVALSHA'', sha, dec 1, key, dec n, chars_of_bytes (ctx_bytes ?M), dec 0]"
    by (simp add: W_def ttl_of_def un)
  have ser: "Option.bind (v_port_pdu_serialize C 2048) v_port_pdu_deserialize = Some C"
    using serialize_ctx [of C, unfolded V_SESS_BLOB_MAX_BYTES_def] C(1) by (simp add: stored_ctx_def)
  have wt: "t_part_id (txn_at W t) = t_part_id (txn_at w t)" "t_seid (txn_at W t) = t_seid (txn_at w t)" by (simp_all add: W_def)
  have "mod_read_cb D hi ?cc RET_CODE_OK V_CAS_OK c (of_nat n) t (w\<lparr>ctx_at := (ctx_at w)(c := C)\<rparr>) = snd res"
    using pn s(1)
    by (simp add: mod_read_cb_def txn_upd_def v_port_ctx_alloc_def prev(1) ser v_port_pfcp_modify_session_def mod_ctx_def [symmetric] m [symmetric]
        v_port_txn_set_state_def W_def [symmetric] res_def [unfolded wt, symmetric] Let_def)
  then have "db_call D hi now (Read_reply_cb u) RET_CODE_OK (Some (Reply_Array [Reply_String (chars_of_bytes (ctx_bytes C)), Reply_String (dec n)])) w = w'"
    unfolding record_delivered [OF C u] by (simp add: w'_def)
  then show ?thesis
    by (rule that [where prev = prev and u' = u' and e = e and x = x])
      (use s(2) [unfolded args] pn in \<open>simp_all add: w'_def [unfolded s(1) snd_conv sess_put_def, unfolded args, unfolded W_def] steady_def\<close>)
qed

lemma changed_record_sent:
  fixes w :: "('r, 'p, 'h, 'a) flow_st_scheme"
  assumes l: "hiredis_laws hi waiting" "hiredis_accepts hi" "next_reply_laws nr waiting" and srv: "server_laws serve call view sha"
    and p: "pool_laws D free" "pool_set free (g_ctx_pool w) \<noteq> {}" "0 \<notin> pool_set free (g_ctx_pool w)" "c \<notin> pool_set free (g_ctx_pool w)"
      "pool_set free (g_db_pool w) \<noteq> {}" "pool_set free (g_evalsha_pool w) \<noteq> {}" "stock D free V_SESS_PENDING_POOL_CAP (g_sess_pool w) \<noteq> {}"
    and o: "one_waits waiting w s [''HMGET'', key, ''data'', ''ver''] q (Read_reply_cb u)" and a: "acct D free waiting U {#} w"
    and u: "sess_pending_at w u = Sess_read (Mod_read_cb t) c" and m: "m = pfcp_at w (t_req (txn_at w t))"
    and db: "sess_wf (view db) key" "sess_rec (view db) key = Some (n, chars_of_bytes (ctx_bytes C), ttl)" and C: "stored_ctx C" "n < 2 ^ 64"
    and key: "key = make_key (t_part_id (txn_at w t)) (t_seid (txn_at w t))" and sc: "script_part w = script_part w0" "pod_ready D free waiting U sha w0"
  obtains db' prev u' e x w' where "pump D nr serve (db_call D hi now) s (db, w) = (db', w')" "view db' = view db"
    "one_waits waiting w' (unat (v_port_db_shard_of key))
       [''EVALSHA'', sha V_SCRIPT_SESS_CAS_WRITE, dec 1, key, dec n, chars_of_bytes (ctx_bytes (mod_ctx m C)), dec 0] x (Evalsha_reply_cb e)"
    "ev_user_cb (evalsha_at w' e) = Some (Cas_write_reply_cb u')" "sess_pending_at w' u' = Sess_cas (Mod_cas_cb t) (of_nat n)"
    "txn_at w' t = (txn_at w t)\<lparr>t_db_ver := of_nat n, t_impl := prev, t_state := TXN_ST_DB_WRITE_WAIT\<rparr>"
    "ctx_at w' c = mod_ctx m C" "prev \<noteq> 0" "prev \<noteq> c" "acct D free waiting U {#} w'" "steady w w'"
proof -
  obtain db' where db': "answers serve db [''HMGET'', key, ''data'', ''ver''] (Reply_Array [Reply_String (chars_of_bytes (ctx_bytes C)), Reply_String (dec n)], db')"
    "view db' = view db" using record_read [OF srv db] by blast
  have g: "length (g_scratch w) = V_STUB_DB_REPLY_SCRATCH_CAP" using sc pod_readyD(4) by (fastforce simp: script_part_def)
  obtain g' sc' us W v w' where r: "W = w\<lparr>g_ctx := g', g_scratch := sc', g_scratch_used := us\<rparr>" "quiet waiting W" "length sc' = V_STUB_DB_REPLY_SCRATCH_CAP"
    "v = db_call D hi now (Read_reply_cb u) RET_CODE_OK (Some (Reply_Array [Reply_String (chars_of_bytes (ctx_bytes C)), Reply_String (dec n)])) W"
    "w' = v\<lparr>g_db_pool := pool_put D q (g_db_pool v)\<rparr>" "pump D nr serve (db_call D hi now) s (db, w) = (db', w')" "acct D free waiting U {#} w'"
    "\<And>s args y cb. one_waits waiting w' s args y cb = one_waits waiting v s args y cb"
    using l(1,3) a o g db'(1) stored_ctx_reply [OF C(1)] by (rule exchange [where now = now]) blast
  have W: "pool_set free (g_ctx_pool W) \<noteq> {}" "0 \<notin> pool_set free (g_ctx_pool W)" "c \<notin> pool_set free (g_ctx_pool W)" "pool_set free (g_db_pool W) \<noteq> {}"
      "pool_set free (g_evalsha_pool W) \<noteq> {}" "stock D free V_SESS_PENDING_POOL_CAP (g_sess_pool W) \<noteq> {}" "sess_pending_at W u = Sess_read (Mod_read_cb t) c"
      "m = pfcp_at W (t_req (txn_at W t))" "key = make_key (t_part_id (txn_at W t)) (t_seid (txn_at W t))"
    using p(2-7) u m key by (simp_all add: r(1))
  have sh: "g_sha W (unat (v_port_db_shard_of key)) V_SCRIPT_SESS_CAS_WRITE = sha V_SCRIPT_SESS_CAS_WRITE" "sha V_SCRIPT_SESS_CAS_WRITE \<noteq> []"
      "g_shard_count W = int V_STUB_DB_SHARDS"
    using sc by (auto simp: r(1) script_part_def pod_ready_def script_ids V_SCRIPT_COUNT_def)
  obtain prev u' e x where w1: "one_waits waiting v (unat (v_port_db_shard_of key))
       [''EVALSHA'', sha V_SCRIPT_SESS_CAS_WRITE, dec 1, key, dec n, chars_of_bytes (ctx_bytes (mod_ctx m C)), dec 0] x (Evalsha_reply_cb e)"
    "ev_user_cb (evalsha_at v e) = Some (Cas_write_reply_cb u')" "sess_pending_at v u' = Sess_cas (Mod_cas_cb t) (of_nat n)"
    "txn_at v t = (txn_at W t)\<lparr>t_db_ver := of_nat n, t_impl := prev, t_state := TXN_ST_DB_WRITE_WAIT\<rparr>"
    "ctx_at v c = mod_ctx m C" "prev \<noteq> 0" "prev \<noteq> c" "steady W v"
    using l(1,2) r(2) p(1) W(1-8) C W(9) refl sh unfolding r(4) by (rule mod_write_requested [where now = now]) blast
  show ?thesis
    by (rule that [OF r(6) db'(2) w1(1) [folded r(8)] _ _ _ _ w1(6,7) r(7)])
      (use w1(2-5,8) r(3) g in \<open>simp_all add: r(5,1) steady_def\<close>)
qed

subsection \<open>The changed record is written: the data plane accepts, the pod answers\<close>

lemma mod_accepted:
  fixes w :: "('r, 'p, 'h, 'a) flow_st_scheme"
  assumes e: "ev_user_cb (evalsha_at w e) = Some (Cas_write_reply_cb u)" "sess_pending_at w u = Sess_cas (Mod_cas_cb t) ver"
    and vdp: "next_result w = V_VDP_ACCEPT" and prev: "t_impl (txn_at w t) = prev" "prev \<noteq> 0"
  obtains x where "x = (txn_at w t)\<lparr>t_db_ver := (if ver = 0 then 1 else ver + 1), t_state := TXN_ST_VDP_WAIT, t_impl := 0\<rparr>"
    "db_call D hi now (Evalsha_reply_cb e) RET_CODE_OK (Some (Reply_Integer 1)) w =
       evalsha_put D e (sess_put D u (finish D hi t V_PFCP_CAUSE_REQUEST_ACCEPTED (v_port_ctx_free D prev (w\<lparr>txn_at := (txn_at w)(t := x)\<rparr>))))"
proof -
  have n: "db_call_at D hi now 2 = db_callback D hi now (db_call_at D hi now 1)" by (simp add: numeral_2_eq_2)
  have "next_result (w\<lparr>txn_at := X\<rparr>) = V_VDP_ACCEPT" for X using vdp by (simp add: next_result_def split: if_splits)
  then have "mod_cas_cb D hi cc RET_CODE_OK V_CAS_OK nv t w = finish D hi t V_PFCP_CAUSE_REQUEST_ACCEPTED
      (v_port_ctx_free D prev (w\<lparr>txn_at := (txn_at w)(t := (txn_at w t)\<lparr>t_db_ver := nv, t_state := TXN_ST_VDP_WAIT, t_impl := 0\<rparr>)\<rparr>))" for cc nv
    using prev by (simp add: mod_cas_cb_def txn_upd_def v_port_txn_set_state_def v_port_vdp_session_modify_def mod_vdp_cb_def Let_def)
  then show ?thesis
    using that e by (simp add: db_call_eq evalsha_reply_cb_def is_noscript_def call_opt_def n cas_write_reply_cb_def)
qed

lemma record_changed:
  assumes srv: "server_laws serve call view sha" and db: "sess_wf (view db) k" "sess_rec (view db) k = Some (n, d, ttl)" "n + 1 < 2 ^ 53"
  shows "\<exists>db'. answers serve db [''EVALSHA'', sha V_SCRIPT_SESS_CAS_WRITE, dec 1, k, dec n, blob, dec 0] (Reply_Integer 1, db') \<and>
    sess_rec (view db') k = Some (n + 1, blob, ttl) \<and> sess_wf (view db') k \<and> (\<forall>k'. k' \<noteq> k \<longrightarrow> view db' k' = view db k')"
proof -
  define res where "res = V_LUA_SESS_CAS_WRITE call [k] [dec n, blob, dec 0] db"
  have "res = (Reply_Integer 1, snd res)" "sess_rec (view (snd res)) k = Some (n + 1, blob, ttl)" "sess_wf (view (snd res)) k"
    "k' \<noteq> k \<Longrightarrow> view (snd res) k' = view db k'" for k'
    using cas_write_script [OF server_lawsD(1) [OF srv] db(1,3), of 0, where blob = blob, folded res_def] db(2) by (simp_all add: prod_eq_iff)
  then show ?thesis using server_lawsD(3) [OF srv, of db k "[dec n, blob, dec 0]", folded res_def] by metis
qed

lemma changed_record_answered:
  fixes w :: "('r, 'p, 'h, 'a) flow_st_scheme"
  assumes l: "hiredis_laws hi waiting" "hiredis_accepts hi" "next_reply_laws nr waiting"
    and p: "pool_laws D free" "pool_set free (g_db_pool w) \<noteq> {}" and i: "disp_inv D elems usable free A H w"
    and o: "one_waits waiting w s args q (Evalsha_reply_cb e)" and a: "acct D free waiting U {#} w"
    and g: "length (g_scratch w) = V_STUB_DB_REPLY_SCRATCH_CAP" and an: "answers serve db args (Reply_Integer 1, db')"
    and e: "ev_user_cb (evalsha_at w e) = Some (Cas_write_reply_cb u)" "sess_pending_at w u = Sess_cas (Mod_cas_cb t) ver"
    and vdp: "next_result w = V_VDP_ACCEPT" and prev: "t_impl (txn_at w t) = prev" "prev \<noteq> 0" "prev \<noteq> t_ctx (txn_at w t)"
    and x: "t_ctx (txn_at w t) \<noteq> 0" and m: "m = pfcp_at w (t_req (txn_at w t))"
    and rkey: "rkey = retrans_key (v_retrans_part (pm_smf_fseid m)) (pm_smf_fseid m) (pm_seq m)"
  obtains w' bs q' where "pump D nr serve (db_call D hi now) s (db, w) = (db', w')"
    "answer_to m V_PFCP_CAUSE_REQUEST_ACCEPTED (ctx_seid (ctx_at w (t_ctx (txn_at w t)))) bs"
    "one_waits waiting w' (unat (v_port_db_shard_of rkey)) [''SETEX'', rkey, dec 10, chars_of_bytes bs] q' Store_ack_cb"
    "tx_msgs elems w' = (if accepts elems usable free (g_tx_ring w) bs w then tx_msgs elems w @ [(bs, t_peer (txn_at w t))] else tx_msgs elems w)"
    "acct D free waiting U {#} w'" "script_part w' = script_part w"
proof -
  have ok: "reply_ok (Some (Reply_Integer 1))" by simp
  obtain c sc us W v w' where r: "W = w\<lparr>g_ctx := c, g_scratch := sc, g_scratch_used := us\<rparr>" "quiet waiting W" "length sc = V_STUB_DB_REPLY_SCRATCH_CAP"
    "v = db_call D hi now (Evalsha_reply_cb e) RET_CODE_OK (Some (Reply_Integer 1)) W" "w' = v\<lparr>g_db_pool := pool_put D q (g_db_pool v)\<rparr>"
    "pump D nr serve (db_call D hi now) s (db, w) = (db', w')" "acct D free waiting U {#} w'"
    "\<And>s args y cb. one_waits waiting w' s args y cb = one_waits waiting v s args y cb"
    using l(1,3) a o g an ok by (rule exchange [where now = now]) blast
  have W: "ev_user_cb (evalsha_at W e) = Some (Cas_write_reply_cb u)" "sess_pending_at W u = Sess_cas (Mod_cas_cb t) ver"
      "next_result W = V_VDP_ACCEPT" "t_impl (txn_at W t) = prev"
    using e vdp prev(1) by (simp_all add: r(1) next_result_def split: if_splits)
  obtain y where y: "y = (txn_at W t)\<lparr>t_db_ver := (if ver = 0 then 1 else ver + 1), t_state := TXN_ST_VDP_WAIT, t_impl := 0\<rparr>"
    "v = evalsha_put D e (sess_put D u (finish D hi t V_PFCP_CAUSE_REQUEST_ACCEPTED (v_port_ctx_free D prev (W\<lparr>txn_at := (txn_at W)(t := y)\<rparr>))))"
    using W prev(2) unfolding r(4) by (rule mod_accepted [where now = now])
  define X where "X = v_port_ctx_free D prev (W\<lparr>txn_at := (txn_at W)(t := y)\<rparr>)"
  have X: "quiet waiting X" "pool_set free (g_db_pool X) \<noteq> {}" "disp_inv D elems usable free A H X" "t_ctx (txn_at X t) \<noteq> 0" "m = pfcp_at X (t_req (txn_at X t))"
      "ctx_at X (t_ctx (txn_at X t)) = ctx_at w (t_ctx (txn_at w t))" "t_peer (txn_at X t) = t_peer (txn_at w t)"
      "g_tx_ring X = g_tx_ring w" "tx_msgs elems X = tx_msgs elems w" "\<And>bs ring. accepts elems usable free ring bs X = accepts elems usable free ring bs w"
    using r(2) p(2) i x m prev(3) disp_frame [of X w] by (auto simp: X_def v_port_ctx_free_def quiet_def y(1) r(1))
  define v' where "v' = finish D hi t V_PFCP_CAUSE_REQUEST_ACCEPTED X"
  obtain bs q' where bs: "answer_to m V_PFCP_CAUSE_REQUEST_ACCEPTED (ctx_seid (ctx_at X (t_ctx (txn_at X t)))) bs"
    "one_waits waiting v' (unat (v_port_db_shard_of rkey)) [''SETEX'', rkey, dec 10, chars_of_bytes bs] q' Store_ack_cb"
    "tx_msgs elems v' = (if accepts elems usable free (g_tx_ring X) bs X then tx_msgs elems X @ [(bs, t_peer (txn_at X t))] else tx_msgs elems X)"
    using l(1,2) X(1) p(1) X(2,3) refl X(4,5) refl rkey v'_def by (rule finish_alone)
  have w': "w' = (evalsha_put D e (sess_put D u v'))\<lparr>g_db_pool := pool_put D q (g_db_pool v')\<rparr>"
    by (simp add: r(5) y(2) v'_def X_def evalsha_put_def sess_put_def)
  have o': "one_waits waiting w' (unat (v_port_db_shard_of rkey)) [''SETEX'', rkey, dec 10, chars_of_bytes bs] q' Store_ack_cb"
    using bs(2) one_waits_cong [of w' v'] by (simp add: w' sess_put_def evalsha_put_def)
  have tx: "tx_msgs elems w' = tx_msgs elems v'" by (simp add: w' sess_put_def evalsha_put_def tx_msgs_def)
  have sp: "script_part w' = script_part v'" "script_part X = script_part w"
    using r(3) g by (simp_all add: w' sess_put_def evalsha_put_def script_part_def X_def v_port_ctx_free_def r(1))
  show ?thesis
    by (rule that [OF r(6) _ o' _ r(7)])
      (use bs(1,3) X(6-10) tx sp finish_script_frame [of D hi t V_PFCP_CAUSE_REQUEST_ACCEPTED X] in \<open>simp_all add: v'_def\<close>)
qed

subsection \<open>Property\<close>

text \<open>
  C5: a modification is committed. An idle pod that gets a modification request for a session whose
  record is in the database, no answer to which is cached, with a data plane that accepts and a
  server that answers, exchanges four commands with the server. Then the record has the next version
  and the changed context, with the time to live it had, the answer is in the retransmission cache,
  and nothing else in the database has changed; exactly one answer, cause accepted, with the sequence
  number of the request and the SEID of the session, the bytes that are cached, is queued for the
  peer; transaction, context and snapshot are released and the pod is ready for the next request.
\<close>

theorem modification_committed:
  fixes w :: "('r, 'p, 'h, 'a) flow_st_scheme"
  assumes l: "hiredis_laws hi waiting" "hiredis_accepts hi" "next_reply_laws nr waiting" and srv: "server_laws serve call view sha"
    and ready: "pod_ready D free waiting U sha w" and disp: "disp_inv D elems usable free A H w"
      "pool_set free (g_msg_pool w) \<noteq> {}" "has_room elems usable (g_tx_ring w)" and vdp: "next_result w = V_VDP_ACCEPT"
    and m: "m = request_of msg" "sizeof_wire_req \<le> length (take (msg_len msg) (msg_buf msg))" "pm_type m = V_PFCP_MSG_SESSION_MOD_REQ"
    and part: "v_seid_validate (pm_seid m) = Some part"
    and rkey: "rkey = retrans_key (v_retrans_part (pm_smf_fseid m)) (pm_smf_fseid m) (pm_seq m)" "view db rkey = None"
    and key: "key = make_key part (pm_seid m)" "sess_wf (view db) key" "sess_rec (view db) key = Some (n, chars_of_bytes (ctx_bytes C), ttl)"
    and C: "stored_ctx C" "n + 1 < 2 ^ 53" and step: "step = pump D nr serve (db_call D hi now)"
    and s: "r = unat (v_port_db_shard_of rkey)" "s = unat (v_port_db_shard_of key)"
  shows "\<exists>db' w' bs. step r (step s (step s (step r (db, v_flow_handle_msg D hi msg w)))) = (db', w') \<and>
    sess_rec (view db') key = Some (n + 1, chars_of_bytes (ctx_bytes (mod_ctx m C)), ttl) \<and>
    view db' rkey = Some (RStr (chars_of_bytes bs), Some 10) \<and> (\<forall>k. k \<noteq> key \<and> k \<noteq> rkey \<longrightarrow> view db' k = view db k) \<and>
    tx_msgs elems w' = tx_msgs elems w @ [(bs, msg_peer msg)] \<and> answer_to m V_PFCP_CAUSE_REQUEST_ACCEPTED (ctx_seid C) bs \<and>
    live w' = {} \<and> pod_ready D free waiting U sha w'"
proof -
  note pl = pod_readyD(1) [OF ready]
  let ?blob = "chars_of_bytes (ctx_bytes (mod_ctx m C))"
  have fl: "flow_of m = Some (Mod_retrans_lookup_cb, \<lambda>x. x\<lparr>t_part_id := part, t_seid := pm_seid m\<rparr>)" "reading_flow Mod_retrans_lookup_cb Mod_read_cb"
    using m(3) part by (simp_all add: flow_of_def reading_flow_def V_PFCP_MSG_SESSION_MOD_REQ_def V_PFCP_MSG_SESSION_EST_REQ_def)
  obtain db1 t c u q w2 where w2: "step r (db, v_flow_handle_msg D hi msg w) = (db1, w2)" "view db1 = view db"
    "one_waits waiting w2 s [''HMGET'', key, ''data'', ''ver''] q (Read_reply_cb u)"
    "sess_pending_at w2 u = Sess_read (Mod_read_cb t) c" "t_part_id (txn_at w2 t) = part" "t_seid (txn_at w2 t) = pm_seid m" "t_ctx (txn_at w2 t) = c"
    "t_peer (txn_at w2 t) = msg_peer msg" "pfcp_at w2 (t_req (txn_at w2 t)) = m" "c \<noteq> 0"
    "pool_set free (g_db_pool w2) \<noteq> {}" "stock D free V_SESS_PENDING_POOL_CAP (g_sess_pool w2) \<noteq> {}" "pool_set free (g_evalsha_pool w2) \<noteq> {}"
    "pool_set free (g_ctx_pool w2) \<noteq> {}" "0 \<notin> pool_set free (g_ctx_pool w2)" "c \<notin> pool_set free (g_ctx_pool w2)"
    "acct D free waiting U {#} w2" "steady (w\<lparr>pfcp_at := pfcp_at w2\<rparr>) w2"
    using l srv ready m(1,2) fl rkey part key(1) unfolding step s by (rule session_looked_up [where now = now])
  have db1: "sess_wf (view db1) key" "sess_rec (view db1) key = Some (n, chars_of_bytes (ctx_bytes C), ttl)" "n < 2 ^ 64"
    and k2: "key = make_key (t_part_id (txn_at w2 t)) (t_seid (txn_at w2 t))" "script_part w2 = script_part w"
    using key w2(2,5,6) C(2) steady_script [OF w2(18)] by (simp_all add: script_part_def)
  obtain db2 prev u' e x w3 where w3: "step s (db1, w2) = (db2, w3)" "view db2 = view db1"
    "one_waits waiting w3 s [''EVALSHA'', sha V_SCRIPT_SESS_CAS_WRITE, dec 1, key, dec n, ?blob, dec 0] x (Evalsha_reply_cb e)"
    "ev_user_cb (evalsha_at w3 e) = Some (Cas_write_reply_cb u')" "sess_pending_at w3 u' = Sess_cas (Mod_cas_cb t) (of_nat n)"
    "txn_at w3 t = (txn_at w2 t)\<lparr>t_db_ver := of_nat n, t_impl := prev, t_state := TXN_ST_DB_WRITE_WAIT\<rparr>"
    "ctx_at w3 c = mod_ctx m C" "prev \<noteq> 0" "prev \<noteq> c" "acct D free waiting U {#} w3" "steady w2 w3"
    using l srv pl w2(14-16,11,13,12,3,17,4) w2(9) [symmetric] db1(1,2) C(1) db1(3) k2 ready
    unfolding step s by (rule changed_record_sent [where now = now])
  have p3: "pool_set free (g_db_pool w3) \<noteq> {}"
    using acct_one_waits [OF w3(10,3)] pod_readyD(14) [OF ready] by simp
  have d3: "disp_inv D elems usable free A H w3" "tx_msgs elems w3 = tx_msgs elems w" "accepts elems usable free (g_tx_ring w3) bs w3 = (length bs \<le> V_DISPATCH_MSG_MAX_BYTES)"
    "next_result w3 = V_VDP_ACCEPT" "length (g_scratch w3) = V_STUB_DB_REPLY_SCRATCH_CAP" "script_part w3 = script_part w" for bs
    using w2(18) w3(11) disp disp_frame [of w3 w] vdp pod_readyD(4) [OF ready] k2(2) steady_script [OF w3(11)]
    by (simp_all add: steady_def accepts_def next_result_def split: if_splits)
  have x3: "t_impl (txn_at w3 t) = prev" "prev \<noteq> t_ctx (txn_at w3 t)" "t_ctx (txn_at w3 t) \<noteq> 0" "m = pfcp_at w3 (t_req (txn_at w3 t))"
      "t_peer (txn_at w3 t) = msg_peer msg" "ctx_seid (ctx_at w3 (t_ctx (txn_at w3 t))) = ctx_seid C"
    using w3(6-9,11) w2(7-10) by (simp_all add: steady_def mod_ctx_def fill_pattern_def)
  obtain db3 where db3: "answers serve db2 [''EVALSHA'', sha V_SCRIPT_SESS_CAS_WRITE, dec 1, key, dec n, ?blob, dec 0] (Reply_Integer 1, db3)"
    "sess_rec (view db3) key = Some (n + 1, ?blob, ttl)" "\<And>k. k \<noteq> key \<Longrightarrow> view db3 k = view db k"
    using record_changed [OF srv, of db2 key n _ ttl ?blob] db1 w3(2) w2(2) C(2) by auto
  obtain w4 bs q4 where w4: "step s (db2, w3) = (db3, w4)" "answer_to m V_PFCP_CAUSE_REQUEST_ACCEPTED (ctx_seid (ctx_at w3 (t_ctx (txn_at w3 t)))) bs"
    "one_waits waiting w4 r [''SETEX'', rkey, dec 10, chars_of_bytes bs] q4 Store_ack_cb"
    "tx_msgs elems w4 = (if accepts elems usable free (g_tx_ring w3) bs w3 then tx_msgs elems w3 @ [(bs, t_peer (txn_at w3 t))] else tx_msgs elems w3)"
    "acct D free waiting U {#} w4" "script_part w4 = script_part w3"
    using l pl p3 d3(1) w3(3,10) d3(5) db3(1) w3(4,5) d3(4) x3(1) w3(8) x3(2-4) rkey(1)
    unfolding step s by (rule changed_record_answered [where now = now])
  have sp: "script_part w4 = script_part w" using w4(6) d3(6) by simp
  obtain db' w' where w': "step r (db3, w4) = (db', w')" "view db' = (view db3)(rkey \<mapsto> (RStr (chars_of_bytes bs), Some 10))"
    "pod_ready D free waiting U sha w'" "tx_msgs elems w' = tx_msgs elems w4"
    using l(1,3) srv w4(3,5) ready sp unfolding step by (rule answer_cached [where now = now])
  have "key \<noteq> rkey" unfolding key(1) rkey(1) by (rule session_key_not_cached)
  then have "sess_rec (view db') key = Some (n + 1, ?blob, ttl)" using db3(2) w'(2) by (simp add: sess_rec_def)
  then show ?thesis
    using w' w4(1,2,4) w2(1) w3(1) db3(3) x3(5,6) d3(2,3) pod_readyD(10) [OF w'(3)]
    by (intro exI [of _ db'] exI [of _ w'] exI [of _ bs]) (simp add: V_DISPATCH_MSG_MAX_BYTES_def answer_to_def)
qed

subsection \<open>An instance\<close>

theorem modification_committed_witness:
  "\<exists>db' w' bs r s blob. list_step r (list_step s (list_step s (list_step r
       (session_db, v_flow_handle_msg list_dpdk list_hiredis (session_request V_PFCP_MSG_SESSION_MOD_REQ) ready_pod)))) = (db', w') \<and>
     sess_rec db' (make_key 3 0x1000C00000000005) = Some (5, blob, None) \<and> tx_msgs snd w' = [(bs, zero_sockaddr)] \<and>
     answer_to (request_of (session_request V_PFCP_MSG_SESSION_MOD_REQ)) V_PFCP_CAUSE_REQUEST_ACCEPTED 0x1000C00000000005 bs"
proof -
  have c: "ctx_seid session_ctx = 0x1000C00000000005" "(4 :: nat) + 1 = 5" "(4 :: nat) + 1 < 2 ^ 53" by (simp_all add: session_ctx_def)
  from modification_committed [OF list_hiredis_laws list_hiredis_accepts list_reader_laws keyspace_server_laws ready_pod_ready ready_pod_disp(1-4)
      refl session_request_ok(1,2) session_request_ok(4) refl session_db_ok(1) refl session_db_ok(2,3) session_ctx_stored c(3) list_step_def refl refl]
  show ?thesis unfolding ready_pod_disp(5) append_Nil session_request_ok(3,5) c(1,2) by blast
qed

end
