(* ===== verification/Deletion.thy ===== *)
theory Deletion
  imports Session_read
begin

section \<open>A deletion from request to answer\<close>

text \<open>
  What an idle pod does with a session deletion request: it reads the record, calls the data plane,
  deletes the record under the version it has read, gives the TEID back to the free list of its
  partition and answers. The last two commands are on their way together.
\<close>

subsection \<open>The record is read: it is deleted\<close>

lemma delete_sent:
  fixes w :: "('r, 'p, 'h, 'a) sess_st_scheme"
  assumes l: "hiredis_laws hi waiting" "hiredis_accepts hi" and q: "quiet waiting w"
    and p: "pool_laws D free" "pool_set free (g_db_pool w) \<noteq> {}" "pool_set free (g_evalsha_pool w) \<noteq> {}"
      "stock D free V_SESS_PENDING_POOL_CAP (g_sess_pool w) \<noteq> {}"
    and key: "key = make_key part seid" and shard: "shard = v_port_db_shard_of key"
    and sha: "g_sha w (unat shard) V_SCRIPT_SESS_DELETE = sha" "sha \<noteq> []" "g_shard_count w = int V_STUB_DB_SHARDS"
  obtains u spool e epool x pool c where
    "v_sess_delete D hi cc part seid ver cb w =
       (RET_CODE_OK, w\<lparr>g_sess_pool := Some spool, sess_pending_at := (sess_pending_at w)(u := Sess_cas cb ver),
          g_evalsha_pool := Some epool,
          evalsha_at := (evalsha_at w)(e := \<lparr>ev_shard = shard, ev_script_id = V_SCRIPT_SESS_DELETE,
             ev_user_cb = Some (Delete_reply_cb u), ev_retried = False, ev_parts = [''EVALSHA'', sha, dec 1, key, dec (unat ver)]\<rparr>),
          g_db_pool := Some pool, db_pending_at := (db_pending_at w)(x := \<lparr>pend_cb = Some (Evalsha_reply_cb e)\<rparr>), g_ctx := c\<rparr>)"
    "\<And>v :: ('r, 'p, 'h, 'a) sess_st_scheme. g_ctx v = c \<Longrightarrow> db_pending_at v x = \<lparr>pend_cb = Some (Evalsha_reply_cb e)\<rparr> \<Longrightarrow>
       one_waits waiting v (unat shard) [''EVALSHA'', sha, dec 1, key, dec (unat ver)] x (Evalsha_reply_cb e)"
proof -
  obtain u pool0 spool where u: "ensure_pool D w = (RET_CODE_OK, w\<lparr>g_sess_pool := Some pool0\<rparr>)"
    "sess_get D (Sess_cas cb ver) (w\<lparr>g_sess_pool := Some pool0\<rparr>) =
       Some (u, w\<lparr>g_sess_pool := Some spool, sess_pending_at := (sess_pending_at w)(u := Sess_cas cb ver)\<rparr>)"
    using p(1,4) by (rule sess_object [where u = "Sess_cas cb ver"])
  define w1 where "w1 = w\<lparr>g_sess_pool := Some spool, sess_pending_at := (sess_pending_at w)(u := Sess_cas cb ver)\<rparr>"
  define argv where "argv = [dec (unat ver)]"
  have one: "snprintf 8 (dec (length [key])) = dec 1" by simp
  have "length key \<le> 30" using dec_u16_length [of part] dec_u64_length [of seid] by (simp add: key make_key_exact)
  moreover have "int (unat shard) < int V_STUB_DB_SHARDS" by (simp only: of_nat_less_iff shard shard_of_lt)
  ultimately have ok: "evalsha_ok shard V_SCRIPT_SESS_DELETE [key] argv w1"
    using sha dec_u64_length [of ver]
    by (simp add: evalsha_ok_def one argv_def w1_def script_ids V_DB_EVALSHA_MAX_PARTS_def V_DB_EVALSHA_SCRATCH_BYTES_def shard)
  have w1: "quiet waiting w1" "pool_set free (g_db_pool w1) \<noteq> {}" "pool_set free (g_evalsha_pool w1) \<noteq> {}" "unat shard < V_STUB_DB_SHARDS"
    using q p(2,3) by (simp_all add: w1_def quiet_def shard)
  let ?E = "evalsha_pending_of shard V_SCRIPT_SESS_DELETE [key] argv (Delete_reply_cb u) w1"
  have E: "?E = \<lparr>ev_shard = shard, ev_script_id = V_SCRIPT_SESS_DELETE, ev_user_cb = Some (Delete_reply_cb u), ev_retried = False,
             ev_parts = [''EVALSHA'', sha, dec 1, key, dec (unat ver)]\<rparr>"
    by (simp add: evalsha_pending_of_def one argv_def w1_def sha(1))
  obtain e epool x pool c where x: "v_db_evalsha D hi cc shard V_SCRIPT_SESS_DELETE [key] argv (Delete_reply_cb u) w1 =
       (RET_CODE_OK, w1\<lparr>g_evalsha_pool := Some epool, evalsha_at := (evalsha_at w1)(e := ?E),
          g_db_pool := Some pool, db_pending_at := (db_pending_at w1)(x := \<lparr>pend_cb = Some (Evalsha_reply_cb e)\<rparr>), g_ctx := c\<rparr>)"
    "\<And>v :: ('r, 'p, 'h, 'a) sess_st_scheme. g_ctx v = c \<Longrightarrow> db_pending_at v x = \<lparr>pend_cb = Some (Evalsha_reply_cb e)\<rparr> \<Longrightarrow>
       one_waits waiting v (unat shard) (ev_parts ?E) x (Evalsha_reply_cb e)"
    using l w1(1,4) p(1) w1(2,3) ok by (rule evalsha_sent [where cb = "Delete_reply_cb u" and cc = cc]) blast
  have v: "snprintf 24 (dec (unat ver)) = dec (unat ver)" using dec_u64_length [of ver] by (simp add: snprintf_def)
  have "v_sess_delete D hi cc part seid ver cb w =
      (RET_CODE_OK, w1\<lparr>g_evalsha_pool := Some epool, evalsha_at := (evalsha_at w1)(e := ?E),
          g_db_pool := Some pool, db_pending_at := (db_pending_at w1)(x := \<lparr>pend_cb = Some (Evalsha_reply_cb e)\<rparr>), g_ctx := c\<rparr>)"
    using u(1,2) x(1) by (simp add: v_sess_delete_def v argv_def w1_def key shard Let_def)
  then show ?thesis using x(2)
    by (intro that [where u = u and spool = spool and e = e and epool = epool and x = x and pool = pool and c = c])
      (simp_all add: w1_def E [unfolded w1_def])
qed

lemma delete_requested:
  fixes w :: "('r, 'p, 'h, 'a) flow_st_scheme"
  assumes l: "hiredis_laws hi waiting" "hiredis_accepts hi" and q: "quiet waiting w"
    and p: "pool_laws D free" "pool_set free (g_db_pool w) \<noteq> {}" "pool_set free (g_evalsha_pool w) \<noteq> {}" "stock D free V_SESS_PENDING_POOL_CAP (g_sess_pool w) \<noteq> {}"
    and u: "sess_pending_at w u = Sess_read (Del_read_cb t) c" and C: "stored_ctx C" "n < 2 ^ 64" and vdp: "next_result w = V_VDP_ACCEPT"
    and key: "key = make_key (t_part_id (txn_at w t)) (t_seid (txn_at w t))" "shard = v_port_db_shard_of key"
    and sha: "g_sha w (unat shard) V_SCRIPT_SESS_DELETE = sha" "sha \<noteq> []" "g_shard_count w = int V_STUB_DB_SHARDS"
  obtains u' e x w' where
    "db_call D hi now (Read_reply_cb u) RET_CODE_OK (Some (Reply_Array [Reply_String (chars_of_bytes (ctx_bytes C)), Reply_String (dec n)])) w = w'"
    "one_waits waiting w' (unat shard) [''EVALSHA'', sha, dec 1, key, dec n] x (Evalsha_reply_cb e)"
    "ev_user_cb (evalsha_at w' e) = Some (Delete_reply_cb u')" "sess_pending_at w' u' = Sess_cas (Del_delete_cb t) (of_nat n)"
    "txn_at w' t = (txn_at w t)\<lparr>t_db_ver := of_nat n, t_state := TXN_ST_DB_WRITE_WAIT\<rparr>" "ctx_at w' c = C" "steady w w'"
proof -
  let ?cc = "db_call_at D hi now 2"
  define W where "W = w\<lparr>ctx_at := (ctx_at w)(c := C),
      txn_at := (txn_at w)(t := (txn_at w t)\<lparr>t_db_ver := of_nat n, t_state := TXN_ST_DB_WRITE_WAIT\<rparr>)\<rparr>"
  have W: "quiet waiting W" "pool_set free (g_db_pool W) \<noteq> {}" "pool_set free (g_evalsha_pool W) \<noteq> {}"
      "stock D free V_SESS_PENDING_POOL_CAP (g_sess_pool W) \<noteq> {}" "key = make_key (t_part_id (txn_at W t)) (t_seid (txn_at W t))"
      "g_sha W (unat shard) V_SCRIPT_SESS_DELETE = sha" "g_shard_count W = int V_STUB_DB_SHARDS"
    using q p(2-4) sha(1,3) key(1) by (simp_all add: W_def quiet_def)
  let ?args = "[''EVALSHA'', sha, dec 1, key, dec (unat (of_nat n :: u64))]"
  define res where "res = v_sess_delete D hi ?cc (t_part_id (txn_at W t)) (t_seid (txn_at W t)) (of_nat n) (Del_delete_cb t) W"
  obtain u' spool e epool x pool g where s:
    "res = (RET_CODE_OK, W\<lparr>g_sess_pool := Some spool, sess_pending_at := (sess_pending_at W)(u' := Sess_cas (Del_delete_cb t) (of_nat n)),
          g_evalsha_pool := Some epool,
          evalsha_at := (evalsha_at W)(e := \<lparr>ev_shard = shard, ev_script_id = V_SCRIPT_SESS_DELETE,
             ev_user_cb = Some (Delete_reply_cb u'), ev_retried = False, ev_parts = ?args\<rparr>),
          g_db_pool := Some pool, db_pending_at := (db_pending_at W)(x := \<lparr>pend_cb = Some (Evalsha_reply_cb e)\<rparr>), g_ctx := g\<rparr>)"
    "\<And>v :: ('r, 'p, 'h, 'a) flow_st_scheme. g_ctx v = g \<Longrightarrow> db_pending_at v x = \<lparr>pend_cb = Some (Evalsha_reply_cb e)\<rparr> \<Longrightarrow>
       one_waits waiting v (unat shard) ?args x (Evalsha_reply_cb e)"
    using l W(1) p(1) W(2-5) key(2) W(6) sha(2) W(7) unfolding res_def by (rule delete_sent [where cc = ?cc]) blast
  define w' where "w' = sess_put D u (snd res)"
  have un: "unat (of_nat n :: u64) = n" using C(2) by (simp add: unsigned_of_nat take_bit_nat_eq_self)
  have wt: "t_db_ver (txn_at W t) = of_nat n" by (simp add: W_def)
  have "next_result (w\<lparr>ctx_at := X, txn_at := Y\<rparr>) = V_VDP_ACCEPT" for X Y using vdp by (simp add: next_result_def split: if_splits)
  then have "del_read_cb D hi ?cc RET_CODE_OK V_CAS_OK c (of_nat n) t (w\<lparr>ctx_at := (ctx_at w)(c := C)\<rparr>) = snd res"
    using s(1)
    by (simp add: del_read_cb_def txn_upd_def v_port_vdp_session_delete_def del_vdp_cb_def v_port_txn_set_state_def W_def [symmetric]
        wt res_def [symmetric] Let_def)
  then have "db_call D hi now (Read_reply_cb u) RET_CODE_OK (Some (Reply_Array [Reply_String (chars_of_bytes (ctx_bytes C)), Reply_String (dec n)])) w = w'"
    unfolding record_delivered [OF C u] by (simp add: w'_def)
  then show ?thesis
    by (rule that [where u' = u' and e = e and x = x])
      (use s(2) [unfolded un] in \<open>simp_all add: w'_def [unfolded s(1) snd_conv sess_put_def, unfolded un, unfolded W_def] steady_def\<close>)
qed

lemma deletion_sent:
  fixes w :: "('r, 'p, 'h, 'a) flow_st_scheme"
  assumes l: "hiredis_laws hi waiting" "hiredis_accepts hi" "next_reply_laws nr waiting" and srv: "server_laws serve call view sha"
    and p: "pool_laws D free" "pool_set free (g_db_pool w) \<noteq> {}" "pool_set free (g_evalsha_pool w) \<noteq> {}" "stock D free V_SESS_PENDING_POOL_CAP (g_sess_pool w) \<noteq> {}"
    and o: "one_waits waiting w s [''HMGET'', key, ''data'', ''ver''] q (Read_reply_cb u)" and a: "acct D free waiting U {#} w"
    and u: "sess_pending_at w u = Sess_read (Del_read_cb t) c" and vdp: "next_result w = V_VDP_ACCEPT"
    and db: "sess_wf (view db) key" "sess_rec (view db) key = Some (n, chars_of_bytes (ctx_bytes C), ttl)" and C: "stored_ctx C" "n < 2 ^ 64"
    and key: "key = make_key (t_part_id (txn_at w t)) (t_seid (txn_at w t))" and sc: "script_part w = script_part w0" "pod_ready D free waiting U sha w0"
  obtains db' u' e x w' where "pump D nr serve (db_call D hi now) s (db, w) = (db', w')" "view db' = view db"
    "one_waits waiting w' (unat (v_port_db_shard_of key)) [''EVALSHA'', sha V_SCRIPT_SESS_DELETE, dec 1, key, dec n] x (Evalsha_reply_cb e)"
    "ev_user_cb (evalsha_at w' e) = Some (Delete_reply_cb u')" "sess_pending_at w' u' = Sess_cas (Del_delete_cb t) (of_nat n)"
    "txn_at w' t = (txn_at w t)\<lparr>t_db_ver := of_nat n, t_state := TXN_ST_DB_WRITE_WAIT\<rparr>" "ctx_at w' c = C"
    "acct D free waiting U {#} w'" "steady w w'"
proof -
  obtain db' where db': "answers serve db [''HMGET'', key, ''data'', ''ver''] (Reply_Array [Reply_String (chars_of_bytes (ctx_bytes C)), Reply_String (dec n)], db')"
    "view db' = view db" using record_read [OF srv db] by blast
  have g: "length (g_scratch w) = V_STUB_DB_REPLY_SCRATCH_CAP" using sc pod_readyD(4) by (fastforce simp: script_part_def)
  obtain g' sc' us W v w' where r: "W = w\<lparr>g_ctx := g', g_scratch := sc', g_scratch_used := us\<rparr>" "quiet waiting W" "length sc' = V_STUB_DB_REPLY_SCRATCH_CAP"
    "v = db_call D hi now (Read_reply_cb u) RET_CODE_OK (Some (Reply_Array [Reply_String (chars_of_bytes (ctx_bytes C)), Reply_String (dec n)])) W"
    "w' = v\<lparr>g_db_pool := pool_put D q (g_db_pool v)\<rparr>" "pump D nr serve (db_call D hi now) s (db, w) = (db', w')" "acct D free waiting U {#} w'"
    "\<And>s args y cb. one_waits waiting w' s args y cb = one_waits waiting v s args y cb"
    using l(1,3) a o g db'(1) stored_ctx_reply [OF C(1)] by (rule exchange [where now = now]) blast
  have W: "pool_set free (g_db_pool W) \<noteq> {}" "pool_set free (g_evalsha_pool W) \<noteq> {}" "stock D free V_SESS_PENDING_POOL_CAP (g_sess_pool W) \<noteq> {}"
      "sess_pending_at W u = Sess_read (Del_read_cb t) c" "next_result W = V_VDP_ACCEPT" "key = make_key (t_part_id (txn_at W t)) (t_seid (txn_at W t))"
    using p(2-4) u vdp key by (simp_all add: r(1) next_result_def split: if_splits)
  have sh: "g_sha W (unat (v_port_db_shard_of key)) V_SCRIPT_SESS_DELETE = sha V_SCRIPT_SESS_DELETE" "sha V_SCRIPT_SESS_DELETE \<noteq> []"
      "g_shard_count W = int V_STUB_DB_SHARDS"
    using sc by (auto simp: r(1) script_part_def pod_ready_def script_ids V_SCRIPT_COUNT_def)
  obtain u' e x where w1: "one_waits waiting v (unat (v_port_db_shard_of key)) [''EVALSHA'', sha V_SCRIPT_SESS_DELETE, dec 1, key, dec n] x (Evalsha_reply_cb e)"
    "ev_user_cb (evalsha_at v e) = Some (Delete_reply_cb u')" "sess_pending_at v u' = Sess_cas (Del_delete_cb t) (of_nat n)"
    "txn_at v t = (txn_at W t)\<lparr>t_db_ver := of_nat n, t_state := TXN_ST_DB_WRITE_WAIT\<rparr>" "ctx_at v c = C" "steady W v"
    using l(1,2) r(2) p(1) W(1-4) C W(5,6) refl sh unfolding r(4) by (rule delete_requested [where now = now]) blast
  show ?thesis
    by (rule that [OF r(6) db'(2) w1(1) [folded r(8)] _ _ _ _ r(7)]) (use w1(2-6) r(3) g in \<open>simp_all add: r(5,1) steady_def\<close>)
qed

subsection \<open>Two commands on the way\<close>

definition two_wait where
  "two_wait waiting w s1 a1 q1 cb1 s2 a2 q2 cb2 \<longleftrightarrow>
     s1 < V_STUB_DB_SHARDS \<and> s2 < V_STUB_DB_SHARDS \<and>
     (\<forall>s < V_STUB_DB_SHARDS. \<exists>h. g_ctx w s = Some h \<and>
        waiting h = (if s = s1 then [(a1, q1)] else []) @ (if s = s2 then [(a2, q2)] else [])) \<and>
     pend_cb (db_pending_at w q1) = Some cb1 \<and> pend_cb (db_pending_at w q2) = Some cb2"

lemma queued_behind:
  assumes o: "one_waits waiting w s1 a1 q1 cb1" and q: "queued waiting s2 a2 cb2 w w'" and s: "s2 < V_STUB_DB_SHARDS"
    and p: "db_pending_at w' q1 = db_pending_at w q1"
  obtains q2 where "two_wait waiting w' s1 a1 q1 cb1 s2 a2 q2 cb2"
proof -
  obtain h h' q2 where h: "g_ctx w s2 = Some h" "g_ctx w' = (g_ctx w)(s2 := Some h')" "waiting h' = waiting h @ [(a2, q2)]"
    "pend_cb (db_pending_at w' q2) = Some cb2" using q by (auto simp: queued_def)
  have "\<exists>h. g_ctx w' t = Some h \<and> waiting h = (if t = s1 then [(a1, q1)] else []) @ (if t = s2 then [(a2, q2)] else [])"
    if "t < V_STUB_DB_SHARDS" for t
    using o that h(1-3) by (cases "t = s1"; cases "t = s2") (auto simp: one_waits_def)
  then show ?thesis using o s p h(4) by (intro that [of q2]) (simp add: two_wait_def one_waits_def)
qed

text \<open>The first of the two is executed; its callback does nothing.\<close>

lemma first_of_two:
  fixes w :: "('r, 'p, 'h, 'a) flow_st_scheme"
  assumes l: "hiredis_laws hi waiting" "next_reply_laws nr waiting" and a: "acct D free waiting U {#} w"
    and t: "two_wait waiting w s1 a1 q1 Teid_free_reply_cb s2 a2 q2 cb2"
    and g: "length (g_scratch w) = V_STUB_DB_REPLY_SCRATCH_CAP" and an: "answers serve db a1 (r, db')" "reply_ok (Some r)"
  obtains w' where "pump D nr serve (db_call D hi now) s1 (db, w) = (db', w')" "one_waits waiting w' s2 a2 q2 cb2"
    "acct D free waiting U {#} w'" "script_part w' = script_part w" "tx_msgs elems w' = tx_msgs elems w"
proof -
  obtain h where h: "g_ctx w s1 = Some h" "waiting h = (a1, q1) # (if s1 = s2 then [(a2, q2)] else [])" "s1 < V_STUB_DB_SHARDS"
    using t unfolding two_wait_def by fastforce
  obtain h' where h': "nr h = Some ((a1, q1), h')" "waiting h' = (if s1 = s2 then [(a2, q2)] else [])" using l(2) h(2) by (rule next_replyE)
  obtain hr where hr: "serve db a1 = (hr, db')" "flat_reply hr" "hr \<noteq> H_null" "spec_reply hr = r"
    using an(1) by (cases "serve db a1") (auto simp: answers_def)
  let ?w = "w\<lparr>g_ctx := (g_ctx w)(s1 := Some h')\<rparr>"
  have c: "pend_cb (db_pending_at ?w q1) = Some Teid_free_reply_cb" "length (g_scratch ?w) = V_STUB_DB_REPLY_SCRATCH_CAP" using t g by (simp_all add: two_wait_def)
  obtain sc us where o: "length sc = V_STUB_DB_REPLY_SCRATCH_CAP" "on_reply D (db_call D hi now) hr q1 ?w =
      (let w1 = ?w\<lparr>g_scratch := sc, g_scratch_used := us\<rparr>;
           w2 = (if hr = H_null then db_call D hi now Teid_free_reply_cb RET_CODE_ERR None w1
                 else db_call D hi now Teid_free_reply_cb RET_CODE_OK (Some (spec_reply hr)) w1)
       in w2\<lparr>g_db_pool := pool_put D q1 (g_db_pool w2)\<rparr>)"
    using c(2) hr(2) c(1) by (rule on_reply_flat)
  define w' where "w' = on_reply D (db_call D hi now) hr q1 ?w"
  have w': "w' = ?w\<lparr>g_scratch := sc, g_scratch_used := us, g_db_pool := pool_put D q1 (g_db_pool w)\<rparr>"
    unfolding w'_def o(2) by (simp add: db_call_eq teid_free_reply_cb_def Let_def)
  have e: "pump D nr serve (db_call D hi now) s1 (db, w) = (db', w')" using h(1) h'(1) hr(1) by (simp add: pump_def w'_def Let_def)
  have "reply_ok (delivered hr w)" using delivered_flat [OF g hr(2,3)] hr(4) an(2) by simp
  from acct_reply [OF l(1) a h(3,1,2) h'(2) this, of now] have a': "acct D free waiting U {#} w'" by (simp add: w'_def)
  have "one_waits waiting w' s2 a2 q2 cb2" using t h' by (auto simp: two_wait_def one_waits_def w')
  from that [OF e this a'] show ?thesis using o(1) g by (simp add: w' script_part_def tx_msgs_def)
qed

subsection \<open>The record is deleted: the TEID is given back, the pod answers\<close>

lemma deletion_accepted:
  assumes "ev_user_cb (evalsha_at w e) = Some (Delete_reply_cb u)" and "sess_pending_at w u = Sess_cas (Del_delete_cb t) ver"
  shows "db_call D hi now (Evalsha_reply_cb e) RET_CODE_OK (Some (Reply_Integer 1)) w =
    evalsha_put D e (sess_put D u (finish D hi t V_PFCP_CAUSE_REQUEST_ACCEPTED
      (v_teid_free D hi (t_part_id (txn_at w t)) (ctx_teid (ctx_at w (t_ctx (txn_at w t)))) w)))"
proof -
  have n: "db_call_at D hi now 2 = db_callback D hi now (db_call_at D hi now 1)" by (simp add: numeral_2_eq_2)
  show ?thesis
    using assms by (simp add: db_call_eq evalsha_reply_cb_def is_noscript_def call_opt_def n delete_reply_cb_def del_delete_cb_def v_port_pfcp_ctx_teid_def Let_def)
qed

lemma deleted_answered:
  fixes w :: "('r, 'p, 'h, 'a) flow_st_scheme"
  assumes l: "hiredis_laws hi waiting" "hiredis_accepts hi" "next_reply_laws nr waiting"
    and p: "pool_laws D free" "\<And>x y. ar_db U - {x, y} \<noteq> {}" and i: "disp_inv D elems usable free A H w"
    and o: "one_waits waiting w s args q (Evalsha_reply_cb e)" and a: "acct D free waiting U {#} w"
    and g: "length (g_scratch w) = V_STUB_DB_REPLY_SCRATCH_CAP" and an: "answers serve db args (Reply_Integer 1, db')"
    and e: "ev_user_cb (evalsha_at w e) = Some (Delete_reply_cb u)" "sess_pending_at w u = Sess_cas (Del_delete_cb t) ver"
    and x: "t_ctx (txn_at w t) \<noteq> 0" "part = t_part_id (txn_at w t)" "C = ctx_at w (t_ctx (txn_at w t))" and m: "m = pfcp_at w (t_req (txn_at w t))"
    and rkey: "rkey = retrans_key (v_retrans_part (pm_smf_fseid m)) (pm_smf_fseid m) (pm_seq m)"
  obtains w' bs q1 q2 where "pump D nr serve (db_call D hi now) s (db, w) = (db', w')" "answer_to m V_PFCP_CAUSE_REQUEST_ACCEPTED (ctx_seid C) bs"
    "two_wait waiting w' (unat (shard_for_part part)) [''RPUSH'', teid_free_key part, dec (unat (v_teid_local (ctx_teid C)))] q1 Teid_free_reply_cb
       (unat (v_port_db_shard_of rkey)) [''SETEX'', rkey, dec 10, chars_of_bytes bs] q2 Store_ack_cb"
    "tx_msgs elems w' = (if accepts elems usable free (g_tx_ring w) bs w then tx_msgs elems w @ [(bs, t_peer (txn_at w t))] else tx_msgs elems w)"
    "acct D free waiting U {#} w'" "script_part w' = script_part w"
proof -
  have ok: "reply_ok (Some (Reply_Integer 1))" by simp
  obtain c sc us W v w' where r: "W = w\<lparr>g_ctx := c, g_scratch := sc, g_scratch_used := us\<rparr>" "quiet waiting W" "length sc = V_STUB_DB_REPLY_SCRATCH_CAP"
    "v = db_call D hi now (Evalsha_reply_cb e) RET_CODE_OK (Some (Reply_Integer 1)) W" "w' = v\<lparr>g_db_pool := pool_put D q (g_db_pool v)\<rparr>"
    "pump D nr serve (db_call D hi now) s (db, w) = (db', w')" "acct D free waiting U {#} w'"
    using l(1,3) a o g an ok by (rule exchange [where now = now]) blast
  let ?args = "[''RPUSH'', teid_free_key part, dec (unat (v_teid_local (ctx_teid C)))]"
  have W: "ev_user_cb (evalsha_at W e) = Some (Delete_reply_cb u)" "sess_pending_at W u = Sess_cas (Del_delete_cb t) ver"
      "pool_set free (g_db_pool W) = ar_db U - {q}" "pool_set free (g_db_pool W) \<noteq> {}"
    using e acct_one_waits [OF a o] p(2) [of q q] by (simp_all add: r(1))
  have sh: "unat (shard_for_part part) < V_STUB_DB_SHARDS" by (simp add: shard_for_part_def)
  obtain q1 pool g1 where c1: "v_port_db_cmd D hi (shard_for_part part) Teid_free_reply_cb ?args W =
       (RET_CODE_OK, W\<lparr>g_db_pool := Some pool, db_pending_at := (db_pending_at W)(q1 := \<lparr>pend_cb = Some Teid_free_reply_cb\<rparr>), g_ctx := g1\<rparr>)"
    "\<And>v :: ('r, 'p, 'h, 'a) flow_st_scheme. g_ctx v = g1 \<Longrightarrow> db_pending_at v q1 = \<lparr>pend_cb = Some Teid_free_reply_cb\<rparr> \<Longrightarrow>
       one_waits waiting v (unat (shard_for_part part)) ?args q1 Teid_free_reply_cb"
    "free pool = pool_set free (g_db_pool W) - {q1}"
    using l(1,2) r(2) sh p(1) W(4) by (rule command_sent [where cb = Teid_free_reply_cb and args = ?args]) blast
  define X where "X = W\<lparr>g_db_pool := Some pool, db_pending_at := (db_pending_at W)(q1 := \<lparr>pend_cb = Some Teid_free_reply_cb\<rparr>), g_ctx := g1\<rparr>"
  define v' where "v' = finish D hi t V_PFCP_CAUSE_REQUEST_ACCEPTED X"
  have w': "w' = (evalsha_put D e (sess_put D u v'))\<lparr>g_db_pool := pool_put D q (g_db_pool v')\<rparr>"
    using deletion_accepted [OF W(1,2), of D hi now] c1(1) x(2,3) by (simp add: r(5,4,1) v'_def X_def v_teid_free_def evalsha_put_def sess_put_def)
  have o1: "one_waits waiting X (unat (shard_for_part part)) ?args q1 Teid_free_reply_cb" by (rule c1(2)) (simp_all add: X_def)
  have X: "\<forall>s < V_STUB_DB_SHARDS. g_ctx X s \<noteq> None" "pool_set free (g_db_pool X) \<noteq> {}" "q1 \<notin> pool_set free (g_db_pool X)" "disp_inv D elems usable free A H X"
      "t_ctx (txn_at X t) \<noteq> 0" "m = pfcp_at X (t_req (txn_at X t))"
    using o1 c1(3) W(3) p(2) [of q q1] i x(1) m disp_frame(1) [of X w] by (auto simp: one_waits_def X_def r(1))
  obtain bs where bs: "answer_to m V_PFCP_CAUSE_REQUEST_ACCEPTED (ctx_seid (ctx_at X (t_ctx (txn_at X t)))) bs"
    "queued waiting (unat (v_port_db_shard_of rkey)) [''SETEX'', rkey, dec 10, chars_of_bytes bs] Store_ack_cb X v'"
    "tx_msgs elems v' = (if accepts elems usable free (g_tx_ring X) bs X then tx_msgs elems X @ [(bs, t_peer (txn_at X t))] else tx_msgs elems X)"
    using l(1,2) X(1) p(1) X(2,4) refl X(5,6) refl rkey v'_def by (rule finish_queued)
  have "db_pending_at v' q1 = db_pending_at X q1" unfolding v'_def by (rule pending_kept [OF p(1) X(3)])
  with o1 bs(2) shard_of_lt obtain q2 where t2: "two_wait waiting v' (unat (shard_for_part part)) ?args q1 Teid_free_reply_cb
       (unat (v_port_db_shard_of rkey)) [''SETEX'', rkey, dec 10, chars_of_bytes bs] q2 Store_ack_cb"
    by (rule queued_behind)
  have sp: "script_part w' = script_part w"
    using finish_script_frame [of D hi t V_PFCP_CAUSE_REQUEST_ACCEPTED X, folded v'_def] r(3) g
    by (simp add: w' evalsha_put_def sess_put_def script_part_def X_def r(1))
  have tx: "tx_msgs elems w' = tx_msgs elems v'" by (simp add: w' sess_put_def evalsha_put_def tx_msgs_def)
  have tw: "two_wait waiting w' (unat (shard_for_part part)) ?args q1 Teid_free_reply_cb
       (unat (v_port_db_shard_of rkey)) [''SETEX'', rkey, dec 10, chars_of_bytes bs] q2 Store_ack_cb"
    using t2 unfolding two_wait_def w' evalsha_put_def sess_put_def by simp
  have dx: "tx_msgs elems X = tx_msgs elems w" "g_tx_ring X = g_tx_ring w" "accepts elems usable free ring bs X = accepts elems usable free ring bs w"
      "t_peer (txn_at X t) = t_peer (txn_at w t)" "ctx_at X (t_ctx (txn_at X t)) = C" for ring
    using disp_frame(2,3) [of X w] x(3) by (simp_all add: X_def r(1))
  show ?thesis by (rule that [OF r(6) _ tw _ r(7) sp]) (use bs(1,3) in \<open>simp_all only: tx dx\<close>)
qed

lemma record_removed:
  assumes srv: "server_laws serve call view sha" and db: "sess_wf (view db) k" "sess_rec (view db) k = Some (n, d, ttl)"
  shows "\<exists>db'. answers serve db [''EVALSHA'', sha V_SCRIPT_SESS_DELETE, dec 1, k, dec n] (Reply_Integer 1, db') \<and>
    view db' k = None \<and> (\<forall>k'. k' \<noteq> k \<longrightarrow> view db' k' = view db k')"
proof -
  define res where "res = V_LUA_SESS_DELETE call [k] [dec n] db"
  note s = delete_script [OF server_lawsD(1) [OF srv] db(1), where expected = n, folded res_def]
  have "res = (Reply_Integer 1, snd res)" "sess_rec (view (snd res)) k = None" "sess_wf (view (snd res)) k"
    "k' \<noteq> k \<Longrightarrow> view (snd res) k' = view db k'" for k' using s db(2) by (simp_all add: prod_eq_iff)
  moreover from this(3,2) have "view (snd res) k = None" by (cases rule: sess_wf_cases) auto
  ultimately show ?thesis using server_lawsD(4) [OF srv, of db k "[dec n]", folded res_def] by metis
qed

text \<open>The free list of a partition: no key, or a list.\<close>

definition list_at :: "keyspace \<Rightarrow> string \<Rightarrow> string list option" where
  "list_at ks k = (case ks k of None \<Rightarrow> Some [] | Some (RList l, _) \<Rightarrow> Some l | _ \<Rightarrow> None)"

lemma id_given_back:
  assumes srv: "server_laws serve call view sha" and db: "list_at (view db) k = Some ids"
  shows "\<exists>r db'. answers serve db [''RPUSH'', k, x] (r, db') \<and> reply_ok (Some r) \<and> list_at (view db') k = Some (ids @ [x]) \<and>
    (\<forall>k'. k' \<noteq> k \<longrightarrow> view db' k' = view db k')"
proof -
  obtain n ks where s: "redis_spec (view db) [''RPUSH'', k, x] = Some (Reply_Integer n, ks)" "list_at ks k = Some (ids @ [x])" "\<And>k'. k' \<noteq> k \<Longrightarrow> ks k' = view db k'"
    using db by (auto simp: list_at_def redis_RPUSH_def split: option.splits prod.splits rval.splits)
  with server_lawsD(1) [OF srv] obtain db' where "call db [''RPUSH'', k, x] = (Reply_Integer n, db')" "view db' = ks" by - (rule redis_conformsD)
  with server_lawsD(2) [OF srv, of db "[''RPUSH'', k, x]"] s show ?thesis by (intro exI [of _ "Reply_Integer n"] exI [of _ db']) auto
qed

lemma free_list_key: "teid_free_key part \<noteq> make_key part' seid" "teid_free_key part \<noteq> retrans_key part' f seq"
  by (simp_all add: teid_free_key_def snprintf_def make_key_exact retrans_key_exact)

subsection \<open>Property\<close>

text \<open>
  C4: a deletion is committed. An idle pod that gets a deletion request for a session whose record is
  in the database, no answer to which is cached, with a data plane that accepts and a server that
  answers, exchanges five commands with the server. Then the record is gone, the local part of the
  session's TEID is at the end of the free list of its partition, the answer is in the retransmission
  cache, and nothing else in the database has changed; exactly one answer, cause accepted, with the
  sequence number of the request and the SEID of the session, the bytes that are cached, is queued for
  the peer; transaction and context are released and the pod is ready for the next request.
\<close>

theorem deletion_committed:
  fixes w :: "('r, 'p, 'h, 'a) flow_st_scheme"
  assumes l: "hiredis_laws hi waiting" "hiredis_accepts hi" "next_reply_laws nr waiting" and srv: "server_laws serve call view sha"
    and ready: "pod_ready D free waiting U sha w" and disp: "disp_inv D elems usable free A H w"
      "pool_set free (g_msg_pool w) \<noteq> {}" "has_room elems usable (g_tx_ring w)" and vdp: "next_result w = V_VDP_ACCEPT"
    and m: "m = request_of msg" "sizeof_wire_req \<le> length (take (msg_len msg) (msg_buf msg))" "pm_type m = V_PFCP_MSG_SESSION_DEL_REQ"
    and part: "v_seid_validate (pm_seid m) = Some part"
    and rkey: "rkey = retrans_key (v_retrans_part (pm_smf_fseid m)) (pm_smf_fseid m) (pm_seq m)" "view db rkey = None"
    and key: "key = make_key part (pm_seid m)" "sess_wf (view db) key" "sess_rec (view db) key = Some (n, chars_of_bytes (ctx_bytes C), ttl)"
    and C: "stored_ctx C" "n < 2 ^ 64" and ids: "list_at (view db) (teid_free_key part) = Some ids"
    and step: "step = pump D nr serve (db_call D hi now)"
    and s: "r = unat (v_port_db_shard_of rkey)" "s = unat (v_port_db_shard_of key)" "p = unat (shard_for_part part)"
  shows "\<exists>db' w' bs. step r (step p (step s (step s (step r (db, v_flow_handle_msg D hi msg w))))) = (db', w') \<and>
    view db' key = None \<and> list_at (view db') (teid_free_key part) = Some (ids @ [dec (unat (v_teid_local (ctx_teid C)))]) \<and>
    view db' rkey = Some (RStr (chars_of_bytes bs), Some 10) \<and>
    (\<forall>k. k \<noteq> key \<and> k \<noteq> rkey \<and> k \<noteq> teid_free_key part \<longrightarrow> view db' k = view db k) \<and>
    tx_msgs elems w' = tx_msgs elems w @ [(bs, msg_peer msg)] \<and> answer_to m V_PFCP_CAUSE_REQUEST_ACCEPTED (ctx_seid C) bs \<and>
    live w' = {} \<and> pod_ready D free waiting U sha w'"
proof -
  note pl = pod_readyD(1) [OF ready]
  let ?id = "dec (unat (v_teid_local (ctx_teid C)))"
  have fl: "flow_of m = Some (Del_retrans_lookup_cb, \<lambda>x. x\<lparr>t_part_id := part, t_seid := pm_seid m\<rparr>)" "reading_flow Del_retrans_lookup_cb Del_read_cb"
    using m(3) part
    by (simp_all add: flow_of_def reading_flow_def V_PFCP_MSG_SESSION_DEL_REQ_def V_PFCP_MSG_SESSION_MOD_REQ_def V_PFCP_MSG_SESSION_EST_REQ_def)
  obtain db1 t c u q w2 where w2: "step r (db, v_flow_handle_msg D hi msg w) = (db1, w2)" "view db1 = view db"
    "one_waits waiting w2 s [''HMGET'', key, ''data'', ''ver''] q (Read_reply_cb u)"
    "sess_pending_at w2 u = Sess_read (Del_read_cb t) c" "t_part_id (txn_at w2 t) = part" "t_seid (txn_at w2 t) = pm_seid m" "t_ctx (txn_at w2 t) = c"
    "t_peer (txn_at w2 t) = msg_peer msg" "pfcp_at w2 (t_req (txn_at w2 t)) = m" "c \<noteq> 0"
    "pool_set free (g_db_pool w2) \<noteq> {}" "stock D free V_SESS_PENDING_POOL_CAP (g_sess_pool w2) \<noteq> {}" "pool_set free (g_evalsha_pool w2) \<noteq> {}"
    "acct D free waiting U {#} w2" "steady (w\<lparr>pfcp_at := pfcp_at w2\<rparr>) w2"
    using l srv ready m(1,2) fl rkey part key(1) unfolding step s by (rule session_looked_up [where now = now]) blast
  have db1: "sess_wf (view db1) key" "sess_rec (view db1) key = Some (n, chars_of_bytes (ctx_bytes C), ttl)"
    and k2: "key = make_key (t_part_id (txn_at w2 t)) (t_seid (txn_at w2 t))" "script_part w2 = script_part w"
    using key w2(2,5,6) steady_script [OF w2(15)] by (simp_all add: script_part_def)
  have v2: "next_result w2 = V_VDP_ACCEPT" using w2(15) vdp by (simp add: steady_def next_result_def split: if_splits)
  obtain db2 u' e x w3 where w3: "step s (db1, w2) = (db2, w3)" "view db2 = view db1"
    "one_waits waiting w3 s [''EVALSHA'', sha V_SCRIPT_SESS_DELETE, dec 1, key, dec n] x (Evalsha_reply_cb e)"
    "ev_user_cb (evalsha_at w3 e) = Some (Delete_reply_cb u')" "sess_pending_at w3 u' = Sess_cas (Del_delete_cb t) (of_nat n)"
    "txn_at w3 t = (txn_at w2 t)\<lparr>t_db_ver := of_nat n, t_state := TXN_ST_DB_WRITE_WAIT\<rparr>" "ctx_at w3 c = C" "acct D free waiting U {#} w3" "steady w2 w3"
    using l srv pl w2(11,13,12,3,14,4) v2 db1 C k2 ready unfolding step s by (rule deletion_sent [where now = now])
  have d3: "disp_inv D elems usable free A H w3" "tx_msgs elems w3 = tx_msgs elems w" "accepts elems usable free (g_tx_ring w3) bs w3 = (length bs \<le> V_DISPATCH_MSG_MAX_BYTES)"
    "length (g_scratch w3) = V_STUB_DB_REPLY_SCRATCH_CAP" "script_part w3 = script_part w" for bs
    using w2(15) w3(9) disp disp_frame [of w3 w] pod_readyD(4) [OF ready] k2(2) steady_script [OF w3(9)] by (simp_all add: steady_def accepts_def)
  have x3: "t_ctx (txn_at w3 t) \<noteq> 0" "part = t_part_id (txn_at w3 t)" "C = ctx_at w3 (t_ctx (txn_at w3 t))" "m = pfcp_at w3 (t_req (txn_at w3 t))"
      "t_peer (txn_at w3 t) = msg_peer msg"
    using w3(6,7,9) w2(5,7-10) by (simp_all add: steady_def)
  obtain db3 where db3: "answers serve db2 [''EVALSHA'', sha V_SCRIPT_SESS_DELETE, dec 1, key, dec n] (Reply_Integer 1, db3)"
    "view db3 key = None" "\<And>k. k \<noteq> key \<Longrightarrow> view db3 k = view db k"
    using record_removed [OF srv, of db2 key n _ ttl] db1 w3(2) w2(2) by auto
  obtain w4 bs q1 q2 where w4: "step s (db2, w3) = (db3, w4)" "answer_to m V_PFCP_CAUSE_REQUEST_ACCEPTED (ctx_seid C) bs"
    "two_wait waiting w4 p [''RPUSH'', teid_free_key part, ?id] q1 Teid_free_reply_cb r [''SETEX'', rkey, dec 10, chars_of_bytes bs] q2 Store_ack_cb"
    "tx_msgs elems w4 = (if accepts elems usable free (g_tx_ring w3) bs w3 then tx_msgs elems w3 @ [(bs, t_peer (txn_at w3 t))] else tx_msgs elems w3)"
    "acct D free waiting U {#} w4" "script_part w4 = script_part w3"
    using l pl pod_readyD(17) [OF ready] d3(1) w3(3,8) d3(4) db3(1) w3(4,5) x3(1-4) rkey(1) unfolding step s by (rule deleted_answered [where now = now])
  have g4: "length (g_scratch w4) = V_STUB_DB_REPLY_SCRATCH_CAP" using w4(6) d3(4) by (simp add: script_part_def)
  have "list_at (view db3) (teid_free_key part) = Some ids" using ids db3(3) free_list_key(1) key(1) by (simp add: list_at_def)
  from id_given_back [OF srv this, of ?id] obtain rp db4 where db4: "answers serve db3 [''RPUSH'', teid_free_key part, ?id] (rp, db4)" "reply_ok (Some rp)"
    "list_at (view db4) (teid_free_key part) = Some (ids @ [?id])" "\<And>k. k \<noteq> teid_free_key part \<Longrightarrow> view db4 k = view db3 k" by blast
  obtain w5 where w5: "step p (db3, w4) = (db4, w5)" "one_waits waiting w5 r [''SETEX'', rkey, dec 10, chars_of_bytes bs] q2 Store_ack_cb"
    "acct D free waiting U {#} w5" "script_part w5 = script_part w4" "tx_msgs elems w5 = tx_msgs elems w4"
    using l(1,3) w4(5,3) g4 db4(1,2) unfolding step by (rule first_of_two [where now = now])
  have sp: "script_part w5 = script_part w" using w5(4) w4(6) d3(5) by simp
  obtain db' w' where w': "step r (db4, w5) = (db', w')" "view db' = (view db4)(rkey \<mapsto> (RStr (chars_of_bytes bs), Some 10))"
    "pod_ready D free waiting U sha w'" "tx_msgs elems w' = tx_msgs elems w5"
    using l(1,3) srv w5(2,3) ready sp unfolding step by (rule answer_cached [where now = now])
  have ne: "key \<noteq> rkey" "teid_free_key part \<noteq> key" "teid_free_key part \<noteq> rkey"
    unfolding key(1) rkey(1) by (rule session_key_not_cached free_list_key)+
  have "list_at (view db') (teid_free_key part) = Some (ids @ [?id])" "view db' key = None"
    using db4(3,4) w'(2) ne db3(2) by (simp_all add: list_at_def)
  then show ?thesis
    using w' w5(1,5) w4(1,2,4) w2(1) w3(1) db3(3) db4(4) x3(5) d3(2,3) pod_readyD(10) [OF w'(3)]
    by (intro exI [of _ db'] exI [of _ w'] exI [of _ bs]) (simp add: V_DISPATCH_MSG_MAX_BYTES_def answer_to_def)
qed

subsection \<open>An instance\<close>

theorem deletion_committed_witness:
  "\<exists>db' w' bs r s p. list_step r (list_step p (list_step s (list_step s (list_step r
       (session_db, v_flow_handle_msg list_dpdk list_hiredis (session_request V_PFCP_MSG_SESSION_DEL_REQ) ready_pod))))) = (db', w') \<and>
     db' (make_key 3 0x1000C00000000005) = None \<and> list_at db' (teid_free_key 3) = Some [dec (unat (v_teid_local (ctx_teid session_ctx)))] \<and>
     tx_msgs snd w' = [(bs, zero_sockaddr)] \<and>
     answer_to (request_of (session_request V_PFCP_MSG_SESSION_DEL_REQ)) V_PFCP_CAUSE_REQUEST_ACCEPTED 0x1000C00000000005 bs"
proof -
  have c: "ctx_seid session_ctx = 0x1000C00000000005" by (simp add: session_ctx_def)
  have ids: "list_at session_db (teid_free_key 3) = Some []" using free_list_key(1) [of 3 3 "0x1000C00000000005"] by (simp add: list_at_def session_db_def)
  have n: "(4 :: nat) < 2 ^ 64" by simp
  from deletion_committed [OF list_hiredis_laws list_hiredis_accepts list_reader_laws keyspace_server_laws ready_pod_ready ready_pod_disp(1-4)
      refl session_request_ok(1,2) session_request_ok(4) refl session_db_ok(1) refl session_db_ok(2,3) session_ctx_stored n ids list_step_def refl refl refl]
  show ?thesis unfolding ready_pod_disp(5) append_Nil session_request_ok(3,5) c by blast
qed

end
