(* ===== verification/V_log.thy ===== *)
theory V_log
  imports Prelude
begin

section \<open>Logging\<close>

text \<open>
  \<^verbatim>\<open>src/v_log\<close>: the minimum level and the lines written to the standard error stream. A level is
  the number behind \<^verbatim>\<open>v_log_level_t\<close>, so that the default branch of \<^verbatim>\<open>level_str\<close> can be taken.
  The caller's message is the result of formatting its arguments; the clock is an argument. No
  other module reads this state, so their calls of \<^verbatim>\<open>V_LOG\<close> are left out of their models.
\<close>

type_synonym v_log_level = nat

definition V_LOG_DEV :: v_log_level where "V_LOG_DEV = 0"
definition V_LOG_DEBUG :: v_log_level where "V_LOG_DEBUG = 1"
definition V_LOG_INFO :: v_log_level where "V_LOG_INFO = 2"
definition V_LOG_WARNING :: v_log_level where "V_LOG_WARNING = 3"
definition V_LOG_ERR :: v_log_level where "V_LOG_ERR = 4"
definition V_LOG_CRIT :: v_log_level where "V_LOG_CRIT = 5"

lemmas log_levels = V_LOG_DEV_def V_LOG_DEBUG_def V_LOG_INFO_def V_LOG_WARNING_def V_LOG_ERR_def V_LOG_CRIT_def

record log_st =
  g_min_level :: v_log_level
  stderr_out :: string

definition log_init :: log_st where
  "log_init = \<lparr>g_min_level = V_LOG_INFO, stderr_out = []\<rparr>"

definition level_str :: "v_log_level \<Rightarrow> string" where
  "level_str level =
     (if level = V_LOG_DEV then ''DEV''
      else if level = V_LOG_DEBUG then ''DEBUG''
      else if level = V_LOG_INFO then ''INFO''
      else if level = V_LOG_WARNING then ''WARNING''
      else if level = V_LOG_ERR then ''ERR''
      else if level = V_LOG_CRIT then ''CRIT''
      else ''?'')"

definition v_log_set_min_level :: "v_log_level \<Rightarrow> log_st \<Rightarrow> log_st" where
  "v_log_set_min_level level l = l\<lparr>g_min_level := level\<rparr>"

text \<open>The conversions of the format string: \<^verbatim>\<open>%ld\<close>, \<^verbatim>\<open>%03ld\<close> (for a value that is not negative), \<^verbatim>\<open>%-Ns\<close>.\<close>

definition fmt_ld :: "int \<Rightarrow> string" where
  "fmt_ld i = (if i < 0 then CHR ''-'' # dec (nat (- i)) else dec (nat i))"

definition fmt_03ld :: "nat \<Rightarrow> string" where
  "fmt_03ld n = replicate (3 - length (dec n)) (CHR ''0'') @ dec n"

definition fmt_left :: "nat \<Rightarrow> string \<Rightarrow> string" where
  "fmt_left n s = s @ replicate (n - length s) (CHR '' '')"

definition log_prefix :: "int \<Rightarrow> nat \<Rightarrow> v_log_level \<Rightarrow> string \<Rightarrow> string \<Rightarrow> int \<Rightarrow> string" where
  "log_prefix sec nsec level module file line =
     ''['' @ fmt_ld sec @ ''.'' @ fmt_03ld (nsec div 1000000) @ ''] '' @ fmt_left 7 (level_str level) @ '' '' @
     fmt_left 5 module @ '' '' @ file @ '':'' @ fmt_ld line @ '': ''"

definition v_log_write ::
    "int \<Rightarrow> nat \<Rightarrow> v_log_level \<Rightarrow> string \<Rightarrow> string \<Rightarrow> int \<Rightarrow> string \<Rightarrow> log_st \<Rightarrow> log_st" where
  "v_log_write sec nsec level module file line msg l =
     (if level < g_min_level l then l
      else l\<lparr>stderr_out := stderr_out l @ log_prefix sec nsec level module file line @ msg @ [CHR 0x0A]\<rparr>)"

subsection \<open>The columns of a line\<close>

lemma fmt_03ld_length: "n < 1000 \<Longrightarrow> length (fmt_03ld n) = 3"
  using length_dec [of n 3] by (simp add: fmt_03ld_def)

lemma level_str_length: "length (level_str level) \<le> 7"
  by (simp add: level_str_def)

text \<open>
  The time stamp, the level and a module name of at most five characters take the same columns
  in every line: what follows starts at a column that depends on the digits of the seconds only.
\<close>

lemma log_columns:
  assumes "nsec < 1000000000" and "length module \<le> 5"
  shows "length (log_prefix sec nsec level module file line) =
    length (fmt_ld sec) + 24 + length file + length (fmt_ld line)"
proof -
  have "nsec div 1000000 < 1000" using assms(1) by simp
  then show ?thesis using assms(2) level_str_length [of level]
    by (simp add: log_prefix_def fmt_left_def fmt_03ld_length)
qed

text \<open>Default level: a debug message disappears, an error becomes one line.\<close>

lemma log_default:
  "stderr_out (v_log_write s ns V_LOG_DEBUG m f n msg log_init) = []"
  "stderr_out (v_log_write 1 2000000 V_LOG_ERR ''DPDB'' ''a.c'' 7 ''x'' log_init) =
     ''[1.002] ERR     DPDB  a.c:7: x'' @ [CHR 0x0A]"
proof -
  show "stderr_out (v_log_write s ns V_LOG_DEBUG m f n msg log_init) = []"
    by (simp add: v_log_write_def log_init_def log_levels)
  show "stderr_out (v_log_write 1 2000000 V_LOG_ERR ''DPDB'' ''a.c'' 7 ''x'' log_init) =
     ''[1.002] ERR     DPDB  a.c:7: x'' @ [CHR 0x0A]"
  proof -
    have d: "dec (Suc 0) = ''1''" "dec 2 = ''2''" "dec 7 = ''7''" by (simp_all add: dec_small digit_def char_of_def bit_0)
    have n: "nat 1 = Suc 0" "(2000000 :: nat) div 1000000 = 2" by simp_all
    show ?thesis unfolding v_log_write_def log_prefix_def fmt_ld_def fmt_03ld_def fmt_left_def log_init_def
      by (simp add: level_str_def log_levels d n) (simp add: numeral_eq_Suc)
  qed
qed

text \<open>Raising the minimum level never makes a message appear.\<close>

lemma log_level_monotone:
  assumes "a \<le> b"
  shows "length (stderr_out (v_log_write s ns level m f n msg (v_log_set_min_level b l))) \<le>
    length (stderr_out (v_log_write s ns level m f n msg (v_log_set_min_level a l)))"
  using assms by (simp add: v_log_write_def v_log_set_min_level_def)

end
