(* ===== verification/Spec2Isabelle.thy ===== *)
theory Spec2Isabelle
  imports Closing Types Timeout Key_space Teid_refill Call_depth Retransmission Modification Deletion V_log
begin

section \<open>The vpe development\<close>

text \<open>
  \<^bold>\<open>The program.\<close> vpe is a PFCP endpoint for the user plane function of a 5G core. Several
  identical pods serve the same sessions; no pod keeps session state of its own, every session
  record is in one of five Redis shards and every change of it is a compare-and-swap on its
  version. Received datagrams go into a ring; worker cores take requests from it and send the
  first database command of each; the main core runs the event loop, in which every reply
  continues its request with the next command, with the call of the data plane (VDP) or with the
  answer, and sends the datagrams of the second ring. All memory comes from fixed pools of DPDK;
  an object on its way through the program is held by an \<^verbatim>\<open>arg\<close> pointer of a callback that waits
  for a reply.

  \<^bold>\<open>Components.\<close> One theory models one module, in the order of the calls; its state is a record
  that extends the record of the modules it calls, its operations are functions from state to
  state with the names of the C functions, static variables and pools are fields with the names
  of the variables, and a struct in a pool is a field from pointers to records (\<open>ctx_at\<close>,
  \<open>pfcp_at\<close>, \<open>txn_at\<close>, ...). Paths are relative to \<^verbatim>\<open>src/\<close>.

  \<^item> \<open>Prelude\<close>, \<open>Le_bytes\<close>, \<open>Ports\<close>, \<open>Dpdk\<close>: integer types and return codes, decimal conversions,
    little-endian images of structs, the reply type of \<^verbatim>\<open>include/v_port_db.h\<close>, the commands of
    Redis, rings and pools.
  \<^item> \<open>V_log\<close>: \<^verbatim>\<open>src/v_log\<close>. \<open>V_seid\<close>: \<^verbatim>\<open>src/v_seid\<close>. \<open>V_dispatch\<close>: \<^verbatim>\<open>src/v_dispatch\<close>.
  \<^item> \<open>V_stub_db\<close>, with the server's end of a connection in \<open>Event_loop\<close>: \<^verbatim>\<open>stubs/v_stub_db\<close>.
  \<^item> \<open>V_db_lua_scripts\<close>, \<open>V_db_script\<close>: the Lua scripts and \<^verbatim>\<open>src/v_db_script\<close>.
  \<^item> \<open>V_id_alloc\<close>: \<^verbatim>\<open>src/v_id_alloc\<close>. \<open>V_stub_mem\<close>: \<^verbatim>\<open>stubs/v_stub_mem\<close>. \<open>V_stub_pfcp\<close>:
    \<^verbatim>\<open>stubs/v_stub_pfcp\<close>. \<open>V_stub_txn\<close>: \<^verbatim>\<open>stubs/v_stub_txn\<close> behind \<^verbatim>\<open>include/v_port_txn.h\<close>.
  \<^item> \<open>V_sess_store\<close>, \<open>V_retrans_cache\<close>, \<open>V_node_state\<close>: the modules of the same names under \<^verbatim>\<open>src/\<close>.
  \<^item> \<open>V_flow\<close>: \<^verbatim>\<open>src/v_flow\<close> and \<^verbatim>\<open>stubs/v_stub_vdp\<close>. \<open>V_txn\<close>: \<^verbatim>\<open>src/v_txn\<close>, and the table of all
    callbacks. \<open>V_main\<close>: \<^verbatim>\<open>main.c\<close>.

  \<^bold>\<open>Callbacks.\<close> A C function pointer with its argument is a value of a datatype with one
  constructor per function of the program; \<open>db_call\<close> of \<open>V_txn\<close> maps the value to the function.
  A module that calls a pointer takes that map as an argument, so the modules do not depend on
  their clients. The map is defined by recursion on a nesting depth, which is 3 in \<open>db_call\<close>;
  \<open>Call_depth\<close> proves that every greater depth gives the same function, so the bound restricts
  nothing. Every other recursion of the model is structural or has its termination proof.

  \<^bold>\<open>Parameters.\<close> Code outside the repository is an argument of the definitions. What the theorems
  assume of it is named and stands for documented behaviour: \<open>ring_laws\<close> and \<open>pool_laws\<close> (DPDK
  rings and mempools, record \<open>dpdk\<close>), \<open>hiredis_laws\<close>, \<open>close_laws\<close> and \<open>next_reply_laws\<close> (hiredis:
  commands queue up on a connection, replies come back in order with the private data of their
  commands, freeing a connection calls the callbacks that still wait with NULL), \<open>redis_conforms\<close>
  (a server that answers the commands the program sends as documented), \<open>script_laws\<close> (SCRIPT LOAD
  and EVALSHA), \<open>server_laws\<close> (such a server, with the session scripts loaded, behind hiredis). The environment variables, the clock and the results of system calls are \<open>env\<close>.
  Each theorem that uses such a law has a witness on concrete functions that satisfy it.

  \<^bold>\<open>Interfaces.\<close> \<open>Object_pool\<close> states the contract of an allocator as the locales \<open>object_pool\<close> and
  \<open>full_pool\<close>; contexts, decoded messages and transactions interpret them. \<open>V_dispatch\<close> states a
  bounded queue that may drop as \<open>lossy_channel\<close> and interprets it for both rings.
  \<open>V_db_lua_scripts\<close> states \<open>versioned_record\<close>, a record with compare-and-swap whose concurrent
  updates are serializable, and interprets it for the session scripts.

  \<^bold>\<open>What is proved.\<close>
  \<^item> \<^emph>\<open>Ownership.\<close> \<open>Calls\<close>, \<open>Ownership\<close>, \<open>Ownership_ops\<close>, \<open>Flow_ownership\<close> and \<open>Worker\<close> define an
    account of every pooled object (free, or owned by exactly one waiting command) and show that
    it is an invariant of the step relation \<open>worker_step\<close>: datagrams in and out, polls, replies of
    any kind, lost replies, connections that come up and go away. Every live transaction thus
    has exactly one command that will continue it, and a worker for which nothing waits holds
    nothing. Pools created on first use may be absent. \<open>Startup\<close> extends this to the whole life of
    a pod from zeroed memory, \<open>Closing\<close> to forced reconnects and the shutdown of the port.
    \<open>Timeout\<close> shows where the argument ends: a hard timeout destroys a transaction whose command
    still waits.
  \<^item> \<^emph>\<open>Sessions.\<close> The scripts refine an abstract versioned record and are serializable; a write
    followed by a read gives back the context; a conflict is retried a bounded number of times; an
    SEID the system cannot have issued is rejected without a command (\<open>V_db_lua_scripts\<close>,
    \<open>V_sess_store\<close>, \<open>Flow_props\<close>).
  \<^item> \<^emph>\<open>Requests from end to end.\<close> \<open>Exchange\<close> gives the exact state after a command is sent and after
    its reply has run, for a pod with one command on the way; \<open>Request\<close> starts a request on an idle
    pod (\<open>pod_ready\<close>) and gives its first exchange and its answer; \<open>Establishment\<close>, \<open>Modification\<close>
    and \<open>Deletion\<close> (with \<open>Session_read\<close>) follow the three flows from the datagram over all their
    exchanges to the final database, the one answer, and a pod that is ready again;
    \<open>Retransmission\<close> shows that a repeated request changes nothing. Each of the four theorems ends
    in a state in which \<open>pod_ready\<close> holds again.
  \<^item> \<^emph>\<open>Identifiers.\<close> Encodings round-trip and validation is characterised exactly (\<open>V_seid\<close>); no
    SEID is handed out twice in any interleaving of any number of pods that lease, lose replies
    and restart (\<open>Id_cluster\<close>, step relation \<open>cluster_step\<close>); freed TEIDs are leased again as
    themselves (\<open>Teid_refill\<close>).
  \<^item> \<^emph>\<open>Messages.\<close> Dispatch loses and duplicates no message object and keeps the order; requests
    decode to what was encoded; the answer to a retransmission is the stored one, byte for byte.
  \<^item> \<^emph>\<open>Database port.\<close> Every command is heard of exactly once, also when the connection is lost;
    a script the server has forgotten is loaded and the call repeated.
  \<^item> \<^emph>\<open>Node state.\<close> The first recovery time stamp stays; associations round-trip; no two modules
    share a key of the database (\<open>Key_space\<close>).
  \<^item> \<^emph>\<open>Types.\<close> Every fixed array keeps its length along every run, so no copy overruns (\<open>Types\<close>).

  \<^bold>\<open>Choices.\<close> Machine integers are words of their C width. A reply of the server is any value of
  its type, not only what Redis would send, except where \<open>redis_conforms\<close> is assumed. A poll of a
  worker, the delivery of a reply and the drain of the transmit ring are one step each; the steps
  of several cores interleave and do not overlap.

  \<^bold>\<open>Not modelled.\<close> The calls of \<^verbatim>\<open>V_LOG\<close> inside the modules: no module reads what they write. The
  overlap of two steps on different cores: the code takes no lock around the connections, the
  transaction table and the reply arena that the worker cores and the main core share, so what
  the theorems say of a pod holds for executions in which such steps do not overlap. The test suite \<^verbatim>\<open>test/\<close>, the build files and the documents.
\<close>

end
